(* ===== verification/Rd_Prelude.thy ===== *)
theory Rd_Prelude
  imports Main "HOL-Library.Word" "HOL-Library.Code_Target_Nat"
begin

text \<open>
  Shared vocabulary of the development: the machine integers of the Rust sources, results,
  the string operations of \<^verbatim>\<open>std\<close> that several components call, and the generic lemmas on
  lists, maps and runs that the component theories use.

  Integers. A Rust \<open>u64\<close>, \<open>u32\<close> or \<open>usize\<close> is a natural number; where the source adds, subtracts
  or multiplies without a guard the release build wraps, and the operation is written with
  \<open>wadd64\<close>, \<open>wsub64\<close>, \<open>wmul64\<close> (\<open>mod 2 ^ 64\<close>). \<open>saturating_sub\<close> is the truncating subtraction of
  \<open>nat\<close>. An \<open>i64\<close> is an \<open>int\<close>.

  Strings. A Rust \<open>str\<close> is the list of its bytes (\<open>string\<close>); case mapping and white space are
  those of the ASCII range.
\<close>

section \<open>Collections of facts\<close>

named_theorems wrap_simps \<open>unfolding of the wrapping machine operations\<close>
named_theorems str_simps \<open>unfolding of the string operations\<close>

section \<open>Machine integers\<close>

type_synonym u64 = nat
type_synonym u32 = nat
type_synonym usize = nat
type_synonym i64 = int
type_synonym byte = "8 word"

definition u64_bound :: nat where
  "u64_bound = 2 ^ 64"

definition u32_max :: nat where
  "u32_max = 2 ^ 32 - 1"

definition wadd64 :: "u64 \<Rightarrow> u64 \<Rightarrow> u64" where
  "wadd64 a b = (a + b) mod u64_bound"

definition wmul64 :: "u64 \<Rightarrow> u64 \<Rightarrow> u64" where
  "wmul64 a b = (a * b) mod u64_bound"

definition wsub64 :: "u64 \<Rightarrow> u64 \<Rightarrow> u64" where
  "wsub64 a b = (a + (u64_bound - b mod u64_bound)) mod u64_bound"

definition sat_add64 :: "u64 \<Rightarrow> u64 \<Rightarrow> u64" where
  "sat_add64 a b = min (a + b) (u64_bound - 1)"

definition sat_mul64 :: "u64 \<Rightarrow> u64 \<Rightarrow> u64" where
  "sat_mul64 a b = min (a * b) (u64_bound - 1)"

text \<open>The casts between \<open>u64\<close> and \<open>i64\<close> (\<open>as i64\<close>, \<open>as u64\<close>): two's complement.\<close>

definition u64_to_i64 :: "u64 \<Rightarrow> i64" where
  "u64_to_i64 n = (if n < 2 ^ 63 then int n else int n - 2 ^ 64)"

definition i64_to_u64 :: "i64 \<Rightarrow> u64" where
  "i64_to_u64 i = nat (i mod 2 ^ 64)"

text \<open>The wrapping of an \<open>i64\<close> computation.\<close>

definition wrap_i64 :: "int \<Rightarrow> i64" where
  "wrap_i64 i = u64_to_i64 (i64_to_u64 i)"

lemma wrap_i64_exact [wrap_simps]:
  assumes "- (2 ^ 63) \<le> i" and "i < 2 ^ 63"
  shows "wrap_i64 i = i"
proof (cases "0 \<le> i")
  case True
  with assms show ?thesis
    by (simp add: wrap_i64_def i64_to_u64_def u64_to_i64_def nat_less_iff)
next
  case False
  have "i mod 2 ^ 64 = (i + 2 ^ 64) mod 2 ^ 64" by simp
  also have "\<dots> = i + 2 ^ 64" by (rule mod_pos_pos_trivial) (use assms False in auto)
  finally show ?thesis
    using assms False by (simp add: wrap_i64_def i64_to_u64_def u64_to_i64_def nat_less_iff)
qed

lemma u64_bound_pos [simp]: "0 < u64_bound"
  by (simp add: u64_bound_def)

lemma wadd64_less [simp]: "wadd64 a b < u64_bound"
  by (simp add: wadd64_def)

lemma wmul64_less [simp]: "wmul64 a b < u64_bound"
  by (simp add: wmul64_def)

lemma wadd64_exact [wrap_simps]: "a + b < u64_bound \<Longrightarrow> wadd64 a b = a + b"
  by (simp add: wadd64_def)

lemma wmul64_exact [wrap_simps]: "a * b < u64_bound \<Longrightarrow> wmul64 a b = a * b"
  by (simp add: wmul64_def)

lemma wsub64_exact [wrap_simps]:
  assumes "b \<le> a" and "a < u64_bound"
  shows "wsub64 a b = a - b"
proof -
  have "b < u64_bound" using assms by simp
  then have eq: "a + (u64_bound - b mod u64_bound) = (a - b) + u64_bound" using assms by simp
  have "wsub64 a b = (a - b) mod u64_bound"
    unfolding wsub64_def eq by (rule mod_add_self2)
  also have "\<dots> = a - b" using assms by simp
  finally show ?thesis .
qed

lemma i64_to_u64_to_i64: "n < u64_bound \<Longrightarrow> i64_to_u64 (u64_to_i64 n) = n"
proof -
  assume n: "n < u64_bound"
  have "(int n - 2 ^ 64) mod 2 ^ 64 = int n mod 2 ^ 64"
    by (metis minus_mod_self2)
  with n show ?thesis
    by (auto simp: i64_to_u64_def u64_to_i64_def u64_bound_def nat_mod_distrib)
qed

lemma u64_to_i64_nonneg: "n < 2 ^ 63 \<Longrightarrow> u64_to_i64 n = int n"
  by (simp add: u64_to_i64_def)

lemma unat_byte_less: "unat (b :: byte) < 256"
proof -
  have "unat b < 2 ^ LENGTH(8)" by (rule unsigned_less)
  then show ?thesis by simp
qed

section \<open>Invariants of deterministic state machines\<close>

text \<open>
  Most components are a state and a set of operations on it. The contract below says that every
  operation keeps an invariant; a client may then assume it after any sequence of operations.
\<close>

locale invariant_machine =
  fixes step :: "'e \<Rightarrow> 's \<Rightarrow> 's"
    and inv :: "'s \<Rightarrow> bool"
  assumes step_inv: "inv s \<Longrightarrow> inv (step e s)"
begin

lemma run_inv: "inv s \<Longrightarrow> inv (fold step es s)"
  by (induction es arbitrary: s) (auto simp: step_inv)

lemma run_append_inv: "inv s \<Longrightarrow> inv (fold step ds (fold step es s))"
  by (simp add: run_inv)

end

text \<open>The same with a guard: the environment only does what the guard admits.\<close>

fun guarded_run :: "('e \<Rightarrow> 's \<Rightarrow> bool) \<Rightarrow> ('e \<Rightarrow> 's \<Rightarrow> 's) \<Rightarrow> 'e list \<Rightarrow> 's \<Rightarrow> bool" where
  "guarded_run guard step [] s = True"
| "guarded_run guard step (e # es) s = (guard e s \<and> guarded_run guard step es (step e s))"

locale guarded_machine =
  fixes step :: "'e \<Rightarrow> 's \<Rightarrow> 's"
    and guard :: "'e \<Rightarrow> 's \<Rightarrow> bool"
    and inv :: "'s \<Rightarrow> bool"
  assumes guarded_step: "guard e s \<Longrightarrow> inv s \<Longrightarrow> inv (step e s)"
begin

lemma guarded_run_inv: "guarded_run guard step es s \<Longrightarrow> inv s \<Longrightarrow> inv (fold step es s)"
  by (induction es arbitrary: s) (auto intro: guarded_step)

end

lemma guarded_run_true [simp]: "guarded_run (\<lambda>_ _. True) step es s"
  by (induction es arbitrary: s) auto

sublocale invariant_machine \<subseteq> unguarded: guarded_machine step "\<lambda>_ _. True" inv
  by unfold_locales (rule step_inv)

section \<open>Keyed stores\<close>

text \<open>
  The contract that the caches and tables of the program share: what a lookup returns after a
  store or a removal.
\<close>

locale keyed_store =
  fixes get :: "'s \<Rightarrow> 'k \<Rightarrow> 'v option"
    and put :: "'k \<Rightarrow> 'v \<Rightarrow> 's \<Rightarrow> 's"
    and del :: "'k \<Rightarrow> 's \<Rightarrow> 's"
  assumes get_put: "get (put k v s) j = (if j = k then Some v else get s j)"
    and get_del: "get (del k s) j = (if j = k then None else get s j)"
begin

lemma get_put_same: "get (put k v s) k = Some v"
  by (simp add: get_put)

lemma get_put_other: "j \<noteq> k \<Longrightarrow> get (put k v s) j = get s j"
  by (simp add: get_put)

lemma get_del_same: "get (del k s) k = None"
  by (simp add: get_del)

lemma put_put_same: "get (put k v (put k w s)) = get (put k v s)"
  by (rule ext) (simp add: get_put)

lemma del_put_same: "get (del k (put k v s)) = get (del k s)"
  by (rule ext) (simp add: get_put get_del)

lemma get_fold_put_notin:
  "j \<notin> fst ` set kvs \<Longrightarrow> get (fold (\<lambda>(k, v). put k v) kvs s) j = get s j"
  by (induction kvs arbitrary: s) (auto simp: get_put)

lemma get_fold_del:
  "get (fold del ks s) j = (if j \<in> set ks then None else get s j)"
  by (induction ks arbitrary: s) (auto simp: get_del)

end

end
