(* ===== verification/Rd_Strings.thy ===== *)
theory Rd_Strings
  imports Rd_Prelude
begin

text \<open>
  The \<open>str\<close> operations of Rust's standard library that the sources call: trimming, ASCII case
  mapping, prefix, suffix and substring tests, splitting, and decimal parsing and printing of
  integers. Strings are byte strings; on ASCII text the operations are those of the library.
\<close>

section \<open>Characters\<close>

definition is_ascii_digit :: "char \<Rightarrow> bool" where
  "is_ascii_digit c = (48 \<le> (of_char c :: nat) \<and> of_char c \<le> (57 :: nat))"

definition is_ascii_upper :: "char \<Rightarrow> bool" where
  "is_ascii_upper c = (65 \<le> (of_char c :: nat) \<and> of_char c \<le> (90 :: nat))"

definition is_ascii_lower :: "char \<Rightarrow> bool" where
  "is_ascii_lower c = (97 \<le> (of_char c :: nat) \<and> of_char c \<le> (122 :: nat))"

definition is_ascii_alpha :: "char \<Rightarrow> bool" where
  "is_ascii_alpha c = (is_ascii_upper c \<or> is_ascii_lower c)"

definition is_ascii_alnum :: "char \<Rightarrow> bool" where
  "is_ascii_alnum c = (is_ascii_alpha c \<or> is_ascii_digit c)"

definition is_space :: "char \<Rightarrow> bool" where
  "is_space c = (of_char c = (32 :: nat) \<or> (9 \<le> (of_char c :: nat) \<and> of_char c \<le> (13 :: nat)))"

definition to_lower :: "char \<Rightarrow> char" where
  "to_lower c = (if is_ascii_upper c then char_of ((of_char c :: nat) + 32) else c)"

definition to_upper :: "char \<Rightarrow> char" where
  "to_upper c = (if is_ascii_lower c then char_of ((of_char c :: nat) - 32) else c)"

lemmas char_class_defs [str_simps] =
  is_ascii_digit_def is_ascii_upper_def is_ascii_lower_def is_ascii_alpha_def is_ascii_alnum_def
  is_space_def to_lower_def to_upper_def

section \<open>Strings\<close>

definition str_trim :: "string \<Rightarrow> string" where
  "str_trim s = rev (dropWhile is_space (rev (dropWhile is_space s)))"

definition str_lower :: "string \<Rightarrow> string" where
  "str_lower s = map to_lower s"

definition str_upper :: "string \<Rightarrow> string" where
  "str_upper s = map to_upper s"

definition starts_with :: "string \<Rightarrow> string \<Rightarrow> bool" where
  "starts_with s p = (take (length p) s = p)"

definition ends_with :: "string \<Rightarrow> string \<Rightarrow> bool" where
  "ends_with s p = (length p \<le> length s \<and> drop (length s - length p) s = p)"

fun str_contains :: "string \<Rightarrow> string \<Rightarrow> bool" where
  "str_contains [] p = (p = [])"
| "str_contains (c # s) p = (starts_with (c # s) p \<or> str_contains s p)"

text \<open>\<open>trim_end_matches(c)\<close> and \<open>trim_start_matches(c)\<close>.\<close>

definition trim_end_char :: "char \<Rightarrow> string \<Rightarrow> string" where
  "trim_end_char c s = rev (dropWhile (\<lambda>x. x = c) (rev s))"

definition trim_start_char :: "char \<Rightarrow> string \<Rightarrow> string" where
  "trim_start_char c s = dropWhile (\<lambda>x. x = c) s"

text \<open>\<open>split(c)\<close>: always at least one piece.\<close>

fun str_split :: "char \<Rightarrow> string \<Rightarrow> string list" where
  "str_split c [] = [[]]"
| "str_split c (x # xs) =
     (if x = c then [] # str_split c xs
      else (case str_split c xs of [] \<Rightarrow> [[x]] | w # ws \<Rightarrow> (x # w) # ws))"

fun str_join :: "char \<Rightarrow> string list \<Rightarrow> string" where
  "str_join c [] = []"
| "str_join c [w] = w"
| "str_join c (w # v # ws) = w @ [c] @ str_join c (v # ws)"

text \<open>The split at the first alphabetic character that the size and age parsers make.\<close>

definition split_at_alpha :: "string \<Rightarrow> string \<times> string" where
  "split_at_alpha s =
     (takeWhile (\<lambda>c. \<not> is_ascii_alpha c) s, dropWhile (\<lambda>c. \<not> is_ascii_alpha c) s)"

section \<open>Decimal numbers\<close>

definition digit_val :: "char \<Rightarrow> nat" where
  "digit_val c = of_char c - 48"

definition digits_val :: "string \<Rightarrow> nat" where
  "digits_val s = fold (\<lambda>c acc. 10 * acc + digit_val c) s 0"

text \<open>\<open>str::parse::<u64>\<close>: an optional plus sign, one digit at least, no overflow.\<close>

definition parse_u64 :: "string \<Rightarrow> u64 option" where
  "parse_u64 s =
     (let ds = (case s of c # cs \<Rightarrow> if c = CHR ''+'' then cs else s | [] \<Rightarrow> [])
      in if ds = [] \<or> \<not> list_all is_ascii_digit ds then None
         else if digits_val ds < u64_bound then Some (digits_val ds) else None)"

text \<open>\<open>str::parse::<i64>\<close>.\<close>

definition parse_i64 :: "string \<Rightarrow> i64 option" where
  "parse_i64 s =
     (let neg = (case s of c # _ \<Rightarrow> c = CHR ''-'' | [] \<Rightarrow> False);
          ds = (case s of c # cs \<Rightarrow> if c = CHR ''+'' \<or> c = CHR ''-'' then cs else s | [] \<Rightarrow> [])
      in if ds = [] \<or> \<not> list_all is_ascii_digit ds then None
         else if neg then (if digits_val ds \<le> 2 ^ 63 then Some (- int (digits_val ds)) else None)
         else (if digits_val ds < 2 ^ 63 then Some (int (digits_val ds)) else None))"

fun show_nat :: "nat \<Rightarrow> string" where
  "show_nat n =
     (if n < 10 then [char_of (48 + n)] else show_nat (n div 10) @ [char_of (48 + n mod 10)])"

declare show_nat.simps [simp del]

definition show_int :: "int \<Rightarrow> string" where
  "show_int i = (if i < 0 then CHR ''-'' # show_nat (nat (- i)) else show_nat (nat i))"

section \<open>Lemmas\<close>

lemma str_split_ne [simp]: "str_split c s \<noteq> []"
  by (induction s) (auto split: list.splits)

lemma str_split_no_sep: "w \<in> set (str_split c s) \<Longrightarrow> c \<notin> set w"
proof (induction s arbitrary: w)
  case (Cons x s)
  then show ?case
    by (cases "str_split c s") (auto split: if_splits)
qed simp

lemma str_join_split: "str_join c (str_split c s) = s"
proof (induction s)
  case (Cons x s)
  obtain w ws where ws: "str_split c s = w # ws" by (cases "str_split c s") auto
  with Cons show ?case by (cases ws) auto
qed simp

lemma str_split_noc: "c \<notin> set s \<Longrightarrow> str_split c s = [s]"
  by (induction s) auto

lemma str_split_append: "str_split c (s @ [c] @ t) = str_split c s @ str_split c t"
proof (induction s)
  case (Cons x s)
  then show ?case by (cases "str_split c s") auto
qed simp

lemma starts_with_append [simp]: "starts_with (p @ s) p"
  by (simp add: starts_with_def)

lemma ends_with_append [simp]: "ends_with (s @ p) p"
  by (simp add: ends_with_def)

lemma ends_with_iff: "ends_with s p \<longleftrightarrow> (\<exists>q. s = q @ p)"
  by (metis append_take_drop_id ends_with_append ends_with_def)

lemma starts_with_iff: "starts_with s p \<longleftrightarrow> (\<exists>q. s = p @ q)"
  by (metis append_take_drop_id starts_with_append starts_with_def)

lemma str_contains_iff: "str_contains s p \<longleftrightarrow> (\<exists>a b. s = a @ p @ b)"
proof (induction s)
  case (Cons c s)
  show ?case
  proof
    assume "str_contains (c # s) p"
    then consider "starts_with (c # s) p" | "str_contains s p" by auto
    then show "\<exists>a b. c # s = a @ p @ b"
    proof cases
      case 1
      then show ?thesis by (metis append_Nil starts_with_iff)
    next
      case 2
      with Cons show ?thesis by (metis append_Cons)
    qed
  next
    assume "\<exists>a b. c # s = a @ p @ b"
    then obtain a b where eq: "c # s = a @ p @ b" by blast
    then show "str_contains (c # s) p"
    proof (cases a)
      case Nil
      with eq have "starts_with (c # s) p" by (auto simp: starts_with_iff)
      then show ?thesis by simp
    next
      case (Cons x a')
      with eq Cons.IH show ?thesis by auto
    qed
  qed
qed auto

lemma split_at_alpha_append: "fst (split_at_alpha s) @ snd (split_at_alpha s) = s"
  by (simp add: split_at_alpha_def)

lemma of_char_char_of_digit: "d < 10 \<Longrightarrow> of_char (char_of (48 + d) :: char) = 48 + (d :: nat)"
  by (simp add: of_char_of)

lemma digit_char: "d < 10 \<Longrightarrow> is_ascii_digit (char_of (48 + d)) \<and> digit_val (char_of (48 + d)) = d"
  by (simp add: is_ascii_digit_def digit_val_def of_char_char_of_digit)

lemma digits_val_snoc: "digits_val (s @ [c]) = 10 * digits_val s + digit_val c"
  by (simp add: digits_val_def)

lemma show_nat_digits: "list_all is_ascii_digit (show_nat n) \<and> show_nat n \<noteq> []"
proof (induction n rule: show_nat.induct)
  case (1 n)
  then show ?case
    by (cases "n < 10") (auto simp: show_nat.simps [of n] digit_char)
qed

lemma digits_val_show_nat: "digits_val (show_nat n) = n"
proof (induction n rule: show_nat.induct)
  case (1 n)
  show ?case
  proof (cases "n < 10")
    case True
    then show ?thesis
      by (simp add: show_nat.simps [of n] digits_val_def digit_char)
  next
    case False
    then show ?thesis
      using "1" by (simp add: show_nat.simps [of n] digits_val_snoc digit_char)
  qed
qed

lemma is_digit_not_sign: "is_ascii_digit c \<Longrightarrow> c \<noteq> CHR ''+'' \<and> c \<noteq> CHR ''-''"
  by (auto simp: is_ascii_digit_def)

lemma show_nat_cases:
  obtains c cs where "show_nat n = c # cs" and "c \<noteq> CHR ''+''" and "c \<noteq> CHR ''-''"
  using show_nat_digits [of n] is_digit_not_sign by (cases "show_nat n") auto

lemma parse_u64_show: "n < u64_bound \<Longrightarrow> parse_u64 (show_nat n) = Some n"
  using show_nat_digits [of n] digits_val_show_nat [of n]
  by (cases rule: show_nat_cases [of n]) (simp add: parse_u64_def)

lemma parse_i64_show:
  assumes "- (2 ^ 63) \<le> i" and "i < 2 ^ 63"
  shows "parse_i64 (show_int i) = Some i"
proof (cases "i < 0")
  case True
  with assms have "nat (- i) \<le> 2 ^ 63" by (simp add: nat_le_iff)
  with True show ?thesis
    using show_nat_digits [of "nat (- i)"]
    by (simp add: parse_i64_def show_int_def digits_val_show_nat)
next
  case False
  with assms have "nat i < 2 ^ 63" by (simp add: nat_less_iff)
  with False show ?thesis
    using show_nat_digits [of "nat i"] digits_val_show_nat [of "nat i"]
    by (cases rule: show_nat_cases [of "nat i"]) (simp add: parse_i64_def show_int_def)
qed

lemma show_nat_inj: "show_nat m = show_nat n \<Longrightarrow> m = n"
  by (metis digits_val_show_nat)

end
