(* ===== verification/Rd_Types.thy ===== *)
theory Rd_Types
  imports Rd_Strings
begin

text \<open>
  The records of the Real-Debrid API that the program keeps (\<^verbatim>\<open>src/src/rd/types.rs\<close>) and the part of
  \<open>std::path::Path\<close> it reads file names with. A time stamp is its Unix time in seconds. The
  deserialisers (\<open>serde\<close>, \<open>chrono\<close>, the time zone database) are not under \<^verbatim>\<open>src/\<close>; the records are
  their results.
\<close>

section \<open>Records\<close>

record torrent =
  t_id :: string
  t_name :: string
  t_hash :: string
  t_progress :: nat
  t_status :: string
  t_links :: "string list"
  t_added :: i64

record rd_file =
  f_id :: int
  f_path :: string
  f_bytes :: i64
  f_selected :: int

definition is_selected :: "rd_file \<Rightarrow> bool" where
  "is_selected f = (f_selected f = 1)"

record torrent_info =
  ti_id :: string
  ti_name :: string
  ti_hash :: string
  ti_progress :: nat
  ti_status :: string
  ti_added :: i64
  ti_ended :: "i64 option"
  ti_bytes :: i64
  ti_links :: "string list"
  ti_original_name :: string
  ti_original_bytes :: i64
  ti_files :: "rd_file list"

record download =
  dl_filename :: string
  dl_filesize :: i64
  dl_link :: string
  dl_download :: string
  dl_streamable :: int
  dl_generated_at :: "i64 option"
  dl_token :: string

record user =
  u_id :: i64
  u_username :: string
  u_email :: string
  u_account_type :: string
  u_premium :: i64

definition is_premium :: "user \<Rightarrow> bool" where
  "is_premium u = (u_account_type u = ''premium'' \<and> 0 < u_premium u)"

record active_count =
  ac_downloading_count :: usize
  ac_max_number_of_torrents :: usize

section \<open>Paths\<close>

text \<open>\<open>Path::file_name\<close>: the last component, empty components and dots apart; a path that ends in
  two dots has none.\<close>

definition path_components :: "string \<Rightarrow> string list" where
  "path_components p = filter (\<lambda>c. c \<noteq> [] \<and> c \<noteq> ''.'') (str_split (CHR ''/'') p)"

definition path_file_name :: "string \<Rightarrow> string option" where
  "path_file_name p =
     (let cs = path_components p
      in if cs = [] \<or> last cs = ''..'' then None else Some (last cs))"

text \<open>\<open>Path::extension\<close>: what follows the last dot of the file name, unless nothing precedes it.\<close>

definition name_extension :: "string \<Rightarrow> string option" where
  "name_extension n =
     (let before = rev (tl (dropWhile (\<lambda>c. c \<noteq> CHR ''.'') (rev n)));
          after = rev (takeWhile (\<lambda>c. c \<noteq> CHR ''.'') (rev n))
      in if CHR ''.'' \<notin> set n \<or> before = [] then None else Some after)"

definition path_extension :: "string \<Rightarrow> string option" where
  "path_extension p = Option.bind (path_file_name p) name_extension"

definition download_extension :: "download \<Rightarrow> string option" where
  "download_extension d = path_extension (dl_download d)"

section \<open>Lemmas\<close>

lemma path_file_name_no_slash: "path_file_name p = Some n \<Longrightarrow> CHR ''/'' \<notin> set n \<and> n \<noteq> [] \<and> n \<noteq> ''.'' \<and> n \<noteq> ''..''"
proof -
  assume a: "path_file_name p = Some n"
  then have ne: "path_components p \<noteq> []" and n: "n = last (path_components p)" and dd: "n \<noteq> ''..''"
    by (auto simp: path_file_name_def Let_def split: if_splits)
  from ne n have "n \<in> set (path_components p)" by simp
  then show ?thesis using dd by (auto simp: path_components_def dest: str_split_no_sep)
qed

lemma name_extension_no_dot: "name_extension n = Some e \<Longrightarrow> CHR ''.'' \<notin> set e"
  by (auto simp: name_extension_def Let_def split: if_splits dest: set_takeWhileD)

lemma name_extension_suffix: "name_extension n = Some e \<Longrightarrow> \<exists>b. b \<noteq> [] \<and> n = b @ ''.'' @ e"
proof -
  let ?P = "\<lambda>c. c \<noteq> CHR ''.''"
  assume a: "name_extension n = Some e"
  then have dot: "CHR ''.'' \<in> set n" and e: "e = rev (takeWhile ?P (rev n))"
    and b: "rev (tl (dropWhile ?P (rev n))) \<noteq> []"
    by (auto simp: name_extension_def Let_def split: if_splits)
  from dot have ne: "dropWhile ?P (rev n) \<noteq> []" by auto
  with hd_dropWhile [OF ne] obtain r where r: "dropWhile ?P (rev n) = CHR ''.'' # r"
    by (metis list.exhaust_sel)
  have "rev n = takeWhile ?P (rev n) @ CHR ''.'' # r" by (metis r takeWhile_dropWhile_id)
  then have "rev (rev n) = rev r @ ''.'' @ rev (takeWhile ?P (rev n))"
    by (metis append.assoc rev_append rev_singleton_conv rev.simps(2))
  with e b r show ?thesis by auto
qed

end
