(* ===== verification/State_Db.thy ===== *)
theory State_Db
  imports Rd_Types "HOL-Library.AList"
begin

text \<open>
  The state database (\<^verbatim>\<open>src/src/db/\<close>): torrents, repair jobs and the key/value table \<open>app_meta\<close>.

  A table is the list of its rows in insertion order, keyed by the primary key; an operation is the
  effect of its SQL statement. SQLite, \<open>rusqlite\<close> and \<open>serde_json\<close> are not under \<^verbatim>\<open>src/\<close>: whether
  a statement succeeds is an argument, and the JSON functions are the record \<open>json_lib\<close> with the law
  \<open>json_law\<close> (deserialising what was serialised gives it back).
\<close>

section \<open>Types\<close>

datatype torrent_state = Ok | Broken | UnderRepair

fun state_display :: "torrent_state \<Rightarrow> string" where
  "state_display Ok = ''ok''"
| "state_display Broken = ''broken''"
| "state_display UnderRepair = ''under_repair''"

definition state_from_str :: "string \<Rightarrow> torrent_state option" where
  "state_from_str s =
     (if s = ''ok'' then Some Ok
      else if s = ''broken'' then Some Broken
      else if s = ''under_repair'' then Some UnderRepair
      else None)"

record torrent_row =
  tr_access_key :: string
  tr_rd_ids :: "string list"
  tr_hash :: string
  tr_name :: string
  tr_state :: torrent_state
  tr_unrepairable_reason :: "string option"
  tr_file_states :: "string option"
  tr_last_seen_at :: "i64 option"
  tr_last_repaired_at :: "i64 option"
  tr_under_repair_started_at :: "i64 option"

definition rd_ids_first_or_empty :: "torrent_row \<Rightarrow> string \<Rightarrow> string" where
  "rd_ids_first_or_empty row dflt = (case tr_rd_ids row of [] \<Rightarrow> dflt | i # _ \<Rightarrow> i)"

datatype repair_job_status = JobPending | JobRunning | JobDone | JobFailed

fun job_status_display :: "repair_job_status \<Rightarrow> string" where
  "job_status_display JobPending = ''pending''"
| "job_status_display JobRunning = ''running''"
| "job_status_display JobDone = ''done''"
| "job_status_display JobFailed = ''failed''"

record repair_job_row =
  rj_id :: string
  rj_torrent_key :: string
  rj_strategy :: string
  rj_status :: repair_job_status
  rj_started_at :: "i64 option"
  rj_completed_at :: "i64 option"

section \<open>Serialisation\<close>

type_synonym file_states = "(string \<times> string) list"

record json_lib =
  js_ids_ser :: "string list \<Rightarrow> string"
  js_ids_de :: "string \<Rightarrow> string list option"
  js_fs_ser :: "file_states \<Rightarrow> string option"
  js_fs_de :: "string \<Rightarrow> file_states option"

text \<open>A \<open>HashMap\<close> is compared by its entries, not by their order.\<close>

definition json_law :: "json_lib \<Rightarrow> bool" where
  "json_law J \<longleftrightarrow>
     (\<forall>ids. js_ids_de J (js_ids_ser J ids) = Some ids) \<and>
     (\<forall>m. \<exists>s m'. js_fs_ser J m = Some s \<and> js_fs_de J s = Some m' \<and> map_of m' = map_of m)"

section \<open>Tables\<close>

record sql_torrent =
  sq_rd_ids :: string
  sq_hash :: "string option"
  sq_name :: "string option"
  sq_state :: string
  sq_unrepairable :: "string option"
  sq_file_states :: "string option"
  sq_last_seen_at :: "i64 option"
  sq_last_repaired_at :: "i64 option"
  sq_under_repair_started_at :: "i64 option"

record sql_job =
  sj_torrent_key :: string
  sj_strategy :: string
  sj_status :: string
  sj_started_at :: "i64 option"
  sj_completed_at :: "i64 option"

datatype sql_value = SqlInt int | SqlText string

record meta_table =
  mt_value_type :: string
  mt_rows :: "(string \<times> sql_value) list"

record db =
  db_torrents :: "(string \<times> sql_torrent) list"
  db_repair_jobs :: "(string \<times> sql_job) list"
  db_app_meta :: meta_table

datatype db_error = DbStatement | DbConversion

text \<open>A database file: a table that was never created is missing.\<close>

record db_file =
  dbf_torrents :: "(string \<times> sql_torrent) list option"
  dbf_repair_jobs :: "(string \<times> sql_job) list option"
  dbf_app_meta :: "meta_table option"

text \<open>\<open>CAST(value AS TEXT)\<close>.\<close>

fun cast_text :: "sql_value \<Rightarrow> sql_value" where
  "cast_text (SqlInt i) = SqlText (show_int i)"
| "cast_text (SqlText s) = SqlText s"

definition migrate_app_meta_value_to_text :: "meta_table option \<Rightarrow> meta_table option" where
  "migrate_app_meta_value_to_text tbl =
     (case tbl of
        None \<Rightarrow> None
      | Some m \<Rightarrow>
          if str_lower (mt_value_type m) \<noteq> ''integer'' then Some m
          else Some \<lparr>mt_value_type = ''TEXT'', mt_rows = map (\<lambda>(k, v). (k, cast_text v)) (mt_rows m)\<rparr>)"

text \<open>\<open>init_schema\<close>: the missing tables are created empty, an existing one keeps its rows (a table
  without \<open>under_repair_started_at\<close> gets the column, \<open>NULL\<close> in every row), then \<open>app_meta\<close> is
  migrated.\<close>

definition init_schema :: "db_file \<Rightarrow> db" where
  "init_schema f =
     (let meta = (case dbf_app_meta f of None \<Rightarrow> \<lparr>mt_value_type = ''TEXT'', mt_rows = []\<rparr> | Some m \<Rightarrow> m)
      in \<lparr>db_torrents = (case dbf_torrents f of None \<Rightarrow> [] | Some t \<Rightarrow> t),
          db_repair_jobs = (case dbf_repair_jobs f of None \<Rightarrow> [] | Some t \<Rightarrow> t),
          db_app_meta = (case migrate_app_meta_value_to_text (Some meta) of None \<Rightarrow> meta | Some m \<Rightarrow> m)\<rparr>)"

section \<open>The key/value table\<close>

definition META_LAST_REPAIR_CYCLE_UNIX :: string where
  "META_LAST_REPAIR_CYCLE_UNIX = ''last_repair_cycle_unix''"

definition get_meta_i64 :: "bool \<Rightarrow> string \<Rightarrow> db \<Rightarrow> db_error + i64 option" where
  "get_meta_i64 ok key d =
     (if \<not> ok then Inl DbStatement
      else
        (case map_of (mt_rows (db_app_meta d)) key of
           None \<Rightarrow> Inr None
         | Some (SqlInt _) \<Rightarrow> Inl DbConversion
         | Some (SqlText s) \<Rightarrow>
             (case parse_i64 s of None \<Rightarrow> Inl DbConversion | Some v \<Rightarrow> Inr (Some v))))"

text \<open>A text that is an integer is stored as one in a column of integer affinity.\<close>

definition store_text :: "string \<Rightarrow> string \<Rightarrow> sql_value" where
  "store_text ty s =
     (if str_lower ty = ''integer''
      then (case parse_i64 s of Some i \<Rightarrow> SqlInt i | None \<Rightarrow> SqlText s)
      else SqlText s)"

definition set_meta_i64 :: "bool \<Rightarrow> string \<Rightarrow> i64 \<Rightarrow> db \<Rightarrow> (db_error + unit) \<times> db" where
  "set_meta_i64 ok key v d =
     (if \<not> ok then (Inl DbStatement, d)
      else
        (let m = db_app_meta d;
             cell = store_text (mt_value_type m) (show_int v)
         in (Inr (), d\<lparr>db_app_meta := m\<lparr>mt_rows := AList.update key cell (mt_rows m)\<rparr>\<rparr>)))"

section \<open>Torrents\<close>

definition sql_of_row :: "json_lib \<Rightarrow> torrent_row \<Rightarrow> sql_torrent" where
  "sql_of_row J row =
     \<lparr>sq_rd_ids = js_ids_ser J (tr_rd_ids row),
      sq_hash = Some (tr_hash row),
      sq_name = Some (tr_name row),
      sq_state = state_display (tr_state row),
      sq_unrepairable = tr_unrepairable_reason row,
      sq_file_states = tr_file_states row,
      sq_last_seen_at = tr_last_seen_at row,
      sq_last_repaired_at = tr_last_repaired_at row,
      sq_under_repair_started_at = tr_under_repair_started_at row\<rparr>"

definition upsert_torrent :: "json_lib \<Rightarrow> bool \<Rightarrow> torrent_row \<Rightarrow> db \<Rightarrow> (db_error + unit) \<times> db" where
  "upsert_torrent J ok row d =
     (if \<not> ok then (Inl DbStatement, d)
      else (Inr (), d\<lparr>db_torrents := AList.update (tr_access_key row) (sql_of_row J row) (db_torrents d)\<rparr>))"

text \<open>The statements of the transaction; the first that fails ends it.\<close>

fun batch_rows ::
    "json_lib \<Rightarrow> (torrent_row \<Rightarrow> bool) \<Rightarrow> torrent_row list \<Rightarrow> (string \<times> sql_torrent) list
      \<Rightarrow> (string \<times> sql_torrent) list option" where
  "batch_rows J ok [] t = Some t"
| "batch_rows J ok (row # rows) t =
     (if ok row then batch_rows J ok rows (AList.update (tr_access_key row) (sql_of_row J row) t) else None)"

definition upsert_torrents_batch ::
    "json_lib \<Rightarrow> (torrent_row \<Rightarrow> bool) \<Rightarrow> bool \<Rightarrow> torrent_row list \<Rightarrow> db \<Rightarrow> (db_error + unit) \<times> db" where
  "upsert_torrents_batch J ok commit_ok rows d =
     (case batch_rows J ok rows (db_torrents d) of
        None \<Rightarrow> (Inl DbStatement, d)
      | Some t \<Rightarrow> if commit_ok then (Inr (), d\<lparr>db_torrents := t\<rparr>) else (Inl DbStatement, d))"

text \<open>An unknown state reads as \<open>Ok\<close>, ids that do not parse as none; a \<open>NULL\<close> hash or name is an
  error of the whole query.\<close>

definition row_to_torrent :: "json_lib \<Rightarrow> string \<times> sql_torrent \<Rightarrow> torrent_row option" where
  "row_to_torrent J kr =
     (let (k, r) = kr
      in (case (sq_hash r, sq_name r) of
            (Some h, Some n) \<Rightarrow>
              Some \<lparr>tr_access_key = k,
                    tr_rd_ids = (case js_ids_de J (sq_rd_ids r) of None \<Rightarrow> [] | Some ids \<Rightarrow> ids),
                    tr_hash = h, tr_name = n,
                    tr_state = (case state_from_str (sq_state r) of None \<Rightarrow> Ok | Some s \<Rightarrow> s),
                    tr_unrepairable_reason = sq_unrepairable r,
                    tr_file_states = sq_file_states r,
                    tr_last_seen_at = sq_last_seen_at r,
                    tr_last_repaired_at = sq_last_repaired_at r,
                    tr_under_repair_started_at = sq_under_repair_started_at r\<rparr>
          | _ \<Rightarrow> None))"

fun collect_rows :: "'a option list \<Rightarrow> 'a list option" where
  "collect_rows [] = Some []"
| "collect_rows (None # _) = None"
| "collect_rows (Some x # xs) = map_option ((#) x) (collect_rows xs)"

definition get_all_torrents :: "json_lib \<Rightarrow> bool \<Rightarrow> db \<Rightarrow> db_error + torrent_row list" where
  "get_all_torrents J ok d =
     (if \<not> ok then Inl DbStatement
      else
        (case collect_rows (map (row_to_torrent J) (db_torrents d)) of
           None \<Rightarrow> Inl DbConversion
         | Some rows \<Rightarrow> Inr rows))"

section \<open>Repair jobs\<close>

definition insert_repair_job :: "bool \<Rightarrow> repair_job_row \<Rightarrow> db \<Rightarrow> (db_error + unit) \<times> db" where
  "insert_repair_job ok job d =
     (if \<not> ok then (Inl DbStatement, d)
      else
        (Inr (), d\<lparr>db_repair_jobs := AList.update (rj_id job)
            \<lparr>sj_torrent_key = rj_torrent_key job, sj_strategy = rj_strategy job,
             sj_status = job_status_display (rj_status job), sj_started_at = rj_started_at job,
             sj_completed_at = rj_completed_at job\<rparr> (db_repair_jobs d)\<rparr>))"

definition update_repair_job :: "bool \<Rightarrow> repair_job_row \<Rightarrow> db \<Rightarrow> (db_error + unit) \<times> db" where
  "update_repair_job ok job d =
     (if \<not> ok then (Inl DbStatement, d)
      else
        (Inr (), d\<lparr>db_repair_jobs := map (\<lambda>(i, r).
            (i, if i = rj_id job
                then r\<lparr>sj_strategy := rj_strategy job, sj_status := job_status_display (rj_status job),
                       sj_completed_at := rj_completed_at job\<rparr>
                else r)) (db_repair_jobs d)\<rparr>))"

definition torrents_count :: "db \<Rightarrow> i64" where
  "torrents_count d = int (length (db_torrents d))"

section \<open>Lemmas\<close>

interpretation tbl: keyed_store map_of AList.update AList.delete
  by unfold_locales (auto simp: update_conv delete_conv)

lemma state_from_display [simp]: "state_from_str (state_display s) = Some s"
  by (cases s) (simp_all add: state_from_str_def)

lemma state_display_from_str: "state_from_str x = Some s \<Longrightarrow> state_display s = x"
  by (auto simp: state_from_str_def split: if_splits)

lemma state_from_str_total:
  "(\<exists>s. state_from_str x = Some s) \<longleftrightarrow> x \<in> {''ok'', ''broken'', ''under_repair''}"
  by (auto simp: state_from_str_def)

lemma row_to_torrent_sql: "json_law J \<Longrightarrow> row_to_torrent J (tr_access_key row, sql_of_row J row) = Some row"
  by (simp add: row_to_torrent_def sql_of_row_def json_law_def)

lemma collect_rows_some: "list_all (\<lambda>x. x \<noteq> None) xs \<Longrightarrow> collect_rows xs = Some (map the xs)"
  by (induction xs rule: collect_rows.induct) auto

lemma collect_rows_iff: "collect_rows xs = Some ys \<longleftrightarrow> xs = map Some ys"
proof (induction xs arbitrary: ys rule: collect_rows.induct)
  case (3 x xs)
  then show ?case by (cases ys) auto
qed auto

lemma batch_rows_all: "list_all ok rows \<Longrightarrow>
   batch_rows J ok rows t = Some (fold (\<lambda>(k, v). AList.update k v) (map (\<lambda>r. (tr_access_key r, sql_of_row J r)) rows) t)"
  by (induction rows arbitrary: t) auto

lemma batch_rows_none: "\<not> list_all ok rows \<Longrightarrow> batch_rows J ok rows t = None"
  by (induction rows arbitrary: t) auto

lemma distinct_fold_update:
  "distinct (map fst t) \<Longrightarrow> distinct (map fst (fold (\<lambda>(k, v). AList.update k v) kvs t))"
  by (induction kvs arbitrary: t) (auto simp: distinct_update)

text \<open>The value stored for a key by a batch is that of the last row with the key.\<close>

lemma map_of_fold_update:
  "map_of (fold (\<lambda>(k, v). AList.update k v) kvs t) j =
   (case map_of (rev kvs) j of None \<Rightarrow> map_of t j | Some v \<Rightarrow> Some v)"
  by (induction kvs arbitrary: t) (auto simp: tbl.get_put map_add_def split: option.splits)

text \<open>What a restart reads back for a key.\<close>

definition read_row :: "json_lib \<Rightarrow> db \<Rightarrow> string \<Rightarrow> torrent_row option" where
  "read_row J d k = Option.bind (map_of (db_torrents d) k) (\<lambda>r. row_to_torrent J (k, r))"

lemma row_to_torrent_key: "row_to_torrent J (k, r) = Some row \<Longrightarrow> tr_access_key row = k"
  by (auto simp: row_to_torrent_def split: option.splits)

lemma get_all_torrents_read:
  assumes "get_all_torrents J ok d = Inr rows"
  shows "map_of (map (\<lambda>r. (tr_access_key r, r)) rows) = read_row J d"
proof -
  have "collect_rows (map (row_to_torrent J) (db_torrents d)) = Some rows"
    using assms by (auto simp: get_all_torrents_def split: if_splits option.splits)
  then have eq: "map (row_to_torrent J) (db_torrents d) = map Some rows" by (simp add: collect_rows_iff)
  have "map_of (map (\<lambda>r. (tr_access_key r, r)) rows) k = Option.bind (map_of t k) (\<lambda>r. row_to_torrent J (k, r))"
    if "map (row_to_torrent J) t = map Some rows" for t k
    using that
  proof (induction t arbitrary: rows)
    case (Cons kr t)
    obtain k' r where kr: "kr = (k', r)" by (cases kr)
    from Cons.prems obtain row rows' where rows: "rows = row # rows'" by (cases rows) auto
    with Cons.prems kr have "row_to_torrent J (k', r) = Some row" by simp
    with row_to_torrent_key [OF this] Cons rows kr show ?case by auto
  qed simp
  from this [OF eq] show ?thesis by (auto simp: read_row_def)
qed

section \<open>Properties\<close>

text \<open>A concrete serialisation that satisfies the law: every character is escaped, every string is
  closed by a comma.\<close>

definition demo_enc :: "string \<Rightarrow> string" where
  "demo_enc s = concat (map (\<lambda>c. [CHR ''!'', c]) s) @ '',''"

fun demo_dec :: "string \<Rightarrow> string \<Rightarrow> string list option" where
  "demo_dec acc [] = (if acc = [] then Some [] else None)"
| "demo_dec acc [c] = (if c = CHR '','' then Some [acc] else None)"
| "demo_dec acc (c # d # cs) =
     (if c = CHR '','' then map_option ((#) acc) (demo_dec [] (d # cs)) else demo_dec (acc @ [d]) cs)"

fun demo_pairs :: "string list \<Rightarrow> file_states option" where
  "demo_pairs [] = Some []"
| "demo_pairs (k # v # r) = map_option ((#) (k, v)) (demo_pairs r)"
| "demo_pairs [_] = None"

definition demo_json :: json_lib where
  "demo_json = \<lparr>js_ids_ser = (\<lambda>ids. concat (map demo_enc ids)),
     js_ids_de = demo_dec [],
     js_fs_ser = (\<lambda>m. Some (concat (map demo_enc (concat (map (\<lambda>(k, v). [k, v]) m))))),
     js_fs_de = (\<lambda>s. Option.bind (demo_dec [] s) demo_pairs)\<rparr>"

lemma demo_dec_comma: "demo_dec acc (CHR '','' # r) = map_option ((#) acc) (demo_dec [] r)"
  by (cases r) auto

lemma demo_dec_enc: "demo_dec acc (demo_enc s @ r) = map_option ((#) (acc @ s)) (demo_dec [] r)"
proof (induction s arbitrary: acc)
  case Nil
  then show ?case by (simp add: demo_enc_def demo_dec_comma)
next
  case (Cons c s)
  then show ?case by (simp add: demo_enc_def)
qed

lemma demo_dec_encs: "demo_dec [] (concat (map demo_enc ids)) = Some ids"
  by (induction ids) (simp_all add: demo_dec_enc)

lemma demo_pairs_flat: "demo_pairs (concat (map (\<lambda>(k, v). [k, v]) m)) = Some m"
  by (induction m) auto

lemma demo_json_law: "json_law demo_json"
  by (simp add: json_law_def demo_json_def demo_dec_encs demo_pairs_flat)

lemma map_of_sql_rows:
  "map_of (map (\<lambda>r. (tr_access_key r, sql_of_row J r)) rs) k =
   map_option (sql_of_row J) (map_of (map (\<lambda>r. (tr_access_key r, r)) rs) k)"
  by (induction rs) auto

lemma read_row_batch:
  assumes "json_law J"
  shows "read_row J (d\<lparr>db_torrents := fold (\<lambda>(k, v). AList.update k v)
      (map (\<lambda>r. (tr_access_key r, sql_of_row J r)) rows) (db_torrents d)\<rparr>) k =
    (case map_of (map (\<lambda>r. (tr_access_key r, r)) (rev rows)) k of
       Some r \<Rightarrow> Some r | None \<Rightarrow> read_row J d k)"
proof (cases "map_of (map (\<lambda>r. (tr_access_key r, r)) (rev rows)) k")
  case None
  then have "map_of (rev (map (\<lambda>r. (tr_access_key r, sql_of_row J r)) rows)) k = None"
    by (simp add: rev_map map_of_sql_rows)
  with None show ?thesis by (simp add: read_row_def map_of_fold_update)
next
  case (Some r)
  then have "map_of (rev (map (\<lambda>r. (tr_access_key r, sql_of_row J r)) rows)) k = Some (sql_of_row J r)"
    by (simp add: rev_map map_of_sql_rows)
  moreover from Some have "tr_access_key r = k" by (auto dest: map_of_SomeD)
  ultimately show ?thesis
    using Some row_to_torrent_sql [OF assms, of r] by (simp add: read_row_def map_of_fold_update)
qed

text \<open>A batch of upserts is atomic: it either succeeds, and a restart then reads for every key the
  last row of the batch with that key, or the row it had, or it fails and changes nothing.\<close>

theorem torrents_batch_atomic:
  assumes "json_law J"
  shows "(\<exists>d'. upsert_torrents_batch J ok commit rows d = (Inr (), d') \<and> list_all ok rows \<and> commit \<and>
      db_repair_jobs d' = db_repair_jobs d \<and> db_app_meta d' = db_app_meta d \<and>
      (\<forall>k. read_row J d' k =
        (case map_of (map (\<lambda>r. (tr_access_key r, r)) (rev rows)) k of
           Some r \<Rightarrow> Some r | None \<Rightarrow> read_row J d k))) \<or>
    (upsert_torrents_batch J ok commit rows d = (Inl DbStatement, d) \<and> \<not> (list_all ok rows \<and> commit))"
proof (cases "list_all ok rows \<and> commit")
  case True
  let ?kvs = "map (\<lambda>r. (tr_access_key r, sql_of_row J r)) rows"
  let ?d = "d\<lparr>db_torrents := fold (\<lambda>(k, v). AList.update k v) ?kvs (db_torrents d)\<rparr>"
  have run: "upsert_torrents_batch J ok commit rows d = (Inr (), ?d)"
    using True by (simp add: upsert_torrents_batch_def batch_rows_all)
  note read_row_batch [OF assms, of rows d]
  with run True show ?thesis by auto
next
  case False
  then show ?thesis
    by (auto simp: upsert_torrents_batch_def batch_rows_none batch_rows_all split: option.splits)
qed

definition demo_row :: "string \<Rightarrow> torrent_state \<Rightarrow> torrent_row" where
  "demo_row k s = \<lparr>tr_access_key = k, tr_rd_ids = [''A'', ''B''], tr_hash = ''h'', tr_name = ''n'',
     tr_state = s, tr_unrepairable_reason = None, tr_file_states = None, tr_last_seen_at = Some 7,
     tr_last_repaired_at = None, tr_under_repair_started_at = None\<rparr>"

theorem torrents_batch_atomic_witness:
  "\<exists>d'. upsert_torrents_batch demo_json (\<lambda>_. True) True [demo_row ''h/n'' Broken]
       (init_schema \<lparr>dbf_torrents = None, dbf_repair_jobs = None, dbf_app_meta = None\<rparr>) = (Inr (), d') \<and>
     read_row demo_json d' ''h/n'' = Some (demo_row ''h/n'' Broken)"
proof -
  let ?d = "init_schema \<lparr>dbf_torrents = None, dbf_repair_jobs = None, dbf_app_meta = None\<rparr>"
  have "list_all (\<lambda>_. True) [demo_row ''h/n'' Broken]" by simp
  then obtain d' where "upsert_torrents_batch demo_json (\<lambda>_. True) True [demo_row ''h/n'' Broken] ?d = (Inr (), d')"
    and "\<forall>k. read_row demo_json d' k =
        (case map_of (map (\<lambda>r. (tr_access_key r, r)) (rev [demo_row ''h/n'' Broken])) k of
           Some r \<Rightarrow> Some r | None \<Rightarrow> read_row demo_json ?d k)"
    using torrents_batch_atomic [OF demo_json_law, of "\<lambda>_. True" True "[demo_row ''h/n'' Broken]" ?d] by blast
  then show ?thesis by (simp add: demo_row_def)
qed

lemma migrate_type: "migrate_app_meta_value_to_text (Some m) = Some m' \<Longrightarrow> str_lower (mt_value_type m') \<noteq> ''integer''"
proof -
  have "str_lower ''TEXT'' \<noteq> ''integer''" by code_simp
  then show "migrate_app_meta_value_to_text (Some m) = Some m' \<Longrightarrow> ?thesis"
    by (auto simp: migrate_app_meta_value_to_text_def split: if_splits)
qed

lemma init_schema_meta_text: "str_lower (mt_value_type (db_app_meta (init_schema f))) \<noteq> ''integer''"
proof -
  obtain m where "db_app_meta (init_schema f) =
      (case migrate_app_meta_value_to_text (Some m) of None \<Rightarrow> m | Some m' \<Rightarrow> m')"
    by (simp add: init_schema_def Let_def)
  moreover obtain m' where m': "migrate_app_meta_value_to_text (Some m) = Some m'"
    by (cases "str_lower (mt_value_type m) \<noteq> ''integer''") (auto simp: migrate_app_meta_value_to_text_def)
  ultimately show ?thesis using migrate_type [OF m'] by simp
qed

lemma map_of_cast: "map_of (map (\<lambda>(k, v). (k, cast_text v)) rows) k = map_option cast_text (map_of rows k)"
  by (induction rows) auto

text \<open>After \<open>init_schema\<close> on any database file, a value written with \<open>set_meta_i64\<close> is read back by
  \<open>get_meta_i64\<close> and no other key changes; the values of an \<open>app_meta\<close> table that an older version
  created with an integer column survive the migration, while without the migration such a table
  cannot be read.\<close>

theorem meta_i64_roundtrip:
  assumes "- (2 ^ 63) \<le> v" and "v < 2 ^ 63"
  shows "get_meta_i64 True k (snd (set_meta_i64 True k v (init_schema f))) = Inr (Some v) \<and>
    (k' \<noteq> k \<longrightarrow> get_meta_i64 True k' (snd (set_meta_i64 True k v (init_schema f))) = get_meta_i64 True k' (init_schema f)) \<and>
    (dbf_app_meta f = Some \<lparr>mt_value_type = ''INTEGER'', mt_rows = rows\<rparr> \<and> map_of rows k' = Some (SqlInt v) \<longrightarrow>
       get_meta_i64 True k' (init_schema f) = Inr (Some v)) \<and>
    (str_lower (mt_value_type (db_app_meta d)) = ''integer'' \<longrightarrow>
       get_meta_i64 True k (snd (set_meta_i64 True k v d)) = Inl DbConversion)"
proof -
  note ps = parse_i64_show [OF assms]
  have st: "store_text (mt_value_type (db_app_meta (init_schema f))) s = SqlText s" for s
    by (simp add: store_text_def init_schema_meta_text)
  have 1: "get_meta_i64 True k (snd (set_meta_i64 True k v (init_schema f))) = Inr (Some v)"
    by (simp add: get_meta_i64_def set_meta_i64_def Let_def st tbl.get_put ps)
  have 2: "k' \<noteq> k \<longrightarrow> get_meta_i64 True k' (snd (set_meta_i64 True k v (init_schema f))) = get_meta_i64 True k' (init_schema f)"
    by (simp add: get_meta_i64_def set_meta_i64_def Let_def tbl.get_put)
  have low: "str_lower ''INTEGER'' = ''integer''" by code_simp
  have 3: "dbf_app_meta f = Some \<lparr>mt_value_type = ''INTEGER'', mt_rows = rows\<rparr> \<and> map_of rows k' = Some (SqlInt v) \<longrightarrow>
       get_meta_i64 True k' (init_schema f) = Inr (Some v)"
    by (simp add: get_meta_i64_def init_schema_def migrate_app_meta_value_to_text_def low map_of_cast ps)
  have 4: "str_lower (mt_value_type (db_app_meta d)) = ''integer'' \<longrightarrow>
       get_meta_i64 True k (snd (set_meta_i64 True k v d)) = Inl DbConversion"
    by (simp add: get_meta_i64_def set_meta_i64_def Let_def store_text_def tbl.get_put ps)
  from 1 2 3 4 show ?thesis by blast
qed

theorem meta_i64_roundtrip_witness:
  "get_meta_i64 True META_LAST_REPAIR_CYCLE_UNIX (snd (set_meta_i64 True META_LAST_REPAIR_CYCLE_UNIX 1700000000
     (init_schema \<lparr>dbf_torrents = None, dbf_repair_jobs = None, dbf_app_meta = None\<rparr>))) = Inr (Some 1700000000)"
  using meta_i64_roundtrip [of 1700000000 META_LAST_REPAIR_CYCLE_UNIX
     "\<lparr>dbf_torrents = None, dbf_repair_jobs = None, dbf_app_meta = None\<rparr>"] by simp

end
