(* ===== verification/Rd_Errors.thy ===== *)
theory Rd_Errors
  imports Rd_Strings
begin

text \<open>
  \<^verbatim>\<open>src/rd/client/errors.rs\<close> and \<^verbatim>\<open>src/rd/client/rate_limit.rs\<close>: the error types of the Real-Debrid
  client with their classification, and the backoff delay. A \<open>reqwest::Error\<close> is its message.
\<close>

section \<open>Errors\<close>

datatype api_error =
    ApiRateLimit int string
  | ApiTrafficExhausted string
  | ApiInternal string
  | ApiFairUsageLimit string
  | ApiOther int string

definition from_code :: "int \<Rightarrow> string \<Rightarrow> api_error" where
  "from_code code message =
     (if code = 5 \<or> code = 34 \<or> code = 429 then ApiRateLimit code message
      else if code = 23 then ApiTrafficExhausted message
      else if code = 36 then ApiFairUsageLimit message
      else if code = -1 then ApiInternal message
      else ApiOther code message)"

fun should_retry :: "api_error \<Rightarrow> bool" where
  "should_retry (ApiRateLimit _ _) = True"
| "should_retry (ApiTrafficExhausted _) = True"
| "should_retry (ApiInternal _) = True"
| "should_retry (ApiFairUsageLimit _) = True"
| "should_retry (ApiOther _ _) = False"

fun api_is_bandwidth_limited :: "api_error \<Rightarrow> bool" where
  "api_is_bandwidth_limited (ApiTrafficExhausted _) = True"
| "api_is_bandwidth_limited (ApiFairUsageLimit _) = True"
| "api_is_bandwidth_limited _ = False"

datatype download_error =
    InvalidDownloadCode
  | FailedGeneration
  | TooManyAttempts
  | FileUnavailable
  | BytesLimitReached
  | LinkUnavailable nat
  | ServerError nat
  | DlOther string

definition from_header :: "string \<Rightarrow> nat \<Rightarrow> download_error" where
  "from_header msg status =
     (if msg = ''invalid_download_code'' then InvalidDownloadCode
      else if msg = ''failed_generation'' then FailedGeneration
      else if msg = ''too_many_attempts'' then TooManyAttempts
      else if msg = ''file_unavailable'' then FileUnavailable
      else if msg = ''bytes_limit_reached'' then BytesLimitReached
      else if 500 \<le> status \<and> status \<le> 599 then ServerError status
      else if status = 401 \<or> status = 403 \<or> status = 404 then LinkUnavailable status
      else DlOther msg)"

fun dl_should_refresh_via_unrestrict :: "download_error \<Rightarrow> bool" where
  "dl_should_refresh_via_unrestrict InvalidDownloadCode = True"
| "dl_should_refresh_via_unrestrict FailedGeneration = True"
| "dl_should_refresh_via_unrestrict TooManyAttempts = True"
| "dl_should_refresh_via_unrestrict (LinkUnavailable _) = True"
| "dl_should_refresh_via_unrestrict _ = False"

datatype rd_error =
    RdApi api_error
  | RdDownload download_error
  | RdNetwork string
  | RdCancelled
  | RangeNotSupported
  | MaxRetriesExceeded

fun should_refresh_via_unrestrict :: "rd_error \<Rightarrow> bool" where
  "should_refresh_via_unrestrict (RdDownload d) = dl_should_refresh_via_unrestrict d"
| "should_refresh_via_unrestrict _ = False"

fun is_bandwidth_limited :: "rd_error \<Rightarrow> bool" where
  "is_bandwidth_limited (RdApi e) = api_is_bandwidth_limited e"
| "is_bandwidth_limited (RdDownload BytesLimitReached) = True"
| "is_bandwidth_limited _ = False"

section \<open>Backoff\<close>

text \<open>
  \<open>RateLimiter::new\<close> asserts a positive rate; the period of a tick is a minute divided by the rate,
  in nanoseconds. \<open>wait\<close> only delays.
\<close>

definition rate_limiter_period_ns :: "u32 \<Rightarrow> nat option" where
  "rate_limiter_period_ns rate_per_minute =
     (if rate_per_minute = 0 then None else Some (60 * 10 ^ 9 div rate_per_minute))"

text \<open>
  The delay in seconds. The random fraction is \<open>(ns mod 1000) / 1000\<close> for the nanoseconds \<open>ns\<close> of
  the clock, and the jitter \<open>secs * 0.20 * fraction\<close> is truncated to whole seconds; the product is
  computed exactly here.
\<close>

definition backoff :: "nat \<Rightarrow> u32 \<Rightarrow> u64 \<Rightarrow> nat" where
  "backoff ns attempt base_secs =
     (let secs = min (wmul64 base_secs (2 ^ min attempt 6)) 60;
          jitter = secs * (ns mod 1000) div 5000
      in secs + jitter)"

section \<open>Lemmas\<close>

lemma backoff_bounds: "min (wmul64 base (2 ^ min attempt 6)) 60 \<le> backoff ns attempt base \<and> backoff ns attempt base \<le> 71"
proof -
  let ?s = "min (wmul64 base (2 ^ min attempt 6)) 60"
  have "ns mod 1000 \<le> 999" using mod_less_divisor [of 1000 ns] by linarith
  then have "?s * (ns mod 1000) \<le> 60 * 999" by (intro mult_le_mono) auto
  then have "?s * (ns mod 1000) div 5000 \<le> 11" by (auto simp: div_le_mono dest: div_le_mono [where k = 5000])
  then have "?s + ?s * (ns mod 1000) div 5000 \<le> 60 + 11" by (intro add_mono) auto
  then show ?thesis by (simp add: backoff_def Let_def)
qed

lemma bandwidth_limited_never_refreshed: "is_bandwidth_limited e \<Longrightarrow> \<not> should_refresh_via_unrestrict e"
  by (cases e rule: is_bandwidth_limited.cases) auto

lemma server_errors_never_refreshed:
  "500 \<le> status \<Longrightarrow> status \<le> 599 \<Longrightarrow>
     msg \<notin> {''invalid_download_code'', ''failed_generation'', ''too_many_attempts''} \<Longrightarrow>
     \<not> dl_should_refresh_via_unrestrict (from_header msg status)"
  by (auto simp: from_header_def)

end
