(* ===== verification/Torrent_Types.thy ===== *)
theory Torrent_Types
  imports State_Db Rd_Errors
begin

text \<open>
  What the torrent manager, the repair engine and the filesystem share: the managed torrent
  (\<^verbatim>\<open>src/src/torrent/mod.rs\<close>), the interface of the Real-Debrid service that they call, and the passive
  repair signals (\<^verbatim>\<open>src/src/repair/reasons.rs\<close>, \<^verbatim>\<open>src/src/repair/detect.rs\<close>).

  The service is a parameter: a record of functions over a world of any type, one per call of
  \<^verbatim>\<open>src/src/rd/api\<close> that these components make. A call takes the world to its result and the next
  world, so answers may change from call to call.
\<close>

section \<open>Managed torrents\<close>

record managed_torrent =
  mt_access_key :: string
  mt_rd_ids :: "string list"
  mt_torrent :: torrent
  mt_info :: "torrent_info option"
  mt_state :: torrent_state
  mt_unrepairable_reason :: "string option"
  mt_last_repaired_at :: "i64 option"
  mt_file_states :: "file_states option"
  mt_under_repair_started_at :: "i64 option"

definition mt_files :: "managed_torrent \<Rightarrow> rd_file list" where
  "mt_files m = (case mt_info m of None \<Rightarrow> [] | Some i \<Rightarrow> ti_files i)"

definition selected_files :: "managed_torrent \<Rightarrow> rd_file list" where
  "selected_files m = (case mt_info m of None \<Rightarrow> [] | Some i \<Rightarrow> filter is_selected (ti_files i))"

definition access_key :: "string \<Rightarrow> string \<Rightarrow> string" where
  "access_key h n = h @ ''/'' @ n"

definition library_paths_for :: "managed_torrent \<Rightarrow> string list" where
  "library_paths_for m = [''__all__/'' @ mt_access_key m]"

section \<open>The service\<close>

text \<open>\<open>verify_link\<close> fails with a message; the other calls fail with an \<open>RdError\<close>.\<close>

record 'w rd_api =
  api_unrestrict :: "string \<Rightarrow> 'w \<Rightarrow> (rd_error + download) \<times> 'w"
  api_verify :: "string \<Rightarrow> 'w \<Rightarrow> (string + unit) \<times> 'w"
  api_delete_torrent :: "string \<Rightarrow> 'w \<Rightarrow> (rd_error + unit) \<times> 'w"
  api_add_magnet :: "string \<Rightarrow> 'w \<Rightarrow> (rd_error + string) \<times> 'w"
  api_select_files :: "string \<Rightarrow> string \<Rightarrow> 'w \<Rightarrow> (rd_error + unit) \<times> 'w"
  api_torrent_info :: "string \<Rightarrow> 'w \<Rightarrow> (rd_error + torrent_info) \<times> 'w"
  api_active_count :: "'w \<Rightarrow> (string + active_count) \<times> 'w"

section \<open>Reasons\<close>

definition INFRINGING :: string where "INFRINGING = ''infringing torrent''"

definition UNSUPPORTED :: string where "UNSUPPORTED = ''unsupported torrent''"

definition UNAVAILABLE :: string where "UNAVAILABLE = ''unavailable torrent''"

definition INVALID :: string where "INVALID = ''invalid torrent''"

definition TOO_BIG :: string where "TOO_BIG = ''torrent too big''"

definition NOT_ALLOWED :: string where "NOT_ALLOWED = ''torrent not allowed''"

definition NOT_CACHED :: string where "NOT_CACHED = ''not cached (restricted to cached)''"

definition MISSING_TORRENT_DETAIL :: string where
  "MISSING_TORRENT_DETAIL = ''missing torrent detail (stale or removed rd id)''"

definition from_rd_error_message :: "string \<Rightarrow> string option" where
  "from_rd_error_message msg =
     (let m = str_lower msg
      in if str_contains m ''infringing'' then Some INFRINGING
         else if str_contains m ''unsupported'' then Some UNSUPPORTED
         else if str_contains m ''unavailable'' then Some UNAVAILABLE
         else if str_contains m ''invalid'' \<and> str_contains m ''torrent'' then Some INVALID
         else if str_contains m ''big'' \<or> str_contains m ''too large'' then Some TOO_BIG
         else if str_contains m ''not allowed'' then Some NOT_ALLOWED
         else if str_contains m ''unknown'' \<and> (str_contains m ''resource'' \<or> str_contains m ''ressource'')
              then Some MISSING_TORRENT_DETAIL
         else None)"

section \<open>Passive signals\<close>

definition verify_failed_like_bandwidth :: "string \<Rightarrow> bool" where
  "verify_failed_like_bandwidth e =
     (let m = str_lower e
      in str_contains m ''traffic'' \<or> str_contains m ''bandwidth'' \<or> str_contains m ''fair usage'')"

definition path_looks_playable :: "string \<Rightarrow> bool" where
  "path_looks_playable path =
     (let p = str_lower path
      in ends_with p ''.mkv'' \<or> ends_with p ''.mp4'' \<or> ends_with p ''.avi'' \<or> ends_with p ''.webm''
         \<or> ends_with p ''.m4v'' \<or> ends_with p ''.mpg'' \<or> ends_with p ''.mpeg'' \<or> ends_with p ''.mp3''
         \<or> ends_with p ''.flac'' \<or> ends_with p ''.m4b'' \<or> ends_with p ''.aac'' \<or> ends_with p ''.opus''
         \<or> ends_with p ''.wav'')"

text \<open>\<open>links.get(i)\<close>, empty strings apart.\<close>

definition link_at :: "string list \<Rightarrow> nat \<Rightarrow> string option" where
  "link_at links i = (if i < length links \<and> links ! i \<noteq> [] then Some (links ! i) else None)"

fun unassigned_from :: "string list \<Rightarrow> nat \<Rightarrow> rd_file list \<Rightarrow> nat" where
  "unassigned_from links i [] = 0"
| "unassigned_from links i (f # fs) =
     (if \<not> is_selected f then unassigned_from links i fs
      else (if link_at links i = None then 1 else 0) + unassigned_from links (Suc i) fs)"

definition unassigned_selected_link_count :: "torrent_info \<Rightarrow> usize" where
  "unassigned_selected_link_count info = unassigned_from (ti_links info) 0 (ti_files info)"

definition periodic_repair_eligible :: "managed_torrent \<Rightarrow> bool" where
  "periodic_repair_eligible m =
     (if mt_unrepairable_reason m \<noteq> None then False
      else
        let unassigned = (case mt_info m of None \<Rightarrow> False | Some i \<Rightarrow> 0 < unassigned_selected_link_count i);
            file_broken = (case mt_file_states m of None \<Rightarrow> False
              | Some fs \<Rightarrow> list_ex (\<lambda>(p, s). s = ''broken'' \<and> path_looks_playable p) fs)
        in mt_state m = Broken \<or> mt_state m = UnderRepair \<or> (mt_state m = Ok \<and> (unassigned \<or> file_broken)))"

definition passive_head_probe_slot_count :: "torrent_info \<Rightarrow> usize" where
  "passive_head_probe_slot_count info =
     (let selected = filter is_selected (ti_files info)
      in length (filter (\<lambda>(i, f). path_looks_playable (f_path f) \<and> link_at (ti_links info) i \<noteq> None)
           (zip [0..<length selected] selected)))"

fun head_slots ::
    "'w rd_api \<Rightarrow> string list \<Rightarrow> nat \<Rightarrow> rd_file list \<Rightarrow> nat \<Rightarrow> 'w \<Rightarrow> (rd_error + nat) \<times> 'w" where
  "head_slots api links i [] n w = (Inr n, w)"
| "head_slots api links i (f # fs) n w =
     (if \<not> path_looks_playable (f_path f) then head_slots api links (Suc i) fs n w
      else
        (case link_at links i of
           None \<Rightarrow> head_slots api links (Suc i) fs n w
         | Some link \<Rightarrow>
             (case api_unrestrict api link w of
                (Inr dl, w1) \<Rightarrow>
                  (case api_verify api (dl_download dl) w1 of
                     (Inr _, w2) \<Rightarrow> head_slots api links (Suc i) fs n w2
                   | (Inl e, w2) \<Rightarrow>
                       if verify_failed_like_bandwidth e then (Inl (RdApi (ApiTrafficExhausted e)), w2)
                       else head_slots api links (Suc i) fs (n + 1) w2)
              | (Inl e, w1) \<Rightarrow>
                  if is_bandwidth_limited e then (Inl e, w1)
                  else head_slots api links (Suc i) fs (n + 1) w1)))"

definition check_head_unreachable :: "'w rd_api \<Rightarrow> torrent_info \<Rightarrow> 'w \<Rightarrow> (rd_error + nat) \<times> 'w" where
  "check_head_unreachable api info w = head_slots api (ti_links info) 0 (filter is_selected (ti_files info)) 0 w"

definition duplicate_selected_file_ids :: "torrent_info \<Rightarrow> bool" where
  "duplicate_selected_file_ids info = (\<not> distinct (map f_id (filter is_selected (ti_files info))))"

definition has_non_playable_selected :: "torrent_info \<Rightarrow> bool" where
  "has_non_playable_selected info =
     list_ex (\<lambda>f. \<not> path_looks_playable (f_path f)) (filter is_selected (ti_files info))"

text \<open>
  The list heuristic compares \<open>seconds as f64 / 60.0\<close> with \<open>min_mins as f64\<close>. For both below \<open>2 ^ 40\<close>
  the rounded quotient is at least the integer exactly when the true one is, and the comparison is
  that of the integers.
\<close>

definition is_stalled_download_from_list :: "i64 \<Rightarrow> torrent \<Rightarrow> u64 \<Rightarrow> bool" where
  "is_stalled_download_from_list now t min_mins =
     (if 100 \<le> t_progress t then False else 60 * int min_mins \<le> now - t_added t)"

section \<open>Lemmas\<close>

lemma access_key_inj_hash:
  assumes "CHR ''/'' \<notin> set h" and "CHR ''/'' \<notin> set h'" and "access_key h n = access_key h' n'"
  shows "h = h' \<and> n = n'"
proof -
  have tw: "takeWhile (\<lambda>c. c \<noteq> CHR ''/'') (access_key a b) = a" if "CHR ''/'' \<notin> set a" for a b
  proof -
    have "\<forall>c \<in> set a. c \<noteq> CHR ''/''" using that by auto
    then show ?thesis by (simp add: access_key_def takeWhile_append)
  qed
  have "h = h'" using assms tw by metis
  with assms(3) show ?thesis by (simp add: access_key_def)
qed

lemma unassigned_from_le: "unassigned_from links i fs \<le> length (filter is_selected fs)"
proof (induction fs arbitrary: i)
  case (Cons f fs)
  from Cons.IH [of i] Cons.IH [of "Suc i"] show ?case by auto
qed simp

lemma unassigned_from_zero:
  "unassigned_from links i fs = 0 \<longleftrightarrow> (\<forall>j < length (filter is_selected fs). link_at links (i + j) \<noteq> None)"
proof (induction fs arbitrary: i)
  case (Cons f fs)
  show ?case
  proof (cases "is_selected f")
    case True
    have "(\<forall>j < Suc n. P j) \<longleftrightarrow> P 0 \<and> (\<forall>j < n. P (Suc j))" for n and P :: "nat \<Rightarrow> bool"
      using less_Suc_eq_0_disj by auto
    with Cons.IH [of "Suc i"] True show ?thesis by auto
  qed (simp add: Cons.IH)
qed simp

lemma head_slots_count:
  "head_slots api links i fs n w = (Inr m, w') \<Longrightarrow> n \<le> m \<and> m \<le> n + length fs"
proof (induction fs arbitrary: i n w)
  case (Cons f fs)
  from Cons.prems show ?case
    by (auto split: if_splits option.splits prod.splits sum.splits dest!: Cons.IH)
qed simp

end
