(* ===== verification/Torrent_Manager.thy ===== *)
theory Torrent_Manager
  imports Torrent_Types
begin

text \<open>
  The torrent manager (\<^verbatim>\<open>src/src/torrent/mod.rs\<close>, \<^verbatim>\<open>state_ops.rs\<close>, \<^verbatim>\<open>repair_enqueue.rs\<close>,
  \<^verbatim>\<open>fuse_read_coalesce.rs\<close>): the registry of torrents in memory, its mirror in the state database, the
  repair queue, the state channels that waiting reads subscribe to, and the hook queue.

  A \<open>DashMap\<close> is the list of its entries (its iteration order is not specified; the model's is the
  insertion order). A watch channel is its value and its number of receivers; \<open>Sender::send\<close> of
  \<open>tokio\<close> is the parameter \<open>te_watch_send\<close> with the documented law \<open>watch_law\<close>: without a receiver
  it fails and stores nothing. The clock and the outcome of the database statements are fields of the
  environment.
\<close>

section \<open>State\<close>

record tm_env =
  te_now :: i64
  te_json :: json_lib
  te_stmt_ok :: "torrent_row \<Rightarrow> bool"
  te_commit_ok :: bool
  te_watch_send :: "torrent_state \<Rightarrow> nat \<Rightarrow> torrent_state \<Rightarrow> torrent_state"

definition watch_law :: "(torrent_state \<Rightarrow> nat \<Rightarrow> torrent_state \<Rightarrow> torrent_state) \<Rightarrow> bool" where
  "watch_law send \<longleftrightarrow> (\<forall>v n old. send v n old = (if n = 0 then old else v))"

record watch =
  wc_value :: torrent_state
  wc_receivers :: nat

record manager =
  tm_torrents :: "(string \<times> managed_torrent) list"
  tm_db :: db
  tm_hook :: "string list list"
  tm_notified :: bool
  tm_repair_queue :: "string list"
  tm_fatal_locks :: "(string \<times> string) list"
  tm_repair_state_tx :: "(string \<times> nat) list"
  tm_channels :: "watch list"
  tm_removed :: "string list"

definition get_mt :: "manager \<Rightarrow> string \<Rightarrow> managed_torrent option" where
  "get_mt mgr k = map_of (tm_torrents mgr) k"

definition insert_mt :: "string \<Rightarrow> managed_torrent \<Rightarrow> manager \<Rightarrow> manager" where
  "insert_mt k m mgr = mgr\<lparr>tm_torrents := AList.update k m (tm_torrents mgr)\<rparr>"

definition remove_mt :: "string \<Rightarrow> manager \<Rightarrow> manager" where
  "remove_mt k mgr = mgr\<lparr>tm_torrents := AList.delete k (tm_torrents mgr)\<rparr>"

section \<open>Start-up\<close>

definition loaded_torrent :: "tm_env \<Rightarrow> torrent_row \<Rightarrow> managed_torrent" where
  "loaded_torrent env row =
     \<lparr>mt_access_key = tr_access_key row,
      mt_rd_ids = tr_rd_ids row,
      mt_torrent = \<lparr>t_id = rd_ids_first_or_empty row (tr_access_key row), t_name = tr_name row,
                    t_hash = tr_hash row, t_progress = 100, t_status = ''downloaded'', t_links = [],
                    t_added = te_now env\<rparr>,
      mt_info = None,
      mt_state = tr_state row,
      mt_unrepairable_reason = tr_unrepairable_reason row,
      mt_last_repaired_at = tr_last_repaired_at row,
      mt_file_states = Option.bind (tr_file_states row) (js_fs_de (te_json env)),
      mt_under_repair_started_at = tr_under_repair_started_at row\<rparr>"

definition load_from_db :: "tm_env \<Rightarrow> bool \<Rightarrow> manager \<Rightarrow> db_error + manager" where
  "load_from_db env ok mgr =
     (case get_all_torrents (te_json env) ok (tm_db mgr) of
        Inl e \<Rightarrow> Inl e
      | Inr rows \<Rightarrow>
          Inr (fold (\<lambda>row. insert_mt (tr_access_key row) (loaded_torrent env row)) rows mgr))"

definition manager_new :: "tm_env \<Rightarrow> bool \<Rightarrow> db \<Rightarrow> db_error + manager" where
  "manager_new env ok d =
     load_from_db env ok
       \<lparr>tm_torrents = [], tm_db = d, tm_hook = [], tm_notified = False, tm_repair_queue = [],
        tm_fatal_locks = [], tm_repair_state_tx = [], tm_channels = [], tm_removed = []\<rparr>"

section \<open>Channels and hooks\<close>

definition trigger_library_update :: "string list \<Rightarrow> manager \<Rightarrow> manager" where
  "trigger_library_update paths mgr =
     (if paths = [] then mgr else mgr\<lparr>tm_hook := tm_hook mgr @ [paths]\<rparr>)"

definition channel_send :: "tm_env \<Rightarrow> nat \<Rightarrow> torrent_state \<Rightarrow> manager \<Rightarrow> manager" where
  "channel_send env ch v mgr =
     (if ch < length (tm_channels mgr)
      then let c = tm_channels mgr ! ch
           in mgr\<lparr>tm_channels := (tm_channels mgr)[ch := c\<lparr>wc_value := te_watch_send env v (wc_receivers c) (wc_value c)\<rparr>]\<rparr>
      else mgr)"

text \<open>The channel of a key, created with its first receiver already dropped.\<close>

definition channel_of :: "string \<Rightarrow> torrent_state \<Rightarrow> manager \<Rightarrow> nat \<times> manager" where
  "channel_of key current mgr =
     (case map_of (tm_repair_state_tx mgr) key of
        Some ch \<Rightarrow> (ch, mgr)
      | None \<Rightarrow>
          (length (tm_channels mgr),
           mgr\<lparr>tm_repair_state_tx := AList.update key (length (tm_channels mgr)) (tm_repair_state_tx mgr),
               tm_channels := tm_channels mgr @ [\<lparr>wc_value = current, wc_receivers = 0\<rparr>]\<rparr>))"

text \<open>The result is the channel; a receiver's first \<open>borrow\<close> reads its value.\<close>

definition subscribe_repair_state :: "tm_env \<Rightarrow> string \<Rightarrow> manager \<Rightarrow> nat \<times> manager" where
  "subscribe_repair_state env key mgr =
     (let current = (case get_mt mgr key of None \<Rightarrow> Broken | Some m \<Rightarrow> mt_state m);
          (ch, mgr1) = channel_of key current mgr;
          mgr2 = (case get_mt mgr1 key of None \<Rightarrow> mgr1 | Some m \<Rightarrow> channel_send env ch (mt_state m) mgr1)
      in (ch, if ch < length (tm_channels mgr2)
              then mgr2\<lparr>tm_channels := (tm_channels mgr2)[ch := (tm_channels mgr2 ! ch)
                     \<lparr>wc_receivers := wc_receivers (tm_channels mgr2 ! ch) + 1\<rparr>]\<rparr>
              else mgr2))"

definition receiver_drop :: "nat \<Rightarrow> manager \<Rightarrow> manager" where
  "receiver_drop ch mgr =
     (if ch < length (tm_channels mgr)
      then mgr\<lparr>tm_channels := (tm_channels mgr)[ch := (tm_channels mgr ! ch)
             \<lparr>wc_receivers := wc_receivers (tm_channels mgr ! ch) - 1\<rparr>]\<rparr>
      else mgr)"

definition notify_torrent_removed :: "string \<Rightarrow> manager \<Rightarrow> manager" where
  "notify_torrent_removed key mgr = mgr\<lparr>tm_removed := tm_removed mgr @ [key]\<rparr>"

section \<open>Persistence\<close>

definition torrent_to_row :: "tm_env \<Rightarrow> managed_torrent \<Rightarrow> torrent_row" where
  "torrent_to_row env m =
     \<lparr>tr_access_key = mt_access_key m, tr_rd_ids = mt_rd_ids m, tr_hash = t_hash (mt_torrent m),
      tr_name = t_name (mt_torrent m), tr_state = mt_state m,
      tr_unrepairable_reason = mt_unrepairable_reason m,
      tr_file_states = Option.bind (mt_file_states m) (js_fs_ser (te_json env)),
      tr_last_seen_at = Some (te_now env), tr_last_repaired_at = mt_last_repaired_at m,
      tr_under_repair_started_at = mt_under_repair_started_at m\<rparr>"

definition save_rows :: "tm_env \<Rightarrow> torrent_row list \<Rightarrow> manager \<Rightarrow> (db_error + unit) \<times> manager" where
  "save_rows env rows mgr =
     (let (r, d) = upsert_torrents_batch (te_json env) (te_stmt_ok env) (te_commit_ok env) rows (tm_db mgr)
      in (r, mgr\<lparr>tm_db := d\<rparr>))"

definition persist_torrent_snapshot :: "tm_env \<Rightarrow> managed_torrent \<Rightarrow> manager \<Rightarrow> (db_error + unit) \<times> manager" where
  "persist_torrent_snapshot env m mgr =
     save_rows env [torrent_to_row env m] (insert_mt (mt_access_key m) m mgr)"

definition replace_rd_ids_after_repair ::
    "tm_env \<Rightarrow> string \<Rightarrow> string list \<Rightarrow> manager \<Rightarrow> (db_error + unit) \<times> manager" where
  "replace_rd_ids_after_repair env key ids mgr =
     (case get_mt mgr key of
        None \<Rightarrow> (Inr (), mgr)
      | Some m \<Rightarrow>
          let m1 = m\<lparr>mt_rd_ids := ids, mt_info := None, mt_file_states := None\<rparr>;
              m2 = (case ids of [] \<Rightarrow> m1 | i # _ \<Rightarrow> m1\<lparr>mt_torrent := (mt_torrent m1)\<lparr>t_id := i\<rparr>\<rparr>)
          in persist_torrent_snapshot env m2 mgr)"

definition mark_file_broken :: "tm_env \<Rightarrow> string \<Rightarrow> string \<Rightarrow> manager \<Rightarrow> (db_error + unit) \<times> manager" where
  "mark_file_broken env key fpath mgr =
     (case get_mt mgr key of
        None \<Rightarrow> (Inr (), mgr)
      | Some m \<Rightarrow>
          let fs = AList.update fpath ''broken'' (case mt_file_states m of None \<Rightarrow> [] | Some fs \<Rightarrow> fs);
              m' = m\<lparr>mt_file_states := Some fs\<rparr>
          in save_rows env [torrent_to_row env m'] (insert_mt key m' mgr))"

definition restated :: "tm_env \<Rightarrow> torrent_state \<Rightarrow> string option \<Rightarrow> managed_torrent \<Rightarrow> managed_torrent" where
  "restated env new_state reason m =
     m\<lparr>mt_state := new_state,
       mt_unrepairable_reason := reason,
       mt_last_repaired_at := (if new_state = Ok then Some (te_now env) else mt_last_repaired_at m),
       mt_under_repair_started_at :=
         (if new_state = UnderRepair
          then (if mt_state m = UnderRepair then mt_under_repair_started_at m else Some (te_now env))
          else None)\<rparr>"

definition update_torrent_state ::
    "tm_env \<Rightarrow> string \<Rightarrow> torrent_state \<Rightarrow> string option \<Rightarrow> manager \<Rightarrow> (db_error + unit) \<times> manager" where
  "update_torrent_state env key new_state reason mgr =
     (case get_mt mgr key of
        None \<Rightarrow> (Inr (), mgr)
      | Some m \<Rightarrow>
          let m' = restated env new_state reason m
          in (case save_rows env [torrent_to_row env m'] (insert_mt key m' mgr) of
                (Inl e, mgr1) \<Rightarrow> (Inl e, mgr1)
              | (Inr _, mgr1) \<Rightarrow>
                  let mgr2 = trigger_library_update (library_paths_for m') mgr1
                  in (Inr (), (case map_of (tm_repair_state_tx mgr2) key of
                                 None \<Rightarrow> mgr2 | Some ch \<Rightarrow> channel_send env ch new_state mgr2))))"

section \<open>Torrent details\<close>

text \<open>The two halves of \<open>ensure_torrent_info\<close>, before and after the request.\<close>

datatype ensure_start = EnsureNone | EnsureHave managed_torrent | EnsureFetch managed_torrent string

definition ensure_begin :: "string \<Rightarrow> manager \<Rightarrow> ensure_start" where
  "ensure_begin key mgr =
     (case get_mt mgr key of
        None \<Rightarrow> EnsureNone
      | Some m \<Rightarrow>
          if mt_info m \<noteq> None then EnsureHave m
          else (case mt_rd_ids m of [] \<Rightarrow> EnsureNone | i # _ \<Rightarrow> EnsureFetch m i))"

definition ensure_finish :: "string \<Rightarrow> managed_torrent \<Rightarrow> torrent_info \<Rightarrow> manager \<Rightarrow> managed_torrent \<times> manager" where
  "ensure_finish key m info mgr =
     (case get_mt mgr key of
        Some cur \<Rightarrow> (cur\<lparr>mt_info := Some info\<rparr>, insert_mt key (cur\<lparr>mt_info := Some info\<rparr>) mgr)
      | None \<Rightarrow> (m\<lparr>mt_info := Some info\<rparr>, mgr))"

definition ensure_torrent_info ::
    "'w rd_api \<Rightarrow> string \<Rightarrow> manager \<Rightarrow> 'w \<Rightarrow> managed_torrent option \<times> manager \<times> 'w" where
  "ensure_torrent_info api key mgr w =
     (case ensure_begin key mgr of
        EnsureNone \<Rightarrow> (None, mgr, w)
      | EnsureHave m \<Rightarrow> (Some m, mgr, w)
      | EnsureFetch m i \<Rightarrow>
          (case api_torrent_info api i w of
             (Inl _, w1) \<Rightarrow> (Some m, mgr, w1)
           | (Inr info, w1) \<Rightarrow> let (m', mgr') = ensure_finish key m info mgr in (Some m', mgr', w1)))"

section \<open>The repair queue\<close>

definition push_back :: "string \<Rightarrow> string list \<Rightarrow> string list" where
  "push_back k q = (if k \<in> set q then q else q @ [k])"

definition enqueue_repair :: "string \<Rightarrow> manager \<Rightarrow> manager" where
  "enqueue_repair key mgr = mgr\<lparr>tm_repair_queue := push_back key (tm_repair_queue mgr), tm_notified := True\<rparr>"

record enqueue_options =
  eo_clear_unrepairable :: bool
  eo_all :: bool

definition clear_unrepairable :: "tm_env \<Rightarrow> string \<Rightarrow> manager \<Rightarrow> manager" where
  "clear_unrepairable env k mgr =
     (if (case get_mt mgr k of None \<Rightarrow> False | Some m \<Rightarrow> mt_unrepairable_reason m \<noteq> None)
      then snd (update_torrent_state env k Broken None mgr) else mgr)"

definition enqueue_repair_all :: "tm_env \<Rightarrow> enqueue_options \<Rightarrow> manager \<Rightarrow> manager" where
  "enqueue_repair_all env opts mgr =
     (let keys = map fst (tm_torrents mgr);
          mgr1 = (if eo_clear_unrepairable opts then fold (clear_unrepairable env) keys mgr else mgr);
          wanted = filter (\<lambda>k. eo_all opts \<or>
             (case get_mt mgr1 k of None \<Rightarrow> False | Some m \<Rightarrow> periodic_repair_eligible m)) keys
      in mgr1\<lparr>tm_repair_queue := fold push_back wanted (tm_repair_queue mgr1), tm_notified := True\<rparr>)"

definition enqueue_repair_front :: "tm_env \<Rightarrow> string \<Rightarrow> bool \<Rightarrow> manager \<Rightarrow> manager" where
  "enqueue_repair_front env key clear mgr =
     (let mgr1 = (if clear then snd (update_torrent_state env key Broken None mgr) else mgr)
      in mgr1\<lparr>tm_repair_queue := key # remove1 key (tm_repair_queue mgr1), tm_notified := True\<rparr>)"

definition repair_pending_count :: "manager \<Rightarrow> usize" where
  "repair_pending_count mgr = length (tm_repair_queue mgr)"

definition repair_peek_front :: "manager \<Rightarrow> string option" where
  "repair_peek_front mgr = (case tm_repair_queue mgr of [] \<Rightarrow> None | k # _ \<Rightarrow> Some k)"

section \<open>Coalescing of fatal reads\<close>

definition fuse_begin_fatal_read_repair :: "string \<Rightarrow> string \<Rightarrow> manager \<Rightarrow> bool \<times> manager" where
  "fuse_begin_fatal_read_repair key fpath mgr =
     (if (key, fpath) \<in> set (tm_fatal_locks mgr) then (False, mgr)
      else (True, mgr\<lparr>tm_fatal_locks := (key, fpath) # tm_fatal_locks mgr\<rparr>))"

definition fuse_end_fatal_read_repair :: "string \<Rightarrow> string \<Rightarrow> manager \<Rightarrow> manager" where
  "fuse_end_fatal_read_repair key fpath mgr =
     mgr\<lparr>tm_fatal_locks := filter (\<lambda>l. l \<noteq> (key, fpath)) (tm_fatal_locks mgr)\<rparr>"

section \<open>The mirror in the database\<close>

text \<open>What a restart keeps of a torrent; a map of file states is compared by its entries.\<close>

definition row_matches :: "json_lib \<Rightarrow> managed_torrent \<Rightarrow> torrent_row \<Rightarrow> bool" where
  "row_matches J m row \<longleftrightarrow>
     tr_access_key row = mt_access_key m \<and> tr_rd_ids row = mt_rd_ids m \<and>
     tr_hash row = t_hash (mt_torrent m) \<and> tr_name row = t_name (mt_torrent m) \<and>
     tr_state row = mt_state m \<and> tr_unrepairable_reason row = mt_unrepairable_reason m \<and>
     tr_last_repaired_at row = mt_last_repaired_at m \<and>
     tr_under_repair_started_at row = mt_under_repair_started_at m \<and>
     map_option map_of (Option.bind (tr_file_states row) (js_fs_de J)) = map_option map_of (mt_file_states m)"

definition db_wf :: "db \<Rightarrow> bool" where
  "db_wf d = (distinct (map fst (db_torrents d)) \<and>
     list_all (\<lambda>(_, r). sq_hash r \<noteq> None \<and> sq_name r \<noteq> None) (db_torrents d))"

definition mirrors :: "json_lib \<Rightarrow> manager \<Rightarrow> bool" where
  "mirrors J mgr \<longleftrightarrow> db_wf (tm_db mgr) \<and>
     (\<forall>k m. get_mt mgr k = Some m \<longrightarrow>
        mt_access_key m = k \<and> (\<exists>row. read_row J (tm_db mgr) k = Some row \<and> row_matches J m row))"

definition env_ok :: "tm_env \<Rightarrow> bool" where
  "env_ok env \<longleftrightarrow> json_law (te_json env) \<and> (\<forall>row. te_stmt_ok env row) \<and> te_commit_ok env"

interpretation mts: keyed_store get_mt insert_mt remove_mt
  by unfold_locales (simp_all add: get_mt_def insert_mt_def remove_mt_def tbl.get_put tbl.get_del)

lemma torrent_to_row_matches:
  assumes "json_law (te_json env)"
  shows "row_matches (te_json env) m (torrent_to_row env m)"
proof (cases "mt_file_states m")
  case (Some fs)
  then show ?thesis
    using assms by (auto simp: row_matches_def torrent_to_row_def json_law_def) (metis bind.bind_lunit option.simps(9))
qed (simp add: row_matches_def torrent_to_row_def)

lemma db_wf_fold_update:
  assumes "db_wf d"
  shows "db_wf (d\<lparr>db_torrents := fold (\<lambda>(k, v). AList.update k v)
      (map (\<lambda>r. (tr_access_key r, sql_of_row J r)) rows) (db_torrents d)\<rparr>)"
proof -
  have "list_all (\<lambda>(_, r). sq_hash r \<noteq> None \<and> sq_name r \<noteq> None)
      (fold (\<lambda>(k, v). AList.update k v) (map (\<lambda>r. (tr_access_key r, sql_of_row J r)) rows) t)"
    if "list_all (\<lambda>(_, r). sq_hash r \<noteq> None \<and> sq_name r \<noteq> None) t" for t
    using that
  proof (induction rows arbitrary: t)
    case (Cons row rows)
    have "list_all (\<lambda>(_, r). sq_hash r \<noteq> None \<and> sq_name r \<noteq> None) (AList.update k (sql_of_row J row) t)" for k
      using Cons.prems by (induction t) (auto simp: sql_of_row_def)
    with Cons.IH show ?case by simp
  qed simp
  with assms show ?thesis by (auto simp: db_wf_def distinct_fold_update)
qed

text \<open>A batch save in an environment where the database works.\<close>

lemma save_rows_ok:
  assumes "env_ok env"
  obtains d where "save_rows env rows mgr = (Inr (), mgr\<lparr>tm_db := d\<rparr>)"
    and "db_wf (tm_db mgr) \<Longrightarrow> db_wf d"
    and "\<And>k. read_row (te_json env) d k =
      (case map_of (map (\<lambda>r. (tr_access_key r, r)) (rev rows)) k of
         Some r \<Rightarrow> Some r | None \<Rightarrow> read_row (te_json env) (tm_db mgr) k)"
proof -
  let ?d = "(tm_db mgr)\<lparr>db_torrents := fold (\<lambda>(k, v). AList.update k v)
      (map (\<lambda>r. (tr_access_key r, sql_of_row (te_json env) r)) rows) (db_torrents (tm_db mgr))\<rparr>"
  have "list_all (te_stmt_ok env) rows" using assms by (simp add: env_ok_def list_all_iff)
  then have "save_rows env rows mgr = (Inr (), mgr\<lparr>tm_db := ?d\<rparr>)"
    using assms by (simp add: save_rows_def upsert_torrents_batch_def batch_rows_all env_ok_def)
  with that db_wf_fold_update read_row_batch assms show ?thesis by (auto simp: env_ok_def)
qed

lemma get_mt_tm_db [simp]: "get_mt (mgr\<lparr>tm_db := d\<rparr>) = get_mt mgr"
  by (rule ext) (simp add: get_mt_def)

lemma tm_db_insert_mt [simp]: "tm_db (insert_mt k m mgr) = tm_db mgr"
  by (simp add: insert_mt_def)

lemma tm_db_remove_mt [simp]: "tm_db (remove_mt k mgr) = tm_db mgr"
  by (simp add: remove_mt_def)

text \<open>Saving the torrents that changed keeps the mirror.\<close>

lemma mirrors_saved:
  assumes env: "env_ok env" and mir: "mirrors (te_json env) mgr" and db: "tm_db mgr' = tm_db mgr"
    and dist: "distinct (map mt_access_key ms)"
    and get: "\<And>k m. get_mt mgr' k = Some m \<Longrightarrow>
      (m \<in> set ms \<and> mt_access_key m = k) \<or> (k \<notin> mt_access_key ` set ms \<and> get_mt mgr k = Some m)"
  shows "mirrors (te_json env) (snd (save_rows env (map (torrent_to_row env) ms) mgr'))"
proof -
  let ?rows = "map (torrent_to_row env) ms"
  obtain d where run: "save_rows env ?rows mgr' = (Inr (), mgr'\<lparr>tm_db := d\<rparr>)"
    and wf: "db_wf (tm_db mgr') \<Longrightarrow> db_wf d"
    and rd: "\<And>k. read_row (te_json env) d k = (case map_of (map (\<lambda>r. (tr_access_key r, r)) (rev ?rows)) k of
         Some r \<Rightarrow> Some r | None \<Rightarrow> read_row (te_json env) (tm_db mgr') k)"
    by (rule save_rows_ok [OF env, of ?rows mgr']) (rule that)
  have keyd: "tr_access_key (torrent_to_row env m) = mt_access_key m" for m by (simp add: torrent_to_row_def)
  have old: "map_of (map (\<lambda>r. (tr_access_key r, r)) (rev ?rows)) k = None" if "k \<notin> mt_access_key ` set ms" for k
    using that by (auto simp: map_of_eq_None_iff keyd image_image)
  have new: "map_of (map (\<lambda>r. (tr_access_key r, r)) (rev ?rows)) (mt_access_key m) = Some (torrent_to_row env m)"
    if "m \<in> set ms" for m
  proof -
    have "map fst (map (\<lambda>r. (tr_access_key r, r)) (rev ?rows)) = rev (map mt_access_key ms)"
      by (simp add: rev_map comp_def keyd)
    then have "distinct (map fst (map (\<lambda>r. (tr_access_key r, r)) (rev ?rows)))" using dist by simp
    then show ?thesis using that keyd [of m] by (intro map_of_is_SomeI) force+
  qed
  have "db_wf d" using wf mir db by (simp add: mirrors_def)
  moreover have "mt_access_key m = k \<and> (\<exists>row. read_row (te_json env) d k = Some row \<and> row_matches (te_json env) m row)"
    if g: "get_mt mgr' k = Some m" for k m
    using get [OF g]
  proof
    assume "m \<in> set ms \<and> mt_access_key m = k"
    with new [of m] rd [of k] torrent_to_row_matches env show ?thesis by (auto simp: env_ok_def)
  next
    assume "k \<notin> mt_access_key ` set ms \<and> get_mt mgr k = Some m"
    with old [of k] rd [of k] mir db show ?thesis by (auto simp: mirrors_def)
  qed
  ultimately show ?thesis by (simp add: run mirrors_def)
qed

lemma mirrors_save_one:
  assumes "env_ok env" and "mirrors (te_json env) mgr" and "mt_access_key m = k"
  shows "mirrors (te_json env) (snd (save_rows env [torrent_to_row env m] (insert_mt k m mgr)))"
proof -
  have "mirrors (te_json env) (snd (save_rows env (map (torrent_to_row env) [m]) (insert_mt k m mgr)))"
    by (rule mirrors_saved [OF assms(1,2)]) (use assms(3) in \<open>auto simp: mts.get_put split: if_splits\<close>)
  then show ?thesis by simp
qed

section \<open>Every operation keeps the mirror\<close>

lemma mirrors_cong: "get_mt mgr' = get_mt mgr \<Longrightarrow> tm_db mgr' = tm_db mgr \<Longrightarrow> mirrors J mgr' = mirrors J mgr"
  by (simp add: mirrors_def)

lemma mirrors_channel_send [simp]: "mirrors J (channel_send env ch v mgr) = mirrors J mgr"
  by (rule mirrors_cong) (auto simp: channel_send_def Let_def get_mt_def fun_eq_iff)

lemma mirrors_trigger [simp]: "mirrors J (trigger_library_update ps mgr) = mirrors J mgr"
  by (rule mirrors_cong) (auto simp: trigger_library_update_def get_mt_def fun_eq_iff)

lemma get_mt_channel_of: "channel_of k c mgr = (ch, mgr') \<Longrightarrow> get_mt mgr' = get_mt mgr \<and> tm_db mgr' = tm_db mgr"
  by (auto simp: channel_of_def get_mt_def fun_eq_iff split: option.splits)

lemma mirrors_subscribe: "mirrors J (snd (subscribe_repair_state env key mgr)) = mirrors J mgr"
proof -
  let ?cur = "case get_mt mgr key of None \<Rightarrow> Broken | Some m \<Rightarrow> mt_state m"
  obtain ch mgr1 where c: "channel_of key ?cur mgr = (ch, mgr1)" by fastforce
  have "mirrors J (mgr2\<lparr>tm_channels := cs\<rparr>) = mirrors J mgr2" for mgr2 cs
    by (rule mirrors_cong) (auto simp: get_mt_def fun_eq_iff)
  moreover have "mirrors J mgr1 = mirrors J mgr"
    using get_mt_channel_of [OF c] by (intro mirrors_cong) auto
  ultimately show ?thesis
    by (auto simp: subscribe_repair_state_def c Let_def split: option.splits)
qed

lemma mirrors_update_torrent_state:
  assumes "env_ok env" and "mirrors (te_json env) mgr"
  shows "mirrors (te_json env) (snd (update_torrent_state env key st reason mgr))"
proof (cases "get_mt mgr key")
  case (Some m)
  let ?m = "restated env st reason m"
  have "mt_access_key ?m = key" using assms(2) Some by (simp add: mirrors_def restated_def)
  then have "mirrors (te_json env) (snd (save_rows env [torrent_to_row env ?m] (insert_mt key ?m mgr)))"
    by (rule mirrors_save_one [OF assms])
  then show ?thesis
    by (auto simp: update_torrent_state_def Some Let_def split: prod.splits sum.splits option.splits)
qed (simp add: update_torrent_state_def assms)

lemma mirrors_persist_snapshot:
  "env_ok env \<Longrightarrow> mirrors (te_json env) mgr \<Longrightarrow> mirrors (te_json env) (snd (persist_torrent_snapshot env m mgr))"
  by (simp add: persist_torrent_snapshot_def mirrors_save_one)

lemma mirrors_replace_rd_ids:
  "env_ok env \<Longrightarrow> mirrors (te_json env) mgr \<Longrightarrow> mirrors (te_json env) (snd (replace_rd_ids_after_repair env key ids mgr))"
  by (auto simp: replace_rd_ids_after_repair_def Let_def mirrors_persist_snapshot split: option.splits)

lemma mirrors_mark_file_broken:
  assumes "env_ok env" and "mirrors (te_json env) mgr"
  shows "mirrors (te_json env) (snd (mark_file_broken env key p mgr))"
proof (cases "get_mt mgr key")
  case (Some m)
  then have "mt_access_key m = key" using assms(2) by (simp add: mirrors_def)
  then show ?thesis using assms Some by (auto simp: mark_file_broken_def Let_def intro!: mirrors_save_one)
qed (simp add: mark_file_broken_def assms)

lemma mirrors_ensure_finish:
  "mirrors J mgr \<Longrightarrow> mirrors J (snd (ensure_finish key m info mgr))"
  by (auto simp: ensure_finish_def mirrors_def mts.get_put row_matches_def split: option.splits)

lemma mirrors_ensure_torrent_info:
  "mirrors J mgr \<Longrightarrow> mirrors J (fst (snd (ensure_torrent_info api key mgr w)))"
  using mirrors_ensure_finish [of J mgr key]
  by (auto simp: ensure_torrent_info_def split: ensure_start.splits prod.splits sum.splits) (metis snd_conv)

lemma mirrors_queue [simp]: "mirrors J (mgr\<lparr>tm_repair_queue := q, tm_notified := b\<rparr>) = mirrors J mgr"
  by (rule mirrors_cong) (auto simp: get_mt_def fun_eq_iff)

lemma mirrors_clear_unrepairable:
  "env_ok env \<Longrightarrow> mirrors (te_json env) mgr \<Longrightarrow> mirrors (te_json env) (clear_unrepairable env k mgr)"
  by (simp add: clear_unrepairable_def mirrors_update_torrent_state)

lemma mirrors_fold_clear:
  "env_ok env \<Longrightarrow> mirrors (te_json env) mgr \<Longrightarrow> mirrors (te_json env) (fold (clear_unrepairable env) ks mgr)"
  by (induction ks arbitrary: mgr) (simp_all add: mirrors_clear_unrepairable)

lemma mirrors_enqueue_all:
  "env_ok env \<Longrightarrow> mirrors (te_json env) mgr \<Longrightarrow> mirrors (te_json env) (enqueue_repair_all env opts mgr)"
  by (simp add: enqueue_repair_all_def Let_def mirrors_fold_clear)

lemma mirrors_enqueue_front:
  "env_ok env \<Longrightarrow> mirrors (te_json env) mgr \<Longrightarrow> mirrors (te_json env) (enqueue_repair_front env k c mgr)"
  by (simp add: enqueue_repair_front_def Let_def mirrors_update_torrent_state)

lemmas mirror_ops = mirrors_update_torrent_state mirrors_persist_snapshot mirrors_replace_rd_ids
  mirrors_mark_file_broken mirrors_enqueue_all mirrors_enqueue_front mirrors_ensure_finish mirrors_subscribe

section \<open>What the operations leave of the registry\<close>

lemma save_rows_frame:
  assumes "save_rows env rows mgr = (r, mgr')"
  obtains d where "mgr' = mgr\<lparr>tm_db := d\<rparr>" and "db_repair_jobs d = db_repair_jobs (tm_db mgr)"
    and "db_app_meta d = db_app_meta (tm_db mgr)"
proof -
  obtain d where u: "upsert_torrents_batch (te_json env) (te_stmt_ok env) (te_commit_ok env) rows (tm_db mgr) = (r, d)" "mgr' = mgr\<lparr>tm_db := d\<rparr>"
    using assms by (auto simp: save_rows_def split: prod.splits)
  then have "db_repair_jobs d = db_repair_jobs (tm_db mgr)" "db_app_meta d = db_app_meta (tm_db mgr)"
    by (auto simp: upsert_torrents_batch_def split: option.splits if_splits)
  with u that show ?thesis by blast
qed

lemma channel_send_frame [simp]:
  "get_mt (channel_send env ch v mgr) = get_mt mgr" "tm_fatal_locks (channel_send env ch v mgr) = tm_fatal_locks mgr"
  "tm_db (channel_send env ch v mgr) = tm_db mgr"
  by (auto simp: channel_send_def Let_def get_mt_def fun_eq_iff)

lemma trigger_frame [simp]:
  "get_mt (trigger_library_update ps mgr) = get_mt mgr" "tm_fatal_locks (trigger_library_update ps mgr) = tm_fatal_locks mgr"
  "tm_db (trigger_library_update ps mgr) = tm_db mgr"
  by (auto simp: trigger_library_update_def get_mt_def fun_eq_iff)

text \<open>The state changes in memory whether or not the row could be saved.\<close>

lemma update_state_get:
  assumes "get_mt mgr key = Some m"
  shows "get_mt (snd (update_torrent_state env key st reason mgr)) = (get_mt mgr)(key \<mapsto> restated env st reason m)"
    and "tm_fatal_locks (snd (update_torrent_state env key st reason mgr)) = tm_fatal_locks mgr"
    and "db_repair_jobs (tm_db (snd (update_torrent_state env key st reason mgr))) = db_repair_jobs (tm_db mgr)"
    and "db_app_meta (tm_db (snd (update_torrent_state env key st reason mgr))) = db_app_meta (tm_db mgr)"
proof -
  let ?m = "restated env st reason m" and ?u = "update_torrent_state env key st reason mgr"
  obtain r mgr1 where s: "save_rows env [torrent_to_row env ?m] (insert_mt key ?m mgr) = (r, mgr1)" by fastforce
  then obtain d where mgr1: "mgr1 = (insert_mt key ?m mgr)\<lparr>tm_db := d\<rparr>" and d: "db_repair_jobs d = db_repair_jobs (tm_db mgr)"
    "db_app_meta d = db_app_meta (tm_db mgr)"
    by (rule save_rows_frame) simp
  have g: "get_mt mgr1 = (get_mt mgr)(key \<mapsto> ?m)" "tm_fatal_locks mgr1 = tm_fatal_locks mgr" "tm_db mgr1 = d"
    by (auto simp: mgr1 insert_mt_def get_mt_def fun_eq_iff update_conv')
  have f: "get_mt (snd ?u) = get_mt mgr1 \<and> tm_fatal_locks (snd ?u) = tm_fatal_locks mgr1 \<and> tm_db (snd ?u) = tm_db mgr1"
    using s assms by (cases r) (simp_all add: update_torrent_state_def Let_def split: option.split)
  from f g d show "get_mt (snd ?u) = (get_mt mgr)(key \<mapsto> ?m)" "tm_fatal_locks (snd ?u) = tm_fatal_locks mgr"
    "db_repair_jobs (tm_db (snd ?u)) = db_repair_jobs (tm_db mgr)" "db_app_meta (tm_db (snd ?u)) = db_app_meta (tm_db mgr)"
    by simp_all
qed

lemma persist_snapshot_get:
  "get_mt (snd (persist_torrent_snapshot env m mgr)) = (get_mt mgr)(mt_access_key m \<mapsto> m)"
  "db_repair_jobs (tm_db (snd (persist_torrent_snapshot env m mgr))) = db_repair_jobs (tm_db mgr)"
  "db_app_meta (tm_db (snd (persist_torrent_snapshot env m mgr))) = db_app_meta (tm_db mgr)"
proof -
  let ?k = "mt_access_key m"
  obtain r mgr1 where s: "save_rows env [torrent_to_row env m] (insert_mt ?k m mgr) = (r, mgr1)" by fastforce
  then obtain d where "mgr1 = (insert_mt ?k m mgr)\<lparr>tm_db := d\<rparr>" "db_repair_jobs d = db_repair_jobs (tm_db mgr)"
    "db_app_meta d = db_app_meta (tm_db mgr)"
    by (rule save_rows_frame) simp
  with s show "get_mt (snd (persist_torrent_snapshot env m mgr)) = (get_mt mgr)(?k \<mapsto> m)"
    "db_repair_jobs (tm_db (snd (persist_torrent_snapshot env m mgr))) = db_repair_jobs (tm_db mgr)"
    "db_app_meta (tm_db (snd (persist_torrent_snapshot env m mgr))) = db_app_meta (tm_db mgr)"
    by (auto simp: persist_torrent_snapshot_def insert_mt_def get_mt_def fun_eq_iff update_conv')
qed

section \<open>Restart\<close>

lemma fold_insert_get:
  assumes "distinct (map kf es)"
  shows "get_mt (fold (\<lambda>e. insert_mt (kf e) (f e)) es mgr) k =
    (case map_of (map (\<lambda>e. (kf e, e)) es) k of None \<Rightarrow> get_mt mgr k | Some e \<Rightarrow> Some (f e))"
  using assms
proof (induction es arbitrary: mgr)
  case (Cons e es)
  have "map_of (map (\<lambda>e. (kf e, e)) es) (kf e) = None"
    using Cons.prems by (auto simp: map_of_eq_None_iff image_image)
  with Cons show ?case by (auto simp: mts.get_put split: option.splits)
qed simp

lemma get_all_torrents_wf:
  assumes "db_wf d"
  obtains rows where "get_all_torrents J True d = Inr rows" and "distinct (map tr_access_key rows)"
proof -
  let ?xs = "map (row_to_torrent J) (db_torrents d)"
  have "list_all (\<lambda>x. x \<noteq> None) ?xs"
    using assms by (auto simp: db_wf_def list_all_iff row_to_torrent_def split: option.splits)
  then have c: "collect_rows ?xs = Some (map the ?xs)" by (rule collect_rows_some)
  have "tr_access_key (the (row_to_torrent J kr)) = fst kr" if "kr \<in> set (db_torrents d)" for kr
    using that assms by (cases kr) (auto simp: db_wf_def list_all_iff row_to_torrent_def split: option.splits)
  then have "map tr_access_key (map the ?xs) = map fst (db_torrents d)" by simp
  then have dist: "distinct (map tr_access_key (map the ?xs))" using assms by (simp only: db_wf_def)
  have "get_all_torrents J True d = Inr (map the ?xs)" using c by (simp add: get_all_torrents_def)
  from this dist show ?thesis by (rule that)
qed

text \<open>What a restart gives back.\<close>

definition same_after_restart :: "managed_torrent \<Rightarrow> managed_torrent \<Rightarrow> bool" where
  "same_after_restart m m' \<longleftrightarrow>
     mt_access_key m' = mt_access_key m \<and> mt_rd_ids m' = mt_rd_ids m \<and>
     t_hash (mt_torrent m') = t_hash (mt_torrent m) \<and> t_name (mt_torrent m') = t_name (mt_torrent m) \<and>
     mt_state m' = mt_state m \<and> mt_unrepairable_reason m' = mt_unrepairable_reason m \<and>
     mt_last_repaired_at m' = mt_last_repaired_at m \<and>
     mt_under_repair_started_at m' = mt_under_repair_started_at m \<and>
     map_option map_of (mt_file_states m') = map_option map_of (mt_file_states m)"

lemma manager_new_get:
  assumes "db_wf d"
  obtains mgr where "manager_new env True d = Inr mgr" and "tm_db mgr = d"
    and "\<And>k. get_mt mgr k = map_option (loaded_torrent env) (read_row (te_json env) d k)"
proof -
  obtain rows where rows: "get_all_torrents (te_json env) True d = Inr rows" "distinct (map tr_access_key rows)"
    by (rule get_all_torrents_wf [OF assms])
  let ?m0 = "\<lparr>tm_torrents = [], tm_db = d, tm_hook = [], tm_notified = False, tm_repair_queue = [],
        tm_fatal_locks = [], tm_repair_state_tx = [], tm_channels = [], tm_removed = []\<rparr>"
  let ?mgr = "fold (\<lambda>row. insert_mt (tr_access_key row) (loaded_torrent env row)) rows ?m0"
  have "manager_new env True d = Inr ?mgr" using rows(1) by (simp add: manager_new_def load_from_db_def)
  moreover have "tm_db (fold (\<lambda>row. insert_mt (tr_access_key row) (loaded_torrent env row)) rs mgr) = tm_db mgr" for rs mgr
    by (induction rs arbitrary: mgr) simp_all
  then have "tm_db ?mgr = d" by simp
  moreover have "get_mt ?mgr k = map_option (loaded_torrent env) (read_row (te_json env) d k)" for k
    unfolding fold_insert_get [OF rows(2)] get_all_torrents_read [OF rows(1)]
    by (simp add: get_mt_def split: option.split)
  ultimately show ?thesis using that by blast
qed

lemma loaded_matches: "row_matches (te_json env) m row \<Longrightarrow> same_after_restart m (loaded_torrent env row)"
  by (simp add: row_matches_def same_after_restart_def loaded_torrent_def)

lemma mirrors_manager_new:
  assumes "db_wf d" and "manager_new env True d = Inr mgr"
  shows "mirrors (te_json env) mgr"
proof -
  obtain mgr' where "manager_new env True d = Inr mgr'" and "tm_db mgr' = d"
    and g: "\<And>k. get_mt mgr' k = map_option (loaded_torrent env) (read_row (te_json env) d k)"
    by (rule manager_new_get [OF assms(1)]) (rule that)
  with assms have "mgr' = mgr" "tm_db mgr = d" by auto
  moreover have "tr_access_key row = k" if "read_row (te_json env) d k = Some row" for k row
    using that by (auto simp: read_row_def row_to_torrent_key split: Option.bind_splits)
  ultimately show ?thesis
    using assms(1) g by (auto simp: mirrors_def row_matches_def loaded_torrent_def)
qed

lemma mirrors_restart:
  assumes "mirrors (te_json env) mgr" and "get_mt mgr k = Some m"
  shows "\<exists>mgr' m'. manager_new env True (tm_db mgr) = Inr mgr' \<and> get_mt mgr' k = Some m' \<and> same_after_restart m m'"
proof -
  have wf: "db_wf (tm_db mgr)" using assms(1) by (simp add: mirrors_def)
  obtain mgr' where "manager_new env True (tm_db mgr) = Inr mgr'"
    and "\<And>k. get_mt mgr' k = map_option (loaded_torrent env) (read_row (te_json env) (tm_db mgr) k)"
    by (rule manager_new_get [OF wf]) (rule that)
  moreover obtain row where "read_row (te_json env) (tm_db mgr) k = Some row" "row_matches (te_json env) m row"
    using assms by (auto simp: mirrors_def)
  ultimately show ?thesis using loaded_matches by auto
qed

section \<open>Properties\<close>

definition demo_tm_env :: tm_env where
  "demo_tm_env = \<lparr>te_now = 100, te_json = demo_json, te_stmt_ok = (\<lambda>_. True), te_commit_ok = True,
     te_watch_send = (\<lambda>v n old. if n = 0 then old else v)\<rparr>"

definition demo_db :: db where
  "demo_db = \<lparr>db_torrents = [(''h/n'', sql_of_row demo_json (demo_row ''h/n'' Broken))], db_repair_jobs = [],
     db_app_meta = \<lparr>mt_value_type = ''TEXT'', mt_rows = []\<rparr>\<rparr>"

lemma demo_tm_env_ok: "env_ok demo_tm_env"
  by (simp add: env_ok_def demo_tm_env_def demo_json_law)

lemma demo_db_wf: "db_wf demo_db"
  by (simp add: db_wf_def demo_db_def sql_of_row_def)

definition demo_mgr :: manager where
  "demo_mgr = (case manager_new demo_tm_env True demo_db of Inr mgr \<Rightarrow> mgr | Inl _ \<Rightarrow> undefined)"

lemma demo_mgr_new: "manager_new demo_tm_env True demo_db = Inr demo_mgr"
  using manager_new_get [OF demo_db_wf, of demo_tm_env] by (metis demo_mgr_def sum.simps(6))


text \<open>\<open>update_torrent_state\<close> on a known torrent stores the new state with the times it implies,
  persists it, queues one hook message and delivers the state to every waiting receiver; when the
  database write fails the registry has the new state, and neither the hook nor the waiters hear of it.\<close>

theorem state_change_reaches_waiters:
  assumes "get_mt mgr key = Some m" and "env_ok env" and "watch_law (te_watch_send env)"
    and "update_torrent_state env key st reason mgr = (r, mgr')"
    and "update_torrent_state (env\<lparr>te_commit_ok := False\<rparr>) key st reason mgr = (r2, mgr2)"
  shows "r = Inr () \<and> get_mt mgr' key = Some (restated env st reason m) \<and>
    (\<forall>j. j \<noteq> key \<longrightarrow> get_mt mgr' j = get_mt mgr j) \<and>
    tm_hook mgr' = tm_hook mgr @ [[''__all__/'' @ mt_access_key m]] \<and>
    (\<forall>ch. map_of (tm_repair_state_tx mgr) key = Some ch \<and> ch < length (tm_channels mgr) \<and>
       0 < wc_receivers (tm_channels mgr ! ch) \<longrightarrow> wc_value (tm_channels mgr' ! ch) = st) \<and>
    r2 = Inl DbStatement \<and> get_mt mgr2 key = Some (restated env st reason m) \<and> tm_db mgr2 = tm_db mgr \<and>
    tm_hook mgr2 = tm_hook mgr \<and> tm_channels mgr2 = tm_channels mgr"
proof -
  let ?m = "restated env st reason m"
  obtain d where sv: "save_rows env [torrent_to_row env ?m] (insert_mt key ?m mgr) = (Inr (), (insert_mt key ?m mgr)\<lparr>tm_db := d\<rparr>)"
    using save_rows_ok [OF assms(2)] by metis
  have paths: "library_paths_for ?m = [''__all__/'' @ mt_access_key m]" by (simp add: library_paths_for_def restated_def)
  define mgr1 where "mgr1 = trigger_library_update (library_paths_for ?m) ((insert_mt key ?m mgr)\<lparr>tm_db := d\<rparr>)"
  have res: "r = Inr ()" and mgr': "mgr' = (case map_of (tm_repair_state_tx mgr1) key of None \<Rightarrow> mgr1
      | Some ch \<Rightarrow> channel_send env ch st mgr1)"
    using assms(1,4) unfolding mgr1_def by (simp_all add: update_torrent_state_def sv Let_def)
  have tx: "tm_repair_state_tx mgr1 = tm_repair_state_tx mgr" "tm_channels mgr1 = tm_channels mgr"
    by (simp_all add: mgr1_def paths trigger_library_update_def insert_mt_def)
  have "get_mt mgr' = get_mt mgr1" "tm_hook mgr' = tm_hook mgr1"
    by (auto simp: mgr' channel_send_def get_mt_def fun_eq_iff Let_def split: option.split)
  moreover have "get_mt mgr1 j = (if j = key then Some ?m else get_mt mgr j)" for j
    by (simp add: mgr1_def trigger_library_update_def get_mt_def insert_mt_def tbl.get_put)
  moreover have "tm_hook mgr1 = tm_hook mgr @ [[''__all__/'' @ mt_access_key m]]"
    by (simp add: mgr1_def paths trigger_library_update_def insert_mt_def)
  ultimately have ok: "get_mt mgr' key = Some ?m" "\<And>j. j \<noteq> key \<Longrightarrow> get_mt mgr' j = get_mt mgr j"
    "tm_hook mgr' = tm_hook mgr @ [[''__all__/'' @ mt_access_key m]]" by simp_all
  have "wc_value (tm_channels mgr' ! ch) = st"
    if "map_of (tm_repair_state_tx mgr) key = Some ch" "ch < length (tm_channels mgr)" "0 < wc_receivers (tm_channels mgr ! ch)" for ch
    using that assms(3) tx by (simp add: mgr' channel_send_def Let_def watch_law_def)
  moreover have m2: "restated (env\<lparr>te_commit_ok := False\<rparr>) st reason m = ?m" by (simp add: restated_def)
  have "save_rows (env\<lparr>te_commit_ok := False\<rparr>) rows mg = (Inl DbStatement, mg)" for rows mg
    by (simp add: save_rows_def upsert_torrents_batch_def split: option.split)
  then have "r2 = Inl DbStatement" "mgr2 = insert_mt key ?m mgr"
    using assms(1,5) m2 by (simp_all add: update_torrent_state_def)
  ultimately show ?thesis using ok res by (auto simp: mts.get_put) (simp_all add: insert_mt_def)
qed

theorem state_change_reaches_waiters_witness:
  "wc_value (tm_channels (snd (update_torrent_state demo_tm_env ''h/n'' Ok None
     (snd (subscribe_repair_state demo_tm_env ''h/n'' demo_mgr)))) ! 0) = Ok"
proof -
  let ?mgr = "snd (subscribe_repair_state demo_tm_env ''h/n'' demo_mgr)"
  have "get_mt ?mgr ''h/n'' \<noteq> None" "map_of (tm_repair_state_tx ?mgr) ''h/n'' = Some 0" "0 < length (tm_channels ?mgr)"
    "0 < wc_receivers (tm_channels ?mgr ! 0)" by code_simp+
  moreover have "watch_law (te_watch_send demo_tm_env)" by (simp add: watch_law_def demo_tm_env_def)
  ultimately show ?thesis
    using state_change_reaches_waiters [of ?mgr "''h/n''" _ demo_tm_env Ok None] demo_tm_env_ok
    by (metis not_None_eq prod.collapse)
qed

text \<open>\<open>subscribe_repair_state\<close> refreshes the channel only when somebody already listens. On a channel
  whose receivers are all gone the new receiver starts with the value that was sent last, whatever
  the torrent's state is now; with a receiver present it starts with the current state.\<close>

theorem subscribe_may_be_stale:
  assumes "watch_law (te_watch_send env)" and "map_of (tm_repair_state_tx mgr) key = Some ch"
    and "ch < length (tm_channels mgr)" and "get_mt mgr key = Some m"
    and "subscribe_repair_state env key mgr = (ch', mgr')"
  shows "ch' = ch \<and> get_mt mgr' key = Some m \<and>
    wc_value (tm_channels mgr' ! ch) =
      (if wc_receivers (tm_channels mgr ! ch) = 0 then wc_value (tm_channels mgr ! ch) else mt_state m)"
  using assms
  by (auto simp: subscribe_repair_state_def channel_of_def channel_send_def get_mt_def Let_def watch_law_def)

theorem subscribe_may_be_stale_witness:
  "\<exists>mgr. map_option mt_state (get_mt mgr ''h/n'') = Some Broken \<and>
     wc_value (tm_channels (snd (subscribe_repair_state demo_tm_env ''h/n'' mgr)) ! 0) = Ok"
proof -
  let ?upd = "\<lambda>st mgr. snd (update_torrent_state demo_tm_env ''h/n'' st None mgr)"
  let ?mgr = "?upd Broken (receiver_drop 0 (?upd Ok (snd (subscribe_repair_state demo_tm_env ''h/n'' demo_mgr))))"
  have st: "map_option mt_state (get_mt ?mgr ''h/n'') = Some Broken" by code_simp
  have "map_of (tm_repair_state_tx ?mgr) ''h/n'' = Some 0" "0 < length (tm_channels ?mgr)"
    "wc_receivers (tm_channels ?mgr ! 0) = 0" "wc_value (tm_channels ?mgr ! 0) = Ok" by code_simp+
  moreover have "watch_law (te_watch_send demo_tm_env)" by (simp add: watch_law_def demo_tm_env_def)
  moreover obtain m where "get_mt ?mgr ''h/n'' = Some m" using st by auto
  moreover obtain ch' mgr' where "subscribe_repair_state demo_tm_env ''h/n'' ?mgr = (ch', mgr')" by (rule prod.exhaust)
  ultimately have "wc_value (tm_channels (snd (subscribe_repair_state demo_tm_env ''h/n'' ?mgr)) ! 0) = Ok"
    using subscribe_may_be_stale [of demo_tm_env ?mgr "''h/n''" 0 m ch' mgr'] by simp
  with st show ?thesis by blast
qed

end
