(* ===== verification/Config.thy ===== *)
theory Config
  imports Rd_Strings
begin

text \<open>
  \<^verbatim>\<open>src/config/\<close>: the configuration structs with their defaults, the validation of
  \<open>Config::from_toml\<close>, the token list, the byte-size parser and one event of the file watcher.
  The TOML parser is the \<^verbatim>\<open>toml\<close> crate: it is the argument \<open>toml\<close> of \<open>from_toml\<close>, and what serde's
  \<open>default\<close> attributes add to the fields it found is \<open>fill_repair\<close>, \<open>fill_api\<close>, \<open>fill_vfs\<close> and
  \<open>fill_config\<close>.
\<close>

section \<open>Structs\<close>

datatype cdn_mode = Auto | ForceCloudflare | ForceNumbered | ForceLocation

record on_library_update_config =
  command :: string

record repair_config =
  enable :: bool
  every_mins :: u64
  timeout_mins :: u64
  stalled_download_mins :: u64
  restrict_to_cached :: bool
  delete_error_torrents :: bool
  head_check_enabled :: bool
  head_unreachable_threshold :: usize
  head_check_min_interval_mins :: u64
  batch_file_group_size :: u32
  fuse_repair_wait_secs :: u64

record api_config =
  base_url :: string
  rate_limit_per_minute :: u32
  torrents_rate_limit_per_minute :: u32
  fetch_torrents_page_size :: u32
  timeout_secs :: u64
  retries_until_failed :: u32
  refresh_interval_secs :: u64
  use_range_verification :: bool
  retain_non_rd_downloads :: bool
  cdn_reprobe_interval_mins :: u64
  cfg_cdn_mode :: cdn_mode
  cdn_location :: "string option"
  download_read_timeout_secs :: u64
  bandwidth_reset_timezone :: string
  unrestrict_cache_sweep_interval_mins :: u64
  traffic_details_refresh_secs :: u64
  cdn_ipv6_enabled :: bool
  cdn_force_ipv6 :: bool

record vfs_config =
  cache_max_size :: string
  cache_max_age :: string
  cache_min_free_space :: string
  buffer_size :: string
  read_ahead :: string
  chunk_size :: string
  max_parallel_streams :: u32
  attr_timeout_secs :: u64
  entry_timeout_secs :: u64

record config =
  token :: string
  mount_path :: string
  cache_dir :: string
  download_tokens :: "string list"
  on_library_update :: on_library_update_config
  repair :: repair_config
  api :: api_config
  vfs :: vfs_config

section \<open>Defaults\<close>

definition bool_true :: bool where
  "bool_true = True"

definition default_repair_every_mins :: u64 where
  "default_repair_every_mins = 60"

definition default_repair_timeout_mins :: u64 where
  "default_repair_timeout_mins = 30"

definition default_stalled_download_mins :: u64 where
  "default_stalled_download_mins = 10"

definition default_head_unreachable_threshold :: usize where
  "default_head_unreachable_threshold = 1"

definition default_head_check_min_interval_mins :: u64 where
  "default_head_check_min_interval_mins = 30"

definition default_repair_batch_file_group_size :: u32 where
  "default_repair_batch_file_group_size = 5"

definition default_fuse_repair_wait_secs :: u64 where
  "default_fuse_repair_wait_secs = 28"

definition default_rate_limit :: u32 where
  "default_rate_limit = 250"

definition default_torrents_rate_limit :: u32 where
  "default_torrents_rate_limit = 75"

definition default_page_size :: u32 where
  "default_page_size = 5000"

definition default_timeout_secs :: u64 where
  "default_timeout_secs = 60"

definition default_download_read_timeout_secs :: u64 where
  "default_download_read_timeout_secs = 300"

definition default_bandwidth_reset_timezone :: string where
  "default_bandwidth_reset_timezone = ''Europe/Paris''"

definition default_unrestrict_cache_sweep_interval_mins :: u64 where
  "default_unrestrict_cache_sweep_interval_mins = 60"

definition default_traffic_details_refresh_secs :: u64 where
  "default_traffic_details_refresh_secs = 300"

definition default_retries :: u32 where
  "default_retries = 2"

definition default_refresh_interval_secs :: u64 where
  "default_refresh_interval_secs = 15"

definition default_cdn_reprobe_interval_mins :: u64 where
  "default_cdn_reprobe_interval_mins = 0"

definition default_cache_max_size :: string where
  "default_cache_max_size = ''100G''"

definition default_cache_max_age :: string where
  "default_cache_max_age = ''24h''"

definition default_cache_min_free :: string where
  "default_cache_min_free = ''20G''"

definition default_buffer_size :: string where
  "default_buffer_size = ''256M''"

definition default_read_ahead :: string where
  "default_read_ahead = ''128M''"

definition default_chunk_size :: string where
  "default_chunk_size = ''4M''"

definition default_parallel_streams :: u32 where
  "default_parallel_streams = 8"

definition default_attr_timeout_secs :: u64 where
  "default_attr_timeout_secs = 60"

definition default_entry_timeout_secs :: u64 where
  "default_entry_timeout_secs = 600"

definition default_base_url :: string where
  "default_base_url = ''https://api.real-debrid.com''"

definition default_mount_path :: string where
  "default_mount_path = ''/mnt/zurg''"

definition default_cache_dir :: string where
  "default_cache_dir = ''/cache/zurg-vfs''"

lemmas default_defs =
  bool_true_def
  default_repair_every_mins_def
  default_repair_timeout_mins_def
  default_stalled_download_mins_def
  default_head_unreachable_threshold_def
  default_head_check_min_interval_mins_def
  default_repair_batch_file_group_size_def
  default_fuse_repair_wait_secs_def
  default_rate_limit_def
  default_torrents_rate_limit_def
  default_page_size_def
  default_timeout_secs_def
  default_download_read_timeout_secs_def
  default_bandwidth_reset_timezone_def
  default_unrestrict_cache_sweep_interval_mins_def
  default_traffic_details_refresh_secs_def
  default_retries_def
  default_refresh_interval_secs_def
  default_cdn_reprobe_interval_mins_def
  default_cache_max_size_def
  default_cache_max_age_def
  default_cache_min_free_def
  default_buffer_size_def
  default_read_ahead_def
  default_chunk_size_def
  default_parallel_streams_def
  default_attr_timeout_secs_def
  default_entry_timeout_secs_def
  default_base_url_def
  default_mount_path_def
  default_cache_dir_def

definition repair_config_default :: repair_config where
  "repair_config_default =
     \<lparr>enable = True, every_mins = 60, timeout_mins = 30, stalled_download_mins = 10,
      restrict_to_cached = False, delete_error_torrents = False, head_check_enabled = True,
      head_unreachable_threshold = 1, head_check_min_interval_mins = 30,
      batch_file_group_size = 5, fuse_repair_wait_secs = 28\<rparr>"

definition api_config_default :: api_config where
  "api_config_default =
     \<lparr>base_url = default_base_url, rate_limit_per_minute = 250,
      torrents_rate_limit_per_minute = 75, fetch_torrents_page_size = 5000, timeout_secs = 60,
      retries_until_failed = 2, refresh_interval_secs = 15, use_range_verification = False,
      retain_non_rd_downloads = False, cdn_reprobe_interval_mins = 0, cfg_cdn_mode = Auto,
      cdn_location = None, download_read_timeout_secs = 300,
      bandwidth_reset_timezone = default_bandwidth_reset_timezone, unrestrict_cache_sweep_interval_mins = 60,
      traffic_details_refresh_secs = 300, cdn_ipv6_enabled = True, cdn_force_ipv6 = False\<rparr>"

definition vfs_config_default :: vfs_config where
  "vfs_config_default =
     \<lparr>cache_max_size = ''100G'', cache_max_age = ''24h'', cache_min_free_space = ''20G'',
      buffer_size = ''256M'', read_ahead = ''128M'', chunk_size = ''4M'',
      max_parallel_streams = 8, attr_timeout_secs = 60, entry_timeout_secs = 600\<rparr>"

definition on_library_update_config_default :: on_library_update_config where
  "on_library_update_config_default = \<lparr>command = ''''\<rparr>"

text \<open>
  What serde builds from the keys found in a TOML table: a missing key takes the function named
  in its \<open>default\<close> attribute (\<^verbatim>\<open>src/config/defaults.rs\<close>).
\<close>

record repair_toml =
  t_enable :: "bool option"
  t_every_mins :: "u64 option"
  t_timeout_mins :: "u64 option"
  t_stalled_download_mins :: "u64 option"
  t_restrict_to_cached :: "bool option"
  t_delete_error_torrents :: "bool option"
  t_head_check_enabled :: "bool option"
  t_head_unreachable_threshold :: "usize option"
  t_head_check_min_interval_mins :: "u64 option"
  t_batch_file_group_size :: "u32 option"
  t_fuse_repair_wait_secs :: "u64 option"

definition or_default :: "'a option \<Rightarrow> 'a \<Rightarrow> 'a" where
  "or_default x d = (case x of Some v \<Rightarrow> v | None \<Rightarrow> d)"

lemma or_default_simps [simp]: "or_default None d = d" "or_default (Some v) d = v"
  by (simp_all add: or_default_def)

definition fill_repair :: "repair_toml \<Rightarrow> repair_config" where
  "fill_repair t =
     \<lparr>enable = or_default (t_enable t) bool_true,
      every_mins = or_default (t_every_mins t) default_repair_every_mins,
      timeout_mins = or_default (t_timeout_mins t) default_repair_timeout_mins,
      stalled_download_mins = or_default (t_stalled_download_mins t) default_stalled_download_mins,
      restrict_to_cached = or_default (t_restrict_to_cached t) False,
      delete_error_torrents = or_default (t_delete_error_torrents t) False,
      head_check_enabled = or_default (t_head_check_enabled t) bool_true,
      head_unreachable_threshold = or_default (t_head_unreachable_threshold t) default_head_unreachable_threshold,
      head_check_min_interval_mins = or_default (t_head_check_min_interval_mins t) default_head_check_min_interval_mins,
      batch_file_group_size = or_default (t_batch_file_group_size t) default_repair_batch_file_group_size,
      fuse_repair_wait_secs = or_default (t_fuse_repair_wait_secs t) default_fuse_repair_wait_secs\<rparr>"

record api_toml =
  t_base_url :: "string option"
  t_rate_limit_per_minute :: "u32 option"
  t_torrents_rate_limit_per_minute :: "u32 option"
  t_fetch_torrents_page_size :: "u32 option"
  t_timeout_secs :: "u64 option"
  t_retries_until_failed :: "u32 option"
  t_refresh_interval_secs :: "u64 option"
  t_use_range_verification :: "bool option"
  t_retain_non_rd_downloads :: "bool option"
  t_cdn_reprobe_interval_mins :: "u64 option"
  t_cdn_mode :: "cdn_mode option"
  t_cdn_location :: "string option"
  t_download_read_timeout_secs :: "u64 option"
  t_bandwidth_reset_timezone :: "string option"
  t_unrestrict_cache_sweep_interval_mins :: "u64 option"
  t_traffic_details_refresh_secs :: "u64 option"
  t_cdn_ipv6_enabled :: "bool option"
  t_cdn_force_ipv6 :: "bool option"

definition fill_api :: "api_toml \<Rightarrow> api_config" where
  "fill_api t =
     \<lparr>base_url = or_default (t_base_url t) default_base_url,
      rate_limit_per_minute = or_default (t_rate_limit_per_minute t) default_rate_limit,
      torrents_rate_limit_per_minute = or_default (t_torrents_rate_limit_per_minute t) default_torrents_rate_limit,
      fetch_torrents_page_size = or_default (t_fetch_torrents_page_size t) default_page_size,
      timeout_secs = or_default (t_timeout_secs t) default_timeout_secs,
      retries_until_failed = or_default (t_retries_until_failed t) default_retries,
      refresh_interval_secs = or_default (t_refresh_interval_secs t) default_refresh_interval_secs,
      use_range_verification = or_default (t_use_range_verification t) False,
      retain_non_rd_downloads = or_default (t_retain_non_rd_downloads t) False,
      cdn_reprobe_interval_mins = or_default (t_cdn_reprobe_interval_mins t) default_cdn_reprobe_interval_mins,
      cfg_cdn_mode = or_default (t_cdn_mode t) Auto,
      cdn_location = t_cdn_location t,
      download_read_timeout_secs = or_default (t_download_read_timeout_secs t) default_download_read_timeout_secs,
      bandwidth_reset_timezone = or_default (t_bandwidth_reset_timezone t) default_bandwidth_reset_timezone,
      unrestrict_cache_sweep_interval_mins =
        or_default (t_unrestrict_cache_sweep_interval_mins t) default_unrestrict_cache_sweep_interval_mins,
      traffic_details_refresh_secs = or_default (t_traffic_details_refresh_secs t) default_traffic_details_refresh_secs,
      cdn_ipv6_enabled = or_default (t_cdn_ipv6_enabled t) bool_true,
      cdn_force_ipv6 = or_default (t_cdn_force_ipv6 t) False\<rparr>"

record vfs_toml =
  t_cache_max_size :: "string option"
  t_cache_max_age :: "string option"
  t_cache_min_free_space :: "string option"
  t_buffer_size :: "string option"
  t_read_ahead :: "string option"
  t_chunk_size :: "string option"
  t_max_parallel_streams :: "u32 option"
  t_attr_timeout_secs :: "u64 option"
  t_entry_timeout_secs :: "u64 option"

definition fill_vfs :: "vfs_toml \<Rightarrow> vfs_config" where
  "fill_vfs t =
     \<lparr>cache_max_size = or_default (t_cache_max_size t) default_cache_max_size,
      cache_max_age = or_default (t_cache_max_age t) default_cache_max_age,
      cache_min_free_space = or_default (t_cache_min_free_space t) default_cache_min_free,
      buffer_size = or_default (t_buffer_size t) default_buffer_size,
      read_ahead = or_default (t_read_ahead t) default_read_ahead,
      chunk_size = or_default (t_chunk_size t) default_chunk_size,
      max_parallel_streams = or_default (t_max_parallel_streams t) default_parallel_streams,
      attr_timeout_secs = or_default (t_attr_timeout_secs t) default_attr_timeout_secs,
      entry_timeout_secs = or_default (t_entry_timeout_secs t) default_entry_timeout_secs\<rparr>"

text \<open>The whole file: \<open>token\<close> is the only required key.\<close>

record config_toml =
  t_token :: "string option"
  t_mount_path :: "string option"
  t_cache_dir :: "string option"
  t_download_tokens :: "string list option"
  t_command :: "string option option"
  t_repair :: "repair_toml option"
  t_api :: "api_toml option"
  t_vfs :: "vfs_toml option"

definition fill_config :: "config_toml \<Rightarrow> config option" where
  "fill_config t =
     (case t_token t of
        None \<Rightarrow> None
      | Some tok \<Rightarrow>
          Some \<lparr>token = tok,
                mount_path = or_default (t_mount_path t) default_mount_path,
                cache_dir = or_default (t_cache_dir t) default_cache_dir,
                download_tokens = or_default (t_download_tokens t) [],
                on_library_update =
                  (case t_command t of
                     None \<Rightarrow> on_library_update_config_default
                   | Some c \<Rightarrow> \<lparr>command = or_default c ''''\<rparr>),
                repair =
                  (case t_repair t of None \<Rightarrow> repair_config_default | Some r \<Rightarrow> fill_repair r),
                api = (case t_api t of None \<Rightarrow> api_config_default | Some a \<Rightarrow> fill_api a),
                vfs = (case t_vfs t of None \<Rightarrow> vfs_config_default | Some v \<Rightarrow> fill_vfs v)\<rparr>)"

section \<open>Loading\<close>

datatype config_error =
    ReadFailed | TomlError | EmptyToken | ZeroRateLimit | ZeroTimeout | MissingCdnLocation

definition validate :: "config \<Rightarrow> config_error + unit" where
  "validate c =
     (if token c = [] then Inl EmptyToken
      else if rate_limit_per_minute (api c) = 0 then Inl ZeroRateLimit
      else if timeout_secs (api c) = 0 then Inl ZeroTimeout
      else if cfg_cdn_mode (api c) = ForceLocation
              \<and> \<not> (case cdn_location (api c) of None \<Rightarrow> False | Some s \<Rightarrow> str_trim s \<noteq> [])
      then Inl MissingCdnLocation
      else Inr ())"

definition from_toml :: "(string \<Rightarrow> config_toml option) \<Rightarrow> string \<Rightarrow> config_error + config" where
  "from_toml toml s =
     (case Option.bind (toml s) fill_config of
        None \<Rightarrow> Inl TomlError
      | Some cfg \<Rightarrow> (case validate cfg of Inl e \<Rightarrow> Inl e | Inr _ \<Rightarrow> Inr cfg))"

text \<open>\<open>Config::load\<close>: the content of the file, when it can be read.\<close>

definition load :: "(string \<Rightarrow> config_toml option) \<Rightarrow> string option \<Rightarrow> config_error + config" where
  "load toml content =
     (case content of None \<Rightarrow> Inl ReadFailed | Some s \<Rightarrow> from_toml toml s)"

definition all_download_tokens :: "config \<Rightarrow> string list" where
  "all_download_tokens c =
     fold (\<lambda>t tokens. if t \<in> set tokens then tokens else tokens @ [t])
       (download_tokens c) [token c]"

text \<open>
  One event of the hot-reload watcher: only a modification reloads, and a file that does not load
  leaves the published configuration as it is.
\<close>

datatype watch_event = ModifyEvent "string option" | OtherEvent | WatchError

definition watch_step ::
    "(string \<Rightarrow> config_toml option) \<Rightarrow> watch_event \<Rightarrow> config \<Rightarrow> config" where
  "watch_step toml ev current =
     (case ev of
        ModifyEvent content \<Rightarrow> (case load toml content of Inl _ \<Rightarrow> current | Inr c \<Rightarrow> c)
      | OtherEvent \<Rightarrow> current
      | WatchError \<Rightarrow> current)"

section \<open>Byte sizes\<close>

definition parse_byte_size :: "string \<Rightarrow> u64" where
  "parse_byte_size s0 =
     (let s = str_trim s0
      in if s = [] then 0
         else
           (let (num_str, suffix) = split_at_alpha s;
                base = (case parse_u64 (str_trim num_str) of None \<Rightarrow> 0 | Some n \<Rightarrow> n);
                suf = str_upper (str_trim suffix)
            in if suf \<in> {''K'', ''KB'', ''KIB''} then wmul64 base 1024
               else if suf \<in> {''M'', ''MB'', ''MIB''} then wmul64 base 1048576
               else if suf \<in> {''G'', ''GB'', ''GIB''} then wmul64 base 1073741824
               else if suf \<in> {''T'', ''TB'', ''TIB''} then wmul64 base 1099511627776
               else base))"

section \<open>Properties\<close>

text \<open>The hand-written \<open>Default\<close> impls agree with the per-field serde defaults.\<close>

definition empty_repair_toml :: repair_toml where
  "empty_repair_toml =
     \<lparr>t_enable = None, t_every_mins = None, t_timeout_mins = None, t_stalled_download_mins = None,
      t_restrict_to_cached = None, t_delete_error_torrents = None, t_head_check_enabled = None,
      t_head_unreachable_threshold = None, t_head_check_min_interval_mins = None,
      t_batch_file_group_size = None, t_fuse_repair_wait_secs = None\<rparr>"

definition empty_api_toml :: api_toml where
  "empty_api_toml =
     \<lparr>t_base_url = None, t_rate_limit_per_minute = None, t_torrents_rate_limit_per_minute = None,
      t_fetch_torrents_page_size = None, t_timeout_secs = None, t_retries_until_failed = None,
      t_refresh_interval_secs = None, t_use_range_verification = None,
      t_retain_non_rd_downloads = None, t_cdn_reprobe_interval_mins = None, t_cdn_mode = None,
      t_cdn_location = None, t_download_read_timeout_secs = None,
      t_bandwidth_reset_timezone = None, t_unrestrict_cache_sweep_interval_mins = None,
      t_traffic_details_refresh_secs = None, t_cdn_ipv6_enabled = None, t_cdn_force_ipv6 = None\<rparr>"

definition empty_vfs_toml :: vfs_toml where
  "empty_vfs_toml =
     \<lparr>t_cache_max_size = None, t_cache_max_age = None, t_cache_min_free_space = None,
      t_buffer_size = None, t_read_ahead = None, t_chunk_size = None,
      t_max_parallel_streams = None, t_attr_timeout_secs = None, t_entry_timeout_secs = None\<rparr>"

lemma section_defaults_agree:
  "fill_repair empty_repair_toml = repair_config_default"
  "fill_api empty_api_toml = api_config_default"
  "fill_vfs empty_vfs_toml = vfs_config_default"
  by (simp_all add: fill_repair_def empty_repair_toml_def repair_config_default_def
      fill_api_def empty_api_toml_def api_config_default_def
      fill_vfs_def empty_vfs_toml_def vfs_config_default_def default_defs)

abbreviation dedup_step :: "string \<Rightarrow> string list \<Rightarrow> string list" where
  "dedup_step t tokens \<equiv> (if t \<in> set tokens then tokens else tokens @ [t])"

lemma fold_dedup_distinct: "distinct acc \<Longrightarrow> distinct (fold dedup_step ts acc)"
  by (induction ts arbitrary: acc) auto

lemma fold_dedup_set: "set (fold dedup_step ts acc) = set acc \<union> set ts"
  by (induction ts arbitrary: acc) auto

lemma fold_dedup_prefix: "\<exists>rest. fold dedup_step ts acc = acc @ rest"
proof (induction ts arbitrary: acc)
  case Nil
  show ?case by simp
next
  case (Cons t ts)
  obtain r1 r2 where "fold dedup_step ts acc = acc @ r1"
    and "fold dedup_step ts (acc @ [t]) = (acc @ [t]) @ r2"
    using Cons.IH by blast
  then show ?case by simp
qed

lemma all_download_tokens_hd: "all_download_tokens c \<noteq> [] \<and> hd (all_download_tokens c) = token c"
  using fold_dedup_prefix [of "download_tokens c" "[token c]"]
  by (auto simp: all_download_tokens_def)

lemma all_download_tokens_distinct: "distinct (all_download_tokens c)"
  by (simp add: all_download_tokens_def fold_dedup_distinct)

lemma all_download_tokens_set: "set (all_download_tokens c) = insert (token c) (set (download_tokens c))"
  by (simp add: all_download_tokens_def fold_dedup_set)

lemma from_toml_valid:
  "from_toml toml s = Inr c \<Longrightarrow>
     token c \<noteq> [] \<and> 0 < rate_limit_per_minute (api c) \<and> 0 < timeout_secs (api c)"
  by (auto simp: from_toml_def validate_def split: option.splits sum.splits if_splits)

lemma load_validates: "load toml content = Inr c \<Longrightarrow> validate c = Inr ()"
  by (auto simp: load_def from_toml_def split: option.splits sum.splits)

interpretation wt: invariant_machine "watch_step toml" "\<lambda>c. validate c = Inr ()" for toml
  by unfold_locales (auto simp: watch_step_def load_validates split: watch_event.splits sum.splits)

lemma parse_byte_size_less: "parse_byte_size s < u64_bound"
  by (auto simp: parse_byte_size_def Let_def parse_u64_def split: prod.splits option.splits)

text \<open>\<open>all_download_tokens\<close> starts with the primary token, has no duplicate, and contains
  exactly the primary and the extra tokens.\<close>

theorem all_download_tokens_primary_first:
  "hd (all_download_tokens c) = token c \<and> distinct (all_download_tokens c) \<and>
   set (all_download_tokens c) = insert (token c) (set (download_tokens c))"
  by (simp add: all_download_tokens_hd all_download_tokens_distinct all_download_tokens_set)

text \<open>The hot-reload watcher never publishes an invalid configuration: from a valid one, any
  sequence of file events leaves a configuration that passes \<open>validate\<close>.\<close>

theorem watch_keeps_valid:
  assumes "validate c = Inr ()"
  shows "validate (fold (watch_step toml) evs c) = Inr ()"
  using assms by (rule wt.run_inv)

theorem watch_keeps_valid_witness:
  "validate (fold (watch_step (\<lambda>_. None)) [ModifyEvent (Some ''token = 1''), WatchError]
     \<lparr>token = ''t'', mount_path = default_mount_path, cache_dir = default_cache_dir,
      download_tokens = [], on_library_update = on_library_update_config_default,
      repair = repair_config_default, api = api_config_default, vfs = vfs_config_default\<rparr>) = Inr ()"
  by (rule watch_keeps_valid) (simp add: validate_def api_config_default_def)

end
