(* ===== verification/Refresh.thy ===== *)
theory Refresh
  imports Torrent_Manager Config "HOL-Library.Char_ord" "HOL-Library.List_Lexorder"
begin

text \<open>
  The refresh of the library from the service (\<^verbatim>\<open>src/src/torrent/refresh/\<close>): the difference between
  the registry and a fresh listing, its application to memory and database, and the coordination with
  the repair engine. A \<open>HashMap\<close> or \<open>HashSet\<close> is the list of its entries in insertion order; the
  iteration order of the source is not specified.

  The theory ends with the machine of all operations of the manager.
\<close>

section \<open>Coordination\<close>

definition skip_local_remove_for_state :: "torrent_state \<Rightarrow> bool" where
  "skip_local_remove_for_state st = (st = UnderRepair)"

definition rd_id_belongs_to_under_repair :: "manager \<Rightarrow> string \<Rightarrow> bool" where
  "rd_id_belongs_to_under_repair mgr rd_id =
     list_ex (\<lambda>(_, m). mt_state m = UnderRepair \<and> rd_id \<in> set (mt_rd_ids m)) (tm_torrents mgr)"

section \<open>Difference\<close>

record diff_result =
  df_added :: "(torrent \<times> string list) list"
  df_removed_keys :: "string list"
  df_changed :: "(torrent \<times> string list) list"
  df_duplicates :: usize

type_synonym fresh_map = "(string \<times> (torrent \<times> string list)) list"

definition torrent_key :: "torrent \<Rightarrow> string" where
  "torrent_key t = access_key (t_hash t) (t_name t)"

definition fresh_entry :: "torrent \<Rightarrow> fresh_map \<Rightarrow> fresh_map" where
  "fresh_entry t fm =
     (case map_of fm (torrent_key t) of
        Some (existing, ids) \<Rightarrow>
          AList.update (torrent_key t)
            (if t_progress existing < t_progress t then t else existing, List.insert (t_id t) ids) fm
      | None \<Rightarrow> AList.update (torrent_key t) (t, [t_id t]) fm)"

definition fresh_map_of :: "torrent list \<Rightarrow> fresh_map" where
  "fresh_map_of fresh = fold fresh_entry fresh []"

definition changed_entry :: "managed_torrent \<Rightarrow> torrent \<Rightarrow> string list \<Rightarrow> bool" where
  "changed_entry cur t ids =
     (t_status t \<noteq> t_status (mt_torrent cur) \<or> t_progress t \<noteq> t_progress (mt_torrent cur) \<or>
      length (mt_rd_ids cur) \<noteq> length ids \<or> list_ex (\<lambda>i. i \<notin> set ids) (mt_rd_ids cur))"

definition diff :: "(string \<times> managed_torrent) list \<Rightarrow> torrent list \<Rightarrow> diff_result" where
  "diff current fresh =
     (let fm = fresh_map_of fresh
      in \<lparr>df_added = map (\<lambda>(_, t, ids). (t, sort ids)) (filter (\<lambda>(k, _). map_of current k = None) fm),
          df_removed_keys = filter (\<lambda>k. map_of fm k = None) (map fst current),
          df_changed = map (\<lambda>(_, t, ids). (t, sort ids))
            (filter (\<lambda>(k, t, ids). case map_of current k of None \<Rightarrow> False | Some cur \<Rightarrow> changed_entry cur t ids) fm),
          df_duplicates = length fresh - length fm\<rparr>)"

section \<open>One refresh\<close>

definition errored_status :: "string \<Rightarrow> bool" where
  "errored_status s = (s \<in> {''error'', ''magnet_error'', ''virus'', ''dead''})"

definition delete_unless_repairing :: "'w rd_api \<Rightarrow> manager \<Rightarrow> string \<Rightarrow> 'w \<Rightarrow> 'w" where
  "delete_unless_repairing rd mgr i w =
     (if rd_id_belongs_to_under_repair mgr i then w else snd (api_delete_torrent rd i w))"

definition delete_errored :: "'w rd_api \<Rightarrow> repair_config \<Rightarrow> manager \<Rightarrow> torrent list \<Rightarrow> 'w \<Rightarrow> 'w" where
  "delete_errored rd cfg mgr fresh_all w =
     (if delete_error_torrents cfg
      then fold (\<lambda>t. delete_unless_repairing rd mgr (t_id t)) (filter (\<lambda>t. errored_status (t_status t)) fresh_all) w
      else w)"

definition delete_stalled :: "tm_env \<Rightarrow> 'w rd_api \<Rightarrow> repair_config \<Rightarrow> manager \<Rightarrow> torrent list \<Rightarrow> 'w \<Rightarrow> 'w" where
  "delete_stalled env rd cfg mgr fresh w =
     fold (\<lambda>t. delete_unless_repairing rd mgr (t_id t))
       (filter (\<lambda>t. t_status t = ''downloading'' \<and>
          is_stalled_download_from_list (te_now env) t (max (stalled_download_mins cfg) 1)) fresh) w"

definition added_torrent :: "torrent \<times> string list \<Rightarrow> managed_torrent" where
  "added_torrent e =
     (let (t, ids) = e
      in \<lparr>mt_access_key = torrent_key t, mt_rd_ids = ids, mt_torrent = t, mt_info = None, mt_state = Ok,
          mt_unrepairable_reason = None, mt_last_repaired_at = None, mt_file_states = None,
          mt_under_repair_started_at = None\<rparr>)"

definition changed_torrent :: "managed_torrent \<Rightarrow> torrent \<times> string list \<Rightarrow> managed_torrent" where
  "changed_torrent existing e =
     (let (t, ids) = e;
          rd_ids_changed = (length (mt_rd_ids existing) \<noteq> length ids
            \<or> list_ex (\<lambda>i. i \<notin> set (mt_rd_ids existing)) ids
            \<or> list_ex (\<lambda>i. i \<notin> set ids) (mt_rd_ids existing))
      in existing\<lparr>mt_access_key := torrent_key t, mt_rd_ids := ids, mt_torrent := t,
           mt_info := (if rd_ids_changed then None else mt_info existing)\<rparr>)"

text \<open>The accumulator of the three loops: the manager, the rows to save and the changed paths.\<close>

type_synonym refresh_acc = "manager \<times> torrent_row list \<times> string list"

definition apply_added :: "tm_env \<Rightarrow> torrent \<times> string list \<Rightarrow> refresh_acc \<Rightarrow> refresh_acc" where
  "apply_added env e acc =
     (let (mgr, rows, paths) = acc; m = added_torrent e; key = torrent_key (fst e)
      in (insert_mt key m mgr, rows @ [torrent_to_row env m], paths @ [''__all__/'' @ key]))"

definition apply_changed :: "tm_env \<Rightarrow> torrent \<times> string list \<Rightarrow> refresh_acc \<Rightarrow> refresh_acc" where
  "apply_changed env e acc =
     (let (mgr, rows, paths) = acc; key = torrent_key (fst e)
      in (case get_mt mgr key of
            None \<Rightarrow> acc
          | Some existing \<Rightarrow>
              let m = changed_torrent existing e
              in (insert_mt key m mgr, rows @ [torrent_to_row env m], paths @ [''__all__/'' @ key])))"

definition apply_removed :: "string \<Rightarrow> refresh_acc \<Rightarrow> refresh_acc" where
  "apply_removed key acc =
     (let (mgr, rows, paths) = acc
      in if (case get_mt mgr key of None \<Rightarrow> False | Some m \<Rightarrow> skip_local_remove_for_state (mt_state m)) then acc
         else
           let mgr1 = remove_mt key mgr;
               mgr2 = mgr1\<lparr>tm_repair_state_tx := AList.delete key (tm_repair_state_tx mgr1)\<rparr>
           in (notify_torrent_removed key mgr2, rows, paths @ [''__all__/'' @ key]))"

definition apply_diff :: "tm_env \<Rightarrow> diff_result \<Rightarrow> manager \<Rightarrow> refresh_acc" where
  "apply_diff env df mgr =
     fold apply_removed (df_removed_keys df)
       (fold (apply_changed env) (df_changed df) (fold (apply_added env) (df_added df) (mgr, [], [])))"

definition sync_library :: "tm_env \<Rightarrow> torrent list \<Rightarrow> manager \<Rightarrow> (db_error + unit) \<times> manager" where
  "sync_library env fresh mgr =
     (let df = diff (tm_torrents mgr) fresh
      in if df_added df = [] \<and> df_removed_keys df = [] \<and> df_changed df = [] then (Inr (), mgr)
         else
           let (mgr1, rows, paths) = apply_diff env df mgr
           in (case (if rows = [] then (Inr (), mgr1) else save_rows env rows mgr1) of
                 (Inl e, mgr2) \<Rightarrow> (Inl e, mgr2)
               | (Inr _, mgr2) \<Rightarrow> (Inr (), trigger_library_update paths mgr2)))"

definition run_once ::
    "tm_env \<Rightarrow> 'w rd_api \<Rightarrow> repair_config \<Rightarrow> string + torrent list \<Rightarrow> manager \<Rightarrow> 'w \<Rightarrow> bool \<times> manager \<times> 'w" where
  "run_once env rd cfg listing mgr w =
     (case listing of
        Inl _ \<Rightarrow> (False, mgr, w)
      | Inr fresh_all \<Rightarrow>
          let fresh = filter (\<lambda>t. \<not> errored_status (t_status t)) fresh_all;
              w1 = delete_errored rd cfg mgr fresh_all w;
              w2 = delete_stalled env rd cfg mgr fresh w1
          in (case sync_library env fresh mgr of
                (Inl _, mgr') \<Rightarrow> (False, mgr', w2)
              | (Inr _, mgr') \<Rightarrow> (True, mgr', w2)))"

section \<open>The loop\<close>

record library_state =
  ls_total_count :: u32
  ls_active_count :: usize
  ls_first_torrent_id :: "string option"

text \<open>One turn of \<open>run_refresh_loop\<close>; \<open>probe\<close> is the result of \<open>get_current_state\<close>.\<close>

definition refresh_turn ::
    "tm_env \<Rightarrow> 'w rd_api \<Rightarrow> repair_config \<Rightarrow> string + library_state \<Rightarrow> string + torrent list
      \<Rightarrow> library_state option \<times> manager \<times> 'w \<Rightarrow> library_state option \<times> manager \<times> 'w" where
  "refresh_turn env rd cfg probe listing s =
     (let (last_state, mgr, w) = s
      in (case probe of
            Inl _ \<Rightarrow> (last_state, mgr, w)
          | Inr cur \<Rightarrow>
              if \<not> 0 < ls_active_count cur \<and> last_state = Some cur then (last_state, mgr, w)
              else
                (case run_once env rd cfg listing mgr w of
                   (True, mgr', w') \<Rightarrow> (Some cur, mgr', w')
                 | (False, mgr', w') \<Rightarrow> (last_state, mgr', w'))))"

section \<open>The fresh map\<close>

definition ids_for :: "string \<Rightarrow> torrent list \<Rightarrow> string set" where
  "ids_for k fresh = t_id ` {t \<in> set fresh. torrent_key t = k}"

text \<open>An entry holds the first of the torrents of its key with the greatest progress, and all their ids.\<close>

definition fresh_ok :: "torrent list \<Rightarrow> fresh_map \<Rightarrow> bool" where
  "fresh_ok fresh fm \<longleftrightarrow> distinct (map fst fm) \<and>
     (\<forall>k. (map_of fm k = None \<longleftrightarrow> k \<notin> torrent_key ` set fresh)) \<and>
     (\<forall>k t ids. map_of fm k = Some (t, ids) \<longrightarrow>
        t \<in> set fresh \<and> torrent_key t = k \<and> distinct ids \<and> set ids = ids_for k fresh \<and>
        (\<forall>x \<in> set fresh. torrent_key x = k \<longrightarrow> t_progress x \<le> t_progress t))"

lemma ids_for_other: "torrent_key t \<noteq> k \<Longrightarrow> ids_for k (fresh @ [t]) = ids_for k fresh"
  by (auto simp: ids_for_def)

lemma ids_for_same: "ids_for (torrent_key t) (fresh @ [t]) = insert (t_id t) (ids_for (torrent_key t) fresh)"
  by (auto simp: ids_for_def)

lemma fresh_ok_update:
  assumes ok: "fresh_ok fresh fm" and t': "t' \<in> set (fresh @ [t])" "torrent_key t' = torrent_key t"
    and ids: "distinct ids" "set ids = ids_for (torrent_key t) (fresh @ [t])"
    and mx: "\<And>x. x \<in> set (fresh @ [t]) \<Longrightarrow> torrent_key x = torrent_key t \<Longrightarrow> t_progress x \<le> t_progress t'"
  shows "fresh_ok (fresh @ [t]) (AList.update (torrent_key t) (t', ids) fm)"
proof -
  let ?fm = "AList.update (torrent_key t) (t', ids) fm"
  have dom: "map_of fm k = None \<longleftrightarrow> k \<notin> torrent_key ` set fresh" for k using ok by (simp add: fresh_ok_def)
  have 1: "distinct (map fst ?fm)" using ok by (simp add: fresh_ok_def distinct_update)
  have 2: "(map_of ?fm k = None) = (k \<notin> torrent_key ` set (fresh @ [t]))" for k
    using dom [of k] by (simp add: tbl.get_put)
  have 3: "x \<in> set (fresh @ [t]) \<and> torrent_key x = k \<and> distinct xs \<and> set xs = ids_for k (fresh @ [t]) \<and>
      (\<forall>y\<in>set (fresh @ [t]). torrent_key y = k \<longrightarrow> t_progress y \<le> t_progress x)"
    if m: "map_of ?fm k = Some (x, xs)" for k x xs
  proof (cases "k = torrent_key t")
    case True
    with m have "x = t'" "xs = ids" by (simp_all add: tbl.get_put)
    with True t' ids mx show ?thesis by blast
  next
    case False
    with m have "map_of fm k = Some (x, xs)" by (simp add: tbl.get_put)
    with ok have "x \<in> set fresh \<and> torrent_key x = k \<and> distinct xs \<and> set xs = ids_for k fresh \<and>
        (\<forall>y\<in>set fresh. torrent_key y = k \<longrightarrow> t_progress y \<le> t_progress x)"
      by (simp add: fresh_ok_def)
    with False show ?thesis by (simp add: ids_for_other)
  qed
  from 1 2 3 show ?thesis unfolding fresh_ok_def by blast
qed

lemma fresh_entry_ok:
  assumes ok: "fresh_ok fresh fm"
  shows "fresh_ok (fresh @ [t]) (fresh_entry t fm)"
proof (cases "map_of fm (torrent_key t)")
  case None
  then have new: "torrent_key t \<notin> torrent_key ` set fresh" using ok by (simp add: fresh_ok_def)
  then have "ids_for (torrent_key t) fresh = {}" by (auto simp: ids_for_def) (metis imageI)
  moreover have "x = t" if "x \<in> set (fresh @ [t])" "torrent_key x = torrent_key t" for x
    using that new by (auto simp: image_iff)
  ultimately have "fresh_ok (fresh @ [t]) (AList.update (torrent_key t) (t, [t_id t]) fm)"
    by (intro fresh_ok_update [OF ok]) (auto simp: ids_for_same)
  with None show ?thesis by (simp add: fresh_entry_def)
next
  case (Some e)
  obtain ex ids where e: "e = (ex, ids)" by (cases e)
  have ex: "ex \<in> set fresh" "torrent_key ex = torrent_key t" "distinct ids" "set ids = ids_for (torrent_key t) fresh"
    "\<And>x. x \<in> set fresh \<Longrightarrow> torrent_key x = torrent_key t \<Longrightarrow> t_progress x \<le> t_progress ex"
    using ok Some e by (simp_all add: fresh_ok_def)
  let ?t = "if t_progress ex < t_progress t then t else ex"
  have mx: "t_progress x \<le> t_progress ?t" if "x \<in> set (fresh @ [t])" "torrent_key x = torrent_key t" for x
    using that ex(5) [of x] by (cases "x = t") auto
  have "fresh_ok (fresh @ [t]) (AList.update (torrent_key t) (?t, List.insert (t_id t) ids) fm)"
    by (rule fresh_ok_update [OF ok _ _ _ _ mx]) (use ex in \<open>auto simp: ids_for_same\<close>)
  with Some e show ?thesis by (simp add: fresh_entry_def)
qed

lemma fresh_map_ok: "fresh_ok fresh (fresh_map_of fresh)"
proof (induction fresh rule: rev_induct)
  case Nil
  then show ?case by (simp add: fresh_ok_def fresh_map_of_def)
next
  case (snoc t fresh)
  then show ?case using fresh_entry_ok by (simp add: fresh_map_of_def)
qed

lemma lookup_filtered:
  fixes fm :: fresh_map
  assumes "distinct (map fst fm)"
  shows "map_of (filter P fm) key = Option.bind (map_of fm key) (\<lambda>e. if P (key, e) then Some e else None)"
  using assms
proof (induction fm)
  case (Cons entry fm)
  obtain j e where entry: "entry = (j, e)" by (cases entry)
  have "map_of fm j = None" using Cons.prems entry by (simp add: map_of_eq_None_iff)
  with Cons entry show ?case by auto
qed simp

text \<open>The entries of the difference, by key.\<close>

definition entry_by_key :: "(torrent \<times> string list) list \<Rightarrow> (string \<times> (torrent \<times> string list)) list" where
  "entry_by_key es = map (\<lambda>e. (torrent_key (fst e), e)) es"

lemma fm_key: "fresh_ok fresh fm \<Longrightarrow> (k, t, ids) \<in> set fm \<Longrightarrow> torrent_key t = k"
  by (auto simp: fresh_ok_def)

lemma entry_by_key_filter:
  assumes "fresh_ok fresh fm"
  shows "entry_by_key (map (\<lambda>(_, t, ids). (t, sort ids)) (filter P fm)) =
    map (\<lambda>(k, t, ids). (k, t, sort ids)) (filter P fm)"
  unfolding entry_by_key_def using fm_key [OF assms] by (auto simp: comp_def)

lemma map_of_entries:
  assumes "fresh_ok fresh fm"
  shows "map_of (entry_by_key (map (\<lambda>(_, t, ids). (t, sort ids)) (filter P fm))) k =
    (case map_of fm k of None \<Rightarrow> None | Some (t, ids) \<Rightarrow> if P (k, t, ids) then Some (t, sort ids) else None)"
proof -
  have "map_of (map (\<lambda>(k, t, ids). (k, t, sort ids)) xs) k = map_option (\<lambda>(t, ids). (t, sort ids)) (map_of xs k)"
    for xs :: fresh_map and k
    by (induction xs) auto
  moreover have "distinct (map fst fm)" using assms by (simp add: fresh_ok_def)
  ultimately show ?thesis
    unfolding entry_by_key_filter [OF assms] by (simp add: lookup_filtered split: option.splits prod.splits)
qed

lemma distinct_entries:
  assumes "fresh_ok fresh fm"
  shows "distinct (map (torrent_key \<circ> fst) (map (\<lambda>(_, t, ids). (t, sort ids)) (filter P fm)))"
proof -
  have "map (torrent_key \<circ> fst) (map (\<lambda>(_, t, ids). (t, sort ids)) (filter P fm)) = map fst (filter P fm)"
    using fm_key [OF assms] by auto
  moreover have "distinct (map fst (filter P fm))" using assms by (simp add: fresh_ok_def distinct_map_filter)
  ultimately show ?thesis by (simp only:)
qed

section \<open>The effect of a refresh\<close>

abbreviation entry_key :: "torrent \<times> string list \<Rightarrow> string" where
  "entry_key e \<equiv> torrent_key (fst e)"

lemma fold_added:
  "fold (apply_added env) es (mgr, rows, paths) =
     (fold (\<lambda>e. insert_mt (entry_key e) (added_torrent e)) es mgr,
      rows @ map (\<lambda>e. torrent_to_row env (added_torrent e)) es,
      paths @ map (\<lambda>e. ''__all__/'' @ entry_key e) es)"
  by (induction es arbitrary: mgr rows paths) (simp_all add: apply_added_def Let_def)

abbreviation changed_mt :: "manager \<Rightarrow> torrent \<times> string list \<Rightarrow> managed_torrent" where
  "changed_mt mgr e \<equiv> changed_torrent (the (get_mt mgr (entry_key e))) e"

lemma fold_changed:
  assumes "distinct (map entry_key es)" and "\<forall>e \<in> set es. get_mt mgr (entry_key e) \<noteq> None"
  shows "fold (apply_changed env) es (mgr, rows, paths) =
     (fold (\<lambda>e. insert_mt (entry_key e) (changed_mt mgr e)) es mgr,
      rows @ map (\<lambda>e. torrent_to_row env (changed_mt mgr e)) es,
      paths @ map (\<lambda>e. ''__all__/'' @ entry_key e) es)"
  using assms
proof (induction es arbitrary: mgr rows paths)
  case (Cons e es)
  let ?mgr = "insert_mt (entry_key e) (changed_mt mgr e) mgr"
  have other: "get_mt ?mgr (entry_key x) = get_mt mgr (entry_key x)" if "x \<in> set es" for x
    using that Cons.prems by (auto simp: mts.get_put image_iff)
  have step: "apply_changed env e (mgr, rows, paths) =
      (?mgr, rows @ [torrent_to_row env (changed_mt mgr e)], paths @ [''__all__/'' @ entry_key e])"
    using Cons.prems by (auto simp: apply_changed_def Let_def)
  have "fold (\<lambda>e. insert_mt (entry_key e) (changed_mt ?mgr e)) es ?mgr =
      fold (\<lambda>e. insert_mt (entry_key e) (changed_mt mgr e)) es ?mgr"
    by (rule fold_cong) (simp_all add: other)
  moreover have "map (\<lambda>e. torrent_to_row env (changed_mt ?mgr e)) es = map (\<lambda>e. torrent_to_row env (changed_mt mgr e)) es"
    by (simp add: other)
  moreover have "\<forall>x \<in> set es. get_mt ?mgr (entry_key x) \<noteq> None" using other Cons.prems by simp
  moreover have "distinct (map entry_key es)" using Cons.prems by simp
  ultimately show ?case by (simp add: step Cons.IH)
qed simp

lemma apply_removed_step:
  assumes "apply_removed j (mgr, rows, paths) = (mgr1, rows1, paths1)"
  shows "rows1 = rows \<and> tm_db mgr1 = tm_db mgr \<and>
    get_mt mgr1 k = (case get_mt mgr k of None \<Rightarrow> None
      | Some m \<Rightarrow> if k = j \<and> mt_state m \<noteq> UnderRepair then None else Some m)"
  using assms
  by (auto simp: apply_removed_def skip_local_remove_for_state_def notify_torrent_removed_def get_mt_def
      remove_mt_def tbl.get_del Let_def split: option.splits if_splits)

lemma fold_removed:
  assumes "fold apply_removed ks (mgr, rows, paths) = (mgr', rows', paths')"
  shows "rows' = rows \<and> tm_db mgr' = tm_db mgr \<and>
    get_mt mgr' k = (case get_mt mgr k of None \<Rightarrow> None
      | Some m \<Rightarrow> if k \<in> set ks \<and> mt_state m \<noteq> UnderRepair then None else Some m)"
  using assms
proof (induction ks arbitrary: mgr rows paths)
  case Nil
  then show ?case by (auto split: option.splits)
next
  case (Cons j ks)
  obtain mgr1 rows1 paths1 where st: "apply_removed j (mgr, rows, paths) = (mgr1, rows1, paths1)"
    by (metis prod_cases3)
  from Cons.prems st have "fold apply_removed ks (mgr1, rows1, paths1) = (mgr', rows', paths')" by simp
  from Cons.IH [OF this] apply_removed_step [OF st, of k] show ?case
    by (auto split: option.splits if_splits)
qed

text \<open>What the registry holds for a key after a refresh.\<close>

definition refreshed :: "manager \<Rightarrow> torrent list \<Rightarrow> string \<Rightarrow> managed_torrent option" where
  "refreshed mgr fresh k =
     (case map_of (fresh_map_of fresh) k of
        Some (t, ids) \<Rightarrow>
          (case get_mt mgr k of
             None \<Rightarrow> Some (added_torrent (t, sort ids))
           | Some cur \<Rightarrow> Some (if changed_entry cur t ids then changed_torrent cur (t, sort ids) else cur))
      | None \<Rightarrow>
          (case get_mt mgr k of
             None \<Rightarrow> None
           | Some m \<Rightarrow> if mt_state m = UnderRepair then Some m else None))"

lemma added_key [simp]: "mt_access_key (added_torrent e) = entry_key e"
  by (simp add: added_torrent_def split: prod.split)

lemma changed_key [simp]: "mt_access_key (changed_torrent m e) = entry_key e"
  by (simp add: changed_torrent_def Let_def split: prod.split)

text \<open>The entries of the difference, looked up by key.\<close>

lemma diff_added_eq:
  "df_added (diff (tm_torrents mgr) fresh) =
   map (\<lambda>(_, t, ids). (t, sort ids)) (filter (\<lambda>(k, _). get_mt mgr k = None) (fresh_map_of fresh))"
  by (simp add: diff_def Let_def get_mt_def)

lemma diff_changed_eq:
  "df_changed (diff (tm_torrents mgr) fresh) = map (\<lambda>(_, t, ids). (t, sort ids)) (filter (\<lambda>(k, t, ids).
      case get_mt mgr k of None \<Rightarrow> False | Some cur \<Rightarrow> changed_entry cur t ids) (fresh_map_of fresh))"
  by (simp add: diff_def Let_def get_mt_def)

lemma diff_removed_set:
  "set (df_removed_keys (diff (tm_torrents mgr) fresh)) =
   {k. get_mt mgr k \<noteq> None \<and> map_of (fresh_map_of fresh) k = None}"
  by (auto simp: diff_def Let_def get_mt_def map_of_eq_None_iff image_iff dest: map_of_SomeD)

lemma diff_added_distinct: "distinct (map entry_key (df_added (diff (tm_torrents (mgr :: manager)) fresh)))"
  unfolding diff_added_eq using distinct_entries [OF fresh_map_ok] by (simp only: comp_def)

lemma diff_changed_distinct: "distinct (map entry_key (df_changed (diff (tm_torrents (mgr :: manager)) fresh)))"
  unfolding diff_changed_eq using distinct_entries [OF fresh_map_ok] by (simp only: comp_def)

lemma diff_added_map:
  "map_of (map (\<lambda>e. (entry_key e, e)) (df_added (diff (tm_torrents mgr) fresh))) k =
   (case map_of (fresh_map_of fresh) k of None \<Rightarrow> None
    | Some (t, ids) \<Rightarrow> if get_mt mgr k = None then Some (t, sort ids) else None)"
  using map_of_entries [OF fresh_map_ok] unfolding diff_added_eq entry_by_key_def
  by (simp split: option.splits prod.splits)

lemma diff_changed_map:
  "map_of (map (\<lambda>e. (entry_key e, e)) (df_changed (diff (tm_torrents mgr) fresh))) k =
   (case map_of (fresh_map_of fresh) k of None \<Rightarrow> None
    | Some (t, ids) \<Rightarrow> if (case get_mt mgr k of None \<Rightarrow> False | Some cur \<Rightarrow> changed_entry cur t ids)
        then Some (t, sort ids) else None)"
  using map_of_entries [OF fresh_map_ok] unfolding diff_changed_eq entry_by_key_def
  by (simp split: option.splits prod.splits)

lemma diff_changed_known: "e \<in> set (df_changed (diff (tm_torrents mgr) fresh)) \<Longrightarrow> get_mt mgr (entry_key e) \<noteq> None"
  using fm_key [OF fresh_map_ok] unfolding diff_changed_eq by (auto split: option.splits)

lemma diff_added_new: "e \<in> set (df_added (diff (tm_torrents mgr) fresh)) \<Longrightarrow> get_mt mgr (entry_key e) = None"
  using fm_key [OF fresh_map_ok] unfolding diff_added_eq by auto

lemmas diff_maps = diff_added_map diff_changed_map

lemma tm_db_fold_insert: "tm_db (fold (\<lambda>e. insert_mt (f e) (h e)) es m) = tm_db m"
  by (induction es arbitrary: m) simp_all

lemma by_key_None: "map_of (map (\<lambda>e. (kf e, e)) es) k = None \<longleftrightarrow> k \<notin> kf ` set es"
  by (simp add: map_of_eq_None_iff image_image)

lemma by_key_Some: "map_of (map (\<lambda>e. (kf e, e)) es) k = Some e \<Longrightarrow> e \<in> set es \<and> kf e = k"
  by (drule map_of_SomeD) auto

text \<open>The manager after the loops over the added and the changed torrents, and the torrents they stored.\<close>

lemma apply_diff_parts:
  fixes fresh :: "torrent list" and mgr :: manager
  defines "df \<equiv> diff (tm_torrents mgr) fresh"
  assumes run: "apply_diff env df mgr = (mgr', rows, paths)"
  obtains m1 m2 where
    "\<And>k. get_mt m1 k = (case map_of (map (\<lambda>e. (entry_key e, e)) (df_added df)) k of None \<Rightarrow> get_mt mgr k
       | Some e \<Rightarrow> Some (added_torrent e))"
    and "\<And>k. get_mt m2 k = (case map_of (map (\<lambda>e. (entry_key e, e)) (df_changed df)) k of None \<Rightarrow> get_mt m1 k
       | Some e \<Rightarrow> Some (changed_mt m1 e))"
    and "rows = map (torrent_to_row env) (map added_torrent (df_added df) @ map (changed_mt m1) (df_changed df))"
    and "tm_db mgr' = tm_db mgr"
    and "\<And>k. get_mt mgr' k = (case get_mt m2 k of None \<Rightarrow> None
       | Some m \<Rightarrow> if k \<in> set (df_removed_keys df) \<and> mt_state m \<noteq> UnderRepair then None else Some m)"
proof -
  define m1 where "m1 = fold (\<lambda>e. insert_mt (entry_key e) (added_torrent e)) (df_added df) mgr"
  define m2 where "m2 = fold (\<lambda>e. insert_mt (entry_key e) (changed_mt m1 e)) (df_changed df) m1"
  have dA: "distinct (map entry_key (df_added df))" unfolding df_def by (rule diff_added_distinct)
  have dC: "distinct (map entry_key (df_changed df))" unfolding df_def by (rule diff_changed_distinct)
  note g1 = fold_insert_get [OF dA, of added_torrent mgr, folded m1_def]
  note g2 = fold_insert_get [OF dC, of "changed_mt m1" m1, folded m2_def]
  have "get_mt m1 (entry_key e) \<noteq> None" if "e \<in> set (df_changed df)" for e
    using diff_changed_known [OF that [unfolded df_def]] by (auto simp: g1 split: option.splits)
  then have two: "fold (apply_changed env) (df_changed df) (fold (apply_added env) (df_added df) (mgr, [], [])) =
      (m2, map (torrent_to_row env) (map added_torrent (df_added df) @ map (changed_mt m1) (df_changed df)),
       map (\<lambda>e. ''__all__/'' @ entry_key e) (df_added df @ df_changed df))"
    unfolding fold_added m1_def [symmetric] m2_def by (subst fold_changed [OF dC]) auto
  note rm = fold_removed [OF run [unfolded apply_diff_def two]]
  show ?thesis
    by (rule that [of m1 m2]) (use g1 g2 rm in \<open>simp_all add: m1_def m2_def tm_db_fold_insert\<close>)
qed

lemma apply_diff_get:
  assumes "apply_diff env (diff (tm_torrents mgr) fresh) mgr = (mgr', rows, paths)"
  shows "get_mt mgr' k = refreshed mgr fresh k"
proof (rule apply_diff_parts [OF assms])
  fix m1 m2
  assume g1: "\<And>k. get_mt m1 k = (case map_of (map (\<lambda>e. (entry_key e, e)) (df_added (diff (tm_torrents mgr) fresh))) k of
      None \<Rightarrow> get_mt mgr k | Some e \<Rightarrow> Some (added_torrent e))"
    and g2: "\<And>k. get_mt m2 k = (case map_of (map (\<lambda>e. (entry_key e, e)) (df_changed (diff (tm_torrents mgr) fresh))) k of
      None \<Rightarrow> get_mt m1 k | Some e \<Rightarrow> Some (changed_mt m1 e))"
    and fin: "\<And>k. get_mt mgr' k = (case get_mt m2 k of None \<Rightarrow> None
       | Some m \<Rightarrow> if k \<in> set (df_removed_keys (diff (tm_torrents mgr) fresh)) \<and> mt_state m \<noteq> UnderRepair
           then None else Some m)"
  have key: "torrent_key t = k" if "map_of (fresh_map_of fresh) k = Some (t, ids)" for t ids
    using fresh_map_ok [of fresh] that by (simp add: fresh_ok_def)
  show ?thesis
  proof (cases "map_of (fresh_map_of fresh) k")
    case None
    then have "get_mt m2 k = get_mt mgr k" by (simp add: g2 g1 diff_maps)
    with None show ?thesis by (auto simp: fin diff_removed_set refreshed_def split: option.splits)
  next
    case (Some e)
    obtain t ids where e: "e = (t, ids)" by (cases e)
    have "get_mt mgr' k = get_mt m2 k" using Some by (simp add: fin diff_removed_set split: option.splits)
    with Some e key [of t ids] show ?thesis
      by (auto simp: refreshed_def g2 diff_maps) (auto simp: g1 diff_maps split: option.splits)
  qed
qed

lemma apply_diff_rows:
  assumes "apply_diff env (diff (tm_torrents mgr) fresh) mgr = (mgr', rows, paths)"
  shows "tm_db mgr' = tm_db mgr \<and> (\<exists>ms. rows = map (torrent_to_row env) ms \<and> distinct (map mt_access_key ms) \<and>
      (\<forall>k m. get_mt mgr' k = Some m \<longrightarrow>
        (m \<in> set ms \<and> mt_access_key m = k) \<or> (k \<notin> mt_access_key ` set ms \<and> get_mt mgr k = Some m)))"
proof (rule apply_diff_parts [OF assms])
  let ?A = "df_added (diff (tm_torrents mgr) fresh)" and ?C = "df_changed (diff (tm_torrents mgr) fresh)"
  fix m1 m2
  assume g1: "\<And>k. get_mt m1 k = (case map_of (map (\<lambda>e. (entry_key e, e)) ?A) k of
      None \<Rightarrow> get_mt mgr k | Some e \<Rightarrow> Some (added_torrent e))"
    and g2: "\<And>k. get_mt m2 k = (case map_of (map (\<lambda>e. (entry_key e, e)) ?C) k of
      None \<Rightarrow> get_mt m1 k | Some e \<Rightarrow> Some (changed_mt m1 e))"
    and rows: "rows = map (torrent_to_row env) (map added_torrent ?A @ map (changed_mt m1) ?C)"
    and db: "tm_db mgr' = tm_db mgr"
    and fin: "\<And>k. get_mt mgr' k = (case get_mt m2 k of None \<Rightarrow> None
       | Some m \<Rightarrow> if k \<in> set (df_removed_keys (diff (tm_torrents mgr) fresh)) \<and> mt_state m \<noteq> UnderRepair
           then None else Some m)"
  let ?ms = "map added_torrent ?A @ map (changed_mt m1) ?C"
  have ks: "map mt_access_key ?ms = map entry_key ?A @ map entry_key ?C" by simp
  have "set (map entry_key ?A) \<inter> set (map entry_key ?C) = {}"
    using diff_added_new [of _ mgr fresh] diff_changed_known [of _ mgr fresh] by (auto simp del: not_None_eq) metis
  then have dist: "distinct (map mt_access_key ?ms)"
    unfolding ks distinct_append using diff_added_distinct diff_changed_distinct by blast
  have "(m \<in> set ?ms \<and> mt_access_key m = k) \<or> (k \<notin> mt_access_key ` set ?ms \<and> get_mt mgr k = Some m)"
    if "get_mt mgr' k = Some m" for k m
  proof -
    have m2: "get_mt m2 k = Some m" using that by (auto simp: fin split: option.splits if_splits)
    show ?thesis
    proof (cases "map_of (map (\<lambda>e. (entry_key e, e)) ?C) k")
      case (Some e)
      with m2 have "m = changed_mt m1 e" by (simp add: g2)
      with by_key_Some [OF Some] have "m \<in> set ?ms \<and> mt_access_key m = k" by auto
      then show ?thesis ..
    next
      case noC: None
      with m2 have m1: "get_mt m1 k = Some m" by (simp add: g2)
      show ?thesis
      proof (cases "map_of (map (\<lambda>e. (entry_key e, e)) ?A) k")
        case (Some e)
        with m1 have "m = added_torrent e" by (simp add: g1)
        with by_key_Some [OF Some] have "m \<in> set ?ms \<and> mt_access_key m = k" by auto
        then show ?thesis ..
      next
        case None
        with m1 have "get_mt mgr k = Some m" by (simp add: g1)
        moreover have "k \<notin> mt_access_key ` set ?ms"
          using None noC by (simp add: by_key_None image_Un image_image)
        ultimately show ?thesis by blast
      qed
    qed
  qed
  with rows db dist show ?thesis by blast
qed

lemma sync_library_noop:
  assumes "df_added (diff (tm_torrents mgr) fresh) = []" "df_removed_keys (diff (tm_torrents mgr) fresh) = []"
    "df_changed (diff (tm_torrents mgr) fresh) = []"
  shows "refreshed mgr fresh k = get_mt mgr k"
proof -
  have "map_of (fresh_map_of fresh) k = None \<or> get_mt mgr k \<noteq> None"
    using diff_added_map [of mgr fresh k] assms(1) by (auto split: option.splits if_splits)
  moreover have "\<not> (get_mt mgr k \<noteq> None \<and> map_of (fresh_map_of fresh) k = None)"
    using diff_removed_set [of mgr fresh] assms(2) by auto
  moreover have "\<not> changed_entry cur t ids" if "map_of (fresh_map_of fresh) k = Some (t, ids)" "get_mt mgr k = Some cur" for t ids cur
    using diff_changed_map [of mgr fresh k] assms(3) that by (auto split: if_splits)
  ultimately show ?thesis by (auto simp: refreshed_def split: option.splits)
qed

lemma get_mt_save_rows: "save_rows env rows mgr = (r, mgr') \<Longrightarrow> get_mt mgr' = get_mt mgr"
  by (auto simp: save_rows_def split: prod.splits)

lemma sync_library_get: "get_mt (snd (sync_library env fresh mgr)) k = refreshed mgr fresh k"
proof -
  let ?df = "diff (tm_torrents mgr) fresh"
  obtain mgr1 rows paths where ad: "apply_diff env ?df mgr = (mgr1, rows, paths)" by (metis prod_cases3)
  show ?thesis
  proof (cases "df_added ?df = [] \<and> df_removed_keys ?df = [] \<and> df_changed ?df = []")
    case True
    then show ?thesis using sync_library_noop [of mgr fresh k] by (simp add: sync_library_def Let_def)
  next
    case False
    with apply_diff_get [OF ad, of k] show ?thesis
      by (auto simp: sync_library_def Let_def ad split: prod.splits sum.splits if_splits dest: get_mt_save_rows)
  qed
qed

lemma mirrors_sync_library:
  assumes "env_ok env" and "mirrors (te_json env) mgr"
  shows "mirrors (te_json env) (snd (sync_library env fresh mgr))"
proof -
  let ?df = "diff (tm_torrents mgr) fresh"
  obtain mgr1 rows paths where ad: "apply_diff env ?df mgr = (mgr1, rows, paths)" by (metis prod_cases3)
  obtain ms where ms: "rows = map (torrent_to_row env) ms" "distinct (map mt_access_key ms)" "tm_db mgr1 = tm_db mgr"
    "\<And>k m. get_mt mgr1 k = Some m \<Longrightarrow>
        (m \<in> set ms \<and> mt_access_key m = k) \<or> (k \<notin> mt_access_key ` set ms \<and> get_mt mgr k = Some m)"
    using apply_diff_rows [OF ad] by blast
  have saved: "mirrors (te_json env) (snd (save_rows env rows mgr1))"
    unfolding ms(1) by (rule mirrors_saved [OF assms ms(3,2,4)])
  have "mirrors (te_json env) mgr1" if "rows = []"
  proof -
    from that ms(1) have "ms = []" by simp
    with ms(4) have "get_mt mgr1 k = Some m \<Longrightarrow> get_mt mgr k = Some m" for k m by auto
    with assms(2) ms(3) show ?thesis by (simp add: mirrors_def)
  qed
  with saved assms(2) show ?thesis
    by (auto simp: sync_library_def Let_def ad split: prod.splits sum.splits)
qed

section \<open>The machine of the manager\<close>

datatype mgr_event =
    UpdateState string torrent_state "string option"
  | MarkBroken string string
  | Snapshot managed_torrent
  | ReplaceIds string "string list"
  | InfoLoaded string managed_torrent torrent_info
  | Enqueue string
  | EnqueueAll enqueue_options
  | EnqueueFront string bool
  | PopQueue
  | Subscribe string
  | DropReceiver nat
  | FatalBegin string string
  | FatalEnd string string
  | Sync "torrent list"

fun mgr_op :: "tm_env \<Rightarrow> mgr_event \<Rightarrow> manager \<Rightarrow> manager" where
  "mgr_op env (UpdateState k st r) mgr = snd (update_torrent_state env k st r mgr)"
| "mgr_op env (MarkBroken k p) mgr = snd (mark_file_broken env k p mgr)"
| "mgr_op env (Snapshot m) mgr = snd (persist_torrent_snapshot env m mgr)"
| "mgr_op env (ReplaceIds k ids) mgr = snd (replace_rd_ids_after_repair env k ids mgr)"
| "mgr_op env (InfoLoaded k m info) mgr = snd (ensure_finish k m info mgr)"
| "mgr_op env (Enqueue k) mgr = enqueue_repair k mgr"
| "mgr_op env (EnqueueAll opts) mgr = enqueue_repair_all env opts mgr"
| "mgr_op env (EnqueueFront k c) mgr = enqueue_repair_front env k c mgr"
| "mgr_op env PopQueue mgr = mgr\<lparr>tm_repair_queue := tl (tm_repair_queue mgr)\<rparr>"
| "mgr_op env (Subscribe k) mgr = snd (subscribe_repair_state env k mgr)"
| "mgr_op env (DropReceiver ch) mgr = receiver_drop ch mgr"
| "mgr_op env (FatalBegin k p) mgr = snd (fuse_begin_fatal_read_repair k p mgr)"
| "mgr_op env (FatalEnd k p) mgr = fuse_end_fatal_read_repair k p mgr"
| "mgr_op env (Sync fresh) mgr = snd (sync_library env fresh mgr)"

text \<open>An event happens at a time.\<close>

definition mgr_step :: "tm_env \<Rightarrow> i64 \<times> mgr_event \<Rightarrow> manager \<Rightarrow> manager" where
  "mgr_step env e mgr = mgr_op (env\<lparr>te_now := fst e\<rparr>) (snd e) mgr"

definition mgr_inv :: "tm_env \<Rightarrow> manager \<Rightarrow> bool" where
  "mgr_inv env mgr \<longleftrightarrow> (env_ok env \<longrightarrow> mirrors (te_json env) mgr) \<and> distinct (tm_repair_queue mgr)"

lemma queue_save_rows [simp]: "tm_repair_queue (snd (save_rows env rows mgr)) = tm_repair_queue mgr"
  by (simp add: save_rows_def split: prod.split)

lemma queue_insert_mt [simp]: "tm_repair_queue (insert_mt k m mgr) = tm_repair_queue mgr"
  by (simp add: insert_mt_def)

lemma queue_trigger [simp]: "tm_repair_queue (trigger_library_update ps mgr) = tm_repair_queue mgr"
  by (simp add: trigger_library_update_def)

lemma queue_channel_send [simp]: "tm_repair_queue (channel_send env ch v mgr) = tm_repair_queue mgr"
  by (simp add: channel_send_def Let_def)

lemma queue_update_torrent_state [simp]:
  "tm_repair_queue (snd (update_torrent_state env k st r mgr)) = tm_repair_queue mgr"
proof (cases "get_mt mgr k")
  case (Some m)
  let ?m = "restated env st r m"
  have "tm_repair_queue (snd (save_rows env [torrent_to_row env ?m] (insert_mt k ?m mgr))) = tm_repair_queue mgr" by simp
  then show ?thesis
    by (auto simp: update_torrent_state_def Some Let_def simp del: queue_save_rows split: prod.splits sum.splits option.splits)
qed (simp add: update_torrent_state_def)

lemma queue_fold_clear: "tm_repair_queue (fold (clear_unrepairable env) ks mgr) = tm_repair_queue mgr"
  by (induction ks arbitrary: mgr) (auto simp: clear_unrepairable_def)

lemma queue_subscribe: "tm_repair_queue (snd (subscribe_repair_state env k mgr)) = tm_repair_queue mgr"
  by (auto simp: subscribe_repair_state_def channel_of_def Let_def split: option.splits prod.splits)

lemma queue_fold_removed: "tm_repair_queue (fst (fold apply_removed ks acc)) = tm_repair_queue (fst acc)"
  by (induction ks arbitrary: acc)
    (auto simp: apply_removed_def remove_mt_def notify_torrent_removed_def Let_def split: option.splits prod.splits)

lemma queue_fold_changed: "tm_repair_queue (fst (fold (apply_changed env) es acc)) = tm_repair_queue (fst acc)"
  by (induction es arbitrary: acc) (auto simp: apply_changed_def Let_def split: option.splits prod.splits)

lemma queue_fold_added: "tm_repair_queue (fst (fold (apply_added env) es acc)) = tm_repair_queue (fst acc)"
  by (induction es arbitrary: acc) (auto simp: apply_added_def Let_def split: prod.splits)

lemmas fold_refresh_queue = queue_fold_removed queue_fold_changed queue_fold_added

lemma queue_sync_library: "tm_repair_queue (snd (sync_library env fresh mgr)) = tm_repair_queue mgr"
proof -
  obtain mgr1 rows paths where ad: "apply_diff env (diff (tm_torrents mgr) fresh) mgr = (mgr1, rows, paths)"
    by (metis prod_cases3)
  then have q: "tm_repair_queue mgr1 = tm_repair_queue mgr"
    using fold_refresh_queue by (metis apply_diff_def fst_conv)
  have "tm_repair_queue (snd (save_rows env rows mgr1)) = tm_repair_queue mgr" using q by simp
  then show ?thesis
    using q by (auto simp: sync_library_def Let_def ad simp del: queue_save_rows split: prod.splits sum.splits)
qed

lemma distinct_push_back: "distinct q \<Longrightarrow> distinct (push_back k q)"
  by (simp add: push_back_def)

lemma distinct_fold_push_back: "distinct q \<Longrightarrow> distinct (fold push_back ks q)"
  by (induction ks arbitrary: q) (simp_all add: distinct_push_back)

lemma queue_step: "distinct (tm_repair_queue mgr) \<Longrightarrow> distinct (tm_repair_queue (mgr_op env e mgr))"
proof (induction e)
  case (InfoLoaded k m info)
  then show ?case by (simp add: ensure_finish_def split: option.split)
qed (auto simp: mark_file_broken_def persist_torrent_snapshot_def replace_rd_ids_after_repair_def Let_def
    enqueue_repair_def enqueue_repair_all_def enqueue_repair_front_def distinct_push_back distinct_fold_push_back
    queue_fold_clear queue_subscribe queue_sync_library receiver_drop_def fuse_begin_fatal_read_repair_def
    fuse_end_fatal_read_repair_def distinct_tl split: option.splits)

lemma mirrors_quiet:
  "mirrors J (mgr\<lparr>tm_repair_queue := q\<rparr>) = mirrors J mgr" "mirrors J (mgr\<lparr>tm_channels := cs\<rparr>) = mirrors J mgr"
  "mirrors J (mgr\<lparr>tm_fatal_locks := ls\<rparr>) = mirrors J mgr"
  by (rule mirrors_cong; simp add: get_mt_def fun_eq_iff)+

lemma mirrors_step: "env_ok env \<Longrightarrow> mirrors (te_json env) mgr \<Longrightarrow> mirrors (te_json env) (mgr_op env e mgr)"
  by (cases e) (auto simp: mirror_ops mirrors_sync_library enqueue_repair_def receiver_drop_def mirrors_quiet
      fuse_begin_fatal_read_repair_def fuse_end_fatal_read_repair_def)

interpretation tmg: invariant_machine "mgr_step env" "mgr_inv env"
proof
  fix mgr and e :: "i64 \<times> mgr_event"
  assume inv: "mgr_inv env mgr"
  let ?env = "env\<lparr>te_now := fst e\<rparr>"
  have "env_ok ?env = env_ok env" by (simp add: env_ok_def)
  with inv mirrors_step [of ?env mgr "snd e"] queue_step [of mgr ?env "snd e"]
  show "mgr_inv env (mgr_step env e mgr)" by (auto simp: mgr_inv_def mgr_step_def)
qed

lemma manager_new_queue: "manager_new env ok d = Inr mgr \<Longrightarrow> tm_repair_queue mgr = []"
proof -
  have "tm_repair_queue (fold (\<lambda>row. insert_mt (tr_access_key row) (loaded_torrent env row)) rows mgr) = tm_repair_queue mgr"
    for rows mgr by (induction rows arbitrary: mgr) simp_all
  then show "manager_new env ok d = Inr mgr \<Longrightarrow> tm_repair_queue mgr = []"
    by (auto simp: manager_new_def load_from_db_def split: sum.splits)
qed

section \<open>Properties\<close>

text \<open>C8: as long as database writes succeed, every operation of the manager keeps memory and database in
  step: after any sequence of state changes, file marks, snapshots, id replacements, queue operations
  and refreshes, a restart reads back every torrent in memory with its ids, state, reason, times and
  file states, and the repair queue never holds a key twice.\<close>

theorem restart_restores_library:
  assumes "env_ok env" and "db_wf d" and "manager_new env True d = Inr mgr0"
    and "get_mt (fold (mgr_step env) es mgr0) k = Some m"
  shows "(\<exists>mgr' m'. manager_new env True (tm_db (fold (mgr_step env) es mgr0)) = Inr mgr' \<and>
      get_mt mgr' k = Some m' \<and> same_after_restart m m') \<and>
    distinct (tm_repair_queue (fold (mgr_step env) es mgr0))"
proof -
  have "tm_repair_queue mgr0 = []" by (rule manager_new_queue [OF assms(3)])
  then have "mgr_inv env mgr0" using mirrors_manager_new [OF assms(2,3)] by (simp add: mgr_inv_def)
  then have inv: "mgr_inv env (fold (mgr_step env) es mgr0)" by (rule tmg.run_inv)
  then have "mirrors (te_json env) (fold (mgr_step env) es mgr0)" using assms(1) by (simp add: mgr_inv_def)
  from mirrors_restart [OF this assms(4)] inv show ?thesis by (simp add: mgr_inv_def)
qed

definition demo_torrent :: torrent where
  "demo_torrent = \<lparr>t_id = ''Z'', t_name = ''n'', t_hash = ''h'', t_progress = 100, t_status = ''downloaded'',
     t_links = [], t_added = 0\<rparr>"

theorem restart_restores_library_witness:
  "\<exists>mgr' m'. manager_new demo_tm_env True (tm_db (fold (mgr_step demo_tm_env)
       [(7, MarkBroken ''h/n'' ''/a.mkv''), (9, UpdateState ''h/n'' UnderRepair None)] demo_mgr)) = Inr mgr' \<and>
     get_mt mgr' ''h/n'' = Some m' \<and> mt_state m' = UnderRepair \<and> mt_under_repair_started_at m' = Some 9 \<and>
     map_option map_of (mt_file_states m') = Some [''/a.mkv'' \<mapsto> ''broken'']"
proof -
  let ?es = "[(7, MarkBroken ''h/n'' ''/a.mkv''), (9, UpdateState ''h/n'' UnderRepair None)]"
  have "map_option (\<lambda>m. (mt_state m, mt_under_repair_started_at m, mt_file_states m))
      (get_mt (fold (mgr_step demo_tm_env) ?es demo_mgr) ''h/n'') =
      Some (UnderRepair, Some 9, Some [(''/a.mkv'', ''broken'')])"
    by code_simp
  then obtain m where m: "get_mt (fold (mgr_step demo_tm_env) ?es demo_mgr) ''h/n'' = Some m"
    and "mt_state m = UnderRepair" "mt_under_repair_started_at m = Some 9" "mt_file_states m = Some [(''/a.mkv'', ''broken'')]"
    by auto
  with restart_restores_library [OF demo_tm_env_ok demo_db_wf demo_mgr_new m] show ?thesis
    by (auto simp: same_after_restart_def)
qed

lemma changed_entry_fresh:
  "\<not> changed_entry (added_torrent (t, sort ids)) t ids" "\<not> changed_entry (changed_torrent m (t, sort ids)) t ids"
  by (auto simp: changed_entry_def added_torrent_def changed_torrent_def Let_def list_ex_iff)

lemma refreshed_twice:
  assumes "\<And>k. get_mt mgr' k = refreshed mgr fresh k"
  shows "refreshed mgr' fresh k = get_mt mgr' k"
  using changed_entry_fresh by (auto simp: assms refreshed_def split: option.splits if_splits)

text \<open>The ids of a torrent with the key among the fresh ones, when the entry did not change.\<close>

lemma unchanged_ids:
  assumes "\<not> changed_entry cur t ids" and "distinct (mt_rd_ids cur)" and "distinct ids"
  shows "set (mt_rd_ids cur) = set ids"
proof (rule card_subset_eq)
  show "set (mt_rd_ids cur) \<subseteq> set ids" using assms(1) by (auto simp: changed_entry_def list_ex_iff)
  show "card (set (mt_rd_ids cur)) = card (set ids)"
    using assms by (simp add: changed_entry_def distinct_card)
qed simp

text \<open>What a refresh leaves under the keys of the listing and under the others.\<close>

lemma sync_listed:
  assumes "\<forall>k m. get_mt mgr k = Some m \<longrightarrow> distinct (mt_rd_ids m)"
    and "sync_library env fresh mgr = (r, mgr')" and "k \<in> torrent_key ` set fresh"
  shows "\<exists>m t. get_mt mgr' k = Some m \<and> set (mt_rd_ids m) = ids_for k fresh \<and>
      t \<in> set fresh \<and> torrent_key t = k \<and> (\<forall>x \<in> set fresh. torrent_key x = k \<longrightarrow> t_progress x \<le> t_progress t) \<and>
      t_status (mt_torrent m) = t_status t \<and> t_progress (mt_torrent m) = t_progress t"
proof -
  have g: "get_mt mgr' j = refreshed mgr fresh j" for j using sync_library_get [of env fresh mgr j] assms(2) by simp
  note ok = fresh_map_ok [of fresh, unfolded fresh_ok_def]
  have "map_of (fresh_map_of fresh) k \<noteq> None" using ok assms(3) by blast
  then obtain t ids where e: "map_of (fresh_map_of fresh) k = Some (t, ids)" by fast
  with ok have t: "t \<in> set fresh" "torrent_key t = k" "distinct ids" "set ids = ids_for k fresh"
    "\<forall>x \<in> set fresh. torrent_key x = k \<longrightarrow> t_progress x \<le> t_progress t" by blast+
  show ?thesis
  proof (cases "\<exists>cur. get_mt mgr k = Some cur \<and> \<not> changed_entry cur t ids")
    case True
    then obtain cur where cur: "get_mt mgr k = Some cur" "\<not> changed_entry cur t ids" by blast
    with e have "get_mt mgr' k = Some cur" by (simp add: g refreshed_def)
    moreover have "set (mt_rd_ids cur) = set ids" using cur assms(1) t(3) by (intro unchanged_ids) auto
    moreover have "t_status (mt_torrent cur) = t_status t" "t_progress (mt_torrent cur) = t_progress t"
      using cur(2) by (simp_all add: changed_entry_def)
    ultimately show ?thesis using t by auto
  next
    case False
    then obtain m where "get_mt mgr' k = Some m" "mt_rd_ids m = sort ids" "mt_torrent m = t"
      using e by (cases "get_mt mgr k") (auto simp: g refreshed_def added_torrent_def changed_torrent_def Let_def)
    with t show ?thesis by auto
  qed
qed

lemma sync_unlisted:
  assumes "sync_library env fresh mgr = (r, mgr')" and "k \<notin> torrent_key ` set fresh"
  shows "get_mt mgr' k = (case get_mt mgr k of Some m \<Rightarrow> if mt_state m = UnderRepair then Some m else None | None \<Rightarrow> None)"
proof -
  have "map_of (fresh_map_of fresh) k = None" using fresh_map_ok [of fresh, unfolded fresh_ok_def] assms(2) by blast
  with sync_library_get [of env fresh mgr k] assms(1) show ?thesis by (simp add: refreshed_def split: option.split)
qed

lemma demo_mgr_get: "get_mt demo_mgr k = (if k = ''h/n'' then Some (loaded_torrent demo_tm_env (demo_row ''h/n'' Broken)) else None)"
proof -
  have "read_row demo_json demo_db k = (if k = ''h/n'' then Some (demo_row ''h/n'' Broken) else None)"
    using row_to_torrent_sql [OF demo_json_law, of "demo_row ''h/n'' Broken"]
    by (auto simp: read_row_def demo_db_def demo_row_def)
  moreover have "get_mt demo_mgr k = map_option (loaded_torrent demo_tm_env) (read_row (te_json demo_tm_env) demo_db k)"
    by (rule manager_new_get [OF demo_db_wf, of demo_tm_env]) (simp add: demo_mgr_new)
  moreover have "te_json demo_tm_env = demo_json" by (simp add: demo_tm_env_def)
  ultimately show ?thesis by simp
qed

lemma demo_mgr_ids: "\<forall>k m. get_mt demo_mgr k = Some m \<longrightarrow> distinct (mt_rd_ids m)"
  by (auto simp: demo_mgr_get loaded_torrent_def demo_row_def)

text \<open>C20: a refresh makes the registry agree with the listing. Every listed key is present with exactly
  the ids listed under it and the status and progress of the most advanced of them; a key that is not
  listed is gone unless its torrent is under repair; the health of a torrent that was there is kept;
  and a second refresh with the same listing changes nothing.\<close>

theorem refresh_converges:
  assumes "\<And>k m. get_mt mgr k = Some m \<Longrightarrow> distinct (mt_rd_ids m)"
    and "sync_library env fresh mgr = (r, mgr')"
  shows "(k \<in> torrent_key ` set fresh \<longrightarrow> (\<exists>m t. get_mt mgr' k = Some m \<and> set (mt_rd_ids m) = ids_for k fresh \<and>
      t \<in> set fresh \<and> torrent_key t = k \<and> (\<forall>x \<in> set fresh. torrent_key x = k \<longrightarrow> t_progress x \<le> t_progress t) \<and>
      t_status (mt_torrent m) = t_status t \<and> t_progress (mt_torrent m) = t_progress t)) \<and>
    (k \<notin> torrent_key ` set fresh \<longrightarrow> get_mt mgr' k =
      (case get_mt mgr k of Some m \<Rightarrow> if mt_state m = UnderRepair then Some m else None | None \<Rightarrow> None)) \<and>
    (get_mt mgr k = Some m \<and> get_mt mgr' k = Some m' \<longrightarrow> mt_state m' = mt_state m \<and>
      mt_unrepairable_reason m' = mt_unrepairable_reason m \<and> mt_file_states m' = mt_file_states m \<and>
      mt_last_repaired_at m' = mt_last_repaired_at m) \<and>
    get_mt (snd (sync_library env2 fresh mgr')) = get_mt mgr'"
proof -
  have g: "get_mt mgr' j = refreshed mgr fresh j" for j using sync_library_get [of env fresh mgr j] assms(2) by simp
  have 3: "mt_state m' = mt_state m \<and> mt_unrepairable_reason m' = mt_unrepairable_reason m \<and>
      mt_file_states m' = mt_file_states m \<and> mt_last_repaired_at m' = mt_last_repaired_at m"
    if "get_mt mgr k = Some m" "get_mt mgr' k = Some m'"
    using that by (auto simp: g refreshed_def changed_torrent_def Let_def split: option.splits if_splits)
  have 4: "get_mt (snd (sync_library env2 fresh mgr')) = get_mt mgr'"
    using refreshed_twice [OF g] by (auto simp: sync_library_get)
  have ids: "\<forall>k m. get_mt mgr k = Some m \<longrightarrow> distinct (mt_rd_ids m)" using assms(1) by blast
  from sync_listed [OF ids assms(2), of k] sync_unlisted [OF assms(2), of k] 3 4 show ?thesis by blast
qed

theorem refresh_converges_witness:
  "\<exists>m. get_mt (snd (sync_library demo_tm_env [demo_torrent, demo_torrent\<lparr>t_id := ''Y''\<rparr>] demo_mgr)) ''h/n'' = Some m \<and>
     set (mt_rd_ids m) = {''Y'', ''Z''}"
proof -
  let ?fresh = "[demo_torrent, demo_torrent\<lparr>t_id := ''Y''\<rparr>]"
  have key: "torrent_key demo_torrent = ''h/n''" by code_simp
  have "distinct (mt_rd_ids m)" if "get_mt demo_mgr k = Some m" for k m using demo_mgr_ids that by blast
  moreover obtain r mgr' where run: "sync_library demo_tm_env ?fresh demo_mgr = (r, mgr')" by fastforce
  moreover have "''h/n'' \<in> torrent_key ` set ?fresh" using key by auto
  ultimately obtain m where "get_mt mgr' ''h/n'' = Some m" "set (mt_rd_ids m) = ids_for ''h/n'' ?fresh"
    using refresh_converges [of demo_mgr demo_tm_env ?fresh r mgr' "''h/n''"] by blast
  moreover have "ids_for ''h/n'' ?fresh = {''Y'', ''Z''}"
  proof -
    have "{t \<in> set ?fresh. torrent_key t = ''h/n''} = set ?fresh" using key by (auto simp: torrent_key_def)
    then show ?thesis unfolding ids_for_def by (simp add: demo_torrent_def insert_commute)
  qed
  ultimately show ?thesis using run by auto
qed

text \<open>The calls that delete a torrent on the service, as a log.\<close>

definition delete_log_api :: "string list rd_api \<Rightarrow> (string \<Rightarrow> rd_error + unit) \<Rightarrow> string list rd_api" where
  "delete_log_api rd res = rd\<lparr>api_delete_torrent := (\<lambda>i w. (res i, w @ [i]))\<rparr>"

lemma delete_unless_log:
  "delete_unless_repairing (delete_log_api rd res) mgr j w = (if rd_id_belongs_to_under_repair mgr j then w else w @ [j])"
  by (simp add: delete_unless_repairing_def delete_log_api_def)

lemma fold_delete_unless:
  "i \<in> set (fold (\<lambda>t. delete_unless_repairing (delete_log_api rd res) mgr (t_id t)) ts w) \<Longrightarrow>
   i \<in> set w \<or> (i \<in> t_id ` set ts \<and> \<not> rd_id_belongs_to_under_repair mgr i)"
proof (induction ts arbitrary: w)
  case (Cons t ts)
  from Cons.prems Cons.IH [of w] Cons.IH [of "w @ [t_id t]"] show ?case
    by (auto simp: delete_unless_log split: if_splits)
qed simp

text \<open>C24: a refresh asks the service to delete only torrents of the listing that have an error status,
  when the configuration wants it, or that are stalled downloads, and never one whose id belongs to a
  torrent under repair.\<close>

theorem refresh_deletes_only_dead:
  assumes "run_once env (delete_log_api rd res) cfg (Inr listing) mgr [] = (b, mgr', deleted)"
    and "i \<in> set deleted"
  shows "\<not> rd_id_belongs_to_under_repair mgr i \<and>
    (\<exists>t \<in> set listing. t_id t = i \<and>
      ((errored_status (t_status t) \<and> delete_error_torrents cfg) \<or>
       (t_status t = ''downloading'' \<and> t_progress t < 100 \<and>
        60 * int (max (stalled_download_mins cfg) 1) \<le> te_now env - t_added t)))"
proof -
  let ?rd = "delete_log_api rd res" and ?fresh = "filter (\<lambda>t. \<not> errored_status (t_status t)) listing"
  have d: "i \<in> set (delete_stalled env ?rd cfg mgr ?fresh (delete_errored ?rd cfg mgr listing []))"
    using assms by (auto simp: run_once_def Let_def split: prod.splits sum.splits)
  then consider "i \<in> set (delete_errored ?rd cfg mgr listing [])"
    | "\<not> rd_id_belongs_to_under_repair mgr i"
      "i \<in> t_id ` set (filter (\<lambda>t. t_status t = ''downloading'' \<and>
          is_stalled_download_from_list (te_now env) t (max (stalled_download_mins cfg) 1)) ?fresh)"
    unfolding delete_stalled_def by (auto dest!: fold_delete_unless)
  then show ?thesis
  proof cases
    case 1
    then show ?thesis by (auto simp: delete_errored_def split: if_splits dest!: fold_delete_unless)
  next
    case 2
    then show ?thesis by (auto simp: is_stalled_download_from_list_def split: if_splits)
  qed
qed

definition demo_rd :: "string list rd_api" where
  "demo_rd = \<lparr>api_unrestrict = (\<lambda>_ w. (Inl RdCancelled, w)), api_verify = (\<lambda>_ w. (Inr (), w)),
     api_delete_torrent = (\<lambda>_ w. (Inr (), w)), api_add_magnet = (\<lambda>_ w. (Inl RdCancelled, w)),
     api_select_files = (\<lambda>_ _ w. (Inr (), w)), api_torrent_info = (\<lambda>_ w. (Inl RdCancelled, w)),
     api_active_count = (\<lambda>w. (Inl [], w))\<rparr>"

theorem refresh_deletes_only_dead_witness:
  "\<not> rd_id_belongs_to_under_repair demo_mgr ''Z'' \<and> t_status (demo_torrent\<lparr>t_status := ''dead''\<rparr>) = ''dead''"
proof -
  let ?cfg = "repair_config_default\<lparr>delete_error_torrents := True\<rparr>"
  have run: "run_once demo_tm_env (delete_log_api demo_rd (\<lambda>_. Inr ())) ?cfg (Inr [demo_torrent\<lparr>t_status := ''dead''\<rparr>]) demo_mgr [] =
      (fst (run_once demo_tm_env (delete_log_api demo_rd (\<lambda>_. Inr ())) ?cfg (Inr [demo_torrent\<lparr>t_status := ''dead''\<rparr>]) demo_mgr []),
       fst (snd (run_once demo_tm_env (delete_log_api demo_rd (\<lambda>_. Inr ())) ?cfg (Inr [demo_torrent\<lparr>t_status := ''dead''\<rparr>]) demo_mgr [])),
       [''Z''])"
    by code_simp
  from refresh_deletes_only_dead [OF run, of "''Z''"] show ?thesis by simp
qed

end
