(* ===== verification/Byte_Ranges.thy ===== *)
theory Byte_Ranges
  imports Rd_Prelude
begin

text \<open>
  \<^verbatim>\<open>src/cache/bitmap.rs\<close>: \<open>ByteRanges\<close>, the sorted list of \<open>[start, end)\<close> intervals that records
  which bytes of a sparse cache file are on disk. The theory gives the operations, the
  representation invariant of the struct's comment (sorted, non-overlapping, non-adjacent), the
  set of bytes a value stands for, and the contract \<open>range_set\<close> that the cache item and the
  downloader rely on, with its interpretation.
\<close>

section \<open>The data structure\<close>

type_synonym interval = "u64 \<times> u64"

record byte_ranges =
  intervals :: "interval list"

definition ranges_new :: byte_ranges where
  "ranges_new = \<lparr>intervals = []\<rparr>"

definition ranges_len :: "byte_ranges \<Rightarrow> usize" where
  "ranges_len r = length (intervals r)"

definition ranges_is_empty :: "byte_ranges \<Rightarrow> bool" where
  "ranges_is_empty r = (intervals r = [])"

definition total_bytes :: "byte_ranges \<Rightarrow> u64" where
  "total_bytes r = fold (\<lambda>(s, e) acc. wadd64 acc (wsub64 e s)) (intervals r) 0"

text \<open>
  \<open>slice::partition_point\<close> of the standard library: the index of the first element for which the
  predicate fails, on a slice where the predicate holds for a prefix only.
\<close>

definition partition_point :: "('a \<Rightarrow> bool) \<Rightarrow> 'a list \<Rightarrow> usize" where
  "partition_point p xs = length (takeWhile p xs)"

text \<open>The \<open>while\<close> loop of \<open>insert\<close> that looks for the right bound.\<close>

function scan_right :: "interval list \<Rightarrow> u64 \<Rightarrow> usize \<Rightarrow> usize" where
  "scan_right ivs new_end r =
     (if r < length ivs \<and> fst (ivs ! r) \<le> new_end then scan_right ivs new_end (Suc r) else r)"
  by pat_completeness auto
termination
  by (relation "measure (\<lambda>(ivs, new_end, r). length ivs - r)") auto

declare scan_right.simps [simp del]

definition insert_range :: "u64 \<Rightarrow> u64 \<Rightarrow> byte_ranges \<Rightarrow> byte_ranges" where
  "insert_range start stop self =
     (if start \<ge> stop then self
      else
        (let ivs = intervals self;
             left = partition_point (\<lambda>(_, e). e < start) ivs;
             right = scan_right ivs stop left;
             (new_start, new_end) =
               (if left < right
                then (min start (fst (ivs ! left)), max stop (snd (ivs ! (right - 1))))
                else (start, stop))
         in self\<lparr>intervals := take left ivs @ [(new_start, new_end)] @ drop right ivs\<rparr>))"

definition has_range :: "byte_ranges \<Rightarrow> u64 \<Rightarrow> u64 \<Rightarrow> bool" where
  "has_range self start stop =
     (if start \<ge> stop then True
      else
        (let idx = partition_point (\<lambda>(s, _). s \<le> start) (intervals self)
         in if idx = 0 then False else snd (intervals self ! (idx - 1)) \<ge> stop))"

text \<open>The walk of \<open>find_missing\<close> over the intervals, with its cursor.\<close>

fun walk_missing :: "interval list \<Rightarrow> u64 \<Rightarrow> u64 \<Rightarrow> interval option" where
  "walk_missing [] cursor stop = Some (cursor, stop)"
| "walk_missing ((is, ie) # ivs) cursor stop =
     (if is > cursor then Some (cursor, min is stop)
      else
        (let cursor' = (if ie > cursor then ie else cursor)
         in if cursor' \<ge> stop then None else walk_missing ivs cursor' stop))"

definition find_missing :: "byte_ranges \<Rightarrow> u64 \<Rightarrow> u64 \<Rightarrow> interval option" where
  "find_missing self start stop =
     (if start \<ge> stop \<or> has_range self start stop then None
      else walk_missing (intervals self) start stop)"

definition from_intervals :: "interval list \<Rightarrow> byte_ranges" where
  "from_intervals ivs = fold (\<lambda>(s, e) out. insert_range s e out) ivs ranges_new"

section \<open>Invariant and meaning\<close>

definition ivs_inv :: "interval list \<Rightarrow> bool" where
  "ivs_inv ivs \<longleftrightarrow> (\<forall>(s, e) \<in> set ivs. s < e) \<and> sorted_wrt (\<lambda>(_, e) (s', _). e < s') ivs"

definition ranges_inv :: "byte_ranges \<Rightarrow> bool" where
  "ranges_inv r = ivs_inv (intervals r)"

definition ivs_bytes :: "interval list \<Rightarrow> nat set" where
  "ivs_bytes ivs = (\<Union>(s, e) \<in> set ivs. {s..<e})"

definition covered :: "byte_ranges \<Rightarrow> nat set" where
  "covered r = ivs_bytes (intervals r)"

lemma ivs_inv_Nil [simp]: "ivs_inv []"
  by (simp add: ivs_inv_def)

lemma ivs_inv_Cons:
  "ivs_inv ((s, e) # ivs) \<longleftrightarrow> s < e \<and> (\<forall>(s', e') \<in> set ivs. e < s') \<and> ivs_inv ivs"
  by (auto simp: ivs_inv_def)

lemma ivs_inv_append:
  "ivs_inv (xs @ ys) \<longleftrightarrow>
     ivs_inv xs \<and> ivs_inv ys \<and> (\<forall>(s, e) \<in> set xs. \<forall>(s', e') \<in> set ys. e < s')"
  by (fastforce simp: ivs_inv_def sorted_wrt_append)

lemma ivs_bytes_Nil [simp]: "ivs_bytes [] = {}"
  by (simp add: ivs_bytes_def)

lemma ivs_bytes_Cons [simp]: "ivs_bytes ((s, e) # ivs) = {s..<e} \<union> ivs_bytes ivs"
  by (simp add: ivs_bytes_def)

lemma ivs_bytes_append [simp]: "ivs_bytes (xs @ ys) = ivs_bytes xs \<union> ivs_bytes ys"
  by (simp add: ivs_bytes_def)

lemma ivs_inv_ne: "ivs_inv ivs \<Longrightarrow> (s, e) \<in> set ivs \<Longrightarrow> s < e"
  by (auto simp: ivs_inv_def)

lemma ivs_bytes_after: "x \<in> ivs_bytes ivs \<Longrightarrow> \<forall>(s, e) \<in> set ivs. b < s \<Longrightarrow> b < x"
  by (auto simp: ivs_bytes_def)

section \<open>Insertion\<close>

lemma scan_right_eq:
  "scan_right ivs b r = r + length (takeWhile (\<lambda>(s, _). s \<le> b) (drop r ivs))"
proof (induction ivs b r rule: scan_right.induct)
  case (1 ivs b r)
  show ?case
  proof (cases "r < length ivs")
    case True
    then have "drop r ivs = ivs ! r # drop (Suc r) ivs"
      by (simp add: Cons_nth_drop_Suc)
    then show ?thesis
      using "1" True by (auto simp: scan_right.simps [of ivs b r] split: prod.splits)
  next
    case False
    then show ?thesis by (simp add: scan_right.simps [of ivs b r])
  qed
qed

text \<open>
  The list insertion that \<open>insert\<close> performs, in terms of the three parts of the list: the
  intervals wholly before, those that touch the new one, and those wholly after.
\<close>

definition touching :: "u64 \<Rightarrow> u64 \<Rightarrow> interval list \<Rightarrow> interval list" where
  "touching a b ivs = takeWhile (\<lambda>(s, _). s \<le> b) (dropWhile (\<lambda>(_, e). e < a) ivs)"

definition before :: "u64 \<Rightarrow> interval list \<Rightarrow> interval list" where
  "before a ivs = takeWhile (\<lambda>(_, e). e < a) ivs"

definition after :: "u64 \<Rightarrow> u64 \<Rightarrow> interval list \<Rightarrow> interval list" where
  "after a b ivs = dropWhile (\<lambda>(s, _). s \<le> b) (dropWhile (\<lambda>(_, e). e < a) ivs)"

lemma split_three: "ivs = before a ivs @ touching a b ivs @ after a b ivs"
  by (simp add: before_def touching_def after_def)

definition merged :: "u64 \<Rightarrow> u64 \<Rightarrow> interval list \<Rightarrow> interval" where
  "merged a b m =
     (if m = [] then (a, b) else (min a (fst (hd m)), max b (snd (last m))))"

lemma insert_range_split:
  assumes "a < b"
  shows "intervals (insert_range a b r) =
    before a (intervals r) @ [merged a b (touching a b (intervals r))] @ after a b (intervals r)"
proof -
  let ?ivs = "intervals r"
  let ?l = "partition_point (\<lambda>(_, e). e < a) ?ivs"
  let ?rt = "scan_right ?ivs b ?l"
  have drop_l: "drop ?l ?ivs = dropWhile (\<lambda>(_, e). e < a) ?ivs"
    by (simp add: partition_point_def dropWhile_eq_drop)
  have rt: "?rt = ?l + length (touching a b ?ivs)"
    by (simp add: scan_right_eq drop_l touching_def)
  have take_l: "take ?l ?ivs = before a ?ivs"
    by (simp add: partition_point_def before_def flip: takeWhile_eq_take)
  have "drop ?rt ?ivs = drop (length (touching a b ?ivs)) (drop ?l ?ivs)"
    by (simp add: rt add.commute)
  then have drop_rt: "drop ?rt ?ivs = after a b ?ivs"
    by (simp add: drop_l touching_def after_def dropWhile_eq_drop)
  have mid: "drop ?l ?ivs = touching a b ?ivs @ after a b ?ivs"
    by (simp add: drop_l touching_def after_def)
  have lenl: "?l \<le> length ?ivs"
    by (simp add: partition_point_def length_takeWhile_le)
  have nth: "?ivs ! (?l + i) = touching a b ?ivs ! i" if "i < length (touching a b ?ivs)" for i
  proof -
    have "?ivs ! (?l + i) = drop ?l ?ivs ! i" using lenl by simp
    then show ?thesis using that by (simp add: mid nth_append)
  qed
  have "merged a b (touching a b ?ivs) =
    (if ?l < ?rt then (min a (fst (?ivs ! ?l)), max b (snd (?ivs ! (?rt - 1)))) else (a, b))"
    using nth [of 0] nth [of "length (touching a b ?ivs) - 1"]
    by (auto simp: merged_def rt hd_conv_nth last_conv_nth)
  then show ?thesis
    using assms by (simp add: insert_range_def Let_def take_l drop_rt split: prod.splits)
qed

lemma dropWhile_hd_fails: "dropWhile p xs = y # ys \<Longrightarrow> \<not> p y"
  by (metis hd_dropWhile list.distinct(1) list.sel(1))

lemma before_less: "(s, e) \<in> set (before a ivs) \<Longrightarrow> e < a"
  by (auto simp: before_def dest: set_takeWhileD)

lemma touching_fst: "(s, e) \<in> set (touching a b ivs) \<Longrightarrow> s \<le> b"
  by (auto simp: touching_def dest: set_takeWhileD)

lemma rest_snd:
  assumes "ivs_inv ivs" and "(s, e) \<in> set (dropWhile (\<lambda>(_, e). e < a) ivs)"
  shows "a \<le> e"
  using assms
proof (induction ivs)
  case Nil
  then show ?case by simp
next
  case (Cons i ivs)
  obtain s0 e0 where i: "i = (s0, e0)" by (cases i)
  show ?case
  proof (cases "e0 < a")
    case True
    with Cons i show ?thesis by (simp add: ivs_inv_Cons)
  next
    case False
    with Cons.prems i consider "e = e0" | "(s, e) \<in> set ivs"
      by auto
    then show ?thesis
    proof cases
      case 1 with False show ?thesis by simp
    next
      case 2
      with Cons.prems(1) i have "e0 < s" and "s < e"
        by (auto simp: ivs_inv_Cons ivs_inv_ne)
      with False show ?thesis by simp
    qed
  qed
qed

lemma touching_snd: "ivs_inv ivs \<Longrightarrow> (s, e) \<in> set (touching a b ivs) \<Longrightarrow> a \<le> e"
  by (auto simp: touching_def dest: set_takeWhileD intro: rest_snd)

lemma after_fst:
  assumes "ivs_inv ivs" and "(s, e) \<in> set (after a b ivs)"
  shows "b < s"
proof -
  obtain s0 e0 ys where eq: "after a b ivs = (s0, e0) # ys"
    using assms(2) by (cases "after a b ivs") auto
  have "ivs_inv (after a b ivs)"
    using assms(1) split_three [of ivs a b] by (metis ivs_inv_append)
  moreover have "b < s0"
    using eq dropWhile_hd_fails by (fastforce simp: after_def)
  ultimately show ?thesis
    using assms(2) eq by (auto simp: ivs_inv_Cons)
qed

lemma ivs_inv_hd_le: "ivs_inv ivs \<Longrightarrow> (s, e) \<in> set ivs \<Longrightarrow> fst (hd ivs) \<le> s"
  by (cases ivs) (fastforce simp: ivs_inv_Cons)+

lemma ivs_inv_le_last: "ivs_inv ivs \<Longrightarrow> (s, e) \<in> set ivs \<Longrightarrow> e \<le> snd (last ivs)"
proof (induction ivs)
  case (Cons i ivs)
  then show ?case
  proof (cases "ivs = []")
    case False
    obtain s0 e0 where i: "i = (s0, e0)" by (cases i)
    obtain sl el where l: "last ivs = (sl, el)" by (cases "last ivs")
    have lm: "(sl, el) \<in> set ivs" using False l by (metis last_in_set)
    have "e0 < sl" "sl < el"
      using Cons.prems(1) lm unfolding i by (auto simp: ivs_inv_Cons ivs_inv_ne)
    moreover have "e \<le> el" if "(s, e) \<in> set ivs"
      using Cons that l unfolding i by (simp add: ivs_inv_Cons)
    ultimately show ?thesis
      using Cons.prems(2) False l i by auto
  qed auto
qed simp

lemma merged_bytes:
  assumes "a < b" and inv: "ivs_inv m"
    and lo: "\<And>s e. (s, e) \<in> set m \<Longrightarrow> s \<le> b" and hi: "\<And>s e. (s, e) \<in> set m \<Longrightarrow> a \<le> e"
  shows "{fst (merged a b m)..<snd (merged a b m)} = {a..<b} \<union> ivs_bytes m"
proof (cases "m = []")
  case True
  then show ?thesis by (simp add: merged_def)
next
  case False
  obtain s0 e0 where h: "hd m = (s0, e0)" by (cases "hd m")
  obtain s1 e1 where l: "last m = (s1, e1)" by (cases "last m")
  have hm: "(s0, e0) \<in> set m" and lm: "(s1, e1) \<in> set m"
    using False h l by (metis hd_in_set, metis last_in_set)
  have sub: "ivs_bytes m \<subseteq> {s0..<e1}"
    using ivs_inv_hd_le [OF inv] ivs_inv_le_last [OF inv] h l
    by (fastforce simp: ivs_bytes_def)
  have in_h: "{s0..<e0} \<subseteq> ivs_bytes m" and in_l: "{s1..<e1} \<subseteq> ivs_bytes m"
    using hm lm by (auto simp: ivs_bytes_def)
  have "{min a s0..<max b e1} = {a..<b} \<union> ivs_bytes m"
  proof
    show "{min a s0..<max b e1} \<subseteq> {a..<b} \<union> ivs_bytes m"
    proof
      fix x assume x: "x \<in> {min a s0..<max b e1}"
      consider "x < a" | "a \<le> x" "x < b" | "b \<le> x" by linarith
      then show "x \<in> {a..<b} \<union> ivs_bytes m"
      proof cases
        case 1
        with x hi [OF hm] have "x \<in> {s0..<e0}" by auto
        with in_h show ?thesis by blast
      next
        case 3
        with x lo [OF lm] have "x \<in> {s1..<e1}" by auto
        with in_l show ?thesis by blast
      qed auto
    qed
    show "{a..<b} \<union> ivs_bytes m \<subseteq> {min a s0..<max b e1}"
      using sub by (force simp: subset_iff)
  qed
  with False h l show ?thesis by (simp add: merged_def)
qed

lemma parts_inv:
  assumes "ivs_inv ivs"
  shows "ivs_inv (before a ivs)" "ivs_inv (touching a b ivs)" "ivs_inv (after a b ivs)"
    and "(s, e) \<in> set (before a ivs) \<Longrightarrow> (s', e') \<in> set (touching a b ivs) \<Longrightarrow> e < s'"
    and "(s, e) \<in> set (touching a b ivs) \<Longrightarrow> (s', e') \<in> set (after a b ivs) \<Longrightarrow> e < s'"
  using assms split_three [of ivs a b]
  by (metis ivs_inv_append, metis ivs_inv_append, metis ivs_inv_append,
      fastforce simp: ivs_inv_append dest: arg_cong [where f = ivs_inv],
      fastforce simp: ivs_inv_append dest: arg_cong [where f = ivs_inv])

lemma merged_bounds:
  assumes "(\<And>s e. (s, e) \<in> set m \<Longrightarrow> x < s)" and "x < a"
  shows "x < fst (merged a b m)"
proof (cases m)
  case (Cons i m')
  obtain s e where "i = (s, e)" by (cases i)
  with Cons assms(1) [of s e] assms(2) show ?thesis by (simp add: merged_def)
qed (simp add: merged_def assms)

lemma merged_bounds2:
  assumes "(\<And>s e. (s, e) \<in> set m \<Longrightarrow> e < x)" and "b < x"
  shows "snd (merged a b m) < x"
proof (cases "m = []")
  case False
  obtain s e where "last m = (s, e)" by (cases "last m")
  with False assms(1) have "e < x" by (metis last_in_set)
  with False assms(2) \<open>last m = (s, e)\<close> show ?thesis by (simp add: merged_def)
qed (simp add: merged_def assms)

lemma merged_ne: "a < b \<Longrightarrow> fst (merged a b m) < snd (merged a b m)"
  by (auto simp: merged_def)

lemma insert_range_ivs_inv:
  assumes "a < b" and inv: "ivs_inv (intervals r)"
  shows "ivs_inv (intervals (insert_range a b r))"
proof -
  let ?ivs = "intervals r"
  let ?m = "touching a b ?ivs"
  obtain x y where xy: "merged a b ?m = (x, y)" by (cases "merged a b ?m")
  have "x < y" using merged_ne [OF assms(1), of ?m] xy by simp
  moreover have "e < x" if "(s, e) \<in> set (before a ?ivs)" for s e
    using merged_bounds [of ?m e a b] parts_inv(4) [OF inv that] before_less [OF that] xy by auto
  moreover have "y < s" if "(s, e) \<in> set (after a b ?ivs)" for s e
    using merged_bounds2 [of ?m s b a] parts_inv(5) [OF inv _ that] after_fst [OF inv that] xy
    by auto
  moreover have "e < s'"
    if "(s, e) \<in> set (before a ?ivs)" "(s', e') \<in> set (after a b ?ivs)" for s e s' e'
    using before_less [OF that(1)] after_fst [OF inv that(2)] assms(1) by simp
  ultimately show ?thesis
    using parts_inv(1,3) [OF inv] xy
    by (auto simp: insert_range_split [OF assms(1)] ivs_inv_append ivs_inv_Cons)
qed

lemma insert_range_inv: "ranges_inv r \<Longrightarrow> ranges_inv (insert_range a b r)"
  using insert_range_ivs_inv [of a b r]
  by (cases "a < b") (auto simp: ranges_inv_def insert_range_def)

lemma insert_range_covered:
  assumes "ranges_inv r"
  shows "covered (insert_range a b r) = covered r \<union> {a..<b}"
proof (cases "a < b")
  case True
  let ?ivs = "intervals r"
  let ?m = "touching a b ?ivs"
  have inv: "ivs_inv ?ivs" using assms by (simp add: ranges_inv_def)
  obtain x y where xy: "merged a b ?m = (x, y)" by (cases "merged a b ?m")
  have "{fst (merged a b ?m)..<snd (merged a b ?m)} = {a..<b} \<union> ivs_bytes ?m"
    by (rule merged_bytes [OF True parts_inv(2) [OF inv]])
      (erule touching_fst, erule touching_snd [OF inv])
  then have "{x..<y} = {a..<b} \<union> ivs_bytes ?m"
    by (simp add: xy)
  moreover have "ivs_bytes ?ivs = ivs_bytes (before a ?ivs) \<union> ivs_bytes ?m \<union> ivs_bytes (after a b ?ivs)"
    using arg_cong [OF split_three, of ivs_bytes ?ivs a b] by (simp only: ivs_bytes_append Un_assoc)
  ultimately show ?thesis
    using xy by (auto simp: covered_def insert_range_split [OF True])
next
  case False
  then show ?thesis by (auto simp: insert_range_def)
qed

section \<open>Queries\<close>

lemma has_range_ivs:
  assumes "ivs_inv ivs" and "a < b"
  shows "(let idx = partition_point (\<lambda>(s, _). s \<le> a) ivs
          in if idx = 0 then False else snd (ivs ! (idx - 1)) \<ge> b) \<longleftrightarrow> {a..<b} \<subseteq> ivs_bytes ivs"
  using assms
proof (induction ivs)
  case Nil
  then show ?case by (auto simp: partition_point_def)
next
  case (Cons i ivs)
  obtain s e where i: "i = (s, e)" by (cases i)
  have se: "s < e" and gap: "\<And>s' e'. (s', e') \<in> set ivs \<Longrightarrow> e < s'" and inv: "ivs_inv ivs"
    using Cons.prems(1) by (auto simp: i ivs_inv_Cons)
  have after: "e < x" if "x \<in> ivs_bytes ivs" for x
    using ivs_bytes_after [OF that, of e] gap by auto
  let ?k = "partition_point (\<lambda>(s, _). s \<le> a) ivs"
  show ?case
  proof (cases "s \<le> a")
    case False
    then have "a \<notin> ivs_bytes (i # ivs)"
      using after [of a] se by (auto simp: i)
    then show ?thesis
      using False Cons.prems(2) by (auto simp: partition_point_def i)
  next
    case True
    show ?thesis
    proof (cases "?k = 0")
      case True
      have "{a..<b} \<subseteq> ivs_bytes (i # ivs) \<longleftrightarrow> b \<le> e"
      proof
        assume sub: "{a..<b} \<subseteq> ivs_bytes (i # ivs)"
        show "b \<le> e"
        proof (rule ccontr)
          assume "\<not> b \<le> e"
          have "a \<in> {s..<e} \<or> a \<in> ivs_bytes ivs" using sub Cons.prems(2) by (auto simp: i)
          moreover have "a \<notin> ivs_bytes ivs"
          proof
            assume "a \<in> ivs_bytes ivs"
            then obtain s' e' where "(s', e') \<in> set ivs" "s' \<le> a" by (auto simp: ivs_bytes_def)
            moreover have "fst (hd ivs) \<le> s'"
              using ivs_inv_hd_le [OF inv \<open>(s', e') \<in> set ivs\<close>] .
            ultimately show False
              using True by (cases ivs) (auto simp: partition_point_def split: if_splits)
          qed
          ultimately have "a < e" by simp
          then have "e \<in> {a..<b}" using \<open>\<not> b \<le> e\<close> by simp
          with sub have "e \<in> ivs_bytes ivs" by (auto simp: i)
          with after show False by blast
        qed
      qed (use \<open>s \<le> a\<close> in \<open>auto simp: i\<close>)
      with True \<open>s \<le> a\<close> show ?thesis by (simp add: partition_point_def i)
    next
      case False
      have "e \<le> a"
      proof -
        from False obtain s' e' where "(s', e') \<in> set ivs" "s' \<le> a"
          by (cases ivs) (auto simp: partition_point_def split: if_splits)
        with gap show ?thesis by (meson less_imp_le less_le_trans)
      qed
      then have "{a..<b} \<subseteq> ivs_bytes (i # ivs) \<longleftrightarrow> {a..<b} \<subseteq> ivs_bytes ivs"
        by (auto simp: i)
      with False Cons.IH [OF inv Cons.prems(2)] \<open>s \<le> a\<close> show ?thesis
        by (auto simp: partition_point_def i)
    qed
  qed
qed

lemma has_range_iff: "ranges_inv r \<Longrightarrow> has_range r a b \<longleftrightarrow> {a..<b} \<subseteq> covered r"
  using has_range_ivs [of "intervals r" a b]
  by (cases "a < b") (auto simp: has_range_def ranges_inv_def covered_def)

text \<open>The walk makes progress whatever the list: what the downloader's loop needs to stop.\<close>

lemma walk_missing_bounds:
  "walk_missing ivs c b = Some (x, y) \<Longrightarrow> c < b \<Longrightarrow> c \<le> x \<and> x < y \<and> y \<le> b"
proof (induction ivs c b rule: walk_missing.induct)
  case (1 c b)
  then show ?case by simp
next
  case (2 s e ivs c b)
  then show ?case
    by (fastforce simp: Let_def split: if_splits)
qed

lemma find_missing_bounds: "find_missing r a b = Some (x, y) \<Longrightarrow> a \<le> x \<and> x < y \<and> y \<le> b"
  using walk_missing_bounds [of "intervals r" a b x y]
  by (auto simp: find_missing_def split: if_splits)

lemma walk_missing_Some:
  assumes "walk_missing ivs c b = Some (x, y)" and "c < b" and "ivs_inv ivs"
  shows "{c..<x} \<subseteq> ivs_bytes ivs \<and> {x..<y} \<inter> ivs_bytes ivs = {} \<and> (y = b \<or> y \<in> ivs_bytes ivs)"
  using assms
proof (induction ivs c b rule: walk_missing.induct)
  case (1 c b)
  then show ?case by simp
next
  case (2 s e ivs c b)
  have se: "s < e" and gap: "\<And>x. x \<in> ivs_bytes ivs \<Longrightarrow> e < x" and inv: "ivs_inv ivs"
    using "2.prems"(3) by (auto simp: ivs_inv_Cons dest: ivs_bytes_after)
  show ?case
  proof (cases "c < s")
    case True
    with "2.prems" have "x = c" "y = min s b" by auto
    with True se gap show ?thesis by (auto simp: min_def dest: gap)
  next
    case False
    let ?c = "if c < e then e else c"
    from False "2.prems"(1) have nb: "\<not> b \<le> ?c" and rec: "walk_missing ivs ?c b = Some (x, y)"
      by (auto simp: Let_def split: if_splits)
    have bnd: "?c \<le> x" using walk_missing_bounds [OF rec] nb by auto
    have "{?c..<x} \<subseteq> ivs_bytes ivs \<and> {x..<y} \<inter> ivs_bytes ivs = {} \<and> (y = b \<or> y \<in> ivs_bytes ivs)"
      using "2.IH" [OF _ _ _ rec] False nb inv by auto
    moreover have "{c..<x} \<subseteq> {s..<e} \<union> {?c..<x}" using False by auto
    moreover have "{x..<y} \<inter> {s..<e} = {}" using bnd by (auto split: if_splits)
    ultimately show ?thesis by auto
  qed
qed

lemma walk_missing_None:
  assumes "walk_missing ivs c b = None"
  shows "{c..<b} \<subseteq> ivs_bytes ivs"
  using assms
proof (induction ivs c b rule: walk_missing.induct)
  case (1 c b)
  then show ?case by simp
next
  case (2 s e ivs c b)
  then have s: "s \<le> c" by (auto split: if_splits)
  let ?c = "if c < e then e else c"
  have "{?c..<b} \<subseteq> ivs_bytes ivs"
  proof (cases "b \<le> ?c")
    case False
    with "2.prems" s have "walk_missing ivs ?c b = None" by (auto simp: Let_def split: if_splits)
    with "2.IH" [OF _ refl False] s show ?thesis by simp
  qed auto
  moreover have "{c..<b} \<subseteq> {s..<e} \<union> {?c..<b}" using s by auto
  ultimately show ?case by auto
qed

lemma find_missing_None_iff:
  assumes "ranges_inv r"
  shows "find_missing r a b = None \<longleftrightarrow> {a..<b} \<subseteq> covered r"
proof
  assume "find_missing r a b = None"
  then consider "b \<le> a" | "has_range r a b" | "walk_missing (intervals r) a b = None"
    by (auto simp: find_missing_def split: if_splits)
  then show "{a..<b} \<subseteq> covered r"
  proof cases
    case 3
    then show ?thesis using walk_missing_None by (simp add: covered_def)
  qed (use assms has_range_iff in auto)
qed (simp add: find_missing_def has_range_iff assms)

lemma find_missing_Some:
  assumes "ranges_inv r" and "find_missing r a b = Some (x, y)"
  shows "{a..<x} \<subseteq> covered r \<and> {x..<y} \<inter> covered r = {} \<and> (y = b \<or> y \<in> covered r)"
  using assms walk_missing_Some [of "intervals r" a b x y]
  by (auto simp: find_missing_def ranges_inv_def covered_def split: if_splits)

section \<open>Sizes and normalisation\<close>

lemma fold_total:
  assumes "ivs_inv ivs" and "\<forall>(s, e) \<in> set ivs. e < u64_bound"
    and "acc \<le> (case ivs of [] \<Rightarrow> acc | (s, e) # _ \<Rightarrow> s)" and "acc < u64_bound"
  shows "fold (\<lambda>(s, e) acc. wadd64 acc (wsub64 e s)) ivs acc = acc + card (ivs_bytes ivs)"
  using assms
proof (induction ivs arbitrary: acc)
  case Nil
  then show ?case by simp
next
  case (Cons i ivs)
  obtain s e where i: "i = (s, e)" by (cases i)
  have se: "s < e" "e < u64_bound" and inv: "ivs_inv ivs"
    and gap: "\<And>x. x \<in> ivs_bytes ivs \<Longrightarrow> e < x"
    using Cons.prems(1,2) by (auto simp: i ivs_inv_Cons dest: ivs_bytes_after)
  have acc: "acc \<le> s" using Cons.prems(3) by (simp add: i)
  have w: "wadd64 acc (wsub64 e s) = acc + (e - s)"
    using se acc by (simp add: wrap_simps)
  have le: "acc + (e - s) \<le> (case ivs of [] \<Rightarrow> acc + (e - s) | (s', e') # _ \<Rightarrow> s')"
    using acc se Cons.prems(1) by (auto simp: i ivs_inv_Cons split: list.splits)
  have "fold (\<lambda>(s, e) acc. wadd64 acc (wsub64 e s)) ivs (acc + (e - s)) =
        acc + (e - s) + card (ivs_bytes ivs)"
    using Cons.IH [OF inv _ le] Cons.prems(2) acc se by (auto simp: i)
  moreover have "card (ivs_bytes (i # ivs)) = (e - s) + card (ivs_bytes ivs)"
  proof -
    have "finite (ivs_bytes ivs)" by (auto simp: ivs_bytes_def)
    moreover have "{s..<e} \<inter> ivs_bytes ivs = {}" by (auto dest: gap)
    ultimately show ?thesis by (simp add: i card_Un_disjoint)
  qed
  ultimately show ?case by (simp add: i w)
qed

lemma total_bytes_card:
  assumes "ranges_inv r" and "\<forall>(s, e) \<in> set (intervals r). e < u64_bound"
  shows "total_bytes r = card (covered r)"
  using assms fold_total [of "intervals r" 0]
  by (auto simp: total_bytes_def ranges_inv_def covered_def split: list.splits)

lemma ranges_new_inv [simp]: "ranges_inv ranges_new"
  by (simp add: ranges_inv_def ranges_new_def)

lemma ranges_new_covered [simp]: "covered ranges_new = {}"
  by (simp add: covered_def ranges_new_def)

section \<open>The contract of a range set\<close>

locale range_set =
  fixes rempty :: 'r
    and rinsert :: "nat \<Rightarrow> nat \<Rightarrow> 'r \<Rightarrow> 'r"
    and rhas :: "'r \<Rightarrow> nat \<Rightarrow> nat \<Rightarrow> bool"
    and rmiss :: "'r \<Rightarrow> nat \<Rightarrow> nat \<Rightarrow> (nat \<times> nat) option"
    and rbytes :: "'r \<Rightarrow> nat set"
    and rinv :: "'r \<Rightarrow> bool"
  assumes rbytes_empty: "rbytes rempty = {}"
    and rinv_empty: "rinv rempty"
    and rbytes_insert: "rinv r \<Longrightarrow> rbytes (rinsert a b r) = rbytes r \<union> {a..<b}"
    and rinv_insert: "rinv r \<Longrightarrow> rinv (rinsert a b r)"
    and rhas_iff: "rinv r \<Longrightarrow> rhas r a b \<longleftrightarrow> {a..<b} \<subseteq> rbytes r"
    and rmiss_None: "rinv r \<Longrightarrow> rmiss r a b = None \<longleftrightarrow> {a..<b} \<subseteq> rbytes r"
    and rmiss_Some: "rinv r \<Longrightarrow> rmiss r a b = Some (x, y) \<Longrightarrow>
          a \<le> x \<and> x < y \<and> y \<le> b \<and> {a..<x} \<subseteq> rbytes r \<and> {x..<y} \<inter> rbytes r = {}"
begin

lemma has_insert: "rinv r \<Longrightarrow> rhas (rinsert a b r) a b"
  by (simp add: rhas_iff rinv_insert rbytes_insert)

lemma has_insert_mono: "rinv r \<Longrightarrow> rhas r c d \<Longrightarrow> rhas (rinsert a b r) c d"
  by (auto simp: rhas_iff rinv_insert rbytes_insert)

lemma has_sub: "rinv r \<Longrightarrow> rhas r a b \<Longrightarrow> a \<le> c \<Longrightarrow> d \<le> b \<Longrightarrow> rhas r c d"
  by (auto simp: rhas_iff subset_iff)

lemma fill_gap:
  "rinv r \<Longrightarrow> rmiss r a b = Some (x, y) \<Longrightarrow> rhas (rinsert x y r) a y"
  by (auto simp: rhas_iff rinv_insert rbytes_insert subset_iff not_less dest!: rmiss_Some)

lemma fold_insert:
  assumes "rinv r"
  shows "rinv (fold (\<lambda>(s, e). rinsert s e) ivs r)"
    and "rbytes (fold (\<lambda>(s, e). rinsert s e) ivs r) = rbytes r \<union> (\<Union>(s, e) \<in> set ivs. {s..<e})"
  using assms
  by (induction ivs arbitrary: r) (simp_all add: rinv_insert rbytes_insert Un_assoc split: prod.splits)

end

interpretation br: range_set ranges_new insert_range has_range find_missing covered ranges_inv
proof unfold_locales
  fix r a b x y
  assume "ranges_inv r" and "find_missing r a b = Some (x, y)"
  then show "a \<le> x \<and> x < y \<and> y \<le> b \<and> {a..<x} \<subseteq> covered r \<and> {x..<y} \<inter> covered r = {}"
    using find_missing_bounds find_missing_Some by blast
qed (simp_all add: insert_range_covered insert_range_inv has_range_iff find_missing_None_iff)

lemma from_intervals_inv: "ranges_inv (from_intervals ivs)"
  unfolding from_intervals_def by (rule br.fold_insert(1)) simp

lemma from_intervals_covered: "covered (from_intervals ivs) = ivs_bytes ivs"
  using br.fold_insert(2) [OF ranges_new_inv, of ivs]
  by (simp add: from_intervals_def ivs_bytes_def)

section \<open>Properties\<close>

text \<open>C10: \<open>ByteRanges::insert\<close> keeps the list sorted, disjoint and non-adjacent and adds exactly
  the bytes of \<open>[start, end)\<close>; \<open>has_range\<close> decides inclusion in what was inserted.\<close>

theorem insert_range_refines_set:
  assumes "ranges_inv r"
  shows "ranges_inv (insert_range a b r) \<and>
    covered (insert_range a b r) = covered r \<union> {a..<b} \<and>
    (has_range (insert_range a b r) x y \<longleftrightarrow> {x..<y} \<subseteq> covered r \<union> {a..<b})"
  using assms by (simp add: insert_range_inv insert_range_covered has_range_iff)

theorem insert_range_refines_set_witness:
  "ranges_inv (insert_range 4 9 (insert_range 0 4 ranges_new)) \<and>
   intervals (insert_range 4 9 (insert_range 0 4 ranges_new)) = [(0, 9)]"
proof
  show "ranges_inv (insert_range 4 9 (insert_range 0 4 ranges_new))"
    using insert_range_refines_set [of "insert_range 0 4 ranges_new" 4 9] insert_range_inv [of ranges_new]
    by simp
  show "intervals (insert_range 4 9 (insert_range 0 4 ranges_new)) = [(0, 9)]"
    by code_simp
qed

text \<open>\<open>find_missing\<close> answers \<open>None\<close> exactly when every byte of the request is cached, and
  otherwise returns the first gap: all bytes before it are cached, none of its own is, and it
  extends to the end of the request or to the next cached byte.\<close>

theorem find_missing_first_gap:
  assumes "ranges_inv r"
  shows "case find_missing r a b of
      None \<Rightarrow> {a..<b} \<subseteq> covered r
    | Some (x, y) \<Rightarrow> a \<le> x \<and> x < y \<and> y \<le> b \<and> {a..<x} \<subseteq> covered r \<and>
        {x..<y} \<inter> covered r = {} \<and> (y = b \<or> y \<in> covered r)"
  using assms find_missing_bounds [of r a b] find_missing_Some [of r a b] find_missing_None_iff [of r a b]
  by (auto split: option.splits)

theorem find_missing_first_gap_witness:
  "ranges_inv (insert_range 6 8 (insert_range 0 3 ranges_new)) \<and>
   find_missing (insert_range 6 8 (insert_range 0 3 ranges_new)) 1 10 = Some (3, 6) \<and>
   {3..<6} \<inter> covered (insert_range 6 8 (insert_range 0 3 ranges_new)) = {}"
proof -
  have i: "ranges_inv (insert_range 6 8 (insert_range 0 3 ranges_new))"
    by (simp add: insert_range_inv)
  have m: "find_missing (insert_range 6 8 (insert_range 0 3 ranges_new)) 1 10 = Some (3, 6)"
    by code_simp
  show ?thesis
    using find_missing_first_gap [OF i, of 1 10] i m by simp
qed

text \<open>\<open>total_bytes\<close> is the number of distinct cached bytes, without overflow, whenever the
  interval ends fit in 64 bits.\<close>

theorem total_bytes_counts:
  assumes "ranges_inv r" and "\<forall>(s, e) \<in> set (intervals r). e < u64_bound"
  shows "total_bytes r = card (covered r)"
  using assms by (rule total_bytes_card)

theorem total_bytes_counts_witness:
  "total_bytes (insert_range 6 8 (insert_range 0 3 ranges_new)) =
   card (covered (insert_range 6 8 (insert_range 0 3 ranges_new)))"
proof (rule total_bytes_counts)
  show "ranges_inv (insert_range 6 8 (insert_range 0 3 ranges_new))"
    by (simp add: insert_range_inv)
  have "intervals (insert_range 6 8 (insert_range 0 3 ranges_new)) = [(0, 3), (6, 8)]"
    by code_simp
  then show "\<forall>(s, e) \<in> set (intervals (insert_range 6 8 (insert_range 0 3 ranges_new))). e < u64_bound"
    by (simp add: u64_bound_def)
qed

end
