(* ===== verification/Range_Db.thy ===== *)
theory Range_Db
  imports Byte_Ranges "HOL-Library.AList"
begin

text \<open>
  \<^verbatim>\<open>src/cache/range_db.rs\<close>: the table \<open>cache_ranges\<close> that persists the interval list of every cache
  file across restarts, and the packed little-endian encoding of its \<open>ranges_blob\<close> column.

  The table is the list of its rows in insertion order, keyed by \<open>cache_key\<close> (the primary key);
  each operation is the effect of its SQL statement. SQLite itself is not under \<^verbatim>\<open>src/\<close>: whether
  a statement succeeds is the argument \<open>ok\<close>, and a failure is the error \<open>SqlError\<close>.
\<close>

section \<open>The blob encoding\<close>

fun le_bytes :: "nat \<Rightarrow> nat \<Rightarrow> byte list" where
  "le_bytes 0 x = []"
| "le_bytes (Suc n) x = word_of_nat (x mod 256) # le_bytes n (x div 256)"

fun of_le_bytes :: "byte list \<Rightarrow> nat" where
  "of_le_bytes [] = 0"
| "of_le_bytes (b # bs) = unat b + 256 * of_le_bytes bs"

definition encode_ranges_blob :: "interval list \<Rightarrow> byte list" where
  "encode_ranges_blob ivs = concat (map (\<lambda>(start, stop). le_bytes 8 start @ le_bytes 8 stop) ivs)"

datatype range_db_error = SqlError | BadBlobLength usize

text \<open>\<open>chunks_exact(16)\<close> and the loop over it.\<close>

fun decode_chunks16 :: "byte list \<Rightarrow> interval list" where
  "decode_chunks16 blob =
     (if length blob < 16 then []
      else (of_le_bytes (take 8 blob), of_le_bytes (take 8 (drop 8 blob)))
           # decode_chunks16 (drop 16 blob))"

declare decode_chunks16.simps [simp del]

definition decode_ranges_blob :: "byte list \<Rightarrow> range_db_error + interval list" where
  "decode_ranges_blob blob =
     (if length blob mod 16 \<noteq> 0 then Inl (BadBlobLength (length blob))
      else Inr (decode_chunks16 blob))"

section \<open>The table\<close>

definition SCHEMA_VERSION :: i64 where
  "SCHEMA_VERSION = 2"

record range_row =
  rr_file_size :: u64
  rr_updated_at :: i64
  rr_ranges :: byte_ranges

record db_row =
  db_file_size :: i64
  db_updated_at :: i64
  db_ranges_blob :: "byte list"
  db_schema_version :: i64

type_synonym cache_key = string
type_synonym range_table = "(cache_key \<times> db_row) list"

text \<open>\<open>init_conn\<close>: \<open>CREATE TABLE IF NOT EXISTS\<close> keeps the rows of an existing table.\<close>

definition init_conn :: "range_table option \<Rightarrow> range_table" where
  "init_conn existing = (case existing of None \<Rightarrow> [] | Some t \<Rightarrow> t)"

definition select_row :: "range_table \<Rightarrow> cache_key \<Rightarrow> db_row option" where
  "select_row t k = map_of t k"

definition upsert_row :: "cache_key \<Rightarrow> db_row \<Rightarrow> range_table \<Rightarrow> range_table" where
  "upsert_row k row t = AList.update k row t"

definition delete_rows :: "cache_key list \<Rightarrow> range_table \<Rightarrow> range_table" where
  "delete_rows ks t = filter (\<lambda>(k, _). k \<notin> set ks) t"

definition range_get :: "bool \<Rightarrow> range_table \<Rightarrow> cache_key \<Rightarrow> range_db_error + range_row option" where
  "range_get ok t key =
     (if \<not> ok then Inl SqlError
      else
        (case select_row t key of
           None \<Rightarrow> Inr None
         | Some row \<Rightarrow>
             if db_schema_version row \<noteq> SCHEMA_VERSION then Inr None
             else
               (case decode_ranges_blob (db_ranges_blob row) of
                  Inl e \<Rightarrow> Inl e
                | Inr parsed \<Rightarrow>
                    Inr (Some \<lparr>rr_file_size = nat (max (db_file_size row) 0),
                               rr_updated_at = db_updated_at row,
                               rr_ranges = from_intervals parsed\<rparr>))))"

definition range_upsert ::
    "bool \<Rightarrow> cache_key \<Rightarrow> u64 \<Rightarrow> i64 \<Rightarrow> byte_ranges \<Rightarrow> range_table \<Rightarrow> range_db_error + range_table" where
  "range_upsert ok key file_size updated_at ranges t =
     (if \<not> ok then Inl SqlError
      else
        Inr (upsert_row key
               \<lparr>db_file_size = u64_to_i64 file_size,
                db_updated_at = updated_at,
                db_ranges_blob = encode_ranges_blob (intervals ranges),
                db_schema_version = SCHEMA_VERSION\<rparr> t))"

definition delete_keys ::
    "bool \<Rightarrow> cache_key list \<Rightarrow> range_table \<Rightarrow> range_db_error + (usize \<times> range_table)" where
  "delete_keys ok keys t =
     (if keys = [] then Inr (0, t)
      else if \<not> ok then Inl SqlError
      else
        (let t' = delete_rows keys t
         in Inr (length t - length t', t')))"

definition stale_keys :: "bool \<Rightarrow> range_table \<Rightarrow> i64 \<Rightarrow> usize \<Rightarrow> range_db_error + cache_key list" where
  "stale_keys ok t older_than limit =
     (if \<not> ok then Inl SqlError
      else Inr (take limit
             (map fst (sort_key (\<lambda>(_, row). db_updated_at row)
                (filter (\<lambda>(_, row). db_updated_at row < older_than) t)))))"

section \<open>The encoding round trip\<close>

lemma length_le_bytes [simp]: "length (le_bytes n x) = n"
  by (induction n arbitrary: x) auto

lemma of_le_bytes_le_bytes: "of_le_bytes (le_bytes n x) = x mod 256 ^ n"
proof (induction n arbitrary: x)
  case 0
  then show ?case by simp
next
  case (Suc n)
  have "unat (word_of_nat (x mod 256) :: byte) = x mod 256"
    by (simp add: unat_of_nat)
  with Suc show ?case
    by (simp add: mod_mult2_eq)
qed

lemma le_bytes_of_le_bytes: "le_bytes (length bs) (of_le_bytes bs) = bs"
proof (induction bs)
  case Nil
  then show ?case by simp
next
  case (Cons b bs)
  have "unat b < 256" by (rule unat_byte_less)
  with Cons show ?case by simp
qed

lemma of_le_bytes_less: "of_le_bytes bs < 256 ^ length bs"
proof (induction bs)
  case (Cons b bs)
  have "unat b < 256" by (rule unat_byte_less)
  with Cons show ?case by simp
qed simp

lemma u64_le_roundtrip: "x < u64_bound \<Longrightarrow> of_le_bytes (le_bytes 8 x) = x"
  by (simp add: of_le_bytes_le_bytes u64_bound_def)

lemma encode_ranges_blob_Nil [simp]: "encode_ranges_blob [] = []"
  by (simp add: encode_ranges_blob_def)

lemma encode_ranges_blob_Cons [simp]:
  "encode_ranges_blob ((s, e) # ivs) = le_bytes 8 s @ le_bytes 8 e @ encode_ranges_blob ivs"
  by (simp add: encode_ranges_blob_def)

lemma length_encode [simp]: "length (encode_ranges_blob ivs) = 16 * length ivs"
  by (induction ivs) auto

lemma decode_chunks16_encode:
  "\<forall>(s, e) \<in> set ivs. s < u64_bound \<and> e < u64_bound \<Longrightarrow>
     decode_chunks16 (encode_ranges_blob ivs) = ivs"
proof (induction ivs)
  case Nil
  then show ?case by (simp add: decode_chunks16.simps)
next
  case (Cons i ivs)
  obtain s e where i: "i = (s, e)" by (cases i)
  with Cons show ?case
    by (subst decode_chunks16.simps) (simp add: u64_le_roundtrip)
qed

lemma decode_encode:
  "\<forall>(s, e) \<in> set ivs. s < u64_bound \<and> e < u64_bound \<Longrightarrow>
     decode_ranges_blob (encode_ranges_blob ivs) = Inr ivs"
  by (simp add: decode_ranges_blob_def decode_chunks16_encode)

lemma encode_decode_chunks16:
  "length blob mod 16 = 0 \<Longrightarrow> encode_ranges_blob (decode_chunks16 blob) = blob"
proof (induction blob rule: decode_chunks16.induct)
  case (1 blob)
  show ?case
  proof (cases "length blob < 16")
    case True
    with "1.prems" have "blob = []" by simp
    then show ?thesis by (simp add: decode_chunks16.simps)
  next
    case False
    have "length (drop 16 blob) mod 16 = 0"
      using "1.prems" by (simp add: mod_eq_0_iff_dvd)
    with False have IH: "encode_ranges_blob (decode_chunks16 (drop 16 blob)) = drop 16 blob"
      by (rule "1.IH")
    have "le_bytes 8 (of_le_bytes (take 8 blob)) = take 8 blob"
      using False le_bytes_of_le_bytes [of "take 8 blob"] by simp
    moreover have "le_bytes 8 (of_le_bytes (take 8 (drop 8 blob))) = take 8 (drop 8 blob)"
      using False le_bytes_of_le_bytes [of "take 8 (drop 8 blob)"] by simp
    moreover have "take 8 blob @ take 8 (drop 8 blob) @ drop 16 blob = blob"
      by (metis append_take_drop_id drop_drop numeral_Bit0)
    ultimately show ?thesis
      using False IH by (simp add: decode_chunks16.simps [of blob])
  qed
qed

lemma decode_chunks16_bound:
  "(s, e) \<in> set (decode_chunks16 blob) \<Longrightarrow> s < u64_bound \<and> e < u64_bound"
proof (induction blob rule: decode_chunks16.induct)
  case (1 blob)
  have *: "of_le_bytes bs < u64_bound" if "length bs = 8" for bs
    using of_le_bytes_less [of bs] that by (simp add: u64_bound_def)
  show ?case
  proof (cases "length blob < 16")
    case True
    with "1.prems" show ?thesis by (simp add: decode_chunks16.simps)
  next
    case False
    then have "length (take 8 blob) = 8" "length (take 8 (drop 8 blob)) = 8" by auto
    with False "1.prems" "1.IH" show ?thesis
      by (auto simp: decode_chunks16.simps [of blob] *)
  qed
qed

section \<open>Normalisation is the identity on a well-formed list\<close>

lemma insert_range_append:
  assumes "a < b" and "\<forall>(s, e) \<in> set (intervals r). e < a"
  shows "intervals (insert_range a b r) = intervals r @ [(a, b)]"
proof -
  have all: "\<forall>x \<in> set (intervals r). (\<lambda>(_, e). e < a) x" using assms(2) by auto
  have d: "dropWhile (\<lambda>(_, e). e < a) (intervals r) = []"
    using all by (simp only: dropWhile_eq_Nil_conv)
  have t: "takeWhile (\<lambda>(_, e). e < a) (intervals r) = intervals r"
    using all by (simp only: takeWhile_eq_all_conv)
  show ?thesis
    unfolding insert_range_split [OF assms(1)] before_def touching_def after_def merged_def d t
    by simp
qed

lemma fold_insert_append:
  assumes "ivs_inv (intervals r @ ivs)"
  shows "intervals (fold (\<lambda>(s, e) out. insert_range s e out) ivs r) = intervals r @ ivs"
  using assms
proof (induction ivs arbitrary: r)
  case Nil
  then show ?case by simp
next
  case (Cons i ivs)
  obtain s e where i: "i = (s, e)" by (cases i)
  have "s < e" and "\<forall>(s', e') \<in> set (intervals r). e' < s"
    using Cons.prems by (auto simp: i ivs_inv_append ivs_inv_Cons)
  then have step: "intervals (insert_range s e r) = intervals r @ [(s, e)]"
    by (rule insert_range_append)
  have "ivs_inv (intervals (insert_range s e r) @ ivs)"
    using Cons.prems by (simp add: step i)
  from Cons.IH [OF this] show ?case by (simp add: i step)
qed

lemma from_intervals_id: "ranges_inv r \<Longrightarrow> from_intervals (intervals r) = r"
  using fold_insert_append [of ranges_new "intervals r"]
  by (simp add: from_intervals_def ranges_inv_def ranges_new_def)

section \<open>The table as a keyed store\<close>

interpretation rdb: keyed_store select_row upsert_row "\<lambda>k. delete_rows [k]"
proof unfold_locales
  show "select_row (upsert_row k v s) j = (if j = k then Some v else select_row s j)" for k v s j
    by (simp add: select_row_def upsert_row_def update_conv)
  show "select_row (delete_rows [k] s) j = (if j = k then None else select_row s j)" for k s j
    by (induction s) (auto simp: select_row_def delete_rows_def)
qed

lemma select_delete_rows: "select_row (delete_rows ks t) j = (if j \<in> set ks then None else select_row t j)"
  by (induction t) (auto simp: select_row_def delete_rows_def)

definition ranges_bounded :: "byte_ranges \<Rightarrow> bool" where
  "ranges_bounded r = (\<forall>(s, e) \<in> set (intervals r). s < u64_bound \<and> e < u64_bound)"

lemma range_get_upsert:
  assumes "ranges_inv r" and "ranges_bounded r" and "file_size < 2 ^ 63"
    and "range_upsert True key file_size ts r t = Inr t'"
  shows "range_get True t' j =
    (if j = key
     then Inr (Some \<lparr>rr_file_size = file_size, rr_updated_at = ts, rr_ranges = r\<rparr>)
     else range_get True t j)"
proof -
  let ?row = "\<lparr>db_file_size = u64_to_i64 file_size, db_updated_at = ts,
    db_ranges_blob = encode_ranges_blob (intervals r), db_schema_version = SCHEMA_VERSION\<rparr>"
  have t': "t' = upsert_row key ?row t"
    using assms(4) by (simp add: range_upsert_def)
  have "decode_ranges_blob (encode_ranges_blob (intervals r)) = Inr (intervals r)"
    using assms(2) by (intro decode_encode) (simp add: ranges_bounded_def)
  then show ?thesis
    using assms(1,3) by (simp add: range_get_def t' rdb.get_put from_intervals_id u64_to_i64_nonneg)
qed

lemma range_get_delete:
  assumes "delete_keys True keys t = Inr (n, t')"
  shows "range_get True t' j = (if j \<in> set keys then Inr None else range_get True t j)"
  using assms
  by (auto simp: delete_keys_def range_get_def select_delete_rows Let_def split: if_splits)

lemma range_get_inv: "range_get ok t key = Inr (Some row) \<Longrightarrow> ranges_inv (rr_ranges row)"
  by (auto simp: range_get_def from_intervals_inv split: if_splits option.splits sum.splits)

lemma stale_keys_old:
  assumes "stale_keys ok t older limit = Inr ks" and "k \<in> set ks" and "distinct (map fst t)"
  shows "\<exists>row. select_row t k = Some row \<and> db_updated_at row < older"
proof -
  have "k \<in> set (map fst (sort_key (\<lambda>(_, row). db_updated_at row)
          (filter (\<lambda>(_, row). db_updated_at row < older) t)))"
    using assms(1,2) by (auto simp: stale_keys_def dest: in_set_takeD split: if_splits)
  then obtain row where "(k, row) \<in> set t" "db_updated_at row < older" by auto
  with assms(3) show ?thesis by (auto simp: select_row_def)
qed

lemma stale_keys_limit: "stale_keys ok t older limit = Inr ks \<Longrightarrow> length ks \<le> limit"
  by (auto simp: stale_keys_def split: if_splits)

section \<open>Properties\<close>

text \<open>C32: the blob of the \<open>cache_ranges\<close> table is a faithful encoding: decoding an encoded list of
  64-bit pairs gives the list back, re-encoding a decoded blob gives the same bytes, and a blob
  whose length is not a multiple of 16 is the only one that is refused.\<close>

theorem ranges_blob_roundtrip:
  "((\<forall>(s, e) \<in> set ivs. s < u64_bound \<and> e < u64_bound) \<longrightarrow>
      decode_ranges_blob (encode_ranges_blob ivs) = Inr ivs) \<and>
   (decode_ranges_blob blob = Inr out \<longrightarrow> encode_ranges_blob out = blob) \<and>
   (decode_ranges_blob blob = Inl err \<longleftrightarrow> length blob mod 16 \<noteq> 0 \<and> err = BadBlobLength (length blob))"
  by (intro conjI impI)
    (auto simp: decode_chunks16_encode decode_ranges_blob_def encode_decode_chunks16 split: if_splits)

theorem ranges_blob_roundtrip_witness:
  "decode_ranges_blob (encode_ranges_blob [(0, 4096), (8192, 12288)]) = Inr [(0, 4096), (8192, 12288)]"
  using ranges_blob_roundtrip [of "[(0, 4096), (8192, 12288)]" "[]" "[]"]
  by (simp add: u64_bound_def)

text \<open>A row written by \<open>upsert\<close> is what a later \<open>get\<close> of the same key restores (size, time and
  ranges), other keys are untouched, and \<open>delete_keys\<close> removes exactly the keys it is given.\<close>

theorem range_db_get_after_write:
  assumes "ranges_inv r" and "ranges_bounded r" and "file_size < 2 ^ 63"
    and "range_upsert True key file_size ts r t = Inr t'"
    and "delete_keys True keys t' = Inr (n, t'')"
  shows "range_get True t' j =
      (if j = key then Inr (Some \<lparr>rr_file_size = file_size, rr_updated_at = ts, rr_ranges = r\<rparr>)
       else range_get True t j) \<and>
    range_get True t'' j = (if j \<in> set keys then Inr None else range_get True t' j)"
  using range_get_upsert [OF assms(1-4)] range_get_delete [OF assms(5)] by simp

theorem range_db_get_after_write_witness:
  "range_get True (upsert_row ''k'' \<lparr>db_file_size = 10, db_updated_at = 7,
      db_ranges_blob = encode_ranges_blob [(0, 4)], db_schema_version = SCHEMA_VERSION\<rparr> []) ''k''
   = Inr (Some \<lparr>rr_file_size = 10, rr_updated_at = 7, rr_ranges = insert_range 0 4 ranges_new\<rparr>)"
proof -
  have iv: "intervals (insert_range 0 4 ranges_new) = [(0, 4)]" by code_simp
  have b: "ranges_bounded (insert_range 0 4 ranges_new)"
    by (simp add: ranges_bounded_def iv u64_bound_def)
  let ?t = "upsert_row ''k'' \<lparr>db_file_size = 10, db_updated_at = 7,
      db_ranges_blob = encode_ranges_blob [(0, 4)], db_schema_version = SCHEMA_VERSION\<rparr> []"
  have u: "range_upsert True ''k'' 10 7 (insert_range 0 4 ranges_new) [] = Inr ?t"
    by (simp add: range_upsert_def iv u64_to_i64_def)
  have d: "delete_keys True [] ?t = Inr (0, ?t)"
    by (simp add: delete_keys_def)
  show ?thesis
    using range_db_get_after_write [OF insert_range_inv b _ u d, of "''k''"] by simp
qed

end
