(* ===== verification/Disk.thy ===== *)
theory Disk
  imports Rd_Strings "HOL-Library.AList"
begin

text \<open>
  The part of \<open>std::fs\<close> and \<open>std::path\<close> that the cache uses. A path is the list of its components
  (\<open>Path\<close> compares by components: empty ones and \<open>.\<close> do not count); a disk is the list of its
  nodes in directory order. Files are byte lists; extending one with \<open>set_len\<close>, or writing past
  its end, fills the gap with zeros. Which calls fail is an argument of the operations that use
  the disk, since any of them may.
\<close>

section \<open>Paths\<close>

type_synonym path = "string list"

definition path_comps :: "string \<Rightarrow> path" where
  "path_comps s = filter (\<lambda>c. c \<noteq> [] \<and> c \<noteq> ''.'') (str_split (CHR ''/'') s)"

text \<open>\<open>Path::join\<close>: an absolute argument replaces the base.\<close>

definition path_join :: "path \<Rightarrow> string \<Rightarrow> path" where
  "path_join base s = (if starts_with s ''/'' then path_comps s else base @ path_comps s)"

definition path_parent :: "path \<Rightarrow> path option" where
  "path_parent p = (if p = [] then None else Some (butlast p))"

definition strip_prefix :: "path \<Rightarrow> path \<Rightarrow> path option" where
  "strip_prefix base p = (if take (length base) p = base then Some (drop (length base) p) else None)"

text \<open>\<open>Path::extension\<close>: what follows the last dot of the file name, when the dot is not its first
  character.\<close>

definition path_extension :: "path \<Rightarrow> string option" where
  "path_extension p =
     (if p = [] then None
      else
        (let name = last p;
             ext = rev (takeWhile (\<lambda>c. c \<noteq> CHR ''.'') (rev name))
         in if name = ''..'' \<or> CHR ''.'' \<notin> set name \<or> length ext + 1 = length name then None
            else Some ext))"

section \<open>Files\<close>

definition resize :: "nat \<Rightarrow> byte list \<Rightarrow> byte list" where
  "resize n bs = take n bs @ replicate (n - length bs) 0"

definition overwrite :: "nat \<Rightarrow> byte list \<Rightarrow> byte list \<Rightarrow> byte list" where
  "overwrite off data bs =
     (if data = [] then bs
      else take off (resize (max off (length bs)) bs) @ data @ drop (off + length data) bs)"

text \<open>\<open>seek\<close> and \<open>read_exact\<close>: all the bytes asked for, or an error.\<close>

definition read_exact :: "nat \<Rightarrow> nat \<Rightarrow> byte list \<Rightarrow> byte list option" where
  "read_exact off n bs = (if n = 0 \<or> off + n \<le> length bs then Some (take n (drop off bs)) else None)"

lemma length_resize [simp]: "length (resize n bs) = n"
  by (simp add: resize_def)

lemma resize_same [simp]: "resize (length bs) bs = bs"
  by (simp add: resize_def)

lemma nth_resize: "i < n \<Longrightarrow> resize n bs ! i = (if i < length bs then bs ! i else 0)"
  by (auto simp: resize_def nth_append)

lemma length_overwrite:
  "length (overwrite off data bs) = (if data = [] then length bs else max (off + length data) (length bs))"
  by (auto simp: overwrite_def)

lemma nth_overwrite:
  assumes "i < length (overwrite off data bs)"
  shows "overwrite off data bs ! i =
    (if off \<le> i \<and> i < off + length data then data ! (i - off)
     else if i < length bs then bs ! i else 0)"
proof (cases "data = []")
  case False
  with assms have len: "i < max (off + length data) (length bs)" by (simp add: length_overwrite)
  have lt: "length (take off (resize (max off (length bs)) bs)) = off" by simp
  consider "i < off" | "off \<le> i" "i < off + length data" | "off + length data \<le> i" by linarith
  then show ?thesis
  proof cases
    case 1
    with False show ?thesis by (simp add: overwrite_def nth_append nth_resize)
  next
    case 2
    then have "i - off < length data" by linarith
    with 2 False lt show ?thesis by (simp add: overwrite_def nth_append)
  next
    case 3
    with len have "i < length bs" and "\<not> i - off < length data" by linarith+
    with 3 False show ?thesis by (simp add: overwrite_def nth_append)
  qed
qed (use assms in \<open>auto simp: overwrite_def\<close>)

lemma read_exact_nth:
  "read_exact off n bs = Some out \<Longrightarrow> i < n \<Longrightarrow> length out = n \<and> out ! i = bs ! (off + i)"
  by (auto simp: read_exact_def split: if_splits)

section \<open>The disk\<close>

datatype node = Dir | File "byte list"

type_synonym disk = "(path \<times> node) list"

definition disk_node :: "disk \<Rightarrow> path \<Rightarrow> node option" where
  "disk_node d p = map_of d p"

definition file_bytes :: "disk \<Rightarrow> path \<Rightarrow> byte list option" where
  "file_bytes d p = (case disk_node d p of Some (File bs) \<Rightarrow> Some bs | _ \<Rightarrow> None)"

definition put_node :: "path \<Rightarrow> node \<Rightarrow> disk \<Rightarrow> disk" where
  "put_node p nd d = AList.update p nd d"

definition put_file :: "path \<Rightarrow> byte list \<Rightarrow> disk \<Rightarrow> disk" where
  "put_file p bs d = put_node p (File bs) d"

definition unlink :: "path \<Rightarrow> disk \<Rightarrow> disk" where
  "unlink p d = filter (\<lambda>(q, _). q \<noteq> p) d"

definition is_dir :: "disk \<Rightarrow> path \<Rightarrow> bool" where
  "is_dir d p = (p = [] \<or> disk_node d p = Some Dir)"

text \<open>\<open>create_dir_all\<close>: every missing prefix becomes a directory; a file on the way is an error.\<close>

definition prefixes_of :: "path \<Rightarrow> path list" where
  "prefixes_of p = map (\<lambda>n. take n p) [1..<Suc (length p)]"

definition mkdir_all :: "path \<Rightarrow> disk \<Rightarrow> disk option" where
  "mkdir_all p d =
     (if list_all (\<lambda>q. file_bytes d q = None) (prefixes_of p)
      then Some (fold (\<lambda>q dd. if is_dir dd q then dd else put_node q Dir dd) (prefixes_of p) d)
      else None)"

text \<open>\<open>OpenOptions::create(true).truncate(false).open\<close>: the parent must be a directory.\<close>

definition open_create :: "path \<Rightarrow> disk \<Rightarrow> disk option" where
  "open_create p d =
     (case disk_node d p of
        Some (File _) \<Rightarrow> Some d
      | Some Dir \<Rightarrow> None
      | None \<Rightarrow>
          if p \<noteq> [] \<and> is_dir d (butlast p) then Some (put_file p [] d) else None)"

definition read_dir :: "disk \<Rightarrow> path \<Rightarrow> path list option" where
  "read_dir d p =
     (if is_dir d p
      then Some (map fst (filter (\<lambda>(q, _). length q = Suc (length p) \<and> take (length p) q = p) d))
      else None)"

datatype remove_result = Removed | NotFound | RemoveFailed

text \<open>\<open>remove_file\<close>, where \<open>ok\<close> says whether the system call is permitted.\<close>

definition remove_file :: "bool \<Rightarrow> path \<Rightarrow> disk \<Rightarrow> remove_result \<times> disk" where
  "remove_file ok p d =
     (case disk_node d p of
        None \<Rightarrow> (NotFound, d)
      | Some Dir \<Rightarrow> (RemoveFailed, d)
      | Some (File _) \<Rightarrow> if ok then (Removed, unlink p d) else (RemoveFailed, d))"

section \<open>Lemmas\<close>

lemma disk_node_put_node [simp]: "disk_node (put_node p nd d) q = (if q = p then Some nd else disk_node d q)"
  by (simp add: disk_node_def put_node_def update_conv)

lemma disk_node_unlink [simp]: "disk_node (unlink p d) q = (if q = p then None else disk_node d q)"
  by (induction d) (auto simp: disk_node_def unlink_def)

interpretation dsk: keyed_store disk_node put_node unlink
  by unfold_locales simp_all

lemma file_bytes_put_file [simp]: "file_bytes (put_file p bs d) q = (if q = p then Some bs else file_bytes d q)"
  by (simp add: file_bytes_def put_file_def)

lemma file_bytes_unlink [simp]: "file_bytes (unlink p d) q = (if q = p then None else file_bytes d q)"
  by (simp add: file_bytes_def)

lemma file_bytes_put_dir:
  "file_bytes d q = None \<Longrightarrow> file_bytes (put_node q Dir d) r = file_bytes d r"
  by (simp add: file_bytes_def)

lemma fold_mkdir_files:
  "list_all (\<lambda>q. file_bytes d q = None) qs \<Longrightarrow>
     file_bytes (fold (\<lambda>q dd. if is_dir dd q then dd else put_node q Dir dd) qs d) r = file_bytes d r"
  by (induction qs arbitrary: d) (auto simp: file_bytes_put_dir list_all_iff)

lemma mkdir_all_files: "mkdir_all p d = Some d' \<Longrightarrow> file_bytes d' r = file_bytes d r"
  by (auto simp: mkdir_all_def fold_mkdir_files split: if_splits)

lemma open_create_files:
  "open_create p d = Some d' \<Longrightarrow>
     file_bytes d' r = (if r = p \<and> file_bytes d p = None then Some [] else file_bytes d r)"
  by (auto simp: open_create_def file_bytes_def put_file_def split: option.splits node.splits if_splits)

lemma open_create_exists:
  "open_create p d = Some d' \<Longrightarrow> \<exists>bs. file_bytes d' p = Some bs"
  by (auto simp: open_create_files file_bytes_def open_create_def put_file_def
      split: option.splits node.splits if_splits)

lemma remove_file_files:
  "snd (remove_file ok p d) = d' \<Longrightarrow> file_bytes d' q = file_bytes d q \<or> (q = p \<and> ok \<and> file_bytes d' q = None)"
  by (auto simp: remove_file_def split: option.splits node.splits if_splits)

lemma path_join_relative: "\<not> starts_with s ''/'' \<Longrightarrow> path_join base s = base @ path_comps s"
  by (simp add: path_join_def)

lemma path_comps_append: "path_comps (a @ ''/'' @ b) = path_comps a @ path_comps b"
  by (simp add: path_comps_def str_split_append [of "CHR ''/''" a b, simplified])

lemma strip_prefix_append [simp]: "strip_prefix base (base @ p) = Some p"
  by (simp add: strip_prefix_def)

end
