(* ===== verification/Cache_Item.thy ===== *)
theory Cache_Item
  imports Range_Db Disk
begin

text \<open>
  \<^verbatim>\<open>src/cache/item.rs\<close>: one sparse file per cached file, its interval list in memory and the row of
  \<open>cache_ranges\<close> that persists the list. The item is a record; the disk and the range table, which
  every item shares, are passed along. Each call that the operating system or SQLite may refuse is
  governed by the argument \<open>ok\<close> or \<open>fault\<close>. The download sessions of an item are in
  \<open>Download_Session\<close>; the waiters' \<open>Notify\<close> carries no state.
\<close>

section \<open>State\<close>

record cache_item =
  ci_path :: path
  ci_file_size :: u64
  ci_ranges :: byte_ranges
  ci_opens :: u32
  ci_atime :: u64
  ci_downloaded_bytes :: i64
  ci_cache_key :: cache_key
  ci_persist_dirty :: bool
  ci_last_persist_unix :: u64

definition FLUSH_DEBOUNCE_SECS :: u64 where
  "FLUSH_DEBOUNCE_SECS = 2"

datatype cache_read_error = CacheIo | DownloadFailed | CacheCancelled

datatype item_error = CreateDirError | OpenError | MetadataError | TruncateError | RangeDbError range_db_error

text \<open>The calls of \<open>open_or_create_with_db\<close> that may fail, in program order.\<close>

datatype open_call = CreateDirAll | OpenFile | Metadata | SetLen | RangeGet | SetLenMismatch | DeleteStale

section \<open>Operations\<close>

text \<open>The fields of a freshly built item.\<close>

definition new_item :: "u64 \<Rightarrow> path \<Rightarrow> cache_key \<Rightarrow> u64 \<Rightarrow> cache_item" where
  "new_item now p key file_size =
     \<lparr>ci_path = p, ci_file_size = file_size, ci_ranges = ranges_new, ci_opens = 0,
      ci_atime = now, ci_downloaded_bytes = 0, ci_cache_key = key,
      ci_persist_dirty = False, ci_last_persist_unix = now\<rparr>"

text \<open>The second half of \<open>open_or_create_with_db\<close>: restore the persisted ranges of the opened file,
  or purge them when they belong to another file size (the file has the new length by then).\<close>

definition restore_ranges ::
    "(open_call \<Rightarrow> bool) \<Rightarrow> u64 \<Rightarrow> path \<Rightarrow> cache_key \<Rightarrow> u64 \<Rightarrow> disk \<Rightarrow> range_table \<Rightarrow>
     (item_error + cache_item) \<times> disk \<times> range_table" where
  "restore_ranges ok now p key file_size d t =
     (case range_get (ok RangeGet) t key of
        Inl e \<Rightarrow> (Inl (RangeDbError e), d, t)
      | Inr None \<Rightarrow> (Inr (new_item now p key file_size), d, t)
      | Inr (Some row) \<Rightarrow>
          if rr_file_size row = file_size
          then (Inr ((new_item now p key file_size)\<lparr>ci_ranges := rr_ranges row\<rparr>), d, t)
          else if \<not> ok SetLenMismatch then (Inl TruncateError, d, t)
          else
            (Inr (new_item now p key file_size), d,
             case delete_keys (ok DeleteStale) [key] t of Inl _ \<Rightarrow> t | Inr (_, t') \<Rightarrow> t'))"

definition open_or_create_with_db ::
    "(open_call \<Rightarrow> bool) \<Rightarrow> u64 \<Rightarrow> path \<Rightarrow> cache_key \<Rightarrow> u64 \<Rightarrow> disk \<Rightarrow> range_table \<Rightarrow>
     (item_error + cache_item) \<times> disk \<times> range_table" where
  "open_or_create_with_db ok now p key file_size d0 t =
     (case (if ok CreateDirAll then mkdir_all (butlast p) d0 else None) of
        None \<Rightarrow> (Inl CreateDirError, d0, t)
      | Some d1 \<Rightarrow>
     (case (if ok OpenFile then open_create p d1 else None) of
        None \<Rightarrow> (Inl OpenError, d1, t)
      | Some d2 \<Rightarrow>
     (case (if ok Metadata then file_bytes d2 p else None) of
        None \<Rightarrow> (Inl MetadataError, d2, t)
      | Some bs \<Rightarrow>
          if length bs = file_size then restore_ranges ok now p key file_size d2 t
          else if ok SetLen
          then restore_ranges ok now p key file_size (put_file p (resize file_size bs) d2) t
          else (Inl TruncateError, d2, t))))"

text \<open>\<open>CacheItem::open_or_create\<close>: the same with a fresh in-memory table.\<close>

definition open_or_create ::
    "(open_call \<Rightarrow> bool) \<Rightarrow> u64 \<Rightarrow> path \<Rightarrow> cache_key \<Rightarrow> u64 \<Rightarrow> disk \<Rightarrow>
     (item_error + cache_item) \<times> disk \<times> range_table" where
  "open_or_create ok now p fallback_key file_size d =
     open_or_create_with_db ok now p fallback_key file_size d (init_conn None)"

definition item_open :: "u64 \<Rightarrow> cache_item \<Rightarrow> cache_item" where
  "item_open now item = item\<lparr>ci_opens := (ci_opens item + 1) mod 2 ^ 32, ci_atime := now\<rparr>"

definition flush_ranges ::
    "bool \<Rightarrow> u64 \<Rightarrow> bool \<Rightarrow> cache_item \<Rightarrow> range_table \<Rightarrow> cache_item \<times> range_table" where
  "flush_ranges ok now force item t =
     (if \<not> ci_persist_dirty item then (item, t)
      else if \<not> force \<and> now - ci_last_persist_unix item < FLUSH_DEBOUNCE_SECS then (item, t)
      else
        (case range_upsert ok (ci_cache_key item) (ci_file_size item) (u64_to_i64 now)
                (ci_ranges item) t of
           Inl _ \<Rightarrow> (item, t)
         | Inr t' \<Rightarrow> (item\<lparr>ci_last_persist_unix := now, ci_persist_dirty := False\<rparr>, t')))"

definition item_release ::
    "bool \<Rightarrow> u64 \<Rightarrow> cache_item \<Rightarrow> range_table \<Rightarrow> cache_item \<times> range_table" where
  "item_release ok now item t =
     (let prev = ci_opens item;
          item' = item\<lparr>ci_opens := prev - 1\<rparr>
      in if prev = 1 then flush_ranges ok now True item' t else (item', t))"

definition is_open :: "cache_item \<Rightarrow> bool" where
  "is_open item = (ci_opens item > 0)"

definition atime_secs :: "cache_item \<Rightarrow> u64" where
  "atime_secs item = ci_atime item"

definition set_atime_secs :: "u64 \<Rightarrow> cache_item \<Rightarrow> cache_item" where
  "set_atime_secs secs item = item\<lparr>ci_atime := secs\<rparr>"

definition item_has_range :: "cache_item \<Rightarrow> u64 \<Rightarrow> u64 \<Rightarrow> bool" where
  "item_has_range item start stop = has_range (ci_ranges item) start stop"

definition total_cached_bytes :: "cache_item \<Rightarrow> u64" where
  "total_cached_bytes item = total_bytes (ci_ranges item)"

definition read_from_file ::
    "bool \<Rightarrow> cache_item \<Rightarrow> u64 \<Rightarrow> u32 \<Rightarrow> disk \<Rightarrow> byte list option" where
  "read_from_file ok item offset sz d =
     (case (if ok then file_bytes d (ci_path item) else None) of
        None \<Rightarrow> None
      | Some bs \<Rightarrow> read_exact offset (min sz (ci_file_size item - offset)) bs)"

text \<open>How the write of \<open>write_range\<close> may go wrong: the open or seek, or \<open>write_all\<close> after a prefix.\<close>

datatype write_fault = NoFault | OpenFault | WriteFault nat

definition write_range ::
    "write_fault \<Rightarrow> bool \<Rightarrow> u64 \<Rightarrow> u64 \<Rightarrow> byte list \<Rightarrow> cache_item \<Rightarrow> disk \<Rightarrow> range_table \<Rightarrow>
     (item_error + unit) \<times> cache_item \<times> disk \<times> range_table" where
  "write_range fault db_ok now offset data item d t =
     (if data = [] then (Inr (), item, d, t)
      else
        (case file_bytes d (ci_path item) of
           None \<Rightarrow> (Inl OpenError, item, d, t)
         | Some bs \<Rightarrow>
             (case fault of
                OpenFault \<Rightarrow> (Inl OpenError, item, d, t)
              | WriteFault n \<Rightarrow>
                  (Inl OpenError, item,
                   put_file (ci_path item) (overwrite offset (take n data) bs) d, t)
              | NoFault \<Rightarrow>
                  (let d' = put_file (ci_path item) (overwrite offset data bs) d;
                       stop = wadd64 offset (length data);
                       item' = item\<lparr>ci_ranges := insert_range offset stop (ci_ranges item),
                                    ci_persist_dirty := True,
                                    ci_downloaded_bytes :=
                                      wrap_i64 (ci_downloaded_bytes item + int (length data))\<rparr>;
                       (item'', t') = flush_ranges db_ok now False item' t
                   in (Inr (), item'', d', t')))))"

section \<open>Coherence\<close>

text \<open>
  \<open>remote\<close> is the content of the file on the debrid side. An interval list agrees with a byte list
  when it is well formed, stays inside the file, and every byte it covers is the remote one.
\<close>

definition file_agrees :: "byte list \<Rightarrow> byte_ranges \<Rightarrow> byte list \<Rightarrow> bool" where
  "file_agrees remote r bs \<longleftrightarrow>
     length bs = length remote \<and> ranges_inv r \<and> covered r \<subseteq> {..<length remote} \<and>
     (\<forall>i \<in> covered r. bs ! i = remote ! i)"

definition item_coherent :: "byte list \<Rightarrow> cache_item \<Rightarrow> disk \<Rightarrow> bool" where
  "item_coherent remote item d \<longleftrightarrow>
     ci_file_size item = length remote \<and>
     (\<exists>bs. file_bytes d (ci_path item) = Some bs \<and> file_agrees remote (ci_ranges item) bs)"

text \<open>What the persisted row claims holds of the file, should it be restored now.\<close>

definition row_coherent :: "byte list \<Rightarrow> path \<Rightarrow> cache_key \<Rightarrow> disk \<Rightarrow> range_table \<Rightarrow> bool" where
  "row_coherent remote p key d t \<longleftrightarrow>
     (\<forall>row. range_get True t key = Inr (Some row) \<longrightarrow> rr_file_size row = length remote \<longrightarrow>
        (\<exists>bs. file_bytes d p = Some bs \<and> file_agrees remote (rr_ranges row) bs))"

definition piece :: "byte list \<Rightarrow> nat \<Rightarrow> nat \<Rightarrow> byte list" where
  "piece remote off n = take n (drop off remote)"

lemma length_piece [simp]: "length (piece remote off n) = min n (length remote - off)"
  by (auto simp: piece_def)

lemma nth_piece: "i < n \<Longrightarrow> off + i < length remote \<Longrightarrow> piece remote off n ! i = remote ! (off + i)"
  by (simp add: piece_def)

lemma take_piece: "take m (piece remote off n) = piece remote off (min m n)"
  by (simp add: piece_def min.commute)

lemma file_agrees_new [simp]: "length bs = length remote \<Longrightarrow> file_agrees remote ranges_new bs"
  by (simp add: file_agrees_def)

text \<open>Writing any piece of the remote file keeps an agreement, and extends it when recorded.\<close>

lemma overwrite_piece_nth:
  assumes "length bs = length remote" and "i < length remote"
  shows "overwrite off (piece remote off n) bs ! i =
    (if off \<le> i \<and> i < off + length (piece remote off n) then remote ! i else bs ! i)"
proof -
  have "i < length (overwrite off (piece remote off n) bs)"
    using assms by (simp add: length_overwrite less_max_iff_disj)
  from nth_overwrite [OF this] show ?thesis
    using assms by (auto simp: nth_piece)
qed

lemma length_overwrite_piece:
  assumes "length bs = length remote"
  shows "length (overwrite off (piece remote off n) bs) = length remote"
proof (cases "piece remote off n = []")
  case True
  then show ?thesis using assms by (simp add: overwrite_def)
next
  case False
  then have "off < length remote" by (auto simp: piece_def)
  then have "off + length (piece remote off n) \<le> length remote" by simp
  with False assms show ?thesis by (simp add: length_overwrite max_def)
qed

lemma file_agrees_overwrite:
  assumes "file_agrees remote r bs"
  shows "file_agrees remote r (overwrite off (piece remote off n) bs)"
  using assms by (auto simp: file_agrees_def length_overwrite_piece overwrite_piece_nth subset_iff)

lemma file_agrees_insert:
  assumes "file_agrees remote r bs"
  shows "file_agrees remote (insert_range off (off + length (piece remote off n)) r)
           (overwrite off (piece remote off n) bs)"
proof -
  have "{off..<off + length (piece remote off n)} \<subseteq> {..<length remote}"
    by auto
  then show ?thesis
    using assms
    by (auto simp: file_agrees_def insert_range_inv insert_range_covered length_overwrite_piece
        overwrite_piece_nth subset_iff simp del: length_piece)
qed

lemma range_get_True: "range_get ok t key = Inr x \<Longrightarrow> range_get True t key = Inr x"
  by (auto simp: range_get_def split: if_splits)

section \<open>Every operation keeps coherence\<close>

lemma range_get_delete_one:
  assumes "delete_keys ok [key] t = Inr (n, t')"
  shows "range_get True t' key = Inr None"
  using assms range_get_delete [of "[key]" t n t' key]
  by (cases ok) (auto simp: delete_keys_def)

lemma row_coherent_cong:
  "file_bytes d' p = file_bytes d p \<Longrightarrow> row_coherent remote p key d' t = row_coherent remote p key d t"
  by (simp add: row_coherent_def)

lemma row_coherent_touch:
  assumes "row_coherent remote p key d t"
    and "file_bytes d' p = (if file_bytes d p = None then Some [] else file_bytes d p)"
  shows "row_coherent remote p key d' t"
  using assms by (auto simp: row_coherent_def)

lemma row_coherent_resize:
  assumes "row_coherent remote p key d t" and "file_bytes d p = Some bs"
    and "file_bytes d' p = Some (resize (length remote) bs)"
  shows "row_coherent remote p key d' t"
proof -
  have "resize (length remote) bs = bs" if "file_agrees remote r bs" for r
    using that by (metis file_agrees_def resize_same)
  with assms show ?thesis by (auto simp: row_coherent_def)
qed

lemma row_coherent_delete:
  assumes "row_coherent remote p key d t" and "delete_keys ok [key] t = Inr (n, t')"
  shows "row_coherent remote p key d t'"
  using range_get_delete_one [OF assms(2)] by (simp add: row_coherent_def)

lemma restore_ranges_coherent:
  assumes row: "row_coherent remote p key d t" and fb: "file_bytes d p = Some bs"
    and len: "length bs = length remote"
    and run: "restore_ranges ok now p key (length remote) d t = (res, d', t')"
  shows "row_coherent remote p key d' t' \<and>
    (\<forall>item. res = Inr item \<longrightarrow>
       ci_path item = p \<and> ci_cache_key item = key \<and> item_coherent remote item d')"
proof -
  have new: "item_coherent remote (new_item now p key (length remote)) d"
    using fb len by (simp add: item_coherent_def new_item_def)
  have restored: "item_coherent remote ((new_item now p key (length remote))\<lparr>ci_ranges := rr_ranges r\<rparr>) d"
    if "range_get (ok RangeGet) t key = Inr (Some r)" "rr_file_size r = length remote" for r
    using row range_get_True [OF that(1)] that(2)
    by (auto simp: item_coherent_def new_item_def row_coherent_def)
  show ?thesis
    using run row new restored
    by (auto simp: restore_ranges_def new_item_def row_coherent_delete
        split: if_splits sum.splits option.splits)
qed

lemma open_or_create_coherent:
  assumes row: "row_coherent remote p key d t"
    and run: "open_or_create_with_db ok now p key (length remote) d t = (res, d', t')"
  shows "row_coherent remote p key d' t' \<and>
    (\<forall>item. res = Inr item \<longrightarrow>
       ci_path item = p \<and> ci_cache_key item = key \<and> item_coherent remote item d')"
proof (cases "if ok CreateDirAll then mkdir_all (butlast p) d else None")
  case None
  with run row show ?thesis by (auto simp: open_or_create_with_db_def)
next
  case (Some d1)
  note d1 = Some
  then have f1: "file_bytes d1 p = file_bytes d p" by (auto simp: mkdir_all_files split: if_splits)
  from row have row1: "row_coherent remote p key d1 t" by (simp only: row_coherent_cong [OF f1])
  show ?thesis
  proof (cases "if ok OpenFile then open_create p d1 else None")
    case None
    with run row1 d1 show ?thesis by (auto simp: open_or_create_with_db_def)
  next
    case (Some d2)
    note d2 = Some
    then have "open_create p d1 = Some d2" by (simp split: if_splits)
    from open_create_files [OF this, of p]
    have row2: "row_coherent remote p key d2 t"
      by (intro row_coherent_touch [OF row1]) simp
    show ?thesis
    proof (cases "if ok Metadata then file_bytes d2 p else None")
      case None
      with run row2 d1 d2 show ?thesis by (auto simp: open_or_create_with_db_def)
    next
      case (Some bs)
      note bs = Some
      then have fb: "file_bytes d2 p = Some bs" by (simp split: if_splits)
      have f3: "file_bytes (put_file p (resize (length remote) bs) d2) p = Some (resize (length remote) bs)"
        by simp
      have "(if length bs = length remote then restore_ranges ok now p key (length remote) d2 t
        else if ok SetLen
        then restore_ranges ok now p key (length remote) (put_file p (resize (length remote) bs) d2) t
        else (Inl TruncateError, d2, t)) = (res, d', t')"
        using run by (simp only: open_or_create_with_db_def d1 d2 bs option.case)
      then consider
          (same) "length bs = length remote" "restore_ranges ok now p key (length remote) d2 t = (res, d', t')"
        | (fail) "(Inl TruncateError, d2, t) = (res, d', t')"
        | (resized) "restore_ranges ok now p key (length remote)
             (put_file p (resize (length remote) bs) d2) t = (res, d', t')"
        by argo
      then show ?thesis
      proof cases
        case same
        then show ?thesis using restore_ranges_coherent [OF row2 fb] by blast
      next
        case fail
        with row2 show ?thesis by auto
      next
        case resized
        with restore_ranges_coherent [OF row_coherent_resize [OF row2 fb f3] f3] show ?thesis by simp
      qed
    qed
  qed
qed

text \<open>A flush persists the list in memory, so it may only claim bytes that are on disk already.\<close>

lemma flush_ranges_simps [simp]:
  "ci_path (fst (flush_ranges ok now force item t)) = ci_path item"
  "ci_file_size (fst (flush_ranges ok now force item t)) = ci_file_size item"
  "ci_ranges (fst (flush_ranges ok now force item t)) = ci_ranges item"
  "ci_cache_key (fst (flush_ranges ok now force item t)) = ci_cache_key item"
  "ci_opens (fst (flush_ranges ok now force item t)) = ci_opens item"
  "ci_downloaded_bytes (fst (flush_ranges ok now force item t)) = ci_downloaded_bytes item"
  by (simp_all add: flush_ranges_def split: sum.splits)

lemma flush_ranges_table:
  "snd (flush_ranges ok now force item t) = t \<or>
   range_upsert True (ci_cache_key item) (ci_file_size item) (u64_to_i64 now) (ci_ranges item) t =
     Inr (snd (flush_ranges ok now force item t))"
  by (auto simp: flush_ranges_def range_upsert_def split: sum.splits if_splits)

lemma file_agrees_bounded: "file_agrees remote r bs \<Longrightarrow> length remote < u64_bound \<Longrightarrow> ranges_bounded r"
proof -
  assume a: "file_agrees remote r bs" and len: "length remote < u64_bound"
  have "e \<le> length remote \<and> s < e" if "(s, e) \<in> set (intervals r)" for s e
  proof -
    have "s < e" using a that by (auto simp: file_agrees_def ranges_inv_def ivs_inv_def)
    then have "e - 1 \<in> covered r"
      using that unfolding covered_def ivs_bytes_def by (intro UN_I [of "(s, e)"]) auto
    with a \<open>s < e\<close> show ?thesis by (auto simp: file_agrees_def)
  qed
  with len show ?thesis by (fastforce simp: ranges_bounded_def)
qed

lemma row_coherent_upsert:
  assumes item: "item_coherent remote item d" and len: "length remote < 2 ^ 63"
    and up: "range_upsert True (ci_cache_key item) (ci_file_size item) ts (ci_ranges item) t = Inr t'"
  shows "row_coherent remote (ci_path item) (ci_cache_key item) d t'"
proof -
  obtain bs where bs: "file_bytes d (ci_path item) = Some bs" "file_agrees remote (ci_ranges item) bs"
    and sz: "ci_file_size item = length remote"
    using item by (auto simp: item_coherent_def)
  have "length remote < u64_bound" using len by (simp add: u64_bound_def)
  then have bnd: "ranges_bounded (ci_ranges item)" by (rule file_agrees_bounded [OF bs(2)])
  have inv: "ranges_inv (ci_ranges item)" using bs(2) by (simp add: file_agrees_def)
  have "range_get True t' (ci_cache_key item) =
    Inr (Some \<lparr>rr_file_size = ci_file_size item, rr_updated_at = ts, rr_ranges = ci_ranges item\<rparr>)"
    using range_get_upsert [OF inv bnd _ up] sz len by simp
  with bs show ?thesis by (simp add: row_coherent_def)
qed

lemma flush_ranges_row_coherent:
  assumes "item_coherent remote item d" and "length remote < 2 ^ 63"
    and "row_coherent remote (ci_path item) (ci_cache_key item) d t"
  shows "row_coherent remote (ci_path item) (ci_cache_key item) d (snd (flush_ranges ok now force item t))"
  using flush_ranges_table [of ok now force item t] assms row_coherent_upsert by metis

lemma row_coherent_overwrite:
  assumes "row_coherent remote p key d t" and "file_bytes d p = Some bs"
  shows "row_coherent remote p key (put_file p (overwrite off (piece remote off n) bs) d) t"
  using assms by (auto simp: row_coherent_def file_agrees_overwrite)

lemma item_coherent_overwrite:
  assumes "item_coherent remote item d" and "file_bytes d (ci_path item) = Some bs"
  shows "item_coherent remote item (put_file (ci_path item) (overwrite off (piece remote off n) bs) d)"
  using assms by (auto simp: item_coherent_def file_agrees_overwrite)

lemma write_range_coherent:
  assumes item: "item_coherent remote item d" and len: "length remote < 2 ^ 63"
    and row: "row_coherent remote (ci_path item) (ci_cache_key item) d t"
    and run: "write_range fault ok now off (piece remote off n) item d t = (res, item', d', t')"
  shows "item_coherent remote item' d' \<and> row_coherent remote (ci_path item) (ci_cache_key item) d' t' \<and>
    ci_path item' = ci_path item \<and> ci_cache_key item' = ci_cache_key item \<and>
    (res = Inr () \<longrightarrow> covered (ci_ranges item') =
       covered (ci_ranges item) \<union> {off..<off + length (piece remote off n)}) \<and>
    (res \<noteq> Inr () \<longrightarrow> item' = item)"
proof (cases "piece remote off n = []")
  case True
  with run item row show ?thesis by (auto simp: write_range_def simp del: length_piece)
next
  case False
  obtain bs where bs: "file_bytes d (ci_path item) = Some bs" and agr: "file_agrees remote (ci_ranges item) bs"
    and sz: "ci_file_size item = length remote"
    using item by (auto simp: item_coherent_def)
  show ?thesis
  proof (cases fault)
    case NoFault
    let ?d = "put_file (ci_path item) (overwrite off (piece remote off n) bs) d"
    let ?item = "item\<lparr>ci_ranges := insert_range off (off + length (piece remote off n)) (ci_ranges item),
       ci_persist_dirty := True, ci_downloaded_bytes :=
         wrap_i64 (ci_downloaded_bytes item + int (length (piece remote off n)))\<rparr>"
    have "off < length remote" using False by (auto simp: piece_def)
    then have "off + length (piece remote off n) < u64_bound"
      using len by (auto simp: u64_bound_def min_def)
    then have "wadd64 off (length (piece remote off n)) = off + length (piece remote off n)"
      by (rule wadd64_exact)
    with run False bs NoFault have out: "res = Inr ()" "d' = ?d"
        "item' = fst (flush_ranges ok now False ?item t)" "t' = snd (flush_ranges ok now False ?item t)"
      by (auto simp: write_range_def Let_def split: prod.splits simp del: length_piece)
    have ci: "item_coherent remote ?item ?d"
      using sz file_agrees_insert [OF agr, of off n] by (simp add: item_coherent_def)
    have "row_coherent remote (ci_path item) (ci_cache_key item) ?d t"
      by (rule row_coherent_overwrite [OF row bs])
    with ci len flush_ranges_row_coherent [of remote ?item ?d t ok now False]
    have "row_coherent remote (ci_path item) (ci_cache_key item) ?d t'" by (simp add: out)
    moreover have "item_coherent remote item' ?d"
      using ci by (simp add: item_coherent_def out)
    moreover have "covered (ci_ranges item') = covered (ci_ranges item) \<union> {off..<off + length (piece remote off n)}"
      using agr by (simp add: out file_agrees_def insert_range_covered del: length_piece)
    ultimately show ?thesis by (simp add: out del: length_piece)
  next
    case OpenFault
    with run False bs item row show ?thesis by (auto simp: write_range_def)
  next
    case (WriteFault m)
    with run False bs item row show ?thesis
      by (auto simp: write_range_def take_piece row_coherent_overwrite item_coherent_overwrite)
  qed
qed

section \<open>One item over its life\<close>

text \<open>
  The events in the life of one cache entry: the process (re)opens it, readers open and release it,
  workers write downloaded pieces (any of which may fail half way), the flush timer runs, and the
  process stops at any point (\<open>Stop\<close>), which forgets the item in memory but neither disk nor table.
\<close>

datatype item_event =
    Reopen "open_call \<Rightarrow> bool" u64
  | OpenHandle u64
  | ReleaseHandle bool u64
  | Downloaded write_fault bool u64 u64 nat
  | Flush bool u64 bool
  | Stop

type_synonym item_world = "cache_item option \<times> disk \<times> range_table"

fun item_step :: "byte list \<Rightarrow> path \<Rightarrow> cache_key \<Rightarrow> item_event \<Rightarrow> item_world \<Rightarrow> item_world" where
  "item_step remote p key (Reopen ok now) (None, d, t) =
     (case open_or_create_with_db ok now p key (length remote) d t of
        (Inl _, d', t') \<Rightarrow> (None, d', t')
      | (Inr item, d', t') \<Rightarrow> (Some item, d', t'))"
| "item_step remote p key (OpenHandle now) (Some item, d, t) = (Some (item_open now item), d, t)"
| "item_step remote p key (ReleaseHandle ok now) (Some item, d, t) =
     (case item_release ok now item t of (item', t') \<Rightarrow> (Some item', d, t'))"
| "item_step remote p key (Downloaded fault ok now off n) (Some item, d, t) =
     (case write_range fault ok now off (piece remote off n) item d t of
        (_, item', d', t') \<Rightarrow> (Some item', d', t'))"
| "item_step remote p key (Flush ok now force) (Some item, d, t) =
     (case flush_ranges ok now force item t of (item', t') \<Rightarrow> (Some item', d, t'))"
| "item_step remote p key Stop (_, d, t) = (None, d, t)"
| "item_step remote p key _ w = w"

definition world_inv :: "byte list \<Rightarrow> path \<Rightarrow> cache_key \<Rightarrow> item_world \<Rightarrow> bool" where
  "world_inv remote p key w =
     (case w of (it, d, t) \<Rightarrow>
        row_coherent remote p key d t \<and>
        (case it of None \<Rightarrow> True
         | Some item \<Rightarrow> ci_path item = p \<and> ci_cache_key item = key \<and> item_coherent remote item d))"

lemma world_inv_simps [simp]:
  "world_inv remote p key (None, d, t) = row_coherent remote p key d t"
  "world_inv remote p key (Some item, d, t) =
     (row_coherent remote p key d t \<and> ci_path item = p \<and> ci_cache_key item = key \<and>
      item_coherent remote item d)"
  by (simp_all add: world_inv_def)

lemma item_coherent_fields:
  assumes "ci_path item' = ci_path item" and "ci_file_size item' = ci_file_size item"
    and "ci_ranges item' = ci_ranges item"
  shows "item_coherent remote item' d = item_coherent remote item d"
  using assms by (simp add: item_coherent_def)

lemma item_open_coherent [simp]: "item_coherent remote (item_open now item) d = item_coherent remote item d"
  by (rule item_coherent_fields) (simp_all add: item_open_def)

lemma flush_ranges_coherent [simp]:
  "item_coherent remote (fst (flush_ranges ok now force item t)) d = item_coherent remote item d"
  by (rule item_coherent_fields) simp_all

lemma item_release_world:
  assumes "length remote < 2 ^ 63" and "world_inv remote p key (Some item, d, t)"
    and "item_release ok now item t = (item', t')"
  shows "world_inv remote p key (Some item', d, t')"
proof -
  let ?item = "item\<lparr>ci_opens := ci_opens item - 1\<rparr>"
  have c: "item_coherent remote ?item d"
    using assms(2) item_coherent_fields [of ?item item] by simp
  then have f: "row_coherent remote p key d (snd (flush_ranges ok now True ?item t))"
    using flush_ranges_row_coherent [of remote ?item d t ok now True] assms(1,2) by simp
  show ?thesis
  proof (cases "ci_opens item = 1")
    case True
    with assms(3) have "item' = fst (flush_ranges ok now True ?item t)" "t' = snd (flush_ranges ok now True ?item t)"
      by (simp_all add: item_release_def)
    with assms(2) c f show ?thesis by simp
  next
    case False
    with assms(3) have "item' = ?item" "t' = t" by (simp_all add: item_release_def)
    with assms(2) c show ?thesis by simp
  qed
qed

lemma item_step_inv:
  assumes len: "length remote < 2 ^ 63" and inv: "world_inv remote p key w"
  shows "world_inv remote p key (item_step remote p key ev w)"
proof -
  obtain it d t where w: "w = (it, d, t)" by (cases w)
  show ?thesis
  proof (cases it)
    case None
    have "world_inv remote p key (item_step remote p key (Reopen ok now) (None, d, t))" for ok now
      using inv open_or_create_coherent [of remote p key d t ok now]
      by (cases "open_or_create_with_db ok now p key (length remote) d t")
        (auto simp: w None split: sum.splits)
    with inv None w show ?thesis by (cases ev) simp_all
  next
    case (Some item)
    have i: "row_coherent remote p key d t" "ci_path item = p" "ci_cache_key item = key"
      "item_coherent remote item d"
      using inv by (simp_all add: w Some)
    show ?thesis
    proof (cases ev)
      case (ReleaseHandle ok now)
      with item_release_world [OF len, of p key item d t ok now] i show ?thesis
        by (cases "item_release ok now item t") (simp add: w Some)
    next
      case (Downloaded fault ok now off n)
      with write_range_coherent [of remote item d t fault ok now off n] i len show ?thesis
        by (cases "write_range fault ok now off (piece remote off n) item d t") (simp add: w Some)
    next
      case (Flush ok now force)
      have "row_coherent remote p key d (snd (flush_ranges ok now force item t))"
        using flush_ranges_row_coherent [of remote item d t ok now force] len i by simp
      with i Flush show ?thesis by (simp add: w Some case_prod_unfold)
    next
      case (OpenHandle now)
      with i show ?thesis by (simp add: w Some) (simp add: item_open_def)
    qed (use i in \<open>simp_all add: w Some\<close>)
  qed
qed

interpretation ciw: invariant_machine "item_step remote p key"
    "\<lambda>w. length remote < 2 ^ 63 \<and> world_inv remote p key w" for remote p key
  by unfold_locales (simp add: item_step_inv)

lemma read_coherent:
  assumes "item_coherent remote item d" and "item_has_range item off (off + n)" and "n > 0"
  shows "read_from_file True item off n d = Some (piece remote off n)"
proof -
  obtain bs where bs: "file_bytes d (ci_path item) = Some bs" "file_agrees remote (ci_ranges item) bs"
    and sz: "ci_file_size item = length remote"
    using assms(1) by (auto simp: item_coherent_def)
  have "{off..<off + n} \<subseteq> covered (ci_ranges item)"
    using assms(2) bs(2) by (simp add: item_has_range_def file_agrees_def has_range_iff)
  then have cov: "off + i \<in> covered (ci_ranges item)" if "i < n" for i
    using that by (auto simp: subset_iff)
  have len: "length bs = length remote" using bs(2) by (simp add: file_agrees_def)
  have eq: "bs ! (off + i) = remote ! (off + i)" if "i < n" for i
    using cov [OF that] bs(2) by (simp add: file_agrees_def)
  have "off + (n - 1) < length remote"
    using cov [of "n - 1"] bs(2) \<open>n > 0\<close> by (auto simp: file_agrees_def)
  with \<open>n > 0\<close> have le: "off + n \<le> length remote" by linarith
  have "take n (drop off bs) = take n (drop off remote)"
    using le len eq by (intro nth_equalityI) auto
  then show ?thesis
    using bs(1) sz le len by (simp add: read_from_file_def read_exact_def piece_def min_def)
qed

section \<open>Properties\<close>

text \<open>C4: whatever happens to a cache entry - downloads that stop half way, failing database writes,
  restarts at any point - a read of bytes that \<open>has_range\<close> declares present returns exactly the
  bytes of the remote file, provided the workers write only remote bytes and nobody removes the
  sparse file behind the item's back.\<close>

theorem cached_reads_are_remote:
  assumes "length remote < 2 ^ 63"
    and "range_get True t key = Inr None"
    and "fold (item_step remote p key) evs (None, d, t) = (Some item, d', t')"
    and "item_has_range item off (off + n)" and "0 < n"
  shows "read_from_file True item off n d' = Some (piece remote off n)"
proof -
  have "world_inv remote p key (None, d, t)"
    using assms(2) by (simp add: row_coherent_def)
  with assms(1) ciw.run_inv [of remote p key "(None, d, t)" evs]
  have "world_inv remote p key (fold (item_step remote p key) evs (None, d, t))" by simp
  with assms(3-5) show ?thesis by (simp add: read_coherent)
qed

theorem cached_reads_are_remote_witness:
  "\<exists>item d' t'.
     fold (item_step [7, 8, 9, 10] [''c'', ''f''] ''k'')
       [Reopen (\<lambda>_. True) 5, Downloaded NoFault True 9 0 2, Downloaded (WriteFault 1) True 9 2 2,
        Stop, Reopen (\<lambda>_. True) 12] (None, [], []) = (Some item, d', t') \<and>
     read_from_file True item 0 2 d' = Some [7, 8]"
proof -
  have run: "fold (item_step [7, 8, 9, 10] [''c'', ''f''] ''k'')
       [Reopen (\<lambda>_. True) 5, Downloaded NoFault True 9 0 2, Downloaded (WriteFault 1) True 9 2 2,
        Stop, Reopen (\<lambda>_. True) 12] (None, [], []) =
     (Some \<lparr>ci_path = [''c'', ''f''], ci_file_size = 4, ci_ranges = insert_range 0 2 ranges_new,
            ci_opens = 0, ci_atime = 12, ci_downloaded_bytes = 0, ci_cache_key = ''k'',
            ci_persist_dirty = False, ci_last_persist_unix = 12\<rparr>,
      [([''c''], Dir), ([''c'', ''f''], File [7, 8, 9, 0])],
      [(''k'', \<lparr>db_file_size = 4, db_updated_at = 9,
        db_ranges_blob = encode_ranges_blob [(0, 2)], db_schema_version = 2\<rparr>)])"
    by code_simp
  have h: "item_has_range \<lparr>ci_path = [''c'', ''f''], ci_file_size = 4, ci_ranges = insert_range 0 2 ranges_new,
            ci_opens = 0, ci_atime = 12, ci_downloaded_bytes = 0, ci_cache_key = ''k'',
            ci_persist_dirty = False, ci_last_persist_unix = 12\<rparr> 0 (0 + 2)"
    by code_simp
  have g: "range_get True [] ''k'' = Inr None"
    by (simp add: range_get_def select_row_def)
  have "read_from_file True \<lparr>ci_path = [''c'', ''f''], ci_file_size = 4, ci_ranges = insert_range 0 2 ranges_new,
            ci_opens = 0, ci_atime = 12, ci_downloaded_bytes = 0, ci_cache_key = ''k'',
            ci_persist_dirty = False, ci_last_persist_unix = 12\<rparr> 0 2
        [([''c''], Dir), ([''c'', ''f''], File [7, 8, 9, 0])] = Some (piece [7, 8, 9, 10] 0 2)"
    by (rule cached_reads_are_remote [OF _ g run h]) simp_all
  with run show ?thesis by (simp add: piece_def)
qed

text \<open>\<open>write_range\<close> of remote bytes either succeeds and adds exactly the written interval to the
  list in memory, or fails and leaves the list as it was; in both cases the item and the persisted
  row claim only bytes that are on disk.\<close>

theorem write_range_records_after_writing:
  assumes "item_coherent remote item d" and "length remote < 2 ^ 63"
    and "row_coherent remote (ci_path item) (ci_cache_key item) d t"
    and "write_range fault ok now off (piece remote off n) item d t = (res, item', d', t')"
  shows "item_coherent remote item' d' \<and> row_coherent remote (ci_path item) (ci_cache_key item) d' t' \<and>
    (case res of
       Inr _ \<Rightarrow> covered (ci_ranges item') =
         covered (ci_ranges item) \<union> {off..<off + length (piece remote off n)}
     | Inl _ \<Rightarrow> item' = item \<and> t' = t)"
proof -
  have "t' = t" if "res = Inl e" for e
    using assms(4) that
    by (auto simp: write_range_def Let_def split: if_splits option.splits write_fault.splits prod.splits)
  with write_range_coherent [OF assms] show ?thesis by (auto split: sum.splits)
qed

theorem write_range_records_after_writing_witness:
  "\<exists>item'. item_coherent [7, 8, 9] item' (put_file [''f''] [0, 8, 0] []) \<and>
     write_range (WriteFault 1) True 9 1 (piece [7, 8, 9] 1 2) (new_item 5 [''f''] ''k'' 3)
       (put_file [''f''] [0, 0, 0] []) [] = (Inl OpenError, item', put_file [''f''] [0, 8, 0] [], [])"
proof -
  have run: "write_range (WriteFault 1) True 9 1 (piece [7, 8, 9] 1 2) (new_item 5 [''f''] ''k'' 3)
       (put_file [''f''] [0, 0, 0] []) [] =
     (Inl OpenError, new_item 5 [''f''] ''k'' 3, put_file [''f''] [0, 8, 0] [], [])"
    by code_simp
  have c: "item_coherent [7, 8, 9] (new_item 5 [''f''] ''k'' 3) (put_file [''f''] [0, 0, 0] [])"
    by (simp add: item_coherent_def new_item_def)
  have r: "row_coherent [7, 8, 9] (ci_path (new_item 5 [''f''] ''k'' 3))
      (ci_cache_key (new_item 5 [''f''] ''k'' 3)) (put_file [''f''] [0, 0, 0] []) []"
    by (simp add: row_coherent_def range_get_def select_row_def)
  show ?thesis
    using write_range_records_after_writing [OF c _ r run] run by auto
qed

end
