(* ===== verification/Vfs_Read_Buffer.thy ===== *)
theory Vfs_Read_Buffer
  imports Cache_Item
begin

text \<open>
  The read-ahead window of a file handle (\<^verbatim>\<open>src/src/fuse/vfs_read_buffer.rs\<close>): bytes fetched by
  \<open>read_at\<close> that the kernel has not asked for yet. The handle's mutex is released between
  \<open>prepare_read\<close> and \<open>after_fetch\<close>, so two reads of one handle interleave: the machine at the end of
  the theory allows every order of the two calls.
\<close>

section \<open>The window\<close>

definition MIN_BUFFER_SIZE :: u64 where
  "MIN_BUFFER_SIZE = 64 * 1024"

definition MAX_BUFFER_SIZE :: u64 where
  "MAX_BUFFER_SIZE = 512 * 1024 * 1024"

definition clamp_buffer_size :: "u64 \<Rightarrow> u64" where
  "clamp_buffer_size configured = max MIN_BUFFER_SIZE (min configured MAX_BUFFER_SIZE)"

record vfs_read_buffer =
  vb_buf_start :: u64
  vb_data :: "byte list"

definition buffer_new :: vfs_read_buffer where
  "buffer_new = \<lparr>vb_buf_start = 0, vb_data = []\<rparr>"

definition buffer_clear :: "vfs_read_buffer \<Rightarrow> vfs_read_buffer" where
  "buffer_clear b = b\<lparr>vb_buf_start := 0, vb_data := []\<rparr>"

definition need_len :: "u64 \<Rightarrow> u32 \<Rightarrow> u64 \<Rightarrow> u32" where
  "need_len offset sz file_size =
     (let stop = min (sat_add64 offset sz) file_size in min (stop - offset) u32_max)"

definition compute_fill_len :: "u64 \<Rightarrow> u32 \<Rightarrow> u64 \<Rightarrow> u64 \<Rightarrow> u32" where
  "compute_fill_len offset need file_size buffer_size =
     (let remaining = file_size - offset
      in if remaining = 0 then 0 else min (min remaining (max buffer_size need)) u32_max)"

datatype prepare_result =
    Hit "byte list"
  | Miss (fill_offset: u64) (fill_len: u32) (miss_take: u32)

definition prepare_read :: "u64 \<Rightarrow> u32 \<Rightarrow> u64 \<Rightarrow> u64 \<Rightarrow> vfs_read_buffer \<Rightarrow> prepare_result \<times> vfs_read_buffer" where
  "prepare_read offset sz file_size buffer_size b =
     (let need = need_len offset sz file_size
      in if need = 0 then (Hit [], b)
         else
           let b1 = (if vb_data b \<noteq> [] \<and> offset \<noteq> vb_buf_start b then buffer_clear b else b)
           in if vb_data b1 \<noteq> [] \<and> need \<le> length (vb_data b1)
              then (Hit (take need (vb_data b1)),
                    b1\<lparr>vb_buf_start := wadd64 (vb_buf_start b1) need, vb_data := drop need (vb_data b1)\<rparr>)
              else
                let b2 = (if vb_data b1 \<noteq> [] then buffer_clear b1 else b1)
                in (Miss offset (compute_fill_len offset need file_size buffer_size) need, b2))"

text \<open>\<open>filled.len() as u32\<close> truncates.\<close>

definition after_fetch :: "u64 \<Rightarrow> byte list \<Rightarrow> u32 \<Rightarrow> vfs_read_buffer \<Rightarrow> vfs_read_buffer" where
  "after_fetch fill_off filled tk b =
     (let t = min tk (length filled mod 2 ^ 32)
      in b\<lparr>vb_buf_start := wadd64 fill_off t, vb_data := drop t filled\<rparr>)"

section \<open>Coherence with the remote file\<close>

definition buffer_coherent :: "byte list \<Rightarrow> vfs_read_buffer \<Rightarrow> bool" where
  "buffer_coherent remote b =
     (vb_data b \<noteq> [] \<longrightarrow> vb_data b = piece remote (vb_buf_start b) (length (vb_data b)))"

lemma clamp_buffer_size_bounds: "MIN_BUFFER_SIZE \<le> clamp_buffer_size n" "clamp_buffer_size n \<le> MAX_BUFFER_SIZE"
  by (simp_all add: clamp_buffer_size_def MIN_BUFFER_SIZE_def MAX_BUFFER_SIZE_def)

lemma need_len_le: "need_len offset sz file_size \<le> file_size - offset" "need_len offset sz file_size \<le> u32_max"
  by (simp_all add: need_len_def Let_def)

lemma piece_need_len:
  assumes "length remote < u64_bound" and "sz \<le> u32_max"
  shows "piece remote offset (need_len offset sz (length remote)) = piece remote offset sz"
proof -
  have "min (min (sat_add64 offset sz) (length remote) - offset) u32_max = min sz (length remote - offset)"
    using assms by (auto simp: sat_add64_def min_def)
  then show ?thesis by (auto simp: need_len_def Let_def piece_def min_def)
qed

lemma length_piece_need_len:
  "length (piece remote offset (need_len offset sz (length remote))) = need_len offset sz (length remote)"
  using need_len_le(1) [of offset sz "length remote"] by simp

lemma coherent_piece: "vb_data b = piece remote (vb_buf_start b) n \<Longrightarrow> buffer_coherent remote b"
  by (auto simp: buffer_coherent_def piece_def min_def)

lemma buffer_clear_coherent [simp]: "buffer_coherent remote (buffer_clear b)"
  by (simp add: buffer_coherent_def buffer_clear_def)

lemma drop_piece: "drop k (piece remote off n) = piece remote (off + k) (n - k)"
  by (simp add: piece_def drop_take add.commute)

lemma prepare_read_cases:
  assumes run: "prepare_read offset sz (length remote) bsize b = (r, b')" and coh: "buffer_coherent remote b"
    and len: "length remote < u64_bound"
  shows "buffer_coherent remote b' \<and>
    (r = Hit (piece remote offset (need_len offset sz (length remote))) \<or>
     r = Miss offset (compute_fill_len offset (need_len offset sz (length remote)) (length remote) bsize)
           (need_len offset sz (length remote)))"
proof -
  let ?n = "need_len offset sz (length remote)"
  let ?b1 = "if vb_data b \<noteq> [] \<and> offset \<noteq> vb_buf_start b then buffer_clear b else b"
  consider (none) "?n = 0" | (hit) "?n \<noteq> 0" "vb_data ?b1 \<noteq> []" "?n \<le> length (vb_data ?b1)"
    | (miss) "?n \<noteq> 0" "\<not> (vb_data ?b1 \<noteq> [] \<and> ?n \<le> length (vb_data ?b1))" by blast
  then show ?thesis
  proof cases
    case none
    with run coh show ?thesis by (simp add: prepare_read_def piece_def)
  next
    case hit
    then have b1: "?b1 = b" and off: "vb_buf_start b = offset"
      by (auto simp: buffer_clear_def split: if_splits)
    with hit coh have d: "vb_data b = piece remote offset (length (vb_data b))"
      by (simp add: buffer_coherent_def)
    from run hit b1 have r: "r = Hit (take ?n (vb_data b))"
      and b': "b' = b\<lparr>vb_buf_start := wadd64 (vb_buf_start b) ?n, vb_data := drop ?n (vb_data b)\<rparr>"
      by (auto simp: prepare_read_def Let_def split: if_splits)
    have tk: "take ?n (vb_data b) = piece remote offset ?n"
      using hit b1 by (subst d) (simp add: take_piece min_absorb1)
    have w: "wadd64 offset ?n = offset + ?n"
      using need_len_le(1) [of offset sz "length remote"] hit(1) len by (intro wadd64_exact) linarith
    have "vb_data b' = piece remote (vb_buf_start b') (length (vb_data b) - ?n)"
      using b' off w by (simp, subst d) (simp only: drop_piece)
    with r tk show ?thesis by (simp add: coherent_piece)
  next
    case miss
    with run coh show ?thesis by (auto simp: prepare_read_def Let_def split: if_splits)
  qed
qed

lemma after_fetch_coherent:
  assumes "length remote < u64_bound" and "n \<le> u32_max"
  shows "buffer_coherent remote (after_fetch off (piece remote off n) tk b)"
proof (cases "piece remote off n = []")
  case True
  then show ?thesis by (simp add: after_fetch_def buffer_coherent_def)
next
  case False
  let ?t = "min tk (length (piece remote off n) mod 2 ^ 32)"
  have "?t \<le> length (piece remote off n)" by (meson min.coboundedI2 mod_less_eq_dividend)
  moreover have "off < length remote" using False by (auto simp: piece_def)
  ultimately have "wadd64 off ?t = off + ?t" using assms(1) by (intro wadd64_exact) simp
  then have "vb_data (after_fetch off (piece remote off n) tk b) =
      piece remote (vb_buf_start (after_fetch off (piece remote off n) tk b)) (n - ?t)"
    by (simp add: after_fetch_def Let_def drop_piece del: length_piece)
  then show ?thesis by (rule coherent_piece)
qed

section \<open>Interleaved reads of one handle\<close>

datatype buffer_event =
    Prepare (be_offset: u64) (be_size: u32) (be_buffer: u64)
  | Fetched (be_fill: u64) (be_len: u32) (be_take: u32)

text \<open>A fetch that succeeds delivers the remote bytes (\<open>read_at\<close>).\<close>

definition buffer_step :: "byte list \<Rightarrow> buffer_event \<Rightarrow> vfs_read_buffer \<Rightarrow> vfs_read_buffer" where
  "buffer_step remote e b =
     (case e of
        Prepare off sz bsize \<Rightarrow> snd (prepare_read off sz (length remote) bsize b)
      | Fetched off n tk \<Rightarrow> after_fetch off (piece remote off (min n u32_max)) tk b)"

definition buffer_ok :: "byte list \<Rightarrow> vfs_read_buffer \<Rightarrow> bool" where
  "buffer_ok remote b = (length remote < u64_bound \<longrightarrow> buffer_coherent remote b)"

interpretation vrb: invariant_machine "buffer_step remote" "buffer_ok remote"
proof
  fix b e
  assume ok: "buffer_ok remote b"
  show "buffer_ok remote (buffer_step remote e b)"
  proof (cases e)
    case (Prepare off sz bsize)
    with ok show ?thesis
      by (cases "prepare_read off sz (length remote) bsize b")
        (auto simp: buffer_ok_def buffer_step_def dest: prepare_read_cases)
  next
    case (Fetched off n tk)
    with ok show ?thesis by (simp add: buffer_ok_def buffer_step_def after_fetch_coherent)
  qed
qed

lemma compute_fill_len_covers:
  "0 < need_len offset sz file_size \<Longrightarrow>
   need_len offset sz file_size \<le> compute_fill_len offset (need_len offset sz file_size) file_size bsize"
  using need_len_le [of offset sz file_size] by (auto simp: compute_fill_len_def Let_def)

lemma prepare_read_answer:
  assumes "length remote < u64_bound" and "sz \<le> u32_max" and coh: "buffer_coherent remote b"
    and "prepare_read offset sz (length remote) bsize b = (r, b')"
  shows "r = Hit (piece remote offset sz) \<or>
    (\<exists>n tk. r = Miss offset n tk \<and> 0 < tk \<and> tk \<le> n \<and> n \<le> u32_max \<and>
       take (min tk (length (piece remote offset n))) (piece remote offset n) = piece remote offset sz)"
proof -
  let ?need = "need_len offset sz (length remote)"
  let ?n = "compute_fill_len offset ?need (length remote) bsize"
  note pn = piece_need_len [OF assms(1,2), of offset]
  show ?thesis
  proof (cases "r = Hit (piece remote offset ?need)")
    case True
    with pn show ?thesis by simp
  next
    case False
    with prepare_read_cases [OF assms(4) coh assms(1)] have r: "r = Miss offset ?n ?need" by simp
    have pos: "0 < ?need"
    proof (rule ccontr)
      assume "\<not> 0 < ?need"
      with assms(4) False show False by (simp add: prepare_read_def piece_def)
    qed
    note le = compute_fill_len_covers [OF pos, of bsize]
    have "?n \<le> u32_max" by (simp add: compute_fill_len_def Let_def)
    moreover have "take (min ?need (length (piece remote offset ?n))) (piece remote offset ?n) = piece remote offset ?need"
      using le by (simp add: piece_def min_def)
    ultimately show ?thesis using r pos le pn by auto
  qed
qed

text \<open>Whatever reads were interleaved on a handle before, \<open>prepare_read\<close> either answers with the
  remote bytes at the requested offset cut at the end of the file, or asks for a window that starts at
  the offset, fits a \<open>u32\<close>, covers the request, and whose leading bytes are that answer.\<close>

theorem read_buffer_serves_remote:
  assumes "length remote < u64_bound" and "sz \<le> u32_max"
    and "prepare_read offset sz (length remote) bsize (fold (buffer_step remote) es buffer_new) = (r, b')"
  shows "r = Hit (piece remote offset sz) \<or>
    (\<exists>n tk. r = Miss offset n tk \<and> 0 < tk \<and> tk \<le> n \<and> n \<le> u32_max \<and>
       take (min tk (length (piece remote offset n))) (piece remote offset n) = piece remote offset sz)"
proof -
  have "buffer_ok remote buffer_new" by (simp add: buffer_ok_def buffer_coherent_def buffer_new_def)
  then have "buffer_ok remote (fold (buffer_step remote) es buffer_new)" by (rule vrb.run_inv)
  with assms(1) have "buffer_coherent remote (fold (buffer_step remote) es buffer_new)"
    by (simp add: buffer_ok_def)
  from prepare_read_answer [OF assms(1,2) this assms(3)] show ?thesis .
qed

definition demo_buffer_events :: "buffer_event list" where
  "demo_buffer_events = [Prepare 1 2 4, Prepare 0 1 4, Fetched 1 4 2]"

theorem read_buffer_serves_remote_witness:
  "fst (prepare_read 3 2 (length [1, 2, 3, 4, 5 :: byte]) 4 (fold (buffer_step [1, 2, 3, 4, 5]) demo_buffer_events buffer_new)) =
     Hit (piece [1, 2, 3, 4, 5] 3 2)"
proof -
  have run: "prepare_read 3 2 (length [1, 2, 3, 4, 5 :: byte]) 4
      (fold (buffer_step [1, 2, 3, 4, 5]) demo_buffer_events buffer_new) = (Hit [4, 5], \<lparr>vb_buf_start = 5, vb_data = []\<rparr>)"
    by code_simp
  have "[4, 5] = piece [1, 2, 3, 4, 5 :: byte] 3 2"
    using read_buffer_serves_remote [OF _ _ run] by (simp add: u64_bound_def u32_max_def)
  with run show ?thesis by (simp only: fst_conv)
qed

end
