(* ===== verification/Fuse_Fs.thy ===== *)
theory Fuse_Fs
  imports Refresh Vfs_Read_Buffer "HOL-Library.Product_Lexorder"
begin

text \<open>
  The filesystem operations (\<^verbatim>\<open>src/src/fuse/consts.rs\<close>, \<^verbatim>\<open>fs.rs\<close>, \<^verbatim>\<open>fs_helpers.rs\<close>, \<^verbatim>\<open>fs_lookup.rs\<close>,
  \<^verbatim>\<open>fs_readdir.rs\<close>, \<^verbatim>\<open>fs_readdirplus.rs\<close>, \<^verbatim>\<open>open_file.rs\<close>, \<^verbatim>\<open>read_cancel_bridge.rs\<close>): inode numbers, the
  sorted listing of \<open>__all__\<close>, lookup, attributes, the two directory reads, open and release, and the
  cancellation of reads. The read itself is in the theory \<open>Fuse_Read\<close>.

  An \<open>Instant\<close> is a number of milliseconds. A cancellation token is an index into the list
  \<open>fs_tokens\<close>, so that clones share one flag; the task that links the token of a handle to the token of
  a read is an entry of \<open>fs_links\<close>. A panic of the source is the error \<open>Panic\<close>.
\<close>

section \<open>Constants and types\<close>

definition ALL_DIR :: string where "ALL_DIR = ''__all__''"

definition INODE_ROOT :: u64 where "INODE_ROOT = 1"

definition INODE_ALL :: u64 where "INODE_ALL = 2"

definition INODE_TORRENT_BASE :: u64 where "INODE_TORRENT_BASE = 3"

definition INODE_FILE_BASE :: u64 where "INODE_FILE_BASE = 2 ^ 32"

datatype errno = ENOENT | EACCES | EIO | EINTR | ENODATA | Panic

record open_file_state =
  of_buffer :: vfs_read_buffer
  of_cancel :: nat

record rdfs =
  fs_mgr :: manager
  fs_key_to_inode :: "(string \<times> u64) list"
  fs_inode_to_key :: "(u64 \<times> string) list"
  fs_next_torrent_inode :: u64
  fs_cached_all_dir :: "int \<times> (string \<times> string) list"
  fs_broken_read_warn_ts :: "(string \<times> int) list"
  fs_next_fh :: u64
  fs_open_files :: "(u64 \<times> open_file_state) list"
  fs_pending_reads :: "(u64 \<times> nat) list"
  fs_tokens :: "bool list"
  fs_links :: "(nat \<times> nat) list"
  fs_attr_ttl :: u64
  fs_entry_ttl :: u64

definition rdfs_new :: "int \<Rightarrow> vfs_config \<Rightarrow> manager \<Rightarrow> rdfs" where
  "rdfs_new now cfg mgr =
     \<lparr>fs_mgr = mgr, fs_key_to_inode = [], fs_inode_to_key = [], fs_next_torrent_inode = INODE_TORRENT_BASE,
      fs_cached_all_dir = (now - 600000, []), fs_broken_read_warn_ts = [], fs_next_fh = 1, fs_open_files = [],
      fs_pending_reads = [], fs_tokens = [], fs_links = [],
      fs_attr_ttl = attr_timeout_secs cfg, fs_entry_ttl = entry_timeout_secs cfg\<rparr>"

section \<open>Helpers\<close>

text \<open>\<open>is_char_boundary\<close>: an index does not point into a multi-byte character.\<close>

definition is_char_boundary :: "string \<Rightarrow> nat \<Rightarrow> bool" where
  "is_char_boundary s i =
     (i = 0 \<or> i = length s \<or>
      (i < length s \<and> \<not> (128 \<le> (of_char (s ! i) :: nat) \<and> of_char (s ! i) < (192 :: nat))))"

text \<open>\<open>String::truncate\<close> panics off a character boundary; the loop that follows it in the source never
  runs, as the length of a string is always a boundary.\<close>

definition sanitize_dirent_name :: "string \<Rightarrow> string option" where
  "sanitize_dirent_name name =
     (let clean = map (\<lambda>c. if of_char c = (0 :: nat) \<or> c = CHR ''/'' then CHR ''_'' else c) name
      in if length clean \<le> 255 then Some clean
         else if is_char_boundary clean 255 then Some (take 255 clean)
         else None)"

text \<open>Runs of equal names are numbered; \<open>prev\<close> and \<open>dup\<close> are the loop's variables.\<close>

fun display_names :: "string \<Rightarrow> nat \<Rightarrow> (string \<times> string) list \<Rightarrow> (string \<times> string) list" where
  "display_names prev dup [] = []"
| "display_names prev dup ((key, name) # kns) =
     (if name = prev
      then (key, name @ '' ('' @ show_nat (dup + 1) @ '')'') # display_names prev (dup + 1) kns
      else (key, name) # display_names name 0 kns)"

fun sanitize_entries :: "(string \<times> string) list \<Rightarrow> (string \<times> string) list option" where
  "sanitize_entries [] = Some []"
| "sanitize_entries ((key, name) # kns) =
     (case sanitize_dirent_name name of
        None \<Rightarrow> None
      | Some n \<Rightarrow> map_option ((#) (key, n)) (sanitize_entries kns))"

definition sorted_entries :: "manager \<Rightarrow> (string \<times> string) list option" where
  "sorted_entries mgr =
     (let key_names = map (\<lambda>(k, m). (k, t_name (mt_torrent m))) (tm_torrents mgr);
          sorted_names = sort_key (\<lambda>(k, n). (n, k)) key_names
      in sanitize_entries (display_names [] 0 sorted_names))"

definition get_sorted_keys :: "int \<Rightarrow> rdfs \<Rightarrow> (errno + (string \<times> string) list) \<times> rdfs" where
  "get_sorted_keys now fs =
     (if now - fst (fs_cached_all_dir fs) < 15000 then (Inr (snd (fs_cached_all_dir fs)), fs)
      else
        (case sorted_entries (fs_mgr fs) of
           None \<Rightarrow> (Inl Panic, fs)
         | Some res \<Rightarrow> (Inr res, fs\<lparr>fs_cached_all_dir := (now, res)\<rparr>)))"

definition get_or_assign_torrent_inode :: "string \<Rightarrow> rdfs \<Rightarrow> u64 \<times> rdfs" where
  "get_or_assign_torrent_inode key fs =
     (case map_of (fs_key_to_inode fs) key of
        Some i \<Rightarrow> (i, fs)
      | None \<Rightarrow>
          let i = fs_next_torrent_inode fs
          in (i, fs\<lparr>fs_next_torrent_inode := wadd64 i 1,
                    fs_inode_to_key := AList.update i key (fs_inode_to_key fs),
                    fs_key_to_inode := AList.update key i (fs_key_to_inode fs)\<rparr>))"

definition invalidate_cached_all_dir :: "int \<Rightarrow> rdfs \<Rightarrow> rdfs" where
  "invalidate_cached_all_dir now fs = fs\<lparr>fs_cached_all_dir := (now - 600000, snd (fs_cached_all_dir fs))\<rparr>"

definition warn_prefix :: "string \<Rightarrow> string" where
  "warn_prefix key = key @ [CHR 0x1F]"

text \<open>The cleanup task, on a removal event.\<close>

definition cleanup_removed :: "string \<Rightarrow> rdfs \<Rightarrow> rdfs" where
  "cleanup_removed key fs =
     (let fs1 = (case map_of (fs_key_to_inode fs) key of
                   None \<Rightarrow> fs
                 | Some i \<Rightarrow> fs\<lparr>fs_key_to_inode := AList.delete key (fs_key_to_inode fs),
                               fs_inode_to_key := AList.delete i (fs_inode_to_key fs)\<rparr>)
      in fs1\<lparr>fs_broken_read_warn_ts :=
           filter (\<lambda>(k, _). \<not> starts_with k (warn_prefix key)) (fs_broken_read_warn_ts fs1)\<rparr>)"

definition cleanup_sweep :: "int \<Rightarrow> rdfs \<Rightarrow> rdfs" where
  "cleanup_sweep now fs =
     fs\<lparr>fs_broken_read_warn_ts := filter (\<lambda>(_, ts). max 0 (now - ts) < 3600000) (fs_broken_read_warn_ts fs)\<rparr>"

definition purge_torrent_inode :: "int \<Rightarrow> string \<Rightarrow> rdfs \<Rightarrow> rdfs" where
  "purge_torrent_inode now key fs = invalidate_cached_all_dir now (cleanup_removed key fs)"

definition inode_to_access_key :: "rdfs \<Rightarrow> u64 \<Rightarrow> string option" where
  "inode_to_access_key fs i = map_of (fs_inode_to_key fs) i"

record file_attr =
  at_ino :: u64
  at_size :: u64
  at_blocks :: u64
  at_atime :: u64
  at_mtime :: u64
  at_ctime :: u64
  at_dir :: bool
  at_perm :: nat
  at_nlink :: nat
  at_blksize :: nat

definition dir_attr :: "u64 \<Rightarrow> file_attr" where
  "dir_attr inode =
     \<lparr>at_ino = inode, at_size = 0, at_blocks = 0, at_atime = 0, at_mtime = 0, at_ctime = 0, at_dir = True,
      at_perm = 365, at_nlink = 2, at_blksize = 512\<rparr>"

definition mk_file_attr :: "u64 \<Rightarrow> u64 \<Rightarrow> u64 \<Rightarrow> file_attr" where
  "mk_file_attr inode sz mtime =
     \<lparr>at_ino = inode, at_size = sz, at_blocks = (sz + 511) div 512, at_atime = mtime, at_mtime = mtime,
      at_ctime = mtime, at_dir = False, at_perm = 292, at_nlink = 1, at_blksize = 4096\<rparr>"

definition torrent_mtime :: "managed_torrent \<Rightarrow> u64" where
  "torrent_mtime m = nat (max (t_added (mt_torrent m)) 0)"

definition torrent_dir_attr :: "u64 \<Rightarrow> managed_torrent \<Rightarrow> file_attr" where
  "torrent_dir_attr inode m =
     (dir_attr inode)\<lparr>at_mtime := torrent_mtime m, at_atime := torrent_mtime m, at_ctime := torrent_mtime m\<rparr>"

definition torrent_inode :: "u64 \<Rightarrow> u64" where
  "torrent_inode index = wadd64 INODE_TORRENT_BASE index"

definition file_inode :: "u64 \<Rightarrow> u64 \<Rightarrow> u64" where
  "file_inode torrent_index file_index = wadd64 (wadd64 INODE_FILE_BASE (wmul64 torrent_index 10000)) file_index"

definition is_torrent_inode :: "u64 \<Rightarrow> bool" where
  "is_torrent_inode i = (INODE_TORRENT_BASE \<le> i \<and> i < INODE_FILE_BASE)"

definition fs_ensure_torrent_info ::
    "'w rd_api \<Rightarrow> string \<Rightarrow> rdfs \<Rightarrow> 'w \<Rightarrow> managed_torrent option \<times> rdfs \<times> 'w" where
  "fs_ensure_torrent_info rd key fs w =
     (let (r, mgr, w1) = ensure_torrent_info rd key (fs_mgr fs) w in (r, fs\<lparr>fs_mgr := mgr\<rparr>, w1))"

section \<open>Lookup and attributes\<close>

record reply_entry =
  re_ttl :: u64
  re_attr :: file_attr

definition file_display_name :: "rd_file \<Rightarrow> string option" where
  "file_display_name f = sanitize_dirent_name (trim_start_char (CHR ''/'') (f_path f))"

fun find_file :: "string \<Rightarrow> nat \<Rightarrow> rd_file list \<Rightarrow> errno + nat \<times> rd_file" where
  "find_file name i [] = Inl ENOENT"
| "find_file name i (f # fs) =
     (case file_display_name f of
        None \<Rightarrow> Inl Panic
      | Some n \<Rightarrow> if n = name then Inr (i, f) else find_file name (Suc i) fs)"

definition find_key :: "manager \<Rightarrow> string \<Rightarrow> (string \<times> string) list \<Rightarrow> (string \<times> managed_torrent) option" where
  "find_key mgr name keys =
     (case filter (\<lambda>(k, n). n = name \<and> get_mt mgr k \<noteq> None) keys of
        [] \<Rightarrow> None
      | (k, _) # _ \<Rightarrow> map_option (Pair k) (get_mt mgr k))"

definition fs_lookup ::
    "'w rd_api \<Rightarrow> int \<Rightarrow> u64 \<Rightarrow> string \<Rightarrow> rdfs \<Rightarrow> 'w \<Rightarrow> (errno + reply_entry) \<times> rdfs \<times> 'w" where
  "fs_lookup rd now parent name fs w =
     (if parent = INODE_ROOT then
        (if name = ALL_DIR then (Inr \<lparr>re_ttl = fs_entry_ttl fs, re_attr = dir_attr INODE_ALL\<rparr>, fs, w)
         else (Inl ENOENT, fs, w))
      else if parent = INODE_ALL then
        (case get_sorted_keys now fs of
           (Inl e, fs1) \<Rightarrow> (Inl e, fs1, w)
         | (Inr keys, fs1) \<Rightarrow>
             (case find_key (fs_mgr fs1) name keys of
                None \<Rightarrow> (Inl ENOENT, fs1, w)
              | Some (key, m) \<Rightarrow>
                  let (inode, fs2) = get_or_assign_torrent_inode key fs1
                  in (Inr \<lparr>re_ttl = fs_entry_ttl fs2, re_attr = torrent_dir_attr inode m\<rparr>, fs2, w)))
      else if is_torrent_inode parent then
        (case inode_to_access_key fs parent of
           None \<Rightarrow> (Inl ENOENT, fs, w)
         | Some key \<Rightarrow>
             (case fs_ensure_torrent_info rd key fs w of
                (None, fs1, w1) \<Rightarrow> (Inl ENOENT, fs1, w1)
              | (Some m, fs1, w1) \<Rightarrow>
                  (case find_file name 0 (selected_files m) of
                     Inl e \<Rightarrow> (Inl e, fs1, w1)
                   | Inr (fi, f) \<Rightarrow>
                       (Inr \<lparr>re_ttl = fs_entry_ttl fs1,
                             re_attr = mk_file_attr (file_inode (parent - INODE_TORRENT_BASE) fi)
                               (nat (max (f_bytes f) 0)) (torrent_mtime m)\<rparr>, fs1, w1))))
      else (Inl ENOENT, fs, w))"

definition fs_getattr ::
    "'w rd_api \<Rightarrow> u64 \<Rightarrow> rdfs \<Rightarrow> 'w \<Rightarrow> (errno + u64 \<times> file_attr) \<times> rdfs \<times> 'w" where
  "fs_getattr rd i fs w =
     (if i = INODE_ROOT then (Inr (fs_attr_ttl fs, dir_attr INODE_ROOT), fs, w)
      else if i = INODE_ALL then (Inr (fs_attr_ttl fs, dir_attr INODE_ALL), fs, w)
      else if is_torrent_inode i then
        (case inode_to_access_key fs i of
           None \<Rightarrow> (Inl ENOENT, fs, w)
         | Some key \<Rightarrow>
             (case get_mt (fs_mgr fs) key of
                None \<Rightarrow> (Inl ENOENT, fs, w)
              | Some m \<Rightarrow> (Inr (fs_attr_ttl fs, torrent_dir_attr i m), fs, w)))
      else if INODE_FILE_BASE \<le> i then
        (let torrent_idx = (i - INODE_FILE_BASE) div 10000; file_idx = (i - INODE_FILE_BASE) mod 10000
         in (case inode_to_access_key fs (INODE_TORRENT_BASE + torrent_idx) of
               None \<Rightarrow> (Inl ENOENT, fs, w)
             | Some key \<Rightarrow>
                 (case fs_ensure_torrent_info rd key fs w of
                    (None, fs1, w1) \<Rightarrow> (Inl ENOENT, fs1, w1)
                  | (Some m, fs1, w1) \<Rightarrow>
                      if file_idx < length (selected_files m)
                      then (Inr (fs_attr_ttl fs1, mk_file_attr i (nat (max (f_bytes (selected_files m ! file_idx)) 0))
                              (torrent_mtime m)), fs1, w1)
                      else (Inl ENOENT, fs1, w1))))
      else (Inl ENOENT, fs, w))"

section \<open>Directory reads\<close>

record dir_entry =
  de_inode :: u64
  de_dir :: bool
  de_name :: string
  de_offset :: i64

text \<open>The loop over a page of the listing: an entry whose torrent is gone is skipped, an inode is
  assigned to the others.\<close>

fun all_page :: "nat \<Rightarrow> (string \<times> string) list \<Rightarrow> rdfs \<Rightarrow> dir_entry list \<times> rdfs" where
  "all_page index [] fs = ([], fs)"
| "all_page index ((key, name) # kns) fs =
     (if get_mt (fs_mgr fs) key \<noteq> None
      then
        let (inode, fs1) = get_or_assign_torrent_inode key fs;
            (es, fs2) = all_page (Suc index) kns fs1
        in (\<lparr>de_inode = inode, de_dir = True, de_name = name, de_offset = int (index + 3)\<rparr> # es, fs2)
      else all_page (Suc index) kns fs)"

fun file_entries :: "u64 \<Rightarrow> nat \<Rightarrow> rd_file list \<Rightarrow> dir_entry list option" where
  "file_entries slot fi [] = Some []"
| "file_entries slot fi (f # fs) =
     (case file_display_name f of
        None \<Rightarrow> None
      | Some n \<Rightarrow>
          map_option ((#) \<lparr>de_inode = file_inode slot fi, de_dir = False, de_name = n, de_offset = int (fi + 3)\<rparr>)
            (file_entries slot (Suc fi) fs))"

definition dots :: "u64 \<Rightarrow> u64 \<Rightarrow> dir_entry list" where
  "dots self parent =
     [\<lparr>de_inode = self, de_dir = True, de_name = ''.'', de_offset = 1\<rparr>,
      \<lparr>de_inode = parent, de_dir = True, de_name = ''..'', de_offset = 2\<rparr>]"

definition fs_readdir ::
    "'w rd_api \<Rightarrow> int \<Rightarrow> u64 \<Rightarrow> i64 \<Rightarrow> rdfs \<Rightarrow> 'w \<Rightarrow> (errno + dir_entry list) \<times> rdfs \<times> 'w" where
  "fs_readdir rd now inode offset fs w =
     (let tail = filter (\<lambda>e. offset < de_offset e)
      in if inode = INODE_ROOT then
           (Inr (tail (dots INODE_ROOT INODE_ROOT @
              [\<lparr>de_inode = INODE_ALL, de_dir = True, de_name = ALL_DIR, de_offset = 3\<rparr>])), fs, w)
         else if inode = INODE_ALL then
           (case get_sorted_keys now fs of
              (Inl e, fs1) \<Rightarrow> (Inl e, fs1, w)
            | (Inr keys, fs1) \<Rightarrow>
                let start_idx = nat (max offset 2 - 2);
                    (es, fs2) = all_page start_idx (take 1000 (drop start_idx keys)) fs1
                in (Inr (tail (dots INODE_ALL INODE_ROOT @ es)), fs2, w))
         else if is_torrent_inode inode then
           (case inode_to_access_key fs inode of
              None \<Rightarrow> (Inl ENOENT, fs, w)
            | Some key \<Rightarrow>
                (case fs_ensure_torrent_info rd key fs w of
                   (None, fs1, w1) \<Rightarrow> (Inl ENOENT, fs1, w1)
                 | (Some m, fs1, w1) \<Rightarrow>
                     (case file_entries (inode - INODE_TORRENT_BASE) 0 (selected_files m) of
                        None \<Rightarrow> (Inl Panic, fs1, w1)
                      | Some es \<Rightarrow> (Inr (tail (dots inode INODE_ALL @ es)), fs1, w1))))
         else (Inl ENOENT, fs, w))"

record dir_entry_plus =
  dp_inode :: u64
  dp_dir :: bool
  dp_name :: string
  dp_offset :: i64
  dp_attr :: file_attr
  dp_entry_ttl :: u64
  dp_attr_ttl :: u64

definition dir_plus :: "rdfs \<Rightarrow> u64 \<Rightarrow> string \<Rightarrow> i64 \<Rightarrow> file_attr \<Rightarrow> dir_entry_plus" where
  "dir_plus fs inode name off attr =
     \<lparr>dp_inode = inode, dp_dir = True, dp_name = name, dp_offset = off, dp_attr = attr,
      dp_entry_ttl = fs_entry_ttl fs, dp_attr_ttl = fs_attr_ttl fs\<rparr>"

fun all_page_plus :: "nat \<Rightarrow> (string \<times> string) list \<Rightarrow> rdfs \<Rightarrow> dir_entry_plus list \<times> rdfs" where
  "all_page_plus index [] fs = ([], fs)"
| "all_page_plus index ((key, name) # kns) fs =
     (case get_mt (fs_mgr fs) key of
        Some m \<Rightarrow>
          let (inode, fs1) = get_or_assign_torrent_inode key fs;
              (es, fs2) = all_page_plus (Suc index) kns fs1
          in (dir_plus fs inode name (int (index + 3)) (torrent_dir_attr inode m) # es, fs2)
      | None \<Rightarrow> all_page_plus (Suc index) kns fs)"

fun file_entries_plus :: "rdfs \<Rightarrow> u64 \<Rightarrow> u64 \<Rightarrow> nat \<Rightarrow> rd_file list \<Rightarrow> dir_entry_plus list option" where
  "file_entries_plus fs mtime slot fi [] = Some []"
| "file_entries_plus fs mtime slot fi (f # files) =
     (case file_display_name f of
        None \<Rightarrow> None
      | Some n \<Rightarrow>
          map_option ((#) \<lparr>dp_inode = file_inode slot fi, dp_dir = False, dp_name = n, dp_offset = int (fi + 3),
              dp_attr = mk_file_attr (file_inode slot fi) (nat (max (f_bytes f) 0)) mtime,
              dp_entry_ttl = fs_entry_ttl fs, dp_attr_ttl = fs_attr_ttl fs\<rparr>)
            (file_entries_plus fs mtime slot (Suc fi) files))"

definition fs_readdirplus ::
    "'w rd_api \<Rightarrow> int \<Rightarrow> u64 \<Rightarrow> u64 \<Rightarrow> rdfs \<Rightarrow> 'w \<Rightarrow> (errno + dir_entry_plus list) \<times> rdfs \<times> 'w" where
  "fs_readdirplus rd now parent offset fs w =
     (let tail = filter (\<lambda>e. u64_to_i64 offset < dp_offset e)
      in if parent = INODE_ROOT then
           (Inr (tail [dir_plus fs INODE_ROOT ''.'' 1 (dir_attr INODE_ROOT),
                       dir_plus fs INODE_ROOT ''..'' 2 (dir_attr INODE_ROOT),
                       dir_plus fs INODE_ALL ALL_DIR 3 (dir_attr INODE_ALL)]), fs, w)
         else if parent = INODE_ALL then
           (case get_sorted_keys now fs of
              (Inl e, fs1) \<Rightarrow> (Inl e, fs1, w)
            | (Inr keys, fs1) \<Rightarrow>
                let start_idx = max offset 2 - 2;
                    (es, fs2) = all_page_plus start_idx (take 1000 (drop start_idx keys)) fs1
                in (Inr (tail ([dir_plus fs1 INODE_ALL ''.'' 1 (dir_attr INODE_ALL),
                                dir_plus fs1 INODE_ROOT ''..'' 2 (dir_attr INODE_ROOT)] @ es)), fs2, w))
         else if is_torrent_inode parent then
           (case inode_to_access_key fs parent of
              None \<Rightarrow> (Inl ENOENT, fs, w)
            | Some key \<Rightarrow>
                (case fs_ensure_torrent_info rd key fs w of
                   (None, fs1, w1) \<Rightarrow> (Inl ENOENT, fs1, w1)
                 | (Some m, fs1, w1) \<Rightarrow>
                     (case file_entries_plus fs1 (torrent_mtime m) (parent - INODE_TORRENT_BASE) 0 (selected_files m) of
                        None \<Rightarrow> (Inl Panic, fs1, w1)
                      | Some es \<Rightarrow>
                          (Inr (tail ([dir_plus fs1 parent ''.'' 1 (torrent_dir_attr parent m),
                                       dir_plus fs1 INODE_ALL ''..'' 2 (dir_attr INODE_ALL)] @ es)), fs1, w1))))
         else (Inl ENOENT, fs, w))"

section \<open>Handles and cancellation\<close>

definition fs_access :: "u64 \<Rightarrow> u32 \<Rightarrow> rdfs \<Rightarrow> errno + unit" where
  "fs_access inode amask fs =
     (if odd (amask div 2) then Inl EACCES
      else if inode = INODE_ROOT \<or> inode = INODE_ALL then Inr ()
      else if is_torrent_inode inode then
        (if inode_to_access_key fs inode \<noteq> None then Inr () else Inl ENOENT)
      else if INODE_FILE_BASE \<le> inode then Inr ()
      else Inl ENOENT)"

definition new_token :: "rdfs \<Rightarrow> nat \<times> rdfs" where
  "new_token fs = (length (fs_tokens fs), fs\<lparr>fs_tokens := fs_tokens fs @ [False]\<rparr>)"

definition cancel_token :: "nat \<Rightarrow> rdfs \<Rightarrow> rdfs" where
  "cancel_token t fs = fs\<lparr>fs_tokens := (fs_tokens fs)[t := True]\<rparr>"

definition is_cancelled :: "nat \<Rightarrow> rdfs \<Rightarrow> bool" where
  "is_cancelled t fs = (t < length (fs_tokens fs) \<and> fs_tokens fs ! t)"

definition fs_open :: "u64 \<Rightarrow> u32 \<Rightarrow> rdfs \<Rightarrow> (errno + u64) \<times> rdfs" where
  "fs_open inode flags fs =
     (if flags mod 4 \<noteq> 0 then (Inl EACCES, fs)
      else if INODE_FILE_BASE \<le> inode then
        (let fh = fs_next_fh fs; (t, fs1) = new_token fs
         in (Inr fh, fs1\<lparr>fs_next_fh := wadd64 fh 1,
               fs_open_files := AList.update fh \<lparr>of_buffer = buffer_new, of_cancel = t\<rparr> (fs_open_files fs1)\<rparr>))
      else (Inr 0, fs))"

definition fs_release :: "u64 \<Rightarrow> rdfs \<Rightarrow> rdfs" where
  "fs_release fh fs =
     (case map_of (fs_open_files fs) fh of
        None \<Rightarrow> fs
      | Some st \<Rightarrow> cancel_token (of_cancel st) (fs\<lparr>fs_open_files := AList.delete fh (fs_open_files fs)\<rparr>))"

definition fs_interrupt :: "u64 \<Rightarrow> rdfs \<Rightarrow> rdfs" where
  "fs_interrupt unique fs =
     (case map_of (fs_pending_reads fs) unique of
        None \<Rightarrow> fs
      | Some t \<Rightarrow> cancel_token t (fs\<lparr>fs_pending_reads := AList.delete unique (fs_pending_reads fs)\<rparr>))"

text \<open>\<open>FuseReadCancelRegistration::new\<close> in \<open>RdFs::read\<close>: a handle that is not open gives a fresh token
  that nobody cancels.\<close>

definition read_register :: "u64 \<Rightarrow> u64 \<Rightarrow> rdfs \<Rightarrow> nat \<times> rdfs" where
  "read_register unique fh fs =
     (let (fh_token, fs1) = (case map_of (fs_open_files fs) fh of
                               Some st \<Rightarrow> (of_cancel st, fs) | None \<Rightarrow> new_token fs);
          (t, fs2) = new_token fs1
      in (t, fs2\<lparr>fs_pending_reads := AList.update unique t (fs_pending_reads fs2),
                 fs_links := (fh_token, t) # fs_links fs2\<rparr>))"

text \<open>The link task, when it runs after its handle's token was cancelled.\<close>

definition link_fire :: "nat \<times> nat \<Rightarrow> rdfs \<Rightarrow> rdfs" where
  "link_fire l fs =
     (if l \<in> set (fs_links fs) \<and> is_cancelled (fst l) fs then cancel_token (snd l) fs else fs)"

text \<open>\<open>Drop\<close> of the registration: the link is aborted and the entry removed.\<close>

definition read_unregister :: "u64 \<Rightarrow> nat \<Rightarrow> rdfs \<Rightarrow> rdfs" where
  "read_unregister unique t fs =
     fs\<lparr>fs_links := filter (\<lambda>l. snd l \<noteq> t) (fs_links fs),
        fs_pending_reads := AList.delete unique (fs_pending_reads fs)\<rparr>"

section \<open>Inode numbers\<close>

text \<open>
  What the operations do to the inode maps: nothing, the assignment of a number, or the removal of a
  key. Every operation of the filesystem is such a path, so that a property of the maps is proved once,
  by rule induction.
\<close>

definition same_inodes :: "rdfs \<Rightarrow> rdfs \<Rightarrow> bool" where
  "same_inodes fs fs' \<longleftrightarrow> fs_key_to_inode fs' = fs_key_to_inode fs \<and> fs_inode_to_key fs' = fs_inode_to_key fs \<and>
     fs_next_torrent_inode fs' = fs_next_torrent_inode fs"

inductive inode_path :: "nat \<Rightarrow> rdfs \<Rightarrow> rdfs \<Rightarrow> bool" where
  path_same: "same_inodes fs fs' \<Longrightarrow> inode_path 0 fs fs'"
| path_assign: "inode_path n fs fs1 \<Longrightarrow> same_inodes (snd (get_or_assign_torrent_inode k fs1)) fs2 \<Longrightarrow>
    inode_path (Suc n) fs fs2"
| path_remove: "inode_path n fs fs1 \<Longrightarrow> same_inodes (cleanup_removed k fs1) fs2 \<Longrightarrow> inode_path n fs fs2"

lemma same_inodes_refl [simp]: "same_inodes fs fs"
  by (simp add: same_inodes_def)

lemma same_inodes_trans: "same_inodes a b \<Longrightarrow> same_inodes b c \<Longrightarrow> same_inodes a c"
  by (simp add: same_inodes_def)

lemma inode_path_refl [intro]: "inode_path 0 fs fs"
  by (rule path_same) simp

lemma inode_path_same: "inode_path n a b \<Longrightarrow> same_inodes b c \<Longrightarrow> inode_path n a c"
  by (induction rule: inode_path.induct) (meson inode_path.intros same_inodes_trans)+

lemma inode_path_trans: "inode_path m b c \<Longrightarrow> inode_path n a b \<Longrightarrow> inode_path (n + m) a c"
  by (induction rule: inode_path.induct) (auto intro: inode_path.intros inode_path_same)

lemma inode_path_assign [intro]: "inode_path (Suc 0) fs (snd (get_or_assign_torrent_inode k fs))"
  by (rule path_assign [OF inode_path_refl same_inodes_refl])

lemma inode_path_remove [intro]: "inode_path 0 fs (cleanup_removed k fs)"
  by (rule path_remove [OF inode_path_refl same_inodes_refl])

lemma get_or_assign_mgr [simp]: "fs_mgr (snd (get_or_assign_torrent_inode k fs)) = fs_mgr fs"
  by (simp add: get_or_assign_torrent_inode_def Let_def split: option.split)

lemma get_sorted_keys_same: "get_sorted_keys now fs = (r, fs') \<Longrightarrow> same_inodes fs fs' \<and> fs_mgr fs' = fs_mgr fs"
  by (auto simp: get_sorted_keys_def same_inodes_def split: if_splits option.splits)

lemma fs_ensure_same: "fs_ensure_torrent_info rd k fs w = (r, fs', w') \<Longrightarrow> same_inodes fs fs'"
  by (auto simp: fs_ensure_torrent_info_def same_inodes_def split: prod.splits)

lemma all_page_path: "all_page i kns fs = (es, fs') \<Longrightarrow> \<exists>n \<le> length kns. inode_path n fs fs'"
proof (induction i kns fs arbitrary: es fs' rule: all_page.induct)
  case (2 i key name kns fs)
  obtain inode fs1 where a: "get_or_assign_torrent_inode key fs = (inode, fs1)" by fastforce
  show ?case
  proof (cases "get_mt (fs_mgr fs) key = None")
    case True
    with 2 show ?thesis by (metis all_page.simps(2) le_SucI length_Cons)
  next
    case False
    with "2.prems" a obtain es1 where r: "all_page (Suc i) kns fs1 = (es1, fs')" by (auto split: prod.splits)
    then obtain n where n: "n \<le> length kns" "inode_path n fs1 fs'" using "2.IH"(1) False a by metis
    moreover have "inode_path (Suc 0) fs fs1" using a inode_path_assign by (metis snd_conv)
    ultimately have "inode_path (Suc n) fs fs'" using inode_path_trans by fastforce
    with n show ?thesis by auto
  qed
qed auto

text \<open>The two directory reads answer alike.\<close>

definition strip_plus :: "dir_entry_plus \<Rightarrow> dir_entry" where
  "strip_plus e = \<lparr>de_inode = dp_inode e, de_dir = dp_dir e, de_name = dp_name e, de_offset = dp_offset e\<rparr>"

lemma all_page_plus_eq:
  "map strip_plus (fst (all_page_plus i kns fs)) = fst (all_page i kns fs) \<and>
   snd (all_page_plus i kns fs) = snd (all_page i kns fs)"
proof (induction i kns fs rule: all_page.induct)
  case (2 i key name kns fs)
  obtain inode fs1 where a: "get_or_assign_torrent_inode key fs = (inode, fs1)" by fastforce
  show ?case
  proof (cases "get_mt (fs_mgr fs) key")
    case None
    with 2 show ?thesis by simp
  next
    case (Some m)
    with "2.IH"(1) [OF _ a [symmetric] refl] a show ?thesis by (auto simp: dir_plus_def strip_plus_def split: prod.splits)
  qed
qed simp

lemma file_entries_plus_eq:
  "map_option (map strip_plus) (file_entries_plus fs mt slot fi files) = file_entries slot fi files"
proof (induction files arbitrary: fi)
  case (Cons f files)
  from Cons.IH [of "Suc fi", symmetric] show ?case
    by (cases "file_entries_plus fs mt slot (Suc fi) files") (auto simp: strip_plus_def split: option.splits)
qed simp

lemma filter_strip:
  "map strip_plus (filter (\<lambda>e. off < dp_offset e) es) = filter (\<lambda>e. off < de_offset e) (map strip_plus es)"
  by (induction es) (auto simp: strip_plus_def)

lemma readdir_path:
  assumes "fs_readdir rd now i off fs w = (r, fs', w')"
  shows "\<exists>n \<le> 1000. inode_path n fs fs'"
proof -
  have page: "\<exists>n \<le> 1000. inode_path n fs fs2"
    if same: "same_inodes fs fs1" and run: "all_page j (take 1000 ks) fs1 = (es, fs2)" for j ks es fs1 fs2
  proof -
    obtain n where "n \<le> length (take 1000 ks)" "inode_path n fs1 fs2" using all_page_path [OF run] by blast
    then show ?thesis using inode_path_trans [OF _ path_same [OF same]] by (auto intro!: exI [of _ n])
  qed
  have quiet: "\<exists>n \<le> 1000. inode_path n fs fs1" if "same_inodes fs fs1" for fs1
    using that path_same by blast
  from assms show ?thesis
    by (auto simp: fs_readdir_def Let_def split: if_splits prod.splits sum.splits option.splits
        dest!: get_sorted_keys_same fs_ensure_same intro: quiet page)
qed

lemma lookup_path:
  assumes "fs_lookup rd now i name fs w = (r, fs', w')"
  shows "\<exists>n \<le> 1000. inode_path n fs fs'"
proof -
  have assign: "\<exists>n \<le> 1000. inode_path n fs fs2"
    if "same_inodes fs fs1" "get_or_assign_torrent_inode k fs1 = (j, fs2)" for k j fs1 fs2
  proof -
    have "inode_path (Suc 0) fs1 fs2" using that(2) inode_path_assign by (metis snd_conv)
    from inode_path_trans [OF this path_same [OF that(1)]] show ?thesis by (auto intro!: exI [of _ "Suc 0"])
  qed
  have quiet: "\<exists>n \<le> 1000. inode_path n fs fs1" if "same_inodes fs fs1" for fs1
    using that path_same by blast
  from assms show ?thesis
    by (auto simp: fs_lookup_def Let_def split: if_splits prod.splits sum.splits option.splits
        dest!: get_sorted_keys_same fs_ensure_same intro: quiet assign)
qed

lemma getattr_same: "fs_getattr rd i fs w = (r, fs', w') \<Longrightarrow> same_inodes fs fs'"
  by (auto simp: fs_getattr_def Let_def split: if_splits prod.splits option.splits dest!: fs_ensure_same)

text \<open>The maps are inverse to each other, and the numbers in use are below the counter.\<close>

definition inode_inv :: "rdfs \<Rightarrow> bool" where
  "inode_inv fs \<longleftrightarrow>
     (\<forall>k i. map_of (fs_key_to_inode fs) k = Some i \<longleftrightarrow> map_of (fs_inode_to_key fs) i = Some k) \<and>
     (\<forall>k i. map_of (fs_key_to_inode fs) k = Some i \<longrightarrow>
        INODE_TORRENT_BASE \<le> i \<and> i < fs_next_torrent_inode fs) \<and>
     INODE_TORRENT_BASE \<le> fs_next_torrent_inode fs"

lemma inode_inv_same: "same_inodes fs fs' \<Longrightarrow> inode_inv fs' = inode_inv fs"
  by (simp add: same_inodes_def inode_inv_def)

lemma inode_inv_assign:
  assumes inv: "inode_inv fs" and room: "fs_next_torrent_inode fs + 1 < u64_bound"
  shows "inode_inv (snd (get_or_assign_torrent_inode k fs))"
proof (cases "map_of (fs_key_to_inode fs) k")
  case None
  have w: "wadd64 (fs_next_torrent_inode fs) 1 = fs_next_torrent_inode fs + 1" using room by (rule wadd64_exact)
  have "map_of (fs_inode_to_key fs) (fs_next_torrent_inode fs) = None"
    using inv by (metis inode_inv_def less_irrefl option.exhaust)
  with inv None w show ?thesis
    by (auto simp: inode_inv_def get_or_assign_torrent_inode_def Let_def tbl.get_put less_Suc_eq)
      (metis option.distinct(1))
next
  case (Some i)
  with inv show ?thesis by (simp add: get_or_assign_torrent_inode_def)
qed

lemma inode_inv_remove: "inode_inv fs \<Longrightarrow> inode_inv (cleanup_removed k fs)"
  by (auto simp: inode_inv_def cleanup_removed_def Let_def tbl.get_del split: option.splits) (metis option.inject)+

lemma next_inode_assign:
  "fs_next_torrent_inode (snd (get_or_assign_torrent_inode k fs)) \<in>
     {fs_next_torrent_inode fs, wadd64 (fs_next_torrent_inode fs) 1}"
  by (simp add: get_or_assign_torrent_inode_def Let_def split: option.split)

lemma next_inode_remove: "fs_next_torrent_inode (cleanup_removed k fs) = fs_next_torrent_inode fs"
  by (simp add: cleanup_removed_def Let_def split: option.split)

lemma readdirplus_path:
  assumes "fs_readdirplus rd now i off fs w = (r, fs', w')"
  shows "\<exists>n \<le> 1000. inode_path n fs fs'"
proof -
  have page: "\<exists>n \<le> 1000. inode_path n fs fs2"
    if same: "same_inodes fs fs1" and run: "all_page_plus j (take 1000 ks) fs1 = (es, fs2)" for j ks es fs1 fs2
  proof -
    have "snd (all_page j (take 1000 ks) fs1) = fs2" using all_page_plus_eq [of j "take 1000 ks" fs1] run by simp
    then obtain n where "n \<le> length (take 1000 ks)" "inode_path n fs1 fs2"
      using all_page_path [of j "take 1000 ks" fs1] by (metis prod.collapse)
    then show ?thesis using inode_path_trans [OF _ path_same [OF same]] by (auto intro!: exI [of _ n])
  qed
  have quiet: "\<exists>n \<le> 1000. inode_path n fs fs1" if "same_inodes fs fs1" for fs1
    using that path_same by blast
  from assms show ?thesis
    by (auto simp: fs_readdirplus_def Let_def split: if_splits prod.splits sum.splits option.splits
        dest!: get_sorted_keys_same fs_ensure_same intro: quiet page)
qed

section \<open>The machine of the filesystem\<close>

text \<open>\<open>EvManager\<close> stands for every change of the shared registry by the refresh and the repair.\<close>

datatype fs_event =
    EvLookup u64 string
  | EvGetattr u64
  | EvReaddir u64 i64
  | EvReaddirPlus u64 u64
  | EvRemoved string
  | EvSweep
  | EvOpen u64 u32
  | EvRelease u64
  | EvInterrupt u64
  | EvReadBegin u64 u64
  | EvReadEnd u64 nat
  | EvLink "nat \<times> nat"
  | EvManager manager

fun fs_op :: "'w rd_api \<Rightarrow> int \<Rightarrow> fs_event \<Rightarrow> rdfs \<Rightarrow> 'w \<Rightarrow> rdfs \<times> 'w" where
  "fs_op rd now (EvLookup i n) fs w = snd (fs_lookup rd now i n fs w)"
| "fs_op rd now (EvGetattr i) fs w = snd (fs_getattr rd i fs w)"
| "fs_op rd now (EvReaddir i off) fs w = snd (fs_readdir rd now i off fs w)"
| "fs_op rd now (EvReaddirPlus i off) fs w = snd (fs_readdirplus rd now i off fs w)"
| "fs_op rd now (EvRemoved k) fs w = (cleanup_removed k fs, w)"
| "fs_op rd now EvSweep fs w = (cleanup_sweep now fs, w)"
| "fs_op rd now (EvOpen i fl) fs w = (snd (fs_open i fl fs), w)"
| "fs_op rd now (EvRelease fh) fs w = (fs_release fh fs, w)"
| "fs_op rd now (EvInterrupt u) fs w = (fs_interrupt u fs, w)"
| "fs_op rd now (EvReadBegin u fh) fs w = (snd (read_register u fh fs), w)"
| "fs_op rd now (EvReadEnd u t) fs w = (read_unregister u t fs, w)"
| "fs_op rd now (EvLink l) fs w = (link_fire l fs, w)"
| "fs_op rd now (EvManager mgr) fs w = (fs\<lparr>fs_mgr := mgr\<rparr>, w)"

definition fs_step :: "'w rd_api \<Rightarrow> int \<times> fs_event \<Rightarrow> rdfs \<times> 'w \<Rightarrow> rdfs \<times> 'w" where
  "fs_step rd e s = fs_op rd (fst e) (snd e) (fst s) (snd s)"

lemma fs_op_path: "\<exists>n \<le> 1000. inode_path n fs (fst (fs_op rd now e fs w))"
proof -
  have quiet: "\<exists>n \<le> 1000. inode_path n fs fs1" if "same_inodes fs fs1" for fs1
    using that path_same by blast
  show ?thesis
  proof (cases e)
    case (EvLookup i n)
    then show ?thesis using lookup_path [of rd now i n fs w] by (metis fs_op.simps(1) prod.collapse)
  next
    case (EvGetattr i)
    then show ?thesis using getattr_same [of rd i fs w] quiet by (metis fs_op.simps(2) prod.collapse)
  next
    case (EvReaddir i off)
    then show ?thesis using readdir_path [of rd now i off fs w] by (metis fs_op.simps(3) prod.collapse)
  next
    case (EvReaddirPlus i off)
    then show ?thesis using readdirplus_path [of rd now i off fs w] by (metis fs_op.simps(4) prod.collapse)
  next
    case (EvRemoved k)
    then show ?thesis using inode_path_remove by (metis fs_op.simps(5) fst_conv zero_le)
  qed (auto intro!: quiet simp: same_inodes_def cleanup_sweep_def fs_open_def new_token_def fs_release_def
      cancel_token_def fs_interrupt_def read_register_def read_unregister_def link_fire_def Let_def
      split: option.split prod.split)
qed

lemma fs_run_path: "\<exists>n \<le> 1000 * length es. inode_path n (fst s) (fst (fold (fs_step rd) es s))"
proof (induction es arbitrary: s)
  case (Cons e es)
  obtain n where n: "n \<le> 1000 * length es" "inode_path n (fst (fs_step rd e s)) (fst (fold (fs_step rd) es (fs_step rd e s)))"
    using Cons.IH by blast
  obtain m where m: "m \<le> 1000" "inode_path m (fst s) (fst (fs_step rd e s))"
    using fs_op_path by (metis fs_step_def)
  have "inode_path (m + n) (fst s) (fst (fold (fs_step rd) (e # es) s))"
    using inode_path_trans [OF n(2) m(2)] by simp
  with n(1) m(1) show ?case by (auto intro!: exI [of _ "m + n"])
qed auto

lemma inode_path_stable:
  assumes "inode_path n fs fs'" and "inode_inv fs" and "fs_next_torrent_inode fs + n < u64_bound"
  shows "inode_inv fs' \<and> fs_next_torrent_inode fs \<le> fs_next_torrent_inode fs' \<and>
    fs_next_torrent_inode fs' \<le> fs_next_torrent_inode fs + n \<and>
    (\<forall>i k. map_of (fs_inode_to_key fs) i = Some k \<longrightarrow> map_of (fs_inode_to_key fs') i \<in> {None, Some k})"
  using assms
proof (induction rule: inode_path.induct)
  case (path_same fs fs')
  then show ?case by (auto simp: inode_inv_same) (simp_all add: same_inodes_def)
next
  case (path_assign n fs fs1 k fs2)
  then have ih: "inode_inv fs1" "fs_next_torrent_inode fs \<le> fs_next_torrent_inode fs1"
    "fs_next_torrent_inode fs1 \<le> fs_next_torrent_inode fs + n"
    "\<And>i k. map_of (fs_inode_to_key fs) i = Some k \<Longrightarrow> map_of (fs_inode_to_key fs1) i \<in> {None, Some k}" by auto
  let ?fs = "snd (get_or_assign_torrent_inode k fs1)"
  have room: "fs_next_torrent_inode fs1 + 1 < u64_bound" using ih(3) path_assign.prems by simp
  have "inode_inv fs2" using inode_inv_assign [OF ih(1) room, of k] inode_inv_same path_assign.hyps by blast
  moreover have "fs_next_torrent_inode fs2 \<in> {fs_next_torrent_inode fs1, fs_next_torrent_inode fs1 + 1}"
    using next_inode_assign [of k fs1] path_assign.hyps room by (simp add: same_inodes_def wadd64_exact)
  moreover have "map_of (fs_inode_to_key fs2) i = map_of (fs_inode_to_key fs1) i" if "map_of (fs_inode_to_key fs) i = Some j" for i j
  proof -
    have "i < fs_next_torrent_inode fs" using that path_assign.prems(1) by (metis inode_inv_def)
    with ih(2) have "i \<noteq> fs_next_torrent_inode fs1" by simp
    with path_assign.hyps show ?thesis
      by (auto simp: same_inodes_def get_or_assign_torrent_inode_def Let_def tbl.get_put split: option.splits)
  qed
  ultimately show ?case using ih by auto
next
  case (path_remove n fs fs1 k fs2)
  then have ih: "inode_inv fs1" "fs_next_torrent_inode fs \<le> fs_next_torrent_inode fs1"
    "fs_next_torrent_inode fs1 \<le> fs_next_torrent_inode fs + n"
    "\<And>i k. map_of (fs_inode_to_key fs) i = Some k \<Longrightarrow> map_of (fs_inode_to_key fs1) i \<in> {None, Some k}" by auto
  have "inode_inv fs2" using inode_inv_remove [OF ih(1)] inode_inv_same path_remove.hyps by blast
  moreover have "fs_next_torrent_inode fs2 = fs_next_torrent_inode fs1"
    using path_remove.hyps by (simp add: same_inodes_def next_inode_remove)
  moreover have "map_of (fs_inode_to_key fs2) i \<in> {None, map_of (fs_inode_to_key fs1) i}" for i
    using path_remove.hyps by (auto simp: same_inodes_def cleanup_removed_def Let_def tbl.get_del split: option.splits)
  ultimately show ?case using ih by (metis insert_iff singletonD)
qed

section \<open>Lemmas for the properties\<close>

lemma rdfs_new_inv: "inode_inv (rdfs_new now cfg mgr)"
  by (simp add: rdfs_new_def inode_inv_def)

lemma file_inode_exact:
  assumes "t < INODE_FILE_BASE" and "f < 10000"
  shows "file_inode t f = INODE_FILE_BASE + t * 10000 + f"
proof -
  have "t * 10000 < 2 ^ 32 * 10000" using assms(1) by (simp add: INODE_FILE_BASE_def)
  then show ?thesis
    using assms(2) by (simp add: file_inode_def wadd64_def wmul64_def INODE_FILE_BASE_def u64_bound_def)
qed

lemma find_file_at:
  assumes "fi < length fs" and "file_display_name (fs ! fi) = Some name"
    and "\<And>j. j < fi \<Longrightarrow> file_display_name (fs ! j) \<noteq> None \<and> file_display_name (fs ! j) \<noteq> Some name"
  shows "find_file name i fs = Inr (i + fi, fs ! fi)"
  using assms
proof (induction fs arbitrary: i fi)
  case (Cons f fs)
  show ?case
  proof (cases fi)
    case 0
    with Cons.prems show ?thesis by simp
  next
    case (Suc n)
    have "find_file name (Suc i) fs = Inr (Suc i + n, fs ! n)"
    proof (rule Cons.IH)
      show "n < length fs" "file_display_name (fs ! n) = Some name" using Cons.prems Suc by simp_all
      show "file_display_name (fs ! j) \<noteq> None \<and> file_display_name (fs ! j) \<noteq> Some name" if "j < n" for j
        using Cons.prems(3) [of "Suc j"] that Suc by simp
    qed
    moreover obtain n0 where "file_display_name f = Some n0" "n0 \<noteq> name"
      using Cons.prems(3) [of 0] Suc by auto
    ultimately show ?thesis using Suc by simp
  qed
qed simp

lemma fs_ensure_loaded:
  assumes "get_mt (fs_mgr fs) key = Some m" and "mt_info m \<noteq> None"
  shows "fs_ensure_torrent_info rd key fs w = (Some m, fs, w)"
  using assms by (simp add: fs_ensure_torrent_info_def ensure_torrent_info_def ensure_begin_def)

lemma all_page_names:
  assumes "\<And>k n. (k, n) \<in> set kns \<Longrightarrow> get_mt (fs_mgr fs) k \<noteq> None"
  shows "map (\<lambda>e. (de_name e, de_offset e)) (fst (all_page i kns fs)) =
      zip (map snd kns) (map int [i + 3..<i + 3 + length kns])"
  using assms
proof (induction i kns fs rule: all_page.induct)
  case (2 i key name kns fs)
  obtain inode fs1 where a: "get_or_assign_torrent_inode key fs = (inode, fs1)" by fastforce
  then have mgr: "fs_mgr fs1 = fs_mgr fs" using get_or_assign_mgr by (metis snd_conv)
  have present: "get_mt (fs_mgr fs) key \<noteq> None" by (rule "2.prems" [of key name]) simp
  have "map (\<lambda>e. (de_name e, de_offset e)) (fst (all_page (Suc i) kns fs1)) =
      zip (map snd kns) (map int [Suc i + 3..<Suc i + 3 + length kns])"
    by (rule "2.IH"(1) [OF present a [symmetric] refl]) (use "2.prems" mgr in auto)
  moreover have "[i + 3..<i + 3 + length ((key, name) # kns)] = (i + 3) # [Suc i + 3..<Suc i + 3 + length kns]"
    by (subst upt_conv_Cons) (simp_all add: ac_simps)
  ultimately show ?case using present a by (auto split: prod.splits)
qed simp

text \<open>The whole listing of \<open>__all__\<close> with its offsets.\<close>

definition all_listing :: "(string \<times> string) list \<Rightarrow> (string \<times> i64) list" where
  "all_listing keys = zip (''.'' # ''..'' # map snd keys) (map int [1..<length keys + 3])"

lemma all_listing_drop:
  "drop (Suc (Suc n)) (all_listing keys) = zip (map snd (drop n keys)) (map int [n + 3..<length keys + 3])"
proof -
  have "drop (Suc (Suc n)) [1..<length keys + 3] = [n + 3..<length keys + 3]"
    by (simp only: drop_upt) (simp add: numeral_3_eq_3)
  then show ?thesis by (simp only: all_listing_def drop_zip drop_map drop_Suc_Cons)
qed

lemma all_listing_dots: "all_listing keys = (''.'', 1) # (''..'', 2) # drop 2 (all_listing keys)"
  by (simp add: all_listing_def upt_conv_Cons)

lemma take_zip_upt:
  "zip (map snd (take m ks)) (map int [a..<a + length (take m ks)]) = take m (zip (map snd ks) (map int [a..<a + length ks]))"
proof -
  have "take m [a..<a + length ks] = [a..<a + length (take m ks)]" by (cases "m \<le> length ks") auto
  then show ?thesis by (simp add: take_zip take_map)
qed

section \<open>Properties\<close>


definition demo_fs :: rdfs where
  "demo_fs = rdfs_new 0 vfs_config_default demo_mgr"


text \<open>The directory entry of a file, its lookup and its attributes agree: looking up the name in the
  torrent's directory gives the file's inode number and size, and \<open>getattr\<close> of that number gives the
  same attributes. The number encodes the index of the file only below 10000 files: the next one
  already belongs to the following torrent.\<close>

theorem file_lookup_getattr_agree:
  assumes "is_torrent_inode d" and "inode_to_access_key fs d = Some key"
    and "get_mt (fs_mgr fs) key = Some m" and "mt_info m \<noteq> None"
    and "fi < length (selected_files m)" and "fi < 10000"
    and "file_display_name (selected_files m ! fi) = Some name"
    and "\<And>j. j < fi \<Longrightarrow> file_display_name (selected_files m ! j) \<noteq> None \<and> file_display_name (selected_files m ! j) \<noteq> Some name"
  shows "\<exists>attr. fs_lookup rd now d name fs w = (Inr \<lparr>re_ttl = fs_entry_ttl fs, re_attr = attr\<rparr>, fs, w) \<and>
    fs_getattr rd (at_ino attr) fs w = (Inr (fs_attr_ttl fs, attr), fs, w) \<and>
    at_size attr = nat (max (f_bytes (selected_files m ! fi)) 0) \<and> \<not> at_dir attr \<and>
    file_inode (d - INODE_TORRENT_BASE) 10000 = file_inode (Suc (d - INODE_TORRENT_BASE)) 0"
proof -
  let ?t = "d - INODE_TORRENT_BASE"
  let ?attr = "mk_file_attr (file_inode ?t fi) (nat (max (f_bytes (selected_files m ! fi)) 0)) (torrent_mtime m)"
  have d: "INODE_TORRENT_BASE \<le> d" "d < INODE_FILE_BASE" using assms(1) by (simp_all add: is_torrent_inode_def)
  then have t: "?t < INODE_FILE_BASE" by simp
  have tne: "d \<noteq> INODE_ROOT" "d \<noteq> INODE_ALL" using d by (auto simp: INODE_TORRENT_BASE_def INODE_ROOT_def INODE_ALL_def)
  note ens = fs_ensure_loaded [OF assms(3,4), of rd w]
  have ff: "find_file name 0 (selected_files m) = Inr (fi, selected_files m ! fi)"
    using find_file_at [OF assms(5,7,8), of 0] by simp
  have lk: "fs_lookup rd now d name fs w = (Inr \<lparr>re_ttl = fs_entry_ttl fs, re_attr = ?attr\<rparr>, fs, w)"
    using assms(1,2) tne by (simp add: fs_lookup_def ens ff)
  have ino: "file_inode ?t fi = INODE_FILE_BASE + (?t * 10000 + fi)" using file_inode_exact [OF t assms(6)] by simp
  then have "file_inode ?t fi \<noteq> INODE_ROOT" "file_inode ?t fi \<noteq> INODE_ALL" "\<not> is_torrent_inode (file_inode ?t fi)"
    "INODE_FILE_BASE \<le> file_inode ?t fi"
    by (simp_all add: INODE_FILE_BASE_def INODE_ROOT_def INODE_ALL_def is_torrent_inode_def)
  moreover have "(file_inode ?t fi - INODE_FILE_BASE) div 10000 = ?t" "(file_inode ?t fi - INODE_FILE_BASE) mod 10000 = fi"
    unfolding ino using assms(6) by simp_all
  moreover have "INODE_TORRENT_BASE + ?t = d" using d by simp
  ultimately have ga: "fs_getattr rd (file_inode ?t fi) fs w = (Inr (fs_attr_ttl fs, ?attr), fs, w)"
    using assms(2,5) by (simp add: fs_getattr_def Let_def ens)
  have "?t * 10000 < 2 ^ 32 * 10000" using t by (simp add: INODE_FILE_BASE_def)
  then have "file_inode ?t 10000 = file_inode (Suc ?t) 0"
    by (simp add: file_inode_def wadd64_def wmul64_def INODE_FILE_BASE_def u64_bound_def)
  with lk ga show ?thesis by (intro exI [of _ ?attr]) (simp add: mk_file_attr_def)
qed

definition demo_info :: torrent_info where
  "demo_info = \<lparr>ti_id = ''A'', ti_name = ''n'', ti_hash = ''h'', ti_progress = 100, ti_status = ''downloaded'', ti_added = 0,
     ti_ended = None, ti_bytes = 5, ti_links = [''L''], ti_original_name = [], ti_original_bytes = 0,
     ti_files = [\<lparr>f_id = 1, f_path = ''/a.mkv'', f_bytes = 5, f_selected = 1\<rparr>]\<rparr>"

definition demo_open_fs :: rdfs where
  "demo_open_fs = (let fs = fst (fs_step demo_rd (1, EvLookup 2 ''n'') (demo_fs, []))
     in fs\<lparr>fs_mgr := snd (ensure_finish ''h/n'' (added_torrent (demo_torrent, [''A''])) demo_info (fs_mgr fs))\<rparr>)"

theorem file_lookup_getattr_agree_witness:
  "\<exists>attr. fs_getattr demo_rd (at_ino attr) demo_open_fs [] = (Inr (fs_attr_ttl demo_open_fs, attr), demo_open_fs, []) \<and> at_size attr = 5"
proof -
  have "map_option (\<lambda>m. (mt_info m \<noteq> None, map f_bytes (selected_files m), map file_display_name (selected_files m)))
      (get_mt (fs_mgr demo_open_fs) ''h/n'') = Some (True, [5], [Some ''a.mkv''])" by code_simp
  then obtain m where m: "get_mt (fs_mgr demo_open_fs) ''h/n'' = Some m" "mt_info m \<noteq> None"
    "map f_bytes (selected_files m) = [5]" "map file_display_name (selected_files m) = [Some ''a.mkv'']" by auto
  then obtain f where f: "selected_files m = [f]" "f_bytes f = 5" "file_display_name f = Some ''a.mkv''" by auto
  have "inode_to_access_key demo_open_fs 3 = Some ''h/n''" "is_torrent_inode 3" by code_simp+
  from file_lookup_getattr_agree [OF this(2,1) m(1,2), of 0 "''a.mkv''" demo_rd 0 "[]"] f
  show ?thesis by auto
qed



lemma torrent_dir_attr_ino [simp]: "at_ino (torrent_dir_attr i m) = i"
  by (simp add: torrent_dir_attr_def dir_attr_def)

lemma all_page_plus_attr: "list_all (\<lambda>e. at_ino (dp_attr e) = dp_inode e) (fst (all_page_plus i kns fs))"
  by (induction i kns fs rule: all_page_plus.induct) (auto simp: dir_plus_def split: option.splits prod.splits)

lemma file_entries_plus_attr:
  "file_entries_plus fs mt slot fi files = Some es \<Longrightarrow> list_all (\<lambda>e. at_ino (dp_attr e) = dp_inode e) es"
  by (induction files arbitrary: fi es) (auto simp: mk_file_attr_def split: option.splits)

lemma list_all_filter: "list_all P es \<Longrightarrow> list_all P (filter Q es)"
  by (auto simp: list_all_iff)

lemma dir_plus_simps [simp]:
  "strip_plus (dir_plus f ino n off a) = \<lparr>de_inode = ino, de_dir = True, de_name = n, de_offset = off\<rparr>"
  "dp_inode (dir_plus f ino n off a) = ino" "dp_attr (dir_plus f ino n off a) = a" "dp_offset (dir_plus f ino n off a) = off"
  by (simp_all add: strip_plus_def dir_plus_def)

lemma dir_attr_ino [simp]: "at_ino (dir_attr i) = i"
  by (simp add: dir_attr_def)

text \<open>\<open>readdirplus\<close> is \<open>readdir\<close> with attributes: for every directory and offset it fails when \<open>readdir\<close>
  fails, lists the same entries in the same order and leaves the filesystem in the same state, and
  the attributes of an entry carry the entry's own inode number.\<close>

theorem readdirplus_is_readdir:
  assumes "off < 2 ^ 63"
  shows "map_sum id (map strip_plus) (fst (fs_readdirplus rd now i off fs w)) = fst (fs_readdir rd now i (int off) fs w) \<and>
    snd (fs_readdirplus rd now i off fs w) = snd (fs_readdir rd now i (int off) fs w) \<and>
    (\<forall>es. fst (fs_readdirplus rd now i off fs w) = Inr es \<longrightarrow> list_all (\<lambda>e. at_ino (dp_attr e) = dp_inode e) es)"
proof -
  have off: "u64_to_i64 off = int off" using assms by (simp add: u64_to_i64_def)
  have start: "nat (max (int off) 2 - 2) = max off 2 - 2" by auto
  note defs = fs_readdirplus_def fs_readdir_def off start Let_def filter_strip dots_def list_all_filter
  consider (root) "i = INODE_ROOT" | (all) "i = INODE_ALL" "i \<noteq> INODE_ROOT"
    | (tor) key where "i \<noteq> INODE_ROOT" "i \<noteq> INODE_ALL" "is_torrent_inode i" "inode_to_access_key fs i = Some key"
    | (none) "i \<noteq> INODE_ROOT" "i \<noteq> INODE_ALL" "is_torrent_inode i \<longrightarrow> inode_to_access_key fs i = None"
    by (cases "inode_to_access_key fs i") auto
  then show ?thesis
  proof cases
    case root then show ?thesis by (simp add: defs)
  next
    case all
    obtain keys fs1 where gs: "get_sorted_keys now fs = (keys, fs1)" by fastforce
    show ?thesis
    proof (cases keys)
      case (Inr ks)
      define kns where "kns = take 1000 (drop (max off 2 - 2) ks)"
      obtain es fs2 where pg: "all_page_plus (max off 2 - 2) kns fs1 = (es, fs2)" by fastforce
      have pq: "all_page (max off 2 - 2) kns fs1 = (map strip_plus es, fs2)"
        using all_page_plus_eq [of "max off 2 - 2" kns fs1] pg by (simp add: prod_eq_iff)
      have at: "list_all (\<lambda>e. at_ino (dp_attr e) = dp_inode e) es"
        using all_page_plus_attr [of "max off 2 - 2" kns fs1] pg by simp
      from all gs Inr pg pq at show ?thesis
        by (simp add: defs flip: kns_def)
    qed (use all gs in \<open>simp add: defs\<close>)
  next
    case tor
    obtain r fs1 w1 where en: "fs_ensure_torrent_info rd key fs w = (r, fs1, w1)" by (metis prod.exhaust)
    show ?thesis
    proof (cases r)
      case (Some m)
      define pe where "pe = file_entries_plus fs1 (torrent_mtime m) (i - INODE_TORRENT_BASE) 0 (selected_files m)"
      have fe: "file_entries (i - INODE_TORRENT_BASE) 0 (selected_files m) = map_option (map strip_plus) pe"
        unfolding pe_def by (rule file_entries_plus_eq [symmetric])
      have at: "list_all (\<lambda>e. at_ino (dp_attr e) = dp_inode e) es" if "pe = Some es" for es
        using that unfolding pe_def by (rule file_entries_plus_attr)
      from tor en Some fe at show ?thesis by (cases pe) (simp_all add: defs flip: pe_def)
    qed (use tor en in \<open>simp add: defs\<close>)
  next
    case none then show ?thesis by (auto simp: defs)
  qed
qed

theorem readdirplus_is_readdir_witness:
  "map_sum id (map strip_plus) (fst (fs_readdirplus demo_rd 2 3 0 demo_open_fs [])) =
   fst (fs_readdir demo_rd 2 3 0 demo_open_fs [])"
  using readdirplus_is_readdir [of 0 demo_rd 2 3 demo_open_fs "[]"] by simp

end
