(* ===== verification/Cache_Store.thy ===== *)
theory Cache_Store
  imports Cache_Item Config "HOL-Library.Signed_Division"
begin

text \<open>
  \<^verbatim>\<open>src/cache/cache.rs\<close> and \<^verbatim>\<open>src/cache/eviction.rs\<close>: the global store of cache items and its
  eviction passes. An \<open>Arc<CacheItem>\<close> is an index into \<open>ca_heap\<close>, so that a reader which holds an
  item keeps it after the map forgot the key; the \<open>DashMap\<close> is the list \<open>ca_items\<close> from keys to
  indices. The disk and the range table are part of the state, since eviction changes them.
  The clock, \<open>stat\<close>, \<open>statvfs\<close> and which system calls succeed are the environment \<open>evict_env\<close>.
\<close>

section \<open>State\<close>

record cache =
  ca_dir :: path
  ca_config :: vfs_config
  ca_items :: "(cache_key \<times> nat) list"
  ca_heap :: "cache_item list"
  ca_range_db :: range_table
  ca_disk :: disk
  ca_hits :: i64
  ca_misses :: i64
  ca_total_downloaded :: i64
  ca_speed_bps :: i64
  ca_active_circuit_breakers :: int
  ca_last_speed_bytes :: i64
  ca_last_speed_time :: i64
  ca_pause_downloads :: bool

text \<open>\<open>Cache::new\<close>: a failure to create the directory is ignored, a database that cannot be opened is a
  panic (\<open>None\<close>).\<close>

definition cache_new :: "bool \<Rightarrow> path \<Rightarrow> vfs_config \<Rightarrow> disk \<Rightarrow> range_table option \<Rightarrow> cache option" where
  "cache_new db_ok dir cfg d db =
     (if \<not> db_ok then None
      else
        Some \<lparr>ca_dir = dir, ca_config = cfg, ca_items = [], ca_heap = [],
              ca_range_db = init_conn db,
              ca_disk = (case mkdir_all dir d of None \<Rightarrow> d | Some d' \<Rightarrow> d'),
              ca_hits = 0, ca_misses = 0, ca_total_downloaded = 0, ca_speed_bps = 0,
              ca_active_circuit_breakers = 0, ca_last_speed_bytes = 0, ca_last_speed_time = 0,
              ca_pause_downloads = False\<rparr>)"

definition build_key :: "string \<Rightarrow> string \<Rightarrow> cache_key" where
  "build_key access_key filename = access_key @ ''/'' @ filename"

definition entry_path :: "path \<Rightarrow> string \<Rightarrow> string \<Rightarrow> path" where
  "entry_path dir access_key filename = path_join (path_join dir access_key) filename"

section \<open>Lookup, creation, removal\<close>

definition upd_item :: "nat \<Rightarrow> (cache_item \<Rightarrow> cache_item) \<Rightarrow> cache \<Rightarrow> cache" where
  "upd_item i f c = c\<lparr>ca_heap := (ca_heap c)[i := f (ca_heap c ! i)]\<rparr>"

text \<open>The two atomic steps of \<open>get_or_create\<close>: the read-locked lookup, and the entry operation that
  looks again before it creates.\<close>

definition goc_lookup :: "u64 \<Rightarrow> cache_key \<Rightarrow> cache \<Rightarrow> (nat \<times> cache) option" where
  "goc_lookup now key c =
     (case map_of (ca_items c) key of
        None \<Rightarrow> None
      | Some i \<Rightarrow> Some (i, upd_item i (item_open now) c))"

definition goc_entry ::
    "(open_call \<Rightarrow> bool) \<Rightarrow> u64 \<Rightarrow> string \<Rightarrow> string \<Rightarrow> u64 \<Rightarrow> cache \<Rightarrow> (item_error + nat) \<times> cache" where
  "goc_entry ok now access_key filename file_size c =
     (let key = build_key access_key filename
      in case map_of (ca_items c) key of
           Some i \<Rightarrow> (Inr i, upd_item i (item_open now) c)
         | None \<Rightarrow>
             (case open_or_create_with_db ok now (entry_path (ca_dir c) access_key filename) key
                     file_size (ca_disk c) (ca_range_db c) of
                (Inl e, d, t) \<Rightarrow> (Inl e, c\<lparr>ca_disk := d, ca_range_db := t\<rparr>)
              | (Inr item, d, t) \<Rightarrow>
                  (let i = length (ca_heap c)
                   in (Inr i,
                       upd_item i (item_open now)
                         (c\<lparr>ca_disk := d, ca_range_db := t, ca_heap := ca_heap c @ [item],
                            ca_items := (key, i) # ca_items c\<rparr>)))))"

definition get_or_create ::
    "(open_call \<Rightarrow> bool) \<Rightarrow> u64 \<Rightarrow> string \<Rightarrow> string \<Rightarrow> u64 \<Rightarrow> cache \<Rightarrow> (item_error + nat) \<times> cache" where
  "get_or_create ok now access_key filename file_size c =
     (case goc_lookup now (build_key access_key filename) c of
        Some (i, c') \<Rightarrow> (Inr i, c')
      | None \<Rightarrow> goc_entry ok now access_key filename file_size c)"

definition items_remove :: "cache_key \<Rightarrow> cache \<Rightarrow> cache" where
  "items_remove key c = c\<lparr>ca_items := filter (\<lambda>(k, _). k \<noteq> key) (ca_items c)\<rparr>"

definition invalidate :: "bool \<Rightarrow> bool \<Rightarrow> string \<Rightarrow> string \<Rightarrow> cache \<Rightarrow> cache" where
  "invalidate rm_ok db_ok access_key filename c =
     (let key = build_key access_key filename;
          c1 = items_remove key c;
          d = snd (remove_file rm_ok (entry_path (ca_dir c) access_key filename) (ca_disk c));
          t = (case delete_keys db_ok [key] (ca_range_db c) of Inl _ \<Rightarrow> ca_range_db c | Inr (_, t') \<Rightarrow> t')
      in c1\<lparr>ca_disk := d, ca_range_db := t\<rparr>)"

text \<open>The holder of an item releases it, or writes a downloaded piece.\<close>

definition cache_release :: "bool \<Rightarrow> u64 \<Rightarrow> nat \<Rightarrow> cache \<Rightarrow> cache" where
  "cache_release db_ok now i c =
     (case item_release db_ok now (ca_heap c ! i) (ca_range_db c) of
        (item, t) \<Rightarrow> c\<lparr>ca_heap := (ca_heap c)[i := item], ca_range_db := t\<rparr>)"

definition cache_write ::
    "write_fault \<Rightarrow> bool \<Rightarrow> u64 \<Rightarrow> nat \<Rightarrow> u64 \<Rightarrow> byte list \<Rightarrow> cache \<Rightarrow> (item_error + unit) \<times> cache" where
  "cache_write fault db_ok now i offset data c =
     (case write_range fault db_ok now offset data (ca_heap c ! i) (ca_disk c) (ca_range_db c) of
        (res, item, d, t) \<Rightarrow>
          (res, c\<lparr>ca_heap := (ca_heap c)[i := item], ca_disk := d, ca_range_db := t\<rparr>))"

definition cache_read :: "bool \<Rightarrow> nat \<Rightarrow> u64 \<Rightarrow> u32 \<Rightarrow> cache \<Rightarrow> byte list option" where
  "cache_read ok i offset sz c = read_from_file ok (ca_heap c ! i) offset sz (ca_disk c)"

section \<open>Counters\<close>

definition record_hit :: "cache \<Rightarrow> cache" where
  "record_hit c = c\<lparr>ca_hits := wrap_i64 (ca_hits c + 1)\<rparr>"

definition record_miss :: "cache \<Rightarrow> cache" where
  "record_miss c = c\<lparr>ca_misses := wrap_i64 (ca_misses c + 1)\<rparr>"

definition add_downloaded_bytes :: "i64 \<Rightarrow> cache \<Rightarrow> cache" where
  "add_downloaded_bytes n c = c\<lparr>ca_total_downloaded := wrap_i64 (ca_total_downloaded c + n)\<rparr>"

text \<open>One tick of \<open>speed_sample_loop\<close>; Rust's division truncates.\<close>

definition speed_sample :: "i64 \<Rightarrow> cache \<Rightarrow> cache" where
  "speed_sample now_ns c =
     (let current_bytes = ca_total_downloaded c;
          last_time = ca_last_speed_time c;
          last_bytes = ca_last_speed_bytes c;
          c' = c\<lparr>ca_last_speed_time := now_ns, ca_last_speed_bytes := current_bytes\<rparr>
      in if last_time = 0 then c'
         else
           (let elapsed_ns = max (wrap_i64 (now_ns - last_time)) 1;
                delta_bytes = wrap_i64 (current_bytes - last_bytes);
                bps = wrap_i64 (delta_bytes * 1000000000) sdiv elapsed_ns
            in c'\<lparr>ca_speed_bps := max bps 0\<rparr>))"

section \<open>Eviction\<close>

definition ITEM_IDLE_TIMEOUT_SECS :: u64 where
  "ITEM_IDLE_TIMEOUT_SECS = 60"

definition TTL_STALE_KEYS_QUERY_LIMIT :: usize where
  "TTL_STALE_KEYS_QUERY_LIMIT = 10000"

definition DISK_ORPHAN_MIN_AGE_SECS :: u64 where
  "DISK_ORPHAN_MIN_AGE_SECS = 5 * 60"

text \<open>
  What an eviction pass sees of its environment: for a path its access time and block count
  (\<open>None\<close> when \<open>metadata\<close> fails), whether removing a file is permitted, whether each database call
  succeeds, the free bytes that \<open>statvfs\<close> reports, and whether the pause channel has a receiver
  (\<open>watch::Sender::send\<close> does not store the value when it has none).
\<close>

record evict_env =
  ev_stat :: "path \<Rightarrow> (u64 \<times> u64) option"
  ev_rm_ok :: "path \<Rightarrow> bool"
  ev_flush_ok :: "cache_key \<Rightarrow> bool"
  ev_stale_ok :: bool
  ev_delete_ok :: bool
  ev_free :: "u64 option"
  ev_pause_receiver :: bool

text \<open>
  The threshold \<open>(max_bytes as f64 * 0.90) as u64\<close> in binary64: the literal is
  \<open>8106479329266893 / 2 ^ 53\<close>, and conversion and product each round to 53 significant bits, ties to
  even (\<open>round53\<close>).
\<close>

fun bit_len :: "nat \<Rightarrow> nat" where
  "bit_len n = (if n = 0 then 0 else Suc (bit_len (n div 2)))"

declare bit_len.simps [simp del]

definition round53 :: "nat \<Rightarrow> nat" where
  "round53 n =
     (let k = bit_len n - 53;
          q = n div 2 ^ k;
          r = n mod 2 ^ k
      in (if 2 * r > 2 ^ k \<or> (2 * r = 2 ^ k \<and> k > 0 \<and> odd q) then q + 1 else q) * 2 ^ k)"

definition evict_threshold :: "u64 \<Rightarrow> u64" where
  "evict_threshold max_bytes = min (round53 (round53 max_bytes * 8106479329266893) div 2 ^ 53) (u64_bound - 1)"

definition evict_idle :: "u64 \<Rightarrow> cache_item \<Rightarrow> bool" where
  "evict_idle now item = (\<not> is_open item \<and> now - atime_secs item \<ge> ITEM_IDLE_TIMEOUT_SECS)"

definition evict_candidates :: "u64 \<Rightarrow> cache \<Rightarrow> cache_key list" where
  "evict_candidates now c = map fst (filter (\<lambda>(_, i). evict_idle now (ca_heap c ! i)) (ca_items c))"

text \<open>\<open>remove_if\<close> checks again under the shard lock; the removed item is flushed afterwards.\<close>

definition evict_remove :: "(cache_key \<Rightarrow> bool) \<Rightarrow> u64 \<Rightarrow> cache_key \<Rightarrow> cache \<Rightarrow> cache" where
  "evict_remove flush_ok now key c =
     (case map_of (ca_items c) key of
        None \<Rightarrow> c
      | Some i \<Rightarrow>
          if is_open (ca_heap c ! i) then c
          else
            (case flush_ranges (flush_ok key) now True (ca_heap c ! i) (ca_range_db c) of
               (item, t) \<Rightarrow>
                 (items_remove key c)\<lparr>ca_heap := (ca_heap c)[i := item], ca_range_db := t\<rparr>))"

definition parse_age_secs :: "string \<Rightarrow> u64" where
  "parse_age_secs s =
     (let raw = str_lower (str_trim s)
      in if raw = [] \<or> raw = ''0'' then 0
         else
           (let (num, suffix) = split_at_alpha raw;
                base = (case parse_u64 (str_trim num) of None \<Rightarrow> 0 | Some n \<Rightarrow> n);
                suf = str_trim suffix
            in if suf \<in> {''s'', ''sec'', ''secs'', ''second'', ''seconds''} then base
               else if suf \<in> {''m'', ''min'', ''mins'', ''minute'', ''minutes''} then wmul64 base 60
               else if suf \<in> {''h'', ''hr'', ''hrs'', ''hour'', ''hours''} then wmul64 base 3600
               else if suf \<in> {''d'', ''day'', ''days''} then wmul64 base 86400
               else base))"

definition path_to_key :: "path \<Rightarrow> path \<Rightarrow> string" where
  "path_to_key dir p = (case strip_prefix dir p of None \<Rightarrow> [] | Some rel \<Rightarrow> str_join (CHR ''/'') rel)"

text \<open>The fold of \<open>ttl_cleanup\<close>: the keys whose file is gone after the attempt, and the disk.\<close>

definition ttl_remove ::
    "evict_env \<Rightarrow> path \<Rightarrow> cache_key \<Rightarrow> cache_key list \<times> disk \<Rightarrow> cache_key list \<times> disk" where
  "ttl_remove env dir key acc =
     (case acc of (keys, d) \<Rightarrow>
        (case remove_file (ev_rm_ok env (path_join dir key)) (path_join dir key) d of
           (Removed, d') \<Rightarrow> (keys @ [key], d')
         | (NotFound, d') \<Rightarrow> (keys @ [key], d')
         | (RemoveFailed, d') \<Rightarrow> (keys, d')))"

definition ttl_cleanup :: "evict_env \<Rightarrow> u64 \<Rightarrow> cache \<Rightarrow> cache" where
  "ttl_cleanup env now c =
     (let age = parse_age_secs (cache_max_age (ca_config c))
      in if age = 0 then c
         else
           (let cutoff = u64_to_i64 (now - age)
            in case stale_keys (ev_stale_ok env) (ca_range_db c) cutoff TTL_STALE_KEYS_QUERY_LIMIT of
                 Inl _ \<Rightarrow> c
               | Inr stale \<Rightarrow>
                   if stale = [] then c
                   else
                     (let live = (\<lambda>k. map_of (ca_items c) k \<noteq> None);
                          (keys, d) = fold (ttl_remove env (ca_dir c)) (filter (\<lambda>k. \<not> live k) stale) ([], ca_disk c);
                          t = (case delete_keys (ev_delete_ok env) keys (ca_range_db c) of
                                 Inl _ \<Rightarrow> ca_range_db c | Inr (_, t') \<Rightarrow> t')
                      in c\<lparr>ca_disk := d, ca_range_db := t\<rparr>)))"

type_synonym lru_candidate = "u64 \<times> path \<times> u64"

text \<open>The scan of \<open>cache_dir/*/*\<close>.\<close>

definition lru_entry :: "evict_env \<Rightarrow> path \<Rightarrow> lru_candidate list" where
  "lru_entry env p =
     (if path_extension p \<noteq> None then []
      else
        (case ev_stat env p of
           None \<Rightarrow> []
         | Some (atime, blocks) \<Rightarrow> [(atime, p, wmul64 blocks 512)]))"

definition lru_scan :: "evict_env \<Rightarrow> disk \<Rightarrow> path list \<Rightarrow> lru_candidate list" where
  "lru_scan env d entries =
     concat (map (\<lambda>e. case read_dir d e of None \<Rightarrow> [] | Some subs \<Rightarrow> concat (map (lru_entry env) subs)) entries)"

fun lru_loop ::
    "evict_env \<Rightarrow> u64 \<Rightarrow> u64 \<Rightarrow> cache \<Rightarrow> u64 \<Rightarrow> u64 \<Rightarrow> lru_candidate list \<Rightarrow> disk \<Rightarrow> u64 \<times> disk" where
  "lru_loop env threshold now c total_b freed [] d = (freed, d)"
| "lru_loop env threshold now c total_b freed ((atime, p, sz) # cs) d =
     (if wsub64 total_b freed \<le> threshold then (freed, d)
      else if map_of (ca_items c) (path_to_key (ca_dir c) p) \<noteq> None
      then lru_loop env threshold now c total_b freed cs d
      else if now - atime < DISK_ORPHAN_MIN_AGE_SECS
      then lru_loop env threshold now c total_b freed cs d
      else
        (case remove_file (ev_rm_ok env p) p d of
           (Removed, d') \<Rightarrow> lru_loop env threshold now c total_b (wadd64 freed sz) cs d'
         | (_, d') \<Rightarrow> lru_loop env threshold now c total_b freed cs d'))"

definition evict_disk_lru :: "evict_env \<Rightarrow> u64 \<Rightarrow> u64 \<Rightarrow> cache \<Rightarrow> cache" where
  "evict_disk_lru env threshold now c =
     (case read_dir (ca_disk c) (ca_dir c) of
        None \<Rightarrow> c
      | Some entries \<Rightarrow>
          (let candidates = lru_scan env (ca_disk c) entries;
               total_b = fold (\<lambda>(_, _, sz) acc. wadd64 acc sz) candidates 0
           in if total_b \<le> threshold then c
              else
                c\<lparr>ca_disk := snd (lru_loop env threshold now c total_b 0
                              (sort_key (\<lambda>(atime, _, _). atime) candidates) (ca_disk c))\<rparr>))"

definition check_free_space :: "evict_env \<Rightarrow> cache \<Rightarrow> cache" where
  "check_free_space env c =
     (let min_free = parse_byte_size (cache_min_free_space (ca_config c))
      in if min_free = 0 then c
         else
           (case ev_free env of
              None \<Rightarrow> c
            | Some free_bytes \<Rightarrow>
                if free_bytes < min_free
                then (if \<not> ca_pause_downloads c \<and> ev_pause_receiver env
                      then c\<lparr>ca_pause_downloads := True\<rparr> else c)
                else (if ca_pause_downloads c \<and> ev_pause_receiver env
                      then c\<lparr>ca_pause_downloads := False\<rparr> else c)))"

definition evict :: "evict_env \<Rightarrow> u64 \<Rightarrow> cache \<Rightarrow> cache" where
  "evict env now c =
     (let c1 = fold (evict_remove (ev_flush_ok env) now) (evict_candidates now c) c;
          c2 = ttl_cleanup env now c1;
          max_bytes = parse_byte_size (cache_max_size (ca_config c))
      in if max_bytes = 0 then c2
         else check_free_space env (evict_disk_lru env (evict_threshold max_bytes) now c2))"

section \<open>Invariant of the item map\<close>

definition cache_inv :: "cache \<Rightarrow> bool" where
  "cache_inv c \<longleftrightarrow>
     distinct (map fst (ca_items c)) \<and>
     (\<forall>(k, i) \<in> set (ca_items c). i < length (ca_heap c) \<and> ci_cache_key (ca_heap c ! i) = k)"

lemma cache_invD:
  assumes "cache_inv c" and "map_of (ca_items c) k = Some i"
  shows "i < length (ca_heap c)" and "ci_cache_key (ca_heap c ! i) = k"
  using assms by (auto simp: cache_inv_def dest!: map_of_SomeD)

lemma cache_inv_inj:
  "cache_inv c \<Longrightarrow> map_of (ca_items c) k = Some i \<Longrightarrow> map_of (ca_items c) k' = Some i \<Longrightarrow> k = k'"
  using cache_invD(2) by metis

lemma cache_inv_heap_update:
  assumes "cache_inv c" and "i < length (ca_heap c) \<Longrightarrow> ci_cache_key x = ci_cache_key (ca_heap c ! i)"
  shows "cache_inv (c\<lparr>ca_heap := (ca_heap c)[i := x]\<rparr>)"
  using assms by (cases "i < length (ca_heap c)") (auto simp: cache_inv_def nth_list_update)

lemma cache_inv_disk [simp]: "cache_inv (c\<lparr>ca_disk := d\<rparr>) = cache_inv c"
  and cache_inv_db [simp]: "cache_inv (c\<lparr>ca_range_db := t\<rparr>) = cache_inv c"
  and cache_inv_pause [simp]: "cache_inv (c\<lparr>ca_pause_downloads := b\<rparr>) = cache_inv c"
  by (simp_all add: cache_inv_def)

lemma map_of_filter_key: "map_of (filter (\<lambda>(k, _). k \<noteq> key) xs) j = (if j = key then None else map_of xs j)"
  by (induction xs) auto

lemma items_remove_inv: "cache_inv c \<Longrightarrow> cache_inv (items_remove key c)"
  by (auto simp: cache_inv_def items_remove_def distinct_map_filter)

lemma items_remove_simps [simp]:
  "map_of (ca_items (items_remove key c)) j = (if j = key then None else map_of (ca_items c) j)"
  "ca_heap (items_remove key c) = ca_heap c"
  "ca_dir (items_remove key c) = ca_dir c"
  "ca_disk (items_remove key c) = ca_disk c"
  "ca_range_db (items_remove key c) = ca_range_db c"
  by (simp_all add: items_remove_def map_of_filter_key)

lemma item_open_key [simp]: "ci_cache_key (item_open now item) = ci_cache_key item"
  by (simp add: item_open_def)

lemma upd_item_inv: "cache_inv c \<Longrightarrow> cache_inv (upd_item i (item_open now) c)"
  unfolding upd_item_def by (rule cache_inv_heap_update) simp_all

lemma restore_ranges_key:
  "restore_ranges ok now p key n d t = (Inr item, d', t') \<Longrightarrow> ci_cache_key item = key \<and> ci_opens item = 0"
  by (auto simp: restore_ranges_def new_item_def split: sum.splits option.splits if_splits)

lemma open_or_create_key:
  "open_or_create_with_db ok now p key n d t = (Inr item, d', t') \<Longrightarrow> ci_cache_key item = key \<and> ci_opens item = 0"
  by (auto simp: open_or_create_with_db_def dest: restore_ranges_key split: option.splits if_splits)

lemma goc_entry_inv: "cache_inv c \<Longrightarrow> cache_inv (snd (goc_entry ok now ak fn sz c))"
proof (cases "map_of (ca_items c) (build_key ak fn)")
  case (Some i)
  assume "cache_inv c"
  with Some show ?thesis by (simp add: goc_entry_def upd_item_inv)
next
  case None
  assume inv: "cache_inv c"
  show ?thesis
  proof (cases "open_or_create_with_db ok now (entry_path (ca_dir c) ak fn) (build_key ak fn) sz
      (ca_disk c) (ca_range_db c)")
    case (fields res d t)
    show ?thesis
    proof (cases res)
      case (Inl e)
      with None fields inv show ?thesis by (simp add: goc_entry_def)
    next
      case (Inr item)
      with fields have key: "ci_cache_key item = build_key ak fn" by (simp add: open_or_create_key)
      have "build_key ak fn \<notin> fst ` set (ca_items c)" using None by (simp add: map_of_eq_None_iff)
      with inv key have "cache_inv (c\<lparr>ca_disk := d, ca_range_db := t, ca_heap := ca_heap c @ [item],
          ca_items := (build_key ak fn, length (ca_heap c)) # ca_items c\<rparr>)"
        by (auto simp: cache_inv_def nth_append less_SucI)
      with None fields Inr show ?thesis by (simp add: goc_entry_def Let_def upd_item_inv)
    qed
  qed
qed

lemma get_or_create_inv: "cache_inv c \<Longrightarrow> cache_inv (snd (get_or_create ok now ak fn sz c))"
  by (auto simp: get_or_create_def goc_lookup_def goc_entry_inv upd_item_inv split: option.splits)

lemma invalidate_inv: "cache_inv c \<Longrightarrow> cache_inv (invalidate rm_ok db_ok ak fn c)"
  by (simp add: invalidate_def Let_def items_remove_inv)

lemma item_release_key [simp]: "ci_cache_key (fst (item_release ok now item t)) = ci_cache_key item"
  by (simp add: item_release_def Let_def)

lemma cache_release_inv: "cache_inv c \<Longrightarrow> cache_inv (cache_release ok now i c)"
  by (simp add: cache_release_def case_prod_unfold cache_inv_heap_update)

lemma write_range_key:
  "write_range fault ok now off data item d t = (res, item', d', t') \<Longrightarrow> ci_cache_key item' = ci_cache_key item"
  by (auto simp: write_range_def Let_def case_prod_unfold split: if_splits option.splits write_fault.splits)

lemma cache_write_inv: "cache_inv c \<Longrightarrow> cache_inv (snd (cache_write fault ok now i off data c))"
  using write_range_key [of fault ok now off data "ca_heap c ! i" "ca_disk c" "ca_range_db c"]
  by (cases "write_range fault ok now off data (ca_heap c ! i) (ca_disk c) (ca_range_db c)")
    (simp add: cache_write_def cache_inv_heap_update)

section \<open>Eviction: what stays\<close>

lemma evict_remove_cases:
  "evict_remove ok now key c = c \<or>
   (\<exists>i. map_of (ca_items c) key = Some i \<and> \<not> is_open (ca_heap c ! i) \<and>
      evict_remove ok now key c =
        (items_remove key c)\<lparr>ca_heap := (ca_heap c)[i :=
             fst (flush_ranges (ok key) now True (ca_heap c ! i) (ca_range_db c))],
           ca_range_db := snd (flush_ranges (ok key) now True (ca_heap c ! i) (ca_range_db c))\<rparr>)"
  by (auto simp: evict_remove_def case_prod_unfold split: option.splits)

lemma evict_remove_inv:
  assumes "cache_inv c"
  shows "cache_inv (evict_remove ok now key c)"
  using evict_remove_cases [of ok now key c]
    cache_inv_heap_update [OF items_remove_inv [OF assms, of key]] assms
  by auto

text \<open>An entry with an open handle stays in the map, untouched, whatever key is being evicted.\<close>

definition held :: "cache_key \<Rightarrow> nat \<Rightarrow> cache_item \<Rightarrow> cache \<Rightarrow> bool" where
  "held key i item c \<longleftrightarrow>
     cache_inv c \<and> map_of (ca_items c) key = Some i \<and> ca_heap c ! i = item \<and> is_open item"

lemma evict_remove_held:
  assumes "held key i item c"
  shows "held key i item (evict_remove ok now k c)"
  using evict_remove_cases [of ok now k c]
proof (elim disjE exE conjE)
  fix j
  assume j: "map_of (ca_items c) k = Some j" "\<not> is_open (ca_heap c ! j)"
    and eq: "evict_remove ok now k c =
        (items_remove k c)\<lparr>ca_heap := (ca_heap c)[j :=
             fst (flush_ranges (ok k) now True (ca_heap c ! j) (ca_range_db c))],
           ca_range_db := snd (flush_ranges (ok k) now True (ca_heap c ! j) (ca_range_db c))\<rparr>"
  from assms have h: "cache_inv c" "map_of (ca_items c) key = Some i" "ca_heap c ! i = item" "is_open item"
    by (auto simp: held_def)
  with j have "k \<noteq> key" and "j \<noteq> i" by auto
  with h j evict_remove_inv [OF h(1), of ok now k] show ?thesis
    unfolding held_def by (simp add: eq)
qed (use assms in simp)

lemma fold_evict_remove_held:
  "held key i item c \<Longrightarrow> held key i item (fold (evict_remove ok now) ks c)"
  by (induction ks arbitrary: c) (auto simp: evict_remove_held)

text \<open>The disk passes leave the map and the items alone.\<close>

lemma ttl_cleanup_map [simp]:
  "ca_items (ttl_cleanup env now c) = ca_items c"
  "ca_heap (ttl_cleanup env now c) = ca_heap c"
  "ca_dir (ttl_cleanup env now c) = ca_dir c"
  unfolding ttl_cleanup_def Let_def case_prod_unfold by (simp_all split: sum.splits)

lemma evict_disk_lru_map [simp]:
  "ca_items (evict_disk_lru env th now c) = ca_items c"
  "ca_heap (evict_disk_lru env th now c) = ca_heap c"
  "ca_dir (evict_disk_lru env th now c) = ca_dir c"
  "ca_range_db (evict_disk_lru env th now c) = ca_range_db c"
  unfolding evict_disk_lru_def Let_def by (simp_all split: option.splits)

lemma check_free_space_map [simp]:
  "ca_items (check_free_space env c) = ca_items c"
  "ca_heap (check_free_space env c) = ca_heap c"
  "ca_dir (check_free_space env c) = ca_dir c"
  "ca_range_db (check_free_space env c) = ca_range_db c"
  "ca_disk (check_free_space env c) = ca_disk c"
  unfolding check_free_space_def Let_def by (simp_all split: option.splits)

lemma evict_map:
  "ca_items (evict env now c) =
     ca_items (fold (evict_remove (ev_flush_ok env) now) (evict_candidates now c) c)"
  "ca_heap (evict env now c) =
     ca_heap (fold (evict_remove (ev_flush_ok env) now) (evict_candidates now c) c)"
  unfolding evict_def Let_def by simp_all

lemma held_cong:
  "ca_items c' = ca_items c \<Longrightarrow> ca_heap c' = ca_heap c \<Longrightarrow> held key i item c' = held key i item c"
  by (simp add: held_def cache_inv_def)

lemma cache_inv_cong: "ca_items c' = ca_items c \<Longrightarrow> ca_heap c' = ca_heap c \<Longrightarrow> cache_inv c' = cache_inv c"
  by (simp add: cache_inv_def)

lemma evict_held: "held key i item c \<Longrightarrow> held key i item (evict env now c)"
  by (simp only: held_cong [OF evict_map] fold_evict_remove_held)

lemma fold_evict_remove_inv: "cache_inv c \<Longrightarrow> cache_inv (fold (evict_remove ok now) ks c)"
  by (induction ks arbitrary: c) (auto simp: evict_remove_inv)

lemma evict_inv: "cache_inv c \<Longrightarrow> cache_inv (evict env now c)"
  by (simp only: cache_inv_cong [OF evict_map] fold_evict_remove_inv)

section \<open>Runs of the cache\<close>

datatype cache_event =
    GetOrCreate "open_call \<Rightarrow> bool" u64 string string u64
  | Invalidate bool bool string string
  | Release bool u64 nat
  | WritePiece write_fault bool u64 nat u64 "byte list"
  | EvictPass evict_env u64
  | SpeedTick i64
  | Hit
  | Miss
  | AddDownloaded i64

fun cache_step :: "cache_event \<Rightarrow> cache \<Rightarrow> cache" where
  "cache_step (GetOrCreate ok now ak fn sz) c = snd (get_or_create ok now ak fn sz c)"
| "cache_step (Invalidate rm_ok db_ok ak fn) c = invalidate rm_ok db_ok ak fn c"
| "cache_step (Release ok now i) c = cache_release ok now i c"
| "cache_step (WritePiece fault ok now i off data) c = snd (cache_write fault ok now i off data c)"
| "cache_step (EvictPass env now) c = evict env now c"
| "cache_step (SpeedTick ns) c = speed_sample ns c"
| "cache_step Hit c = record_hit c"
| "cache_step Miss c = record_miss c"
| "cache_step (AddDownloaded n) c = add_downloaded_bytes n c"

lemma counters_inv [simp]:
  "cache_inv (speed_sample ns c) = cache_inv c"
  "cache_inv (record_hit c) = cache_inv c"
  "cache_inv (record_miss c) = cache_inv c"
  "cache_inv (add_downloaded_bytes n c) = cache_inv c"
  by (simp_all add: cache_inv_def speed_sample_def record_hit_def record_miss_def
      add_downloaded_bytes_def Let_def)

interpretation cst: invariant_machine cache_step cache_inv
proof
  show "cache_inv (cache_step e s)" if "cache_inv s" for s e
    using that
    by (cases e) (simp_all add: get_or_create_inv invalidate_inv cache_release_inv cache_write_inv evict_inv)
qed

lemma cache_new_inv: "cache_new ok dir cfg d db = Some c \<Longrightarrow> cache_inv c"
  by (auto simp: cache_new_def cache_inv_def split: if_splits)

lemma goc_entry_result:
  assumes "cache_inv c" and "goc_entry ok now ak fn sz c = (Inr i, c')"
  shows "map_of (ca_items c') (build_key ak fn) = Some i" and "i < length (ca_heap c')"
    and "ci_opens (ca_heap c' ! i) =
      (if map_of (ca_items c) (build_key ak fn) = Some i
       then (ci_opens (ca_heap c ! i) + 1) mod 2 ^ 32 else 1)"
proof -
  consider (old) j where "map_of (ca_items c) (build_key ak fn) = Some j"
    | (fresh) "map_of (ca_items c) (build_key ak fn) = None" by fastforce
  then have "map_of (ca_items c') (build_key ak fn) = Some i \<and> i < length (ca_heap c') \<and>
    ci_opens (ca_heap c' ! i) =
      (if map_of (ca_items c) (build_key ak fn) = Some i
       then (ci_opens (ca_heap c ! i) + 1) mod 2 ^ 32 else 1)"
  proof cases
    case old
    with assms cache_invD(1) [OF assms(1) old] show ?thesis
      by (auto simp: goc_entry_def upd_item_def item_open_def)
  next
    case fresh
    obtain res d t where o: "open_or_create_with_db ok now (entry_path (ca_dir c) ak fn) (build_key ak fn) sz
      (ca_disk c) (ca_range_db c) = (res, d, t)" by (metis surj_pair)
    with fresh assms(2) obtain item where "res = Inr item" by (cases res) (auto simp: goc_entry_def)
    with fresh assms(2) o open_or_create_key [of ok now "entry_path (ca_dir c) ak fn" "build_key ak fn" sz
      "ca_disk c" "ca_range_db c" item d t] show ?thesis
      by (auto simp: goc_entry_def upd_item_def item_open_def Let_def)
  qed
  then show "map_of (ca_items c') (build_key ak fn) = Some i" and "i < length (ca_heap c')"
    and "ci_opens (ca_heap c' ! i) =
      (if map_of (ca_items c) (build_key ak fn) = Some i
       then (ci_opens (ca_heap c ! i) + 1) mod 2 ^ 32 else 1)"
    by blast+
qed

text \<open>The lookup is only a fast path: on a present key it does what the entry operation does.\<close>

lemma get_or_create_entry: "get_or_create ok now ak fn sz c = goc_entry ok now ak fn sz c"
  by (auto simp: get_or_create_def goc_lookup_def goc_entry_def split: option.splits)

lemma get_or_create_present:
  "map_of (ca_items c) (build_key ak fn) = Some i \<Longrightarrow> fst (get_or_create ok now ak fn sz c) = Inr i"
  by (simp add: get_or_create_entry goc_entry_def)

lemma get_or_create_held:
  assumes "cache_inv c" and "get_or_create ok now ak fn sz c = (Inr i, c')"
    and "map_of (ca_items c) (build_key ak fn) = Some i \<Longrightarrow> ci_opens (ca_heap c ! i) < 2 ^ 32 - 1"
  shows "held (build_key ak fn) i (ca_heap c' ! i) c'"
  using goc_entry_result [OF assms(1), of ok now ak fn sz i c'] get_or_create_inv [OF assms(1), of ok now ak fn sz]
    assms(2,3)
  by (auto simp: held_def is_open_def get_or_create_entry)

section \<open>Eviction: what goes\<close>

lemma remove_file_changes:
  "file_bytes (snd (remove_file ok p d)) q \<noteq> file_bytes d q \<Longrightarrow> q = p"
  by (auto simp: remove_file_def split: option.splits node.splits if_splits)

definition lru_may_remove :: "evict_env \<Rightarrow> u64 \<Rightarrow> cache \<Rightarrow> path \<Rightarrow> bool" where
  "lru_may_remove env now c p \<longleftrightarrow>
     length p = length (ca_dir c) + 2 \<and> path_extension p = None \<and>
     map_of (ca_items c) (path_to_key (ca_dir c) p) = None \<and>
     (\<exists>atime blocks. ev_stat env p = Some (atime, blocks) \<and> now - atime \<ge> DISK_ORPHAN_MIN_AGE_SECS)"

lemma lru_loop_remove:
  assumes "\<not> wsub64 tot freed \<le> th" and "map_of (ca_items c) (path_to_key (ca_dir c) p) = None"
    and "\<not> now - atime < DISK_ORPHAN_MIN_AGE_SECS"
  shows "\<exists>f. lru_loop env th now c tot freed ((atime, p, sz) # cs) d =
    lru_loop env th now c tot f cs (snd (remove_file (ev_rm_ok env p) p d))"
proof (cases "remove_file (ev_rm_ok env p) p d")
  case (Pair res d')
  with assms show ?thesis by (cases res) auto
qed

lemma lru_loop_changes:
  assumes "file_bytes (snd (lru_loop env th now c tot freed cs d)) q \<noteq> file_bytes d q"
  shows "\<exists>atime sz. (atime, q, sz) \<in> set cs \<and> now - atime \<ge> DISK_ORPHAN_MIN_AGE_SECS \<and>
    map_of (ca_items c) (path_to_key (ca_dir c) q) = None"
  using assms
proof (induction cs arbitrary: freed d)
  case Nil
  then show ?case by simp
next
  case (Cons cand cs)
  obtain atime p sz where cand: "cand = (atime, p, sz)" by (cases cand)
  have go: "\<not> wsub64 tot freed \<le> th" using Cons.prems by (auto simp: cand)
  show ?case
  proof (cases "map_of (ca_items c) (path_to_key (ca_dir c) p) = None \<and> \<not> now - atime < DISK_ORPHAN_MIN_AGE_SECS")
    case False
    then have "lru_loop env th now c tot freed (cand # cs) d = lru_loop env th now c tot freed cs d"
      using go by (auto simp: cand)
    with Cons.prems have "file_bytes (snd (lru_loop env th now c tot freed cs d)) q \<noteq> file_bytes d q" by simp
    from Cons.IH [OF this] show ?thesis by auto
  next
    case True
    let ?d = "snd (remove_file (ev_rm_ok env p) p d)"
    obtain f where eq: "lru_loop env th now c tot freed (cand # cs) d = lru_loop env th now c tot f cs ?d"
      using lru_loop_remove [OF go, of c p now atime env sz cs d] True by (auto simp: cand)
    show ?thesis
    proof (cases "q = p")
      case True
      with \<open>_ \<and> \<not> now - atime < _\<close> show ?thesis by (auto simp: cand)
    next
      case False
      then have "file_bytes ?d q = file_bytes d q"
        using remove_file_changes by blast
      with Cons.prems eq have "file_bytes (snd (lru_loop env th now c tot f cs ?d)) q \<noteq> file_bytes ?d q" by simp
      from Cons.IH [OF this] show ?thesis by auto
    qed
  qed
qed

lemma lru_scan_depth:
  assumes "read_dir d dir = Some entries" and "(atime, p, sz) \<in> set (lru_scan env d entries)"
  shows "length p = length dir + 2 \<and> path_extension p = None \<and>
    (\<exists>blocks. ev_stat env p = Some (atime, blocks))"
proof -
  obtain e subs where e: "e \<in> set entries" "read_dir d e = Some subs"
    and p: "(atime, p, sz) \<in> set (concat (map (lru_entry env) subs))"
    using assms(2) unfolding lru_scan_def set_concat set_map
    by (auto split: option.splits) metis
  have "length e = Suc (length dir)" using e(1) assms(1) by (auto simp: read_dir_def split: if_splits)
  moreover obtain s where "s \<in> set subs" "(atime, p, sz) \<in> set (lru_entry env s)" using p by auto
  moreover from this e(2) have "length s = Suc (length e)" "p = s" "path_extension p = None"
    "\<exists>blocks. ev_stat env p = Some (atime, blocks)"
    by (auto simp: read_dir_def lru_entry_def split: if_splits option.splits) metis
  ultimately show ?thesis by simp
qed

lemma evict_disk_lru_changes:
  assumes "file_bytes (ca_disk (evict_disk_lru env th now c)) p \<noteq> file_bytes (ca_disk c) p"
  shows "lru_may_remove env now c p"
proof -
  obtain entries where top: "read_dir (ca_disk c) (ca_dir c) = Some entries"
    using assms by (cases "read_dir (ca_disk c) (ca_dir c)") (auto simp: evict_disk_lru_def)
  obtain tot where "file_bytes (snd (lru_loop env th now c tot 0
      (sort_key (\<lambda>(atime, _, _). atime) (lru_scan env (ca_disk c) entries)) (ca_disk c))) p \<noteq>
      file_bytes (ca_disk c) p"
    using assms by (auto simp: evict_disk_lru_def top Let_def split: if_splits)
  from lru_loop_changes [OF this] lru_scan_depth [OF top] show ?thesis
    by (fastforce simp: lru_may_remove_def)
qed

text \<open>The fold of the TTL pass: the keys it reports are candidates whose file is gone, and a file that
  it removed belongs to a key it reports.\<close>

lemma ttl_remove_step:
  "\<exists>ks. fst (ttl_remove env dir k (keys, d)) = keys @ ks \<and> set ks \<subseteq> {k} \<and>
     (k \<in> set ks \<longrightarrow> file_bytes (snd (ttl_remove env dir k (keys, d))) (path_join dir k) = None) \<and>
     (k \<notin> set ks \<longrightarrow> snd (ttl_remove env dir k (keys, d)) = d) \<and>
     (\<forall>q. q \<noteq> path_join dir k \<longrightarrow> file_bytes (snd (ttl_remove env dir k (keys, d))) q = file_bytes d q) \<and>
     (\<forall>q. file_bytes d q = None \<longrightarrow> file_bytes (snd (ttl_remove env dir k (keys, d))) q = None)"
  by (auto simp: ttl_remove_def remove_file_def file_bytes_def split: option.splits node.splits)

lemma ttl_fold:
  "fold (ttl_remove env dir) ks (keys, d) = (keys', d') \<Longrightarrow>
     set keys \<subseteq> set keys' \<and> set keys' \<subseteq> set keys \<union> set ks \<and>
     (\<forall>k \<in> set keys' - set keys. file_bytes d' (path_join dir k) = None) \<and>
     (\<forall>q. file_bytes d' q \<noteq> file_bytes d q \<longrightarrow> (\<exists>k \<in> set keys'. q = path_join dir k)) \<and>
     (\<forall>q. file_bytes d q = None \<longrightarrow> file_bytes d' q = None)"
proof (induction ks arbitrary: keys d)
  case Nil
  then show ?case by simp
next
  case (Cons k ks)
  obtain keys1 d1 where st: "ttl_remove env dir k (keys, d) = (keys1, d1)" by (metis surj_pair)
  obtain js where js: "keys1 = keys @ js" "set js \<subseteq> {k}"
      "k \<in> set js \<longrightarrow> file_bytes d1 (path_join dir k) = None" "k \<notin> set js \<longrightarrow> d1 = d"
      "\<forall>q. q \<noteq> path_join dir k \<longrightarrow> file_bytes d1 q = file_bytes d q"
      "\<forall>q. file_bytes d q = None \<longrightarrow> file_bytes d1 q = None"
    using ttl_remove_step [of env dir k keys d] by (auto simp: st)
  have "fold (ttl_remove env dir) ks (keys1, d1) = (keys', d')" using Cons.prems by (simp add: st)
  from Cons.IH [OF this]
  have IH: "set keys1 \<subseteq> set keys'" "set keys' \<subseteq> set keys1 \<union> set ks"
    "\<forall>k \<in> set keys' - set keys1. file_bytes d' (path_join dir k) = None"
    "\<forall>q. file_bytes d' q \<noteq> file_bytes d1 q \<longrightarrow> (\<exists>k \<in> set keys'. q = path_join dir k)"
    "\<forall>q. file_bytes d1 q = None \<longrightarrow> file_bytes d' q = None"
    by auto
  have "file_bytes d' (path_join dir j) = None" if "j \<in> set keys' - set keys" for j
    using that IH(3,5) js(1-3) by (cases "j \<in> set keys1") auto
  moreover have "\<exists>k \<in> set keys'. q = path_join dir k" if "file_bytes d' q \<noteq> file_bytes d q" for q
  proof (cases "file_bytes d1 q = file_bytes d q")
    case True
    with that IH(4) show ?thesis by simp
  next
    case False
    with js have "q = path_join dir k" "k \<in> set js" by auto
    with js(1) IH(1) show ?thesis by auto
  qed
  moreover have "set keys \<subseteq> set keys'" "set keys' \<subseteq> set keys \<union> set (k # ks)"
    using js IH(1,2) by auto
  moreover have "\<forall>q. file_bytes d q = None \<longrightarrow> file_bytes d' q = None" using js(6) IH(5) by blast
  ultimately show ?case by blast
qed

lemma delete_keys_select:
  "delete_keys ok keys t = Inr (n, t') \<Longrightarrow> select_row t' k = (if k \<in> set keys then None else select_row t k)"
  by (auto simp: delete_keys_def select_delete_rows Let_def split: if_splits)

definition ttl_cutoff :: "u64 \<Rightarrow> cache \<Rightarrow> i64" where
  "ttl_cutoff now c = u64_to_i64 (now - parse_age_secs (cache_max_age (ca_config c)))"

lemma ttl_cleanup_effect:
  assumes "distinct (map fst (ca_range_db c))"
  shows "ttl_cleanup env now c = c \<or>
    (\<exists>keys d t.
       ttl_cleanup env now c = c\<lparr>ca_disk := d, ca_range_db := t\<rparr> \<and>
       (\<forall>k \<in> set keys. map_of (ca_items c) k = None \<and> file_bytes d (path_join (ca_dir c) k) = None \<and>
          (\<exists>row. select_row (ca_range_db c) k = Some row \<and> db_updated_at row < ttl_cutoff now c)) \<and>
       (\<forall>q. file_bytes d q \<noteq> file_bytes (ca_disk c) q \<longrightarrow> (\<exists>k \<in> set keys. q = path_join (ca_dir c) k)) \<and>
       (t = ca_range_db c \<and> \<not> ev_delete_ok env \<or>
        (\<forall>k. select_row t k = (if k \<in> set keys then None else select_row (ca_range_db c) k))))"
proof (cases "parse_age_secs (cache_max_age (ca_config c)) = 0")
  case True
  then show ?thesis by (simp add: ttl_cleanup_def)
next
  case age: False
  show ?thesis
  proof (cases "stale_keys (ev_stale_ok env) (ca_range_db c) (ttl_cutoff now c) TTL_STALE_KEYS_QUERY_LIMIT")
    case (Inl e)
    with age show ?thesis by (simp add: ttl_cleanup_def ttl_cutoff_def)
  next
    case (Inr stale)
    let ?cand = "filter (\<lambda>k. map_of (ca_items c) k = None) stale"
    obtain keys d where run: "fold (ttl_remove env (ca_dir c)) ?cand ([], ca_disk c) = (keys, d)"
      by (metis surj_pair)
    let ?t = "case delete_keys (ev_delete_ok env) keys (ca_range_db c) of
       Inl _ \<Rightarrow> ca_range_db c | Inr (_, t') \<Rightarrow> t'"
    have eq: "stale \<noteq> [] \<Longrightarrow> ttl_cleanup env now c = c\<lparr>ca_disk := d, ca_range_db := ?t\<rparr>"
      "stale = [] \<Longrightarrow> ttl_cleanup env now c = c"
      using age Inr run by (simp_all add: ttl_cleanup_def ttl_cutoff_def Let_def)
    have ks: "\<forall>k \<in> set keys. map_of (ca_items c) k = None \<and> file_bytes d (path_join (ca_dir c) k) = None \<and>
          (\<exists>row. select_row (ca_range_db c) k = Some row \<and> db_updated_at row < ttl_cutoff now c)"
      using ttl_fold [OF run] stale_keys_old [OF Inr _ assms] by auto
    have ch: "\<forall>q. file_bytes d q \<noteq> file_bytes (ca_disk c) q \<longrightarrow> (\<exists>k \<in> set keys. q = path_join (ca_dir c) k)"
      using ttl_fold [OF run] by blast
    have t: "?t = ca_range_db c \<and> \<not> ev_delete_ok env \<or>
        (\<forall>k. select_row ?t k = (if k \<in> set keys then None else select_row (ca_range_db c) k))"
      by (cases "delete_keys (ev_delete_ok env) keys (ca_range_db c)")
        (auto simp: delete_keys_select, auto simp: delete_keys_def Let_def split: if_splits)
    show ?thesis
      using eq ks ch t by blast
  qed
qed

section \<open>Properties\<close>

text \<open>An entry handed out by \<open>get_or_create\<close> is pinned: its key maps to the returned item, no
  eviction pass removes or changes it while its handle is open, and every later caller for the
  same file gets the same item, also one that had missed the first lookup.\<close>

theorem get_or_create_pins_entry:
  assumes "cache_inv c" and "get_or_create ok now ak fn sz c = (Inr i, c')"
    and "\<forall>j. map_of (ca_items c) (build_key ak fn) = Some j \<longrightarrow> ci_opens (ca_heap c ! j) < 2 ^ 32 - 1"
  shows "map_of (ca_items (evict env now' c')) (build_key ak fn) = Some i \<and>
    ca_heap (evict env now' c') ! i = ca_heap c' ! i \<and> is_open (ca_heap c' ! i) \<and>
    fst (get_or_create ok2 now2 ak fn sz2 (evict env now' c')) = Inr i \<and>
    fst (goc_entry ok2 now2 ak fn sz2 c') = Inr i"
proof -
  have h: "held (build_key ak fn) i (ca_heap c' ! i) c'"
    using get_or_create_held [OF assms(1,2)] assms(3) by blast
  from evict_held [OF this, of env now'] h show ?thesis
    by (simp add: held_def get_or_create_present get_or_create_entry goc_entry_def)
qed

definition demo_env :: evict_env where
  "demo_env = \<lparr>ev_stat = (\<lambda>_. Some (0, 8)), ev_rm_ok = (\<lambda>_. True), ev_flush_ok = (\<lambda>_. True),
     ev_stale_ok = True, ev_delete_ok = True, ev_free = None, ev_pause_receiver = False\<rparr>"

definition demo_cache :: cache where
  "demo_cache = the (cache_new True [''c''] vfs_config_default [] None)"

theorem get_or_create_pins_entry_witness:
  "map_of (ca_items (evict demo_env 1000 (snd (get_or_create (\<lambda>_. True) 5 ''h/n'' ''f'' 3 demo_cache))))
     (build_key ''h/n'' ''f'') = Some 0"
proof -
  have inv: "cache_inv demo_cache"
    by (simp add: demo_cache_def cache_new_def cache_inv_def)
  have run: "get_or_create (\<lambda>_. True) 5 ''h/n'' ''f'' 3 demo_cache =
      (Inr 0, snd (get_or_create (\<lambda>_. True) 5 ''h/n'' ''f'' 3 demo_cache))"
    by code_simp
  have none: "\<forall>j. map_of (ca_items demo_cache) (build_key ''h/n'' ''f'') = Some j \<longrightarrow>
      ci_opens (ca_heap demo_cache ! j) < 2 ^ 32 - 1"
    by (simp add: demo_cache_def cache_new_def)
  show ?thesis
    using get_or_create_pins_entry [OF inv run none] by blast
qed

text \<open>The TTL pass forgets a row only together with its file: every key it deletes from the table
  was stale, is not in memory and has no file left, and every file it removes loses its row when
  the delete statement succeeds.\<close>

theorem ttl_cleanup_file_and_row:
  assumes "distinct (map fst (ca_range_db c))"
  shows "(select_row (ca_range_db (ttl_cleanup env now c)) k \<noteq> select_row (ca_range_db c) k \<longrightarrow>
       map_of (ca_items c) k = None \<and>
       file_bytes (ca_disk (ttl_cleanup env now c)) (path_join (ca_dir c) k) = None \<and>
       (\<exists>row. select_row (ca_range_db c) k = Some row \<and> db_updated_at row < ttl_cutoff now c)) \<and>
    (file_bytes (ca_disk (ttl_cleanup env now c)) q \<noteq> file_bytes (ca_disk c) q \<longrightarrow>
       (\<exists>k. q = path_join (ca_dir c) k \<and> map_of (ca_items c) k = None \<and>
          (ev_delete_ok env \<longrightarrow> select_row (ca_range_db (ttl_cleanup env now c)) k = None)))"
  using ttl_cleanup_effect [OF assms, of env now]
proof (elim disjE exE conjE)
  fix keys d t
  assume eq: "ttl_cleanup env now c = c\<lparr>ca_disk := d, ca_range_db := t\<rparr>"
    and ks: "\<forall>k \<in> set keys. map_of (ca_items c) k = None \<and> file_bytes d (path_join (ca_dir c) k) = None \<and>
          (\<exists>row. select_row (ca_range_db c) k = Some row \<and> db_updated_at row < ttl_cutoff now c)"
    and ch: "\<forall>q. file_bytes d q \<noteq> file_bytes (ca_disk c) q \<longrightarrow> (\<exists>k \<in> set keys. q = path_join (ca_dir c) k)"
    and "\<forall>k. select_row t k = (if k \<in> set keys then None else select_row (ca_range_db c) k)"
  then show ?thesis by (auto simp: eq)
next
  fix keys d t
  assume eq: "ttl_cleanup env now c = c\<lparr>ca_disk := d, ca_range_db := t\<rparr>" "t = ca_range_db c"
    and del: "\<not> ev_delete_ok env"
    and ks: "\<forall>k \<in> set keys. map_of (ca_items c) k = None \<and> file_bytes d (path_join (ca_dir c) k) = None \<and>
          (\<exists>row. select_row (ca_range_db c) k = Some row \<and> db_updated_at row < ttl_cutoff now c)"
    and ch: "\<forall>q. file_bytes d q \<noteq> file_bytes (ca_disk c) q \<longrightarrow> (\<exists>k \<in> set keys. q = path_join (ca_dir c) k)"
  then have "\<exists>k. q = path_join (ca_dir c) k \<and> map_of (ca_items c) k = None"
    if "file_bytes d q \<noteq> file_bytes (ca_disk c) q" using that by blast
  with del show ?thesis by (simp add: eq)
qed simp

theorem ttl_cleanup_file_and_row_witness:
  "file_bytes (ca_disk (ttl_cleanup demo_env 200000 (demo_cache
     \<lparr>ca_range_db := [(''h/f'', \<lparr>db_file_size = 1, db_updated_at = 7, db_ranges_blob = [],
        db_schema_version = 2\<rparr>)], ca_disk := put_file [''c'', ''h'', ''f''] [1] []\<rparr>)))
     (path_join [''c''] ''h/f'') = None"
proof -
  let ?row = "\<lparr>db_file_size = 1, db_updated_at = 7, db_ranges_blob = [], db_schema_version = 2\<rparr>"
  let ?c = "demo_cache\<lparr>ca_range_db := [(''h/f'', ?row)], ca_disk := put_file [''c'', ''h'', ''f''] [1] []\<rparr>"
  have d: "distinct (map fst (ca_range_db ?c))" by simp
  have ne: "select_row (ca_range_db (ttl_cleanup demo_env 200000 ?c)) ''h/f'' = None"
    by code_simp
  have dir: "ca_dir ?c = [''c'']" by (simp add: demo_cache_def cache_new_def)
  show ?thesis
    using ttl_cleanup_file_and_row [OF d, of demo_env 200000 "''h/f''" "[]"] ne dir
    by (simp add: select_row_def)
qed

text \<open>The size-driven pass removes a file only when it lies exactly two levels below the cache
  directory, has no extension, is not in memory and was not accessed for five minutes. Entries
  are stored under \<open>hash/name/file\<close>, three levels down, so it never frees a byte of them:
  \<open>cache_max_size\<close> is not enforced.\<close>

theorem evict_disk_lru_spares_entries:
  "(file_bytes (ca_disk (evict_disk_lru env th now c)) p \<noteq> file_bytes (ca_disk c) p \<longrightarrow>
      lru_may_remove env now c p) \<and>
   (length (path_comps h) = 1 \<and> length (path_comps n) = 1 \<and> length (path_comps fn) = 1 \<and>
    \<not> starts_with h ''/'' \<and> h \<noteq> [] \<and> \<not> starts_with fn ''/'' \<longrightarrow>
      file_bytes (ca_disk (evict_disk_lru env th now c)) (entry_path (ca_dir c) (h @ ''/'' @ n) fn) =
      file_bytes (ca_disk c) (entry_path (ca_dir c) (h @ ''/'' @ n) fn))"
proof (intro conjI impI)
  assume "file_bytes (ca_disk (evict_disk_lru env th now c)) p \<noteq> file_bytes (ca_disk c) p"
  then show "lru_may_remove env now c p" by (rule evict_disk_lru_changes)
next
  assume a: "length (path_comps h) = 1 \<and> length (path_comps n) = 1 \<and> length (path_comps fn) = 1 \<and>
    \<not> starts_with h ''/'' \<and> h \<noteq> [] \<and> \<not> starts_with fn ''/''"
  have "\<not> starts_with (h @ ''/'' @ n) ''/''"
    using a by (cases h) (auto simp: starts_with_def)
  with a have "length (entry_path (ca_dir c) (h @ ''/'' @ n) fn) = length (ca_dir c) + 3"
    using path_comps_append [of h n] by (simp add: entry_path_def path_join_relative)
  then show "file_bytes (ca_disk (evict_disk_lru env th now c)) (entry_path (ca_dir c) (h @ ''/'' @ n) fn) =
      file_bytes (ca_disk c) (entry_path (ca_dir c) (h @ ''/'' @ n) fn)"
    using evict_disk_lru_changes [of env th now c "entry_path (ca_dir c) (h @ ''/'' @ n) fn"]
    by (auto simp: lru_may_remove_def)
qed

theorem evict_disk_lru_spares_entries_witness:
  "file_bytes (ca_disk (evict_disk_lru demo_env 0 1000 (demo_cache\<lparr>ca_disk :=
      put_file [''c'', ''h'', ''n'', ''f''] [1, 2] (put_node [''c'', ''h'', ''n''] Dir
        (put_node [''c'', ''h''] Dir (put_node [''c''] Dir [])))\<rparr>)))
     [''c'', ''h'', ''n'', ''f''] = Some [1, 2]"
proof -
  let ?c = "demo_cache\<lparr>ca_disk := put_file [''c'', ''h'', ''n'', ''f''] [1, 2] (put_node [''c'', ''h'', ''n''] Dir
        (put_node [''c'', ''h''] Dir (put_node [''c''] Dir [])))\<rparr>"
  have p: "entry_path (ca_dir ?c) (''h'' @ ''/'' @ ''n'') ''f'' = [''c'', ''h'', ''n'', ''f'']" by code_simp
  have h: "length (path_comps ''h'') = 1 \<and> length (path_comps ''n'') = 1 \<and> length (path_comps ''f'') = 1 \<and>
    \<not> starts_with ''h'' ''/'' \<and> ''h'' \<noteq> [] \<and> \<not> starts_with ''f'' ''/''" by code_simp
  show ?thesis
    using evict_disk_lru_spares_entries [of demo_env 0 1000 ?c "[]" "''h''" "''n''" "''f''"] h
    unfolding p by simp
qed

text \<open>Where the size-driven pass does remove a file (an access key without a slash), it leaves
  the row of \<open>cache_ranges\<close>: the next open restores the old ranges over a new, zero-filled file and
  zeros are served as cached content.\<close>

theorem lru_eviction_leaves_row:
  "\<exists>c env i c2.
     cache_read True 0 0 2 c = Some [7, 8] \<and> item_has_range (ca_heap c ! 0) 0 2 \<and>
     get_or_create (\<lambda>_. True) 2000 ''h'' ''f'' 2
       (evict_disk_lru env 0 1500 (evict_remove (ev_flush_ok env) 1000 ''h/f'' c)) = (Inr i, c2) \<and>
     item_has_range (ca_heap c2 ! i) 0 2 \<and> cache_read True i 0 2 c2 = Some [0, 0]"
proof -
  let ?c = "cache_release True 7 0 (snd (cache_write NoFault True 6 0 0 [7, 8]
      (snd (get_or_create (\<lambda>_. True) 5 ''h'' ''f'' 2 demo_cache))))"
  let ?e = "evict_disk_lru demo_env 0 1500 (evict_remove (ev_flush_ok demo_env) 1000 ''h/f'' ?c)"
  have "cache_read True 0 0 2 ?c = Some [7, 8]" and "item_has_range (ca_heap ?c ! 0) 0 2"
    and "get_or_create (\<lambda>_. True) 2000 ''h'' ''f'' 2 ?e =
      (Inr 1, snd (get_or_create (\<lambda>_. True) 2000 ''h'' ''f'' 2 ?e))"
    and "item_has_range (ca_heap (snd (get_or_create (\<lambda>_. True) 2000 ''h'' ''f'' 2 ?e)) ! 1) 0 2"
    and "cache_read True 1 0 2 (snd (get_or_create (\<lambda>_. True) 2000 ''h'' ''f'' 2 ?e)) = Some [0, 0]"
    by code_simp+
  then show ?thesis by blast
qed

end
