(* ===== verification/Token_Pool.thy ===== *)
theory Token_Pool
  imports Rd_Prelude
begin

text \<open>
  \<^verbatim>\<open>src/rd/token_pool.rs\<close>: the round-robin pool of download tokens with a bandwidth-exhausted flag
  per slot. The two vectors of \<open>TokenPoolState\<close> and the rotation index are one record; an empty
  token list is a panic (\<open>None\<close>).
\<close>

section \<open>State and operations\<close>

record token_pool =
  tp_tokens :: "string list"
  tp_exhausted :: "bool list"
  tp_current :: usize

definition pool_new :: "string list \<Rightarrow> token_pool option" where
  "pool_new tokens =
     (if tokens = [] then None
      else Some \<lparr>tp_tokens = tokens, tp_exhausted = replicate (length tokens) False, tp_current = 0\<rparr>)"

definition pool_current :: "token_pool \<Rightarrow> string" where
  "pool_current p = tp_tokens p ! (tp_current p mod length (tp_tokens p))"

text \<open>The loop over \<open>step\<close> of \<open>download_bearer\<close>: the first slot from \<open>start\<close> that is not exhausted.\<close>

definition pool_pick :: "token_pool \<Rightarrow> usize option" where
  "pool_pick p =
     (let n = length (tp_tokens p);
          start = tp_current p mod n
      in find (\<lambda>idx. \<not> tp_exhausted p ! idx) (map (\<lambda>st. (start + st) mod n) [0..<n]))"

definition download_bearer :: "token_pool \<Rightarrow> string \<times> token_pool" where
  "download_bearer p =
     (let start = tp_current p mod length (tp_tokens p)
      in case pool_pick p of
           Some idx \<Rightarrow> (tp_tokens p ! idx, if idx \<noteq> start then p\<lparr>tp_current := idx\<rparr> else p)
         | None \<Rightarrow> (tp_tokens p ! start, p))"

definition tokens_in_order :: "token_pool \<Rightarrow> string list" where
  "tokens_in_order p = tp_tokens p"

definition eligible_tokens_in_order :: "token_pool \<Rightarrow> string list" where
  "eligible_tokens_in_order p =
     map fst (filter (\<lambda>(_, ex). \<not> ex) (zip (tp_tokens p) (tp_exhausted p)))"

text \<open>The index of the first slot that holds the token.\<close>

fun token_slot :: "string \<Rightarrow> string list \<Rightarrow> usize option" where
  "token_slot tok [] = None"
| "token_slot tok (t # ts) = (if t = tok then Some 0 else map_option Suc (token_slot tok ts))"

definition is_exhausted :: "string \<Rightarrow> token_pool \<Rightarrow> bool" where
  "is_exhausted tok p =
     (case token_slot tok (tp_tokens p) of None \<Rightarrow> False | Some i \<Rightarrow> tp_exhausted p ! i)"

definition mark_exhausted :: "string \<Rightarrow> token_pool \<Rightarrow> token_pool" where
  "mark_exhausted tok p =
     (case token_slot tok (tp_tokens p) of
        None \<Rightarrow> p
      | Some i \<Rightarrow> p\<lparr>tp_exhausted := (tp_exhausted p)[i := True]\<rparr>)"

definition clear_all_exhausted :: "token_pool \<Rightarrow> token_pool" where
  "clear_all_exhausted p = p\<lparr>tp_exhausted := map (\<lambda>_. False) (tp_exhausted p)\<rparr>"

definition any_non_exhausted :: "token_pool \<Rightarrow> bool" where
  "any_non_exhausted p = list_ex (\<lambda>(_, ex). \<not> ex) (zip (tp_tokens p) (tp_exhausted p))"

definition pool_rotate :: "token_pool \<Rightarrow> bool \<times> token_pool" where
  "pool_rotate p =
     (if length (tp_tokens p) \<le> 1 then (False, p)
      else (True, p\<lparr>tp_current := wadd64 (tp_current p) 1\<rparr>))"

definition update_tokens :: "string list \<Rightarrow> token_pool \<Rightarrow> token_pool option" where
  "update_tokens new_tokens p =
     (if new_tokens = [] then None
      else Some (p\<lparr>tp_tokens := new_tokens, tp_exhausted := replicate (length new_tokens) False,
                   tp_current := 0\<rparr>))"

definition pool_len :: "token_pool \<Rightarrow> usize" where
  "pool_len p = length (tp_tokens p)"

definition pool_is_empty :: "token_pool \<Rightarrow> bool" where
  "pool_is_empty p = (tp_tokens p = [])"

definition is_single :: "token_pool \<Rightarrow> bool" where
  "is_single p = (length (tp_tokens p) = 1)"

section \<open>Invariant\<close>

definition pool_inv :: "token_pool \<Rightarrow> bool" where
  "pool_inv p \<longleftrightarrow> tp_tokens p \<noteq> [] \<and> length (tp_exhausted p) = length (tp_tokens p)"

lemma token_slot_Some: "token_slot tok ts = Some i \<Longrightarrow> i < length ts \<and> ts ! i = tok"
  by (induction ts arbitrary: i) (auto split: if_splits)

lemma token_slot_None: "token_slot tok ts = None \<longleftrightarrow> tok \<notin> set ts"
  by (induction ts) auto

lemma token_slot_distinct: "distinct ts \<Longrightarrow> i < length ts \<Longrightarrow> token_slot (ts ! i) ts = Some i"
proof (induction ts arbitrary: i)
  case (Cons t ts)
  then show ?case by (cases i) auto
qed simp

lemma pool_new_inv: "pool_new ts = Some p \<Longrightarrow> pool_inv p"
  by (auto simp: pool_new_def pool_inv_def split: if_splits)

lemma mark_exhausted_inv: "pool_inv p \<Longrightarrow> pool_inv (mark_exhausted tok p)"
  by (auto simp: pool_inv_def mark_exhausted_def split: option.splits)

lemma clear_all_exhausted_inv: "pool_inv p \<Longrightarrow> pool_inv (clear_all_exhausted p)"
  by (simp add: pool_inv_def clear_all_exhausted_def)

lemma download_bearer_inv: "pool_inv p \<Longrightarrow> pool_inv (snd (download_bearer p))"
  by (auto simp: pool_inv_def download_bearer_def Let_def split: option.splits)

lemma pool_rotate_inv: "pool_inv p \<Longrightarrow> pool_inv (snd (pool_rotate p))"
  by (simp add: pool_inv_def pool_rotate_def)

lemma update_tokens_inv: "update_tokens ts p = Some p' \<Longrightarrow> pool_inv p'"
  by (auto simp: update_tokens_def pool_inv_def split: if_splits)

datatype pool_op = Bearer | Mark string | ClearAll | Rotate | UpdateTokens "string list"

fun pool_step :: "pool_op \<Rightarrow> token_pool \<Rightarrow> token_pool" where
  "pool_step Bearer p = snd (download_bearer p)"
| "pool_step (Mark t) p = mark_exhausted t p"
| "pool_step ClearAll p = clear_all_exhausted p"
| "pool_step Rotate p = snd (pool_rotate p)"
| "pool_step (UpdateTokens ts) p = (case update_tokens ts p of None \<Rightarrow> p | Some p' \<Rightarrow> p')"

interpretation tpm: invariant_machine pool_step pool_inv
proof
  show "pool_inv (pool_step e p)" if "pool_inv p" for p e
    using that
    by (cases e) (auto simp: download_bearer_inv mark_exhausted_inv clear_all_exhausted_inv
        pool_rotate_inv update_tokens_inv split: option.splits)
qed

section \<open>Selection\<close>

lemma mod_shift_inj:
  assumes "x \<le> y" and "y < n" and "(start + x) mod n = (start + y) mod (n :: nat)"
  shows "x = y"
proof -
  have "n dvd (start + y) - (start + x)"
    using assms(1,3) mod_eq_dvd_iff_nat [of "start + x" "start + y" n] by simp
  then have "n dvd y - x" by simp
  moreover have "y - x < n" using assms(2) by linarith
  ultimately have "y - x = 0" by (meson gr_zeroI nat_dvd_not_less)
  with assms(1) show ?thesis by simp
qed

lemma rotation_covers: "0 < n \<Longrightarrow> set (map (\<lambda>st. (start + st) mod n) [0..<n]) = {..<(n :: nat)}"
proof
  assume n: "0 < n"
  then show "set (map (\<lambda>st. (start + st) mod n) [0..<n]) \<subseteq> {..<n}" by auto
  have "inj_on (\<lambda>st. (start + st) mod n) {0..<n}"
  proof (rule inj_onI)
    fix x y
    assume xy: "x \<in> {0..<n}" "y \<in> {0..<n}" and eq: "(start + x) mod n = (start + y) mod n"
    then show "x = y"
      using mod_shift_inj [of x y n start] mod_shift_inj [of y x n start] by (cases "x \<le> y") auto
  qed
  then have "card ((\<lambda>st. (start + st) mod n) ` {0..<n}) = n" by (simp add: card_image)
  moreover have "(\<lambda>st. (start + st) mod n) ` {0..<n} \<subseteq> {..<n}" using n by auto
  ultimately have "(\<lambda>st. (start + st) mod n) ` {0..<n} = {..<n}"
    by (metis card_lessThan card_subset_eq finite_lessThan)
  then show "{..<n} \<subseteq> set (map (\<lambda>st. (start + st) mod n) [0..<n])" by simp
qed

lemma pool_pick_Some:
  assumes "pool_pick p = Some idx" and "pool_inv p"
  shows "idx < length (tp_tokens p) \<and> \<not> tp_exhausted p ! idx"
proof -
  let ?n = "length (tp_tokens p)"
  have n: "0 < ?n" using assms(2) by (simp add: pool_inv_def)
  from assms(1) obtain i where "i < ?n" "idx = (tp_current p mod ?n + i) mod ?n" "\<not> tp_exhausted p ! idx"
    by (auto simp: pool_pick_def Let_def find_Some_iff)
  with n show ?thesis by simp
qed

lemma pool_pick_None:
  assumes "pool_pick p = None" and "pool_inv p" and "i < length (tp_tokens p)"
  shows "tp_exhausted p ! i"
proof -
  let ?n = "length (tp_tokens p)"
  have n: "0 < ?n" using assms(2) by (simp add: pool_inv_def)
  have "\<forall>idx \<in> set (map (\<lambda>st. (tp_current p mod ?n + st) mod ?n) [0..<?n]). tp_exhausted p ! idx"
    using assms(1) by (simp add: pool_pick_def Let_def find_None_iff)
  with rotation_covers [OF n, of "tp_current p mod ?n"] assms(3) show ?thesis by (metis lessThan_iff)
qed

lemma eligible_iff:
  "pool_inv p \<Longrightarrow> t \<in> set (eligible_tokens_in_order p) \<longleftrightarrow>
     (\<exists>i < length (tp_tokens p). tp_tokens p ! i = t \<and> \<not> tp_exhausted p ! i)"
  by (force simp: eligible_tokens_in_order_def pool_inv_def set_zip)

lemma any_non_exhausted_iff:
  "pool_inv p \<Longrightarrow> any_non_exhausted p \<longleftrightarrow> (\<exists>i < length (tp_tokens p). \<not> tp_exhausted p ! i)"
  by (force simp: any_non_exhausted_def list_ex_iff pool_inv_def set_zip)

lemma eligible_empty_iff: "pool_inv p \<Longrightarrow> eligible_tokens_in_order p = [] \<longleftrightarrow> \<not> any_non_exhausted p"
  by (auto simp: eligible_tokens_in_order_def any_non_exhausted_def list_ex_iff filter_empty_conv)

lemma download_bearer_eligible:
  assumes "pool_inv p" and "any_non_exhausted p" and "download_bearer p = (t, p')"
  shows "t \<in> set (eligible_tokens_in_order p)" and "pool_current p' = t"
    and "tp_exhausted p' = tp_exhausted p" and "tp_tokens p' = tp_tokens p"
proof -
  obtain idx where idx: "pool_pick p = Some idx"
    using assms(1,2) pool_pick_None by (cases "pool_pick p") (auto simp: any_non_exhausted_iff)
  note i = pool_pick_Some [OF idx assms(1)]
  from assms(3) idx have t: "t = tp_tokens p ! idx"
    and p': "p' = (if idx \<noteq> tp_current p mod length (tp_tokens p) then p\<lparr>tp_current := idx\<rparr> else p)"
    by (auto simp: download_bearer_def Let_def)
  from i t show "t \<in> set (eligible_tokens_in_order p)" by (auto simp: eligible_iff [OF assms(1)])
  from i t p' show "pool_current p' = t" by (auto simp: pool_current_def)
  from p' show "tp_exhausted p' = tp_exhausted p" "tp_tokens p' = tp_tokens p" by auto
qed

lemma eligible_not_exhausted:
  assumes "pool_inv p" and "distinct (tp_tokens p)"
  shows "t \<in> set (eligible_tokens_in_order p) \<longleftrightarrow> t \<in> set (tp_tokens p) \<and> \<not> is_exhausted t p"
proof -
  have "token_slot t (tp_tokens p) = Some i" if "i < length (tp_tokens p)" "tp_tokens p ! i = t" for i
    using token_slot_distinct [OF assms(2) that(1)] that(2) by simp
  then show ?thesis
    unfolding eligible_iff [OF assms(1)] is_exhausted_def in_set_conv_nth [of t "tp_tokens p"] by fastforce
qed

lemma is_exhausted_mark:
  assumes "pool_inv p" and "distinct (tp_tokens p)"
  shows "is_exhausted u (mark_exhausted t p) \<longleftrightarrow> (u = t \<and> t \<in> set (tp_tokens p)) \<or> is_exhausted u p"
proof (cases "token_slot t (tp_tokens p)")
  case None
  then have "mark_exhausted t p = p" and "t \<notin> set (tp_tokens p)"
    by (simp add: mark_exhausted_def) (simp add: None flip: token_slot_None)
  then show ?thesis by auto
next
  case (Some i)
  note i = token_slot_Some [OF Some]
  show ?thesis
  proof (cases "token_slot u (tp_tokens p)")
    case None
    then have "u \<notin> set (tp_tokens p)" by (simp add: token_slot_None)
    with None i show ?thesis by (auto simp: is_exhausted_def mark_exhausted_def Some)
  next
    case u: (Some j)
    have "u = t \<longleftrightarrow> i = j"
      using token_slot_Some [OF u] i Some u by (metis option.inject)
    with u i Some assms(1) show ?thesis
      by (auto simp: is_exhausted_def mark_exhausted_def pool_inv_def nth_list_update)
  qed
qed

section \<open>Properties\<close>

text \<open>In any state the pool can reach from \<open>new\<close>, while some token is not exhausted
  \<open>download_bearer\<close> hands out a token of the pool that is not marked exhausted and leaves the
  rotation index on it.\<close>

theorem download_bearer_skips_exhausted:
  assumes "pool_new ts = Some p0" and "p = fold pool_step ops p0"
    and "distinct (tp_tokens p)" and "any_non_exhausted p" and "download_bearer p = (t, p')"
  shows "t \<in> set (tp_tokens p) \<and> \<not> is_exhausted t p \<and> pool_current p' = t"
proof -
  have inv: "pool_inv p" using tpm.run_inv [OF pool_new_inv [OF assms(1)]] assms(2) by simp
  show ?thesis
    using download_bearer_eligible [OF inv assms(4,5)] eligible_not_exhausted [OF inv assms(3)] by blast
qed

theorem download_bearer_skips_exhausted_witness:
  "fst (download_bearer (fold pool_step [Mark ''a''] \<lparr>tp_tokens = [''a'', ''b''],
     tp_exhausted = [False, False], tp_current = 0\<rparr>)) \<in> {''a'', ''b''} - {''a''}"
proof -
  let ?init = "\<lparr>tp_tokens = [''a'', ''b''], tp_exhausted = [False, False], tp_current = 0\<rparr>"
  let ?p = "fold pool_step [Mark ''a''] ?init"
  have n: "pool_new [''a'', ''b''] = Some ?init"
    by (simp add: pool_new_def numeral_2_eq_2)
  have d: "distinct (tp_tokens ?p)" and a: "any_non_exhausted ?p" and ex: "is_exhausted ''a'' ?p"
    and tk: "tp_tokens ?p = [''a'', ''b'']"
    by code_simp+
  have b: "download_bearer ?p = (fst (download_bearer ?p), snd (download_bearer ?p))" by simp
  have "fst (download_bearer ?p) \<in> set (tp_tokens ?p) \<and> \<not> is_exhausted (fst (download_bearer ?p)) ?p"
    using download_bearer_skips_exhausted [OF n refl d a b] by blast
  moreover from this ex have "fst (download_bearer ?p) \<noteq> ''a''" by metis
  ultimately show ?thesis unfolding tk list.set by blast
qed

text \<open>Marking a token exhausted affects that token only, a cleared pool has every token
  eligible, and the eligible list is exactly the tokens that are not exhausted.\<close>

theorem exhaustion_flags_are_per_token:
  assumes "pool_inv p" and "distinct (tp_tokens p)"
  shows "(is_exhausted u (mark_exhausted t p) \<longleftrightarrow> (u = t \<and> t \<in> set (tp_tokens p)) \<or> is_exhausted u p) \<and>
    eligible_tokens_in_order (clear_all_exhausted p) = tp_tokens p \<and>
    (u \<in> set (eligible_tokens_in_order p) \<longleftrightarrow> u \<in> set (tp_tokens p) \<and> \<not> is_exhausted u p)"
proof -
  have "eligible_tokens_in_order (clear_all_exhausted p) = tp_tokens p"
    using assms(1)
    by (simp add: eligible_tokens_in_order_def clear_all_exhausted_def pool_inv_def zip_map2
        filter_map o_def case_prod_unfold)
  with is_exhausted_mark [OF assms, of u t] eligible_not_exhausted [OF assms, of u] show ?thesis by blast
qed

theorem exhaustion_flags_are_per_token_witness:
  "is_exhausted ''b'' (mark_exhausted ''b'' \<lparr>tp_tokens = [''a'', ''b''], tp_exhausted = [False, False], tp_current = 0\<rparr>)"
  using exhaustion_flags_are_per_token
    [of "\<lparr>tp_tokens = [''a'', ''b''], tp_exhausted = [False, False], tp_current = 0\<rparr>" "''b''" "''b''"]
  by (simp add: pool_inv_def)

end
