(* ===== verification/Rd_Exec.thy ===== *)
theory Rd_Exec
  imports Rd_Errors Token_Pool
begin

text \<open>
  \<^verbatim>\<open>src/rd/client/exec.rs\<close> and the retry loop of \<^verbatim>\<open>src/rd/api/methods3.rs\<close>. An HTTP exchange is an
  input: \<open>execute_impl\<close> is run over the list of what the server answers to its successive requests,
  and \<open>None\<close> means that it is still retrying when the list ends. Sleeping has no effect on the
  state. Of a response the model keeps what the code reads; of its body, what
  \<open>serde_json::from_slice::<ApiErrBody>\<close> makes of it.
\<close>

section \<open>Requests and responses\<close>

record response =
  rsp_status :: nat
  rsp_x_error :: "string option"
  rsp_content_type :: "string option"
  rsp_content_range :: "string option"
  rsp_err_body :: "(string \<times> int) option option"

record send_error =
  se_timeout :: bool
  se_connect :: bool
  se_request :: bool
  se_text :: string

datatype send_result = SendOk response | SendErr send_error

definition is_success :: "nat \<Rightarrow> bool" where
  "is_success st = (200 \<le> st \<and> st \<le> 299)"

definition is_server_error :: "nat \<Rightarrow> bool" where
  "is_server_error st = (500 \<le> st \<and> st \<le> 599)"

definition is_network_error :: "send_error \<Rightarrow> bool" where
  "is_network_error e =
     (let s = se_text e
      in str_contains s ''EOF'' \<or> str_contains s ''connection reset'' \<or>
         str_contains s ''broken pipe'' \<or> str_contains s ''timeout'')"

record credentials =
  cr_token :: string
  cr_download_tokens :: "string list"

record rd_client_config =
  cc_max_retries :: u32
  cc_is_download_client :: bool

text \<open>The state of one \<open>execute_impl\<close>: its three local variables and the shared token pool.\<close>

record exec_state =
  ex_attempt :: u32
  ex_token_attempts :: usize
  ex_use_fallback :: bool
  ex_pool :: "token_pool option"

datatype exec_result = Continue exec_state | Return "rd_error + response" exec_state

definition RETRY_BACKOFF_INTERNAL_SECS :: u64 where
  "RETRY_BACKOFF_INTERNAL_SECS = 30"

definition RETRY_BACKOFF_DEFAULT_SECS :: u64 where
  "RETRY_BACKOFF_DEFAULT_SECS = 1"

section \<open>The retry loop\<close>

text \<open>The bearer of an attempt; taking it from the pool may move the rotation index.\<close>

definition active_token :: "string option \<Rightarrow> credentials \<Rightarrow> exec_state \<Rightarrow> string \<times> exec_state" where
  "active_token fixed creds st =
     (case fixed of
        Some b \<Rightarrow> (b, st)
      | None \<Rightarrow>
          (case ex_pool st of
             Some pool \<Rightarrow> (let (t, pool') = download_bearer pool in (t, st\<lparr>ex_pool := Some pool'\<rparr>))
           | None \<Rightarrow> (cr_token creds, st)))"

text \<open>The seconds slept before the retry of a retryable API error.\<close>

definition api_retry_base :: "api_error \<Rightarrow> u64" where
  "api_retry_base e = (case e of ApiInternal _ \<Rightarrow> RETRY_BACKOFF_INTERNAL_SECS | _ \<Rightarrow> RETRY_BACKOFF_DEFAULT_SECS)"

definition exec_send_error :: "rd_client_config \<Rightarrow> send_error \<Rightarrow> exec_state \<Rightarrow> exec_result" where
  "exec_send_error cfg e st =
     (if se_timeout e \<or> se_connect e \<or> is_network_error e then
        (if \<not> ex_use_fallback st \<and> ex_attempt st = 0 \<and> cc_is_download_client cfg
         then Continue (st\<lparr>ex_use_fallback := True\<rparr>)
         else if ex_attempt st \<ge> cc_max_retries cfg then Return (Inl MaxRetriesExceeded) st
         else Continue (st\<lparr>ex_attempt := ex_attempt st + 1\<rparr>))
      else if se_request e \<and> str_contains (se_text e) ''context canceled'' then Return (Inl RdCancelled) st
      else Return (Inl (RdNetwork (se_text e))) st)"

text \<open>A CDN answer that is not a success (download client without a fixed bearer).\<close>

definition exec_cdn_error :: "usize \<Rightarrow> string \<Rightarrow> response \<Rightarrow> exec_state \<Rightarrow> exec_result" where
  "exec_cdn_error max_token_attempts tok rsp st =
     (let x_err = (case rsp_x_error rsp of None \<Rightarrow> [] | Some s \<Rightarrow> s);
          err = RdDownload (from_header x_err (rsp_status rsp))
      in case ex_pool st of
           Some pool \<Rightarrow>
             if is_bandwidth_limited err then
               (let pool' = mark_exhausted tok pool;
                    ta = ex_token_attempts st + 1;
                    st' = st\<lparr>ex_pool := Some pool', ex_token_attempts := ta\<rparr>
                in if ta < max_token_attempts \<and> any_non_exhausted pool'
                   then Continue (st'\<lparr>ex_attempt := 0\<rparr>)
                   else Return (Inl err) st')
             else Return (Inl err) st
         | None \<Rightarrow> Return (Inl err) st)"

text \<open>An API answer that is not a success: first its JSON error, then its status.\<close>

definition exec_status_error :: "rd_client_config \<Rightarrow> response \<Rightarrow> exec_state \<Rightarrow> exec_result" where
  "exec_status_error cfg rsp st =
     (if is_server_error (rsp_status rsp) \<or> rsp_status rsp = 429 then
        (if ex_attempt st \<ge> cc_max_retries cfg then Return (Inl MaxRetriesExceeded) st
         else Continue (st\<lparr>ex_attempt := ex_attempt st + 1\<rparr>))
      else
        Return (Inl (RdApi (ApiOther (int (rsp_status rsp)) (''HTTP '' @ show_nat (rsp_status rsp))))) st)"

definition exec_api_error :: "rd_client_config \<Rightarrow> response \<Rightarrow> exec_state \<Rightarrow> exec_result" where
  "exec_api_error cfg rsp st =
     (if (case rsp_content_type rsp of None \<Rightarrow> False | Some ct \<Rightarrow> str_contains ct ''application/json'') then
        (case rsp_err_body rsp of
           None \<Rightarrow> Return (Inl (RdNetwork ''body'')) st
         | Some None \<Rightarrow> exec_status_error cfg rsp st
         | Some (Some (message, code)) \<Rightarrow>
             (let api_err = from_code code message
              in if api_is_bandwidth_limited api_err then Return (Inl (RdApi api_err)) st
                 else if should_retry api_err then Continue (st\<lparr>ex_attempt := ex_attempt st + 1\<rparr>)
                 else Return (Inl (RdApi api_err)) st))
      else exec_status_error cfg rsp st)"

definition exec_step ::
    "rd_client_config \<Rightarrow> usize \<Rightarrow> string option \<Rightarrow> credentials \<Rightarrow> send_result \<Rightarrow> exec_state \<Rightarrow> exec_result" where
  "exec_step cfg max_token_attempts fixed creds res st0 =
     (let (tok, st) = active_token fixed creds st0
      in case res of
           SendErr e \<Rightarrow> exec_send_error cfg e st
         | SendOk rsp \<Rightarrow>
             if cc_is_download_client cfg \<and> fixed = None \<and> \<not> is_success (rsp_status rsp)
             then exec_cdn_error max_token_attempts tok rsp st
             else if is_success (rsp_status rsp) then Return (Inr rsp) st
             else exec_api_error cfg rsp st)"

fun exec_loop ::
    "rd_client_config \<Rightarrow> usize \<Rightarrow> string option \<Rightarrow> credentials \<Rightarrow> send_result list \<Rightarrow> exec_state \<Rightarrow>
     ((rd_error + response) \<times> exec_state) option" where
  "exec_loop cfg mt fixed creds [] st = None"
| "exec_loop cfg mt fixed creds (r # rs) st =
     (case exec_step cfg mt fixed creds r st of
        Return res st' \<Rightarrow> Some (res, st')
      | Continue st' \<Rightarrow> exec_loop cfg mt fixed creds rs st')"

definition exec_init :: "token_pool option \<Rightarrow> exec_state" where
  "exec_init pool = \<lparr>ex_attempt = 0, ex_token_attempts = 0, ex_use_fallback = False, ex_pool = pool\<rparr>"

definition execute_impl ::
    "rd_client_config \<Rightarrow> token_pool option \<Rightarrow> string option \<Rightarrow> credentials \<Rightarrow> send_result list \<Rightarrow>
     ((rd_error + response) \<times> exec_state) option" where
  "execute_impl cfg pool fixed creds rs =
     exec_loop cfg (case pool of None \<Rightarrow> 1 | Some p \<Rightarrow> pool_len p) fixed creds rs (exec_init pool)"

definition execute ::
    "rd_client_config \<Rightarrow> token_pool option \<Rightarrow> credentials \<Rightarrow> send_result list \<Rightarrow>
     ((rd_error + response) \<times> exec_state) option" where
  "execute cfg pool creds rs = execute_impl cfg pool None creds rs"

definition execute_with_fixed_bearer ::
    "rd_client_config \<Rightarrow> token_pool option \<Rightarrow> string \<Rightarrow> credentials \<Rightarrow> send_result list \<Rightarrow>
     ((rd_error + response) \<times> exec_state) option" where
  "execute_with_fixed_bearer cfg pool bearer creds rs = execute_impl cfg pool (Some bearer) creds rs"

text \<open>The loop of \<open>http_range_get\<close> over what its successive \<open>execute\<close> calls return.\<close>

fun http_range_get_loop :: "u32 \<Rightarrow> u32 \<Rightarrow> (rd_error + response) list \<Rightarrow> (rd_error + response) option" where
  "http_range_get_loop max_retries attempt [] = None"
| "http_range_get_loop max_retries attempt (Inl e # rs) = Some (Inl e)"
| "http_range_get_loop max_retries attempt (Inr rsp # rs) =
     (if rsp_content_range rsp \<noteq> None then Some (Inr rsp)
      else if rsp_status rsp = 200 then Some (Inl RangeNotSupported)
      else if attempt \<ge> max_retries then Some (Inl MaxRetriesExceeded)
      else http_range_get_loop max_retries (attempt + 1) rs)"

definition http_range_get :: "u32 \<Rightarrow> (rd_error + response) list \<Rightarrow> (rd_error + response) option" where
  "http_range_get max_retries rs = http_range_get_loop max_retries 0 rs"

section \<open>Termination\<close>

text \<open>A response that the unbounded branch retries: a JSON body with a rate-limit or internal code.\<close>

definition api_retryable :: "send_result \<Rightarrow> bool" where
  "api_retryable r =
     (case r of
        SendErr _ \<Rightarrow> False
      | SendOk rsp \<Rightarrow>
          \<not> is_success (rsp_status rsp) \<and>
          (case rsp_content_type rsp of None \<Rightarrow> False | Some ct \<Rightarrow> str_contains ct ''application/json'') \<and>
          (case rsp_err_body rsp of
             Some (Some (m, code)) \<Rightarrow> should_retry (from_code code m) \<and> \<not> api_is_bandwidth_limited (from_code code m)
           | _ \<Rightarrow> False))"

definition exec_measure :: "rd_client_config \<Rightarrow> usize \<Rightarrow> exec_state \<Rightarrow> nat" where
  "exec_measure cfg mt st =
     (mt - ex_token_attempts st) * (cc_max_retries cfg + 1) + (cc_max_retries cfg - ex_attempt st)
     + (if ex_use_fallback st then 0 else 1)"

lemma active_token_fields [simp]:
  assumes "active_token fixed creds st = (tok, st')"
  shows "ex_attempt st' = ex_attempt st" "ex_token_attempts st' = ex_token_attempts st"
    "ex_use_fallback st' = ex_use_fallback st"
  using assms by (auto simp: active_token_def split: option.splits prod.splits)

lemma exec_measure_rotate:
  assumes "ta + 1 < mt" and "a \<le> (m :: nat)"
  shows "(mt - (ta + 1)) * (m + 1) + m < (mt - ta) * (m + 1) + (m - a)"
proof -
  obtain k where k: "mt - ta = Suc (Suc k)" using assms(1) by (metis Suc_diff_Suc add.commute add_lessD1 plus_1_eq_Suc)
  then have "mt - (ta + 1) = Suc k" by simp
  with k assms(2) show ?thesis by (simp add: algebra_simps)
qed

lemma exec_step_decreases:
  assumes "exec_step cfg mt fixed creds r st = Continue st'" and "\<not> api_retryable r"
    and "ex_attempt st \<le> cc_max_retries cfg"
  shows "exec_measure cfg mt st' < exec_measure cfg mt st \<and> ex_attempt st' \<le> cc_max_retries cfg"
proof -
  obtain tok s1 where at: "active_token fixed creds st = (tok, s1)" by (metis surj_pair)
  note f = active_token_fields [OF at]
  have inc: "exec_measure cfg mt (s1\<lparr>ex_attempt := ex_attempt s1 + 1\<rparr>) < exec_measure cfg mt st"
    if "ex_attempt s1 < cc_max_retries cfg"
    using that by (simp add: exec_measure_def f)
  show ?thesis
  proof (cases r)
    case (SendErr e)
    with assms(1) at have "exec_send_error cfg e s1 = Continue st'" by (simp add: exec_step_def)
    then consider "\<not> ex_use_fallback s1" "st' = s1\<lparr>ex_use_fallback := True\<rparr>"
      | "ex_attempt s1 < cc_max_retries cfg" "st' = s1\<lparr>ex_attempt := ex_attempt s1 + 1\<rparr>"
      by (auto simp: exec_send_error_def split: if_splits)
    then show ?thesis
    proof cases
      case 1
      then have "exec_measure cfg mt st' < exec_measure cfg mt st" by (simp add: exec_measure_def f)
      with 1 assms(3) show ?thesis by (simp add: f)
    next
      case 2
      with inc show ?thesis by simp
    qed
  next
    case (SendOk rsp)
    have status: "ex_attempt s1 < cc_max_retries cfg \<and> st' = s1\<lparr>ex_attempt := ex_attempt s1 + 1\<rparr>"
      if "exec_status_error cfg rsp s1 = Continue st'"
      using that by (auto simp: exec_status_error_def split: if_splits)
    show ?thesis
    proof (cases "cc_is_download_client cfg \<and> fixed = None \<and> \<not> is_success (rsp_status rsp)")
      case True
      with assms(1) at SendOk have "exec_cdn_error mt tok rsp s1 = Continue st'"
        by (simp add: exec_step_def)
      then have "ex_token_attempts s1 + 1 < mt" and st': "ex_attempt st' = 0"
        "ex_token_attempts st' = ex_token_attempts s1 + 1" "ex_use_fallback st' = ex_use_fallback s1"
        by (auto simp: exec_cdn_error_def Let_def split: option.splits if_splits)
      with exec_measure_rotate [of "ex_token_attempts st" mt "ex_attempt st" "cc_max_retries cfg"] assms(3)
      show ?thesis by (simp add: exec_measure_def f)
    next
      case False
      with assms(1) at SendOk have api: "exec_api_error cfg rsp s1 = Continue st'" and ns: "\<not> is_success (rsp_status rsp)"
        by (auto simp: exec_step_def split: if_splits)
      then have "exec_status_error cfg rsp s1 = Continue st'"
        using assms(2) SendOk
        by (auto simp: exec_api_error_def api_retryable_def Let_def split: if_splits option.splits prod.splits)
      from status [OF this] inc show ?thesis by auto
    qed
  qed
qed

lemma exec_loop_returns:
  assumes "\<forall>r \<in> set rs. \<not> api_retryable r" and "ex_attempt st \<le> cc_max_retries cfg"
    and "exec_measure cfg mt st < length rs"
  shows "exec_loop cfg mt fixed creds rs st \<noteq> None"
  using assms
proof (induction rs arbitrary: st)
  case Nil
  then show ?case by simp
next
  case (Cons r rs)
  show ?case
  proof (cases "exec_step cfg mt fixed creds r st")
    case (Return res st')
    then show ?thesis by simp
  next
    case (Continue st')
    with exec_step_decreases [OF this] Cons show ?thesis by auto
  qed
qed

lemma http_range_get_loop_content_range:
  "http_range_get_loop m a rs = Some (Inr rsp) \<Longrightarrow> rsp_content_range rsp \<noteq> None"
  by (induction m a rs rule: http_range_get_loop.induct) (auto split: if_splits)

section \<open>Properties\<close>

text \<open>C31: a request ends: unless the server keeps answering with a retryable JSON error, at most
  \<open>tokens * (max_retries + 1) + max_retries + 2\<close> exchanges are made before \<open>execute_impl\<close> returns,
  rotation over exhausted tokens and the host fallback included.\<close>

theorem execute_impl_returns:
  assumes "\<forall>r \<in> set rs. \<not> api_retryable r"
    and "(case pool of None \<Rightarrow> 1 | Some p \<Rightarrow> pool_len p) * (cc_max_retries cfg + 1)
           + cc_max_retries cfg + 1 < length rs"
  shows "\<exists>res st. execute_impl cfg pool fixed creds rs = Some (res, st)"
proof -
  have "execute_impl cfg pool fixed creds rs \<noteq> None"
    unfolding execute_impl_def
    by (rule exec_loop_returns) (use assms in \<open>simp_all add: exec_init_def exec_measure_def\<close>)
  then show ?thesis by auto
qed

theorem execute_impl_returns_witness:
  "\<exists>res st. execute_impl \<lparr>cc_max_retries = 1, cc_is_download_client = False\<rparr> None None
     \<lparr>cr_token = ''t'', cr_download_tokens = []\<rparr>
     (replicate 5 (SendErr \<lparr>se_timeout = True, se_connect = False, se_request = False, se_text = ''x''\<rparr>))
     = Some (res, st)"
  by (rule execute_impl_returns) (auto simp: api_retryable_def)

text \<open>A retryable JSON error is retried without any bound: an API that answers every request with
  error code 34 (too many requests) keeps \<open>execute\<close> of the API client retrying for ever, whatever
  \<open>retries_until_failed\<close> says.\<close>

theorem json_rate_limit_retries_forever:
  "execute \<lparr>cc_max_retries = m, cc_is_download_client = False\<rparr> None creds
     (replicate n (SendOk \<lparr>rsp_status = 429, rsp_x_error = None, rsp_content_type = Some ''application/json'',
        rsp_content_range = None, rsp_err_body = Some (Some (''too_many_requests'', 34))\<rparr>)) = None"
proof -
  let ?cfg = "\<lparr>cc_max_retries = m, cc_is_download_client = False\<rparr>"
  let ?r = "SendOk \<lparr>rsp_status = 429, rsp_x_error = None, rsp_content_type = Some ''application/json'',
        rsp_content_range = None, rsp_err_body = Some (Some (''too_many_requests'', 34))\<rparr>"
  have "exec_loop ?cfg mt None creds (replicate n ?r) st = None" for mt and st :: exec_state
    by (induction n arbitrary: st)
      (auto simp: exec_step_def exec_api_error_def is_success_def from_code_def starts_with_def split: prod.splits)
  then show ?thesis by (simp add: execute_def execute_impl_def)
qed

text \<open>\<open>http_range_get\<close> succeeds only with a response that carries \<open>Content-Range\<close>, reports a
  full-body answer as \<open>RangeNotSupported\<close> at once, and gives up after \<open>retries_until_failed\<close> retries.\<close>

theorem http_range_get_needs_content_range:
  "(http_range_get m rs = Some (Inr rsp) \<longrightarrow> rsp_content_range rsp \<noteq> None) \<and>
   (rsp_status r0 = 200 \<and> rsp_content_range r0 = None \<longrightarrow> http_range_get m (Inr r0 # rs) = Some (Inl RangeNotSupported)) \<and>
   (m < length rs \<longrightarrow> http_range_get m rs \<noteq> None)"
proof -
  have "m - a < length qs \<Longrightarrow> http_range_get_loop m a qs \<noteq> None" for a and qs :: "(rd_error + response) list"
    by (induction m a qs rule: http_range_get_loop.induct) auto
  from this [of 0 rs] show ?thesis
    by (auto simp: http_range_get_def dest: http_range_get_loop_content_range)
qed

theorem http_range_get_needs_content_range_witness:
  "http_range_get 2 [Inr \<lparr>rsp_status = 200, rsp_x_error = None, rsp_content_type = None,
     rsp_content_range = None, rsp_err_body = None\<rparr>] = Some (Inl RangeNotSupported)"
  using http_range_get_needs_content_range [of 2 "[]" undefined "\<lparr>rsp_status = 200, rsp_x_error = None,
     rsp_content_type = None, rsp_content_range = None, rsp_err_body = None\<rparr>"]
  by simp

end
