(* ===== verification/Cdn.thy ===== *)
theory Cdn
  imports Config Complex_Main
begin

text \<open>
  \<^verbatim>\<open>src/src/rd/cdn\<close>: the ranking of download hosts, the rewriting of download URLs, the server list,
  the two latency probes and their cache on disk.

  A latency is an exact rational number of seconds; the rounding of \<open>f64\<close> is not modelled. A
  \<open>HashMap\<close> is an association list with one entry per key, in its iteration order, which the
  program does not fix. URL parsing (\<open>reqwest::Url\<close>), the JSON codec, name resolution and the
  measured times are parameters, and so is the function of \<open>DefaultHasher\<close>, which its documentation
  leaves open. Connections are limited by a semaphore that is never closed; it only delays.
\<close>

section \<open>Types\<close>

type_synonym 'v hash_map = "(string \<times> 'v) list"

record network_test_results =
  ipv4_latency :: "rat hash_map"
  ipv6_latency :: "rat hash_map"
  ipv4_addresses :: "string hash_map"
  ipv6_addresses :: "string hash_map"

record server_entry =
  se_hostname :: string
  se_ipv4 :: "string option"
  se_ipv6 :: "string option"

record ranked_hosts =
  fastest_host :: string
  reachable_ipv4_hosts :: "string list"
  rh_ipv4_addresses :: "string hash_map"

definition CACHE_TTL_SECS :: u64 where "CACHE_TTL_SECS = 24 * 3600"

definition DNS_PROBE_INITIAL_CEILING :: u32 where "DNS_PROBE_INITIAL_CEILING = 100"

definition DNS_PROBE_CEILING_EXTENSION :: u32 where "DNS_PROBE_CEILING_EXTENSION = 30"

text \<open>\<open>HashMap::insert\<close>: the value of a present key is replaced.\<close>

fun hm_insert :: "string \<Rightarrow> 'v \<Rightarrow> 'v hash_map \<Rightarrow> 'v hash_map" where
  "hm_insert k v [] = [(k, v)]"
| "hm_insert k v ((k', v') # m) = (if k' = k then (k, v) # m else (k', v') # hm_insert k v m)"

section \<open>Ranking\<close>

definition merge_latency :: "rat hash_map \<Rightarrow> rat hash_map \<Rightarrow> rat hash_map" where
  "merge_latency v4 v6 =
     fold (\<lambda>(host, lat) merged.
        case map_of merged host of
          None \<Rightarrow> hm_insert host lat merged
        | Some existing \<Rightarrow> if lat < existing then hm_insert host lat merged else merged) v6 v4"

text \<open>\<open>Iterator::min_by\<close>: the first of the smallest.\<close>

fun min_latency :: "rat hash_map \<Rightarrow> (string \<times> rat) option" where
  "min_latency [] = None"
| "min_latency ((h, l) # m) =
     (case min_latency m of
        None \<Rightarrow> Some (h, l)
      | Some (h', l') \<Rightarrow> if l' < l then Some (h', l') else Some (h, l))"

definition rank_candidates :: "network_test_results \<Rightarrow> api_config \<Rightarrow> (string \<times> rat) option" where
  "rank_candidates results cfg =
     min_latency
       (if cdn_force_ipv6 cfg then ipv6_latency results
        else if cdn_ipv6_enabled cfg then merge_latency (ipv4_latency results) (ipv6_latency results)
        else ipv4_latency results)"

section \<open>Rewriting\<close>

definition host_prefix :: "string \<Rightarrow> string" where
  "host_prefix host = hd (str_split (CHR ''.'') host)"

definition is_rd_cdn_host :: "string \<Rightarrow> bool" where
  "is_rd_cdn_host host =
     (ends_with host ''.download.real-debrid.com'' \<or> ends_with host ''.download.real-debrid.net''
      \<or> ends_with host ''.download.real-debrid.cloud'')"

definition is_geo_prefixed :: "string \<Rightarrow> bool" where
  "is_geo_prefixed host =
     (let prefix = host_prefix host
      in prefix \<noteq> [] \<and> is_ascii_alpha (hd prefix) \<and> CHR ''-'' \<in> set prefix)"

definition is_numbered_prefix :: "string \<Rightarrow> bool" where
  "is_numbered_prefix prefix = (prefix \<noteq> [] \<and> list_all is_ascii_digit prefix)"

definition pick_deterministic :: "(string \<Rightarrow> u64) \<Rightarrow> string \<Rightarrow> string list \<Rightarrow> string option" where
  "pick_deterministic hasher seed candidates =
     (if candidates = [] then None else Some (candidates ! (hasher seed mod length candidates)))"

definition pick_numbered_host :: "(string \<Rightarrow> u64) \<Rightarrow> string \<Rightarrow> string list \<Rightarrow> string option" where
  "pick_numbered_host hasher current_host reachable =
     (if is_numbered_prefix (host_prefix current_host) \<and> current_host \<in> set reachable then Some current_host
      else pick_deterministic hasher current_host (filter (\<lambda>h. is_numbered_prefix (host_prefix h)) reachable))"

definition pick_location_host :: "(string \<Rightarrow> u64) \<Rightarrow> string \<Rightarrow> string \<Rightarrow> string list \<Rightarrow> string option" where
  "pick_location_host hasher current_host loc0 reachable =
     (let loc = str_lower (str_trim loc0)
      in pick_deterministic hasher current_host
           (filter (\<lambda>h. starts_with (str_lower (host_prefix h)) loc) reachable))"

text \<open>What the code uses of \<open>Url\<close>: parsing, reading and setting the host, printing.\<close>

record 'u url_lib =
  ul_parse :: "string \<Rightarrow> 'u option"
  ul_host :: "'u \<Rightarrow> string option"
  ul_set_host :: "string \<Rightarrow> 'u \<Rightarrow> 'u option"
  ul_to_string :: "'u \<Rightarrow> string"

definition rewrite_to_cloudflare :: "'u url_lib \<Rightarrow> 'u \<Rightarrow> string option" where
  "rewrite_to_cloudflare ul parsed =
     (case ul_host ul parsed of
        None \<Rightarrow> None
      | Some host \<Rightarrow>
          if ends_with host ''.download.real-debrid.cloud'' then None
          else map_option (ul_to_string ul)
                 (ul_set_host ul (host_prefix host @ ''.download.real-debrid.cloud'') parsed))"

definition retarget :: "'u url_lib \<Rightarrow> 'u \<Rightarrow> string \<Rightarrow> string option \<Rightarrow> string option" where
  "retarget ul parsed host target =
     (case target of
        None \<Rightarrow> None
      | Some target_host \<Rightarrow>
          if host = target_host then None else map_option (ul_to_string ul) (ul_set_host ul target_host parsed))"

definition rewrite_url ::
    "'u url_lib \<Rightarrow> (string \<Rightarrow> u64) \<Rightarrow> ranked_hosts \<Rightarrow> string \<Rightarrow> cdn_mode \<Rightarrow> string option \<Rightarrow> string option" where
  "rewrite_url ul hasher rh download_url mode location =
     (case ul_parse ul download_url of
        None \<Rightarrow> None
      | Some parsed \<Rightarrow>
          (case ul_host ul parsed of
             None \<Rightarrow> None
           | Some host \<Rightarrow>
               if \<not> is_rd_cdn_host host then None
               else
                 (case mode of
                    Auto \<Rightarrow> if is_geo_prefixed host then None else retarget ul parsed host (Some (fastest_host rh))
                  | ForceCloudflare \<Rightarrow> rewrite_to_cloudflare ul parsed
                  | ForceNumbered \<Rightarrow>
                      retarget ul parsed host (pick_numbered_host hasher host (reachable_ipv4_hosts rh))
                  | ForceLocation \<Rightarrow>
                      (case location of
                         None \<Rightarrow> None
                       | Some loc \<Rightarrow>
                           retarget ul parsed host (pick_location_host hasher host loc (reachable_ipv4_hosts rh))))))"

definition geo_unrestrict_ip :: "(string \<Rightarrow> u64) \<Rightarrow> ranked_hosts \<Rightarrow> string \<Rightarrow> string \<Rightarrow> string option" where
  "geo_unrestrict_ip hasher rh loc seed =
     (case pick_location_host hasher seed loc (reachable_ipv4_hosts rh) of
        None \<Rightarrow> None
      | Some host \<Rightarrow> map_of (rh_ipv4_addresses rh) host)"

section \<open>The server list\<close>

text \<open>\<open>str::lines\<close>: the pieces between line feeds, a final empty piece and trailing carriage
  returns apart.\<close>

definition strip_cr :: "string \<Rightarrow> string" where
  "strip_cr l = (if l \<noteq> [] \<and> last l = char_of (13 :: nat) then butlast l else l)"

definition str_lines :: "string \<Rightarrow> string list" where
  "str_lines s =
     (let ps = str_split (char_of (10 :: nat)) s
      in map strip_cr (if last ps = [] then butlast ps else ps))"

text \<open>\<open>splitn(2, '|')\<close> as the pair of its pieces; \<open>None\<close> when there is one piece only.\<close>

definition split_pipe :: "string \<Rightarrow> (string \<times> string) option" where
  "split_pipe l =
     (if CHR ''|'' \<in> set l
      then Some (takeWhile (\<lambda>c. c \<noteq> CHR ''|'') l, tl (dropWhile (\<lambda>c. c \<noteq> CHR ''|'') l)) else None)"

definition set_family :: "string \<Rightarrow> server_entry \<Rightarrow> server_entry" where
  "set_family ip e = (if CHR '':'' \<in> set ip then e\<lparr>se_ipv6 := Some ip\<rparr> else e\<lparr>se_ipv4 := Some ip\<rparr>)"

fun add_server :: "string \<Rightarrow> string \<Rightarrow> server_entry list \<Rightarrow> server_entry list" where
  "add_server host ip [] = [set_family ip \<lparr>se_hostname = host, se_ipv4 = None, se_ipv6 = None\<rparr>]"
| "add_server host ip (e # es) =
     (if se_hostname e = host then set_family ip e # es else e # add_server host ip es)"

definition server_line :: "string \<Rightarrow> server_entry list \<Rightarrow> server_entry list" where
  "server_line line es =
     (case split_pipe line of
        None \<Rightarrow> es
      | Some (h, i) \<Rightarrow>
          let hostname = str_trim h; ip = str_trim i
          in if hostname = [] \<or> ip = [] \<or> starts_with hostname ''generated'' then es
             else if \<not> str_contains hostname ''.download.real-debrid.com''
                   \<and> \<not> str_contains hostname ''.download.real-debrid.net'' then es
             else add_server hostname ip es)"

text \<open>\<open>fetch_server_list\<close> from the text the server sends, or its failure.\<close>

definition fetch_server_list :: "string option \<Rightarrow> server_entry list option" where
  "fetch_server_list body = map_option (\<lambda>t. fold server_line (str_lines t) []) body"

section \<open>Probes\<close>

text \<open>
  One \<open>HEAD\<close> request: whether it succeeded and how long it took. \<open>measure_avg_latency\<close> is given
  the outcomes of its \<open>iters\<close> requests.
\<close>

type_synonym head_outcome = "bool \<times> rat"

definition measure_avg_latency :: "head_outcome list \<Rightarrow> rat option" where
  "measure_avg_latency outcomes =
     (let oks = filter fst outcomes
      in if oks = [] then None else Some (sum_list (map snd oks) / of_nat (length oks)))"

text \<open>\<open>probe_family\<close> records the elapsed time of every request, whatever came of it.\<close>

definition probe_family :: "(string \<Rightarrow> head_outcome) \<Rightarrow> (string \<times> string) list \<Rightarrow> rat hash_map \<times> string hash_map" where
  "probe_family head entries =
     fold (\<lambda>(hostname, ip) (lat, addr). (hm_insert hostname (snd (head hostname)) lat, hm_insert hostname ip addr))
       entries ([], [])"

definition family_entries :: "(server_entry \<Rightarrow> string option) \<Rightarrow> server_entry list \<Rightarrow> (string \<times> string) list" where
  "family_entries fam es = List.map_filter (\<lambda>e. map_option (Pair (se_hostname e)) (fam e)) es"

definition run_latency_test_on_entries ::
    "(string \<Rightarrow> head_outcome) \<Rightarrow> (string \<Rightarrow> head_outcome) \<Rightarrow> server_entry list \<Rightarrow> network_test_results" where
  "run_latency_test_on_entries head4 head6 entries =
     (let (l4, a4) = probe_family head4 (family_entries se_ipv4 entries);
          (l6, a6) = probe_family head6 (family_entries se_ipv6 entries)
      in \<lparr>ipv4_latency = l4, ipv6_latency = l6, ipv4_addresses = a4, ipv6_addresses = a6\<rparr>)"

text \<open>
  \<open>dns_probe_fallback\<close>: hosts \<open>1\<close>, \<open>2\<close>, ... are probed up to a ceiling, which every host that
  resolves and answers raises. \<open>probe n\<close> is the latency of host \<open>n\<close>, \<open>None\<close> when it does not
  resolve or answer. The tasks of a round run concurrently; the maximum and the map they fill do not
  depend on their order. A round that raises the ceiling is followed by another, so the loop need
  not end.
\<close>

definition dns_host :: "nat \<Rightarrow> string" where
  "dns_host n = show_nat n @ ''-4.download.real-debrid.com''"

definition dns_round :: "(nat \<Rightarrow> rat option) \<Rightarrow> nat \<Rightarrow> nat \<Rightarrow> rat hash_map \<Rightarrow> nat \<times> rat hash_map" where
  "dns_round probe n c m =
     fold (\<lambda>k (c', m'). case probe k of
          None \<Rightarrow> (c', m')
        | Some l \<Rightarrow> (max c' (k + DNS_PROBE_CEILING_EXTENSION), hm_insert (dns_host k) l m'))
       [n + 1..<c + 1] (c, m)"

partial_function (option) dns_loop :: "(nat \<Rightarrow> rat option) \<Rightarrow> nat \<Rightarrow> nat \<Rightarrow> rat hash_map \<Rightarrow> rat hash_map option" where
  [code]: "dns_loop probe n c m =
     (let (c', m') = dns_round probe n c m
      in if c' \<le> max n c then Some m' else dns_loop probe (max n c) c' m')"

definition dns_probe_fallback :: "(nat \<Rightarrow> rat option) \<Rightarrow> network_test_results option" where
  "dns_probe_fallback probe =
     map_option (\<lambda>m. \<lparr>ipv4_latency = m, ipv6_latency = [], ipv4_addresses = [], ipv6_addresses = []\<rparr>)
       (dns_loop probe 0 DNS_PROBE_INITIAL_CEILING [])"

section \<open>The cache on disk\<close>

text \<open>The two files, \<open>None\<close> while one does not exist; the codec may fail to decode.\<close>

record cdn_files =
  results_file :: "string option"
  timestamp_file :: "string option"

record cdn_codec =
  cd_encode :: "network_test_results \<Rightarrow> string"
  cd_decode :: "string \<Rightarrow> network_test_results option"

definition load_cached_results :: "cdn_codec \<Rightarrow> u64 \<Rightarrow> cdn_files \<Rightarrow> network_test_results option" where
  "load_cached_results cd now fs =
     (case timestamp_file fs of
        None \<Rightarrow> None
      | Some t \<Rightarrow>
          (case parse_u64 (str_trim t) of
             None \<Rightarrow> None
           | Some ts \<Rightarrow>
               if CACHE_TTL_SECS \<le> now - ts then None
               else Option.bind (results_file fs) (cd_decode cd)))"

text \<open>\<open>save_results\<close>: which of the two writes succeed; the first failure ends it.\<close>

definition save_results :: "cdn_codec \<Rightarrow> u64 \<Rightarrow> bool \<Rightarrow> bool \<Rightarrow> network_test_results \<Rightarrow> cdn_files \<Rightarrow> cdn_files" where
  "save_results cd now ok1 ok2 r fs =
     (if \<not> ok1 then fs
      else let fs1 = fs\<lparr>results_file := Some (cd_encode cd r)\<rparr>
           in if ok2 then fs1\<lparr>timestamp_file := Some (show_nat now)\<rparr> else fs1)"

text \<open>What the network gives one test: the server list, the two families' probes, the numbered hosts.\<close>

record network =
  nw_list :: "string option"
  nw_head4 :: "string \<Rightarrow> head_outcome"
  nw_head6 :: "string \<Rightarrow> head_outcome"
  nw_numbered :: "nat \<Rightarrow> rat option"

definition run_fresh_network_test ::
    "cdn_codec \<Rightarrow> network \<Rightarrow> u64 \<Rightarrow> bool \<Rightarrow> bool \<Rightarrow> cdn_files \<Rightarrow> cdn_files option" where
  "run_fresh_network_test cd nw now ok1 ok2 fs =
     (let dns = map_option (\<lambda>r. save_results cd now ok1 ok2 r fs) (dns_probe_fallback (nw_numbered nw))
      in case fetch_server_list (nw_list nw) of
           None \<Rightarrow> dns
         | Some [] \<Rightarrow> dns
         | Some es \<Rightarrow>
             Some (save_results cd now ok1 ok2 (run_latency_test_on_entries (nw_head4 nw) (nw_head6 nw) es) fs))"

definition run_network_test ::
    "cdn_codec \<Rightarrow> network \<Rightarrow> u64 \<Rightarrow> bool \<Rightarrow> bool \<Rightarrow> cdn_files \<Rightarrow> cdn_files option" where
  "run_network_test cd nw now ok1 ok2 fs =
     (case load_cached_results cd now fs of
        Some cached \<Rightarrow>
          if ipv4_latency cached = [] then run_fresh_network_test cd nw now ok1 ok2 fs else Some fs
      | None \<Rightarrow> run_fresh_network_test cd nw now ok1 ok2 fs)"

definition try_load :: "cdn_codec \<Rightarrow> u64 \<Rightarrow> cdn_files \<Rightarrow> api_config \<Rightarrow> ranked_hosts option" where
  "try_load cd now fs cfg =
     (case load_cached_results cd now fs of
        None \<Rightarrow> None
      | Some results \<Rightarrow>
          map_option (\<lambda>(fastest, latency).
              \<lparr>fastest_host = fastest, reachable_ipv4_hosts = map fst (ipv4_addresses results),
               rh_ipv4_addresses = ipv4_addresses results\<rparr>)
            (rank_candidates results cfg))"

section \<open>Lemmas\<close>

lemma map_of_hm_insert: "map_of (hm_insert k v m) = (map_of m)(k \<mapsto> v)"
  by (induction m) auto

lemma hm_insert_keys: "fst ` set (hm_insert k v m) = insert k (fst ` set m)"
  by (induction k v m rule: hm_insert.induct) auto

lemma hm_insert_distinct: "distinct (map fst m) \<Longrightarrow> distinct (map fst (hm_insert k v m))"
proof (induction k v m rule: hm_insert.induct)
  case (2 k v k' v' m)
  have "k' \<notin> fst ` set (hm_insert k v m)" if "k' \<noteq> k" using 2(2) that by (auto simp: hm_insert_keys)
  with 2 show ?case by auto
qed simp

lemma min_latency_None [simp]: "min_latency m = None \<longleftrightarrow> m = []"
  by (cases m) (auto split: option.splits)

lemma min_latency_Some:
  "min_latency m = Some (h, l) \<Longrightarrow> (h, l) \<in> set m \<and> (\<forall>(h', l') \<in> set m. l \<le> l')"
proof (induction m arbitrary: h l)
  case (Cons x m)
  obtain hx lx where x: "x = (hx, lx)" by fastforce
  show ?case
  proof (cases "min_latency m")
    case None
    with Cons.prems x show ?thesis by auto
  next
    case (Some p)
    obtain h' l' where p: "p = (h', l')" by fastforce
    note ih = Cons.IH [OF Some [unfolded p]]
    from Cons.prems x Some p consider "l' < lx" "h = h'" "l = l'" | "lx \<le> l'" "h = hx" "l = lx"
      by (auto split: if_splits)
    then show ?thesis using ih x by cases auto
  qed
qed simp

fun min_opt :: "rat option \<Rightarrow> rat option \<Rightarrow> rat option" where
  "min_opt None y = y"
| "min_opt x None = x"
| "min_opt (Some a) (Some b) = Some (min a b)"

lemma merge_latency_lookup:
  assumes "distinct (map fst v6)"
  shows "map_of (merge_latency v4 v6) h = min_opt (map_of v4 h) (map_of v6 h)"
  using assms
proof (induction v6 arbitrary: v4)
  case (Cons x v6)
  obtain k l where x: "x = (k, l)" by fastforce
  have k: "map_of v6 k = None" using Cons.prems x by (simp add: map_of_eq_None_iff)
  define v where "v = (case map_of v4 k of None \<Rightarrow> hm_insert k l v4
     | Some existing \<Rightarrow> if l < existing then hm_insert k l v4 else v4)"
  have v: "map_of v h = (if h = k then min_opt (map_of v4 k) (Some l) else map_of v4 h)"
    by (auto simp: v_def map_of_hm_insert split: option.splits)
  have "merge_latency v4 (x # v6) = merge_latency v v6" by (simp add: merge_latency_def x v_def)
  moreover have "min_opt (min_opt a (Some l)) None = min_opt a (Some l)" for a by (cases a) auto
  ultimately show ?case using Cons.IH [of v] Cons.prems x k v by auto
next
  case Nil
  then show ?case by (cases "map_of v4 h") (simp_all add: merge_latency_def)
qed

lemma merge_latency_distinct: "distinct (map fst v4) \<Longrightarrow> distinct (map fst (merge_latency v4 v6))"
  by (induction v6 arbitrary: v4) (auto simp: merge_latency_def hm_insert_distinct split: option.splits)

text \<open>The latency of a host under the IPv6 flags of the configuration.\<close>

definition effective_latency :: "api_config \<Rightarrow> network_test_results \<Rightarrow> string \<Rightarrow> rat option" where
  "effective_latency cfg r h =
     (if cdn_force_ipv6 cfg then map_of (ipv6_latency r) h
      else if cdn_ipv6_enabled cfg then min_opt (map_of (ipv4_latency r) h) (map_of (ipv6_latency r) h)
      else map_of (ipv4_latency r) h)"

lemma pick_deterministic_in: "pick_deterministic hs seed cs = Some h \<Longrightarrow> h \<in> set cs"
  by (auto simp: pick_deterministic_def split: if_splits)

lemma retarget_Some:
  "retarget ul u host target = Some s \<Longrightarrow>
     \<exists>t u'. target = Some t \<and> t \<noteq> host \<and> ul_set_host ul t u = Some u' \<and> s = ul_to_string ul u'"
  by (auto simp: retarget_def split: option.splits if_splits)

text \<open>A round raises the ceiling to at most \<open>N + 30\<close> when no host above \<open>N\<close> answers.\<close>

lemma dns_round_bound:
  assumes "\<And>k. N < k \<Longrightarrow> probe k = None"
  shows "fst (dns_round probe n c m) \<le> max c (N + DNS_PROBE_CEILING_EXTENSION)"
proof -
  have "fst (fold (\<lambda>k (c', m'). case probe k of
          None \<Rightarrow> (c', m')
        | Some l \<Rightarrow> (max c' (k + DNS_PROBE_CEILING_EXTENSION), hm_insert (dns_host k) l m')) ks (c, m))
      \<le> max c (N + DNS_PROBE_CEILING_EXTENSION)" for ks
  proof (induction ks arbitrary: c m)
    case (Cons k ks)
    show ?case
    proof (cases "probe k")
      case None
      with Cons.IH [of c m] show ?thesis by simp
    next
      case (Some l)
      then have "k \<le> N" using assms [of k] by force
      with Some Cons.IH [of "max c (k + DNS_PROBE_CEILING_EXTENSION)" "hm_insert (dns_host k) l m"]
      show ?thesis by simp
    qed
  qed simp
  then show ?thesis by (simp add: dns_round_def)
qed

lemma dns_loop_ends:
  assumes "\<And>k. N < k \<Longrightarrow> probe k = None" and "n \<le> B" and "c \<le> B" and "N + DNS_PROBE_CEILING_EXTENSION \<le> B"
  shows "\<exists>r. dns_loop probe n c m = Some r"
  using assms(2,3)
proof (induction "B - max n c" arbitrary: n c m rule: less_induct)
  case less
  obtain c' m' where r: "dns_round probe n c m = (c', m')" by fastforce
  show ?case
  proof (cases "c' \<le> max n c")
    case False
    have c': "c' \<le> B" using dns_round_bound [of N probe n c m] assms(1,4) r less.prems by auto
    have "B - max (max n c) c' < B - max n c" using False c' by auto
    from less.hyps [OF this _ c'] less.prems have "\<exists>r. dns_loop probe (max n c) c' m' = Some r" by auto
    with False r show ?thesis by (subst dns_loop.simps) simp
  qed (subst dns_loop.simps, simp add: r)
qed

lemma str_trim_digits: "list_all is_ascii_digit s \<Longrightarrow> str_trim s = s"
proof -
  assume d: "list_all is_ascii_digit s"
  have "\<not> is_space c" if "is_ascii_digit c" for c using that by (auto simp: is_space_def is_ascii_digit_def)
  with d have ns: "\<forall>c \<in> set s. \<not> is_space c" by (auto simp: list_all_iff)
  have "dropWhile is_space t = t" if "\<forall>c \<in> set t. \<not> is_space c" for t
    using that by (cases t) auto
  from this [of s] this [of "rev s"] ns show ?thesis by (simp add: str_trim_def)
qed

text \<open>Saved results are loaded back until they are a day old, and not afterwards.\<close>

lemma cached_results_until_expiry:
  assumes "now < u64_bound"
  shows "load_cached_results cd now' (save_results cd now True True r fs) =
    (if now' - now < CACHE_TTL_SECS then cd_decode cd (cd_encode cd r) else None)"
  using str_trim_digits [of "show_nat now"] show_nat_digits [of now] parse_u64_show [OF assms]
  by (simp add: load_cached_results_def save_results_def Let_def not_le)

section \<open>Properties\<close>

text \<open>The pinned host is a fastest one: \<open>rank_candidates\<close> returns a host with its latency under the
  IPv6 flags (the better one when both families count), no host has a lower one, and it returns
  nothing only when no host has a latency.\<close>

theorem rank_candidates_minimal:
  assumes "distinct (map fst (ipv4_latency r))" and "distinct (map fst (ipv6_latency r))"
  shows "case rank_candidates r cfg of
      None \<Rightarrow> \<forall>h. effective_latency cfg r h = None
    | Some (h, l) \<Rightarrow> effective_latency cfg r h = Some l \<and>
        (\<forall>h' l'. effective_latency cfg r h' = Some l' \<longrightarrow> l \<le> l')"
proof -
  define pool where "pool = (if cdn_force_ipv6 cfg then ipv6_latency r
     else if cdn_ipv6_enabled cfg then merge_latency (ipv4_latency r) (ipv6_latency r) else ipv4_latency r)"
  have rk: "rank_candidates r cfg = min_latency pool" by (simp add: rank_candidates_def pool_def)
  have d: "distinct (map fst pool)" using assms merge_latency_distinct by (auto simp: pool_def)
  have eff: "effective_latency cfg r h = map_of pool h" for h
    using merge_latency_lookup [OF assms(2), of "ipv4_latency r" h] by (simp add: effective_latency_def pool_def)
  show ?thesis
  proof (cases "min_latency pool")
    case (Some p)
    obtain h l where p: "p = (h, l)" by fastforce
    from min_latency_Some [OF Some [unfolded p]] d show ?thesis
      by (auto simp: rk Some p eff dest!: map_of_SomeD)
  qed (simp add: rk eff)
qed

theorem rank_candidates_minimal_witness:
  "case rank_candidates \<lparr>ipv4_latency = [(''a'', 2), (''b'', 3)], ipv6_latency = [(''b'', 1)],
       ipv4_addresses = [], ipv6_addresses = []\<rparr> api_config_default of
     None \<Rightarrow> False | Some (h, l) \<Rightarrow> h = ''b'' \<and> l = 1"
proof -
  let ?r = "\<lparr>ipv4_latency = [(''a'', 2), (''b'', 3)], ipv6_latency = [(''b'', 1)],
       ipv4_addresses = [], ipv6_addresses = []\<rparr> :: network_test_results"
  have b: "effective_latency api_config_default ?r ''b'' = Some 1"
    and a: "effective_latency api_config_default ?r ''a'' = Some 2"
    and o: "effective_latency api_config_default ?r h = None" if "h \<noteq> ''a''" "h \<noteq> ''b''" for h
    using that by (simp_all add: effective_latency_def api_config_default_def)
  obtain p where p: "rank_candidates ?r api_config_default = Some p"
    using rank_candidates_minimal [of ?r api_config_default] b
    by (cases "rank_candidates ?r api_config_default") auto
  obtain h l where hl: "p = (h, l)" by fastforce
  have e: "effective_latency api_config_default ?r h = Some l" "l \<le> 1"
    using rank_candidates_minimal [of ?r api_config_default] p hl b by auto
  with a b o [of h] have "h = ''b'' \<and> l = 1" by (cases "h = ''a''"; cases "h = ''b''") auto
  with p hl show ?thesis by simp
qed

text \<open>A download URL is rewritten only when it is on a Real-Debrid CDN host, and then to another host:
  the pinned one (never away from a geographic host) in automatic mode, a reachable numbered host, a
  reachable host of the location, or the Cloudflare name of the same server, as the mode says.\<close>

theorem rewrite_url_target:
  assumes "rewrite_url ul hs rh url mode loc = Some s"
  shows "\<exists>u host t u'. ul_parse ul url = Some u \<and> ul_host ul u = Some host \<and> is_rd_cdn_host host \<and>
    ul_set_host ul t u = Some u' \<and> s = ul_to_string ul u' \<and> t \<noteq> host \<and>
    (case mode of
       Auto \<Rightarrow> t = fastest_host rh \<and> \<not> is_geo_prefixed host
     | ForceCloudflare \<Rightarrow> t = host_prefix host @ ''.download.real-debrid.cloud''
     | ForceNumbered \<Rightarrow> t \<in> set (reachable_ipv4_hosts rh) \<and> is_numbered_prefix (host_prefix t)
     | ForceLocation \<Rightarrow> t \<in> set (reachable_ipv4_hosts rh) \<and>
         (\<exists>l. loc = Some l \<and> starts_with (str_lower (host_prefix t)) (str_lower (str_trim l))))"
proof -
  from assms obtain u host where u: "ul_parse ul url = Some u" "ul_host ul u = Some host" "is_rd_cdn_host host"
    by (auto simp: rewrite_url_def split: option.splits if_splits)
  show ?thesis
  proof (cases mode)
    case Auto
    with assms u have "\<not> is_geo_prefixed host" "retarget ul u host (Some (fastest_host rh)) = Some s"
      by (auto simp: rewrite_url_def split: if_splits)
    with u Auto retarget_Some [OF this(2)] show ?thesis by auto
  next
    case ForceCloudflare
    with assms u have "rewrite_to_cloudflare ul u = Some s" by (simp add: rewrite_url_def)
    with u(2) obtain u' where "\<not> ends_with host ''.download.real-debrid.cloud''"
      "ul_set_host ul (host_prefix host @ ''.download.real-debrid.cloud'') u = Some u'" "s = ul_to_string ul u'"
      by (auto simp: rewrite_to_cloudflare_def simp del: append.simps split: if_splits)
    moreover from this(1) have "host_prefix host @ ''.download.real-debrid.cloud'' \<noteq> host" by (metis ends_with_append)
    ultimately show ?thesis using u ForceCloudflare by auto
  next
    case ForceNumbered
    with assms u have rt: "retarget ul u host (pick_numbered_host hs host (reachable_ipv4_hosts rh)) = Some s"
      by (simp add: rewrite_url_def)
    from retarget_Some [OF rt] obtain t u' where t: "pick_numbered_host hs host (reachable_ipv4_hosts rh) = Some t"
      "t \<noteq> host" "ul_set_host ul t u = Some u'" "s = ul_to_string ul u'" by blast
    then have "t \<in> set (reachable_ipv4_hosts rh) \<and> is_numbered_prefix (host_prefix t)"
      by (auto simp: pick_numbered_host_def split: if_splits dest!: pick_deterministic_in)
    with t u ForceNumbered show ?thesis by (intro exI [of _ u] exI [of _ host] exI [of _ t] exI [of _ u']) simp
  next
    case ForceLocation
    with assms u obtain l where l: "loc = Some l"
      and rt: "retarget ul u host (pick_location_host hs host l (reachable_ipv4_hosts rh)) = Some s"
      by (auto simp: rewrite_url_def split: option.splits)
    from retarget_Some [OF rt] obtain t u' where t: "pick_location_host hs host l (reachable_ipv4_hosts rh) = Some t"
      "t \<noteq> host" "ul_set_host ul t u = Some u'" "s = ul_to_string ul u'" by blast
    then have "t \<in> set (reachable_ipv4_hosts rh) \<and> starts_with (str_lower (host_prefix t)) (str_lower (str_trim l))"
      by (auto simp: pick_location_host_def Let_def dest!: pick_deterministic_in)
    with t u l ForceLocation show ?thesis by (intro exI [of _ u] exI [of _ host] exI [of _ t] exI [of _ u']) simp
  qed
qed

definition demo_ul :: "string url_lib" where
  "demo_ul = \<lparr>ul_parse = Some, ul_host = Some, ul_set_host = (\<lambda>h u. Some h), ul_to_string = id\<rparr>"

theorem rewrite_url_target_witness:
  "is_rd_cdn_host ''1.download.real-debrid.com'' \<and> rewrite_url demo_ul (\<lambda>_. 7)
     \<lparr>fastest_host = ''9.x'', reachable_ipv4_hosts = [], rh_ipv4_addresses = []\<rparr>
     ''1.download.real-debrid.com'' Auto None = Some ''9.x''"
proof -
  have r: "rewrite_url demo_ul (\<lambda>_. 7) \<lparr>fastest_host = ''9.x'', reachable_ipv4_hosts = [], rh_ipv4_addresses = []\<rparr>
     ''1.download.real-debrid.com'' Auto None = Some ''9.x''" by code_simp
  from rewrite_url_target [OF this] r show ?thesis by (auto simp: demo_ul_def)
qed

text \<open>The DNS probe ends: when only finitely many numbered hosts answer, the sliding ceiling stops and
  \<open>dns_probe_fallback\<close> returns.\<close>

theorem dns_probe_returns:
  assumes "\<And>k. N < k \<Longrightarrow> probe k = None"
  shows "\<exists>r. dns_probe_fallback probe = Some r"
  using dns_loop_ends [of N probe 0 "max DNS_PROBE_INITIAL_CEILING (N + DNS_PROBE_CEILING_EXTENSION)"
      DNS_PROBE_INITIAL_CEILING "[]"] assms
  by (auto simp: dns_probe_fallback_def)

theorem dns_probe_returns_witness: "\<exists>r. dns_probe_fallback (\<lambda>n. if n \<le> 90 then Some 1 else None) = Some r"
  by (rule dns_probe_returns [of 90]) simp

end
