(* ===== verification/Rd_Api.thy ===== *)
theory Rd_Api
  imports Rd_Exec Rd_Types Cdn "HOL-Library.AList" "HOL-Library.Multiset" "HOL-Library.Monad_Syntax"
begin

text \<open>
  \<^verbatim>\<open>src/src/rd/mod.rs\<close>, \<^verbatim>\<open>src/src/rd/api\<close> and \<^verbatim>\<open>src/src/rd/traffic_snapshot.rs\<close>: the \<open>RealDebrid\<close> client, its
  requests, and the cache of unrestricted links.

  The network is a parameter over a world: for a request it gives the answers to the successive
  attempts, which \<open>execute_impl\<close> consumes, and the body of the last one; decoders are parameters too.
  \<open>None\<close> as the outcome of a call means that it is still retrying when the answers end. The clock is
  a function of the world (milliseconds). A call runs without interference on the token pool and the
  cache.
\<close>

section \<open>The client\<close>

type_synonym unrestrict_cache = "((string \<times> string) \<times> (download \<times> int)) list"

record traffic_details_snapshot =
  td_fetched_at :: int
  td_by_token :: "(string \<times> string) list"

record real_debrid =
  rd_config :: config
  rd_credentials :: credentials
  rd_token_pool :: token_pool
  rd_ranked_hosts :: "ranked_hosts option"
  rd_traffic_details :: "traffic_details_snapshot option"
  rd_connections :: usize

datatype http_method = GET | POST | DELETE | HEAD

record request =
  rq_method :: http_method
  rq_url :: string
  rq_body :: "string option"
  rq_range :: "string option"

datatype client = ApiClient | UnrestrictClient | DownloadClient

text \<open>The network: the answers to a request, made for each attempt from its fallback flag, and the
  decoded bodies of the types the program reads.\<close>

record 'w network_env =
  ne_send :: "client \<Rightarrow> string option \<Rightarrow> (bool \<Rightarrow> request) \<Rightarrow> 'w \<Rightarrow> send_result list \<times> string \<times> 'w"
  ne_now :: "'w \<Rightarrow> int"
  ne_download :: "string \<Rightarrow> download option"
  ne_torrents :: "string \<Rightarrow> torrent list option"
  ne_torrent_info :: "string \<Rightarrow> torrent_info option"
  ne_user :: "string \<Rightarrow> user option"
  ne_magnet :: "string \<Rightarrow> string option"
  ne_active_count :: "string \<Rightarrow> active_count option"
  ne_traffic :: "string \<Rightarrow> string option"

definition credentials_of :: "config \<Rightarrow> credentials" where
  "credentials_of cfg = \<lparr>cr_token = token cfg, cr_download_tokens = all_download_tokens cfg\<rparr>"

text \<open>\<open>build\<close> panics when a rate limit is zero (\<open>RateLimiter::new\<close>) or the token list is empty.\<close>

definition build :: "config \<Rightarrow> usize \<Rightarrow> real_debrid option" where
  "build cfg permits = do {
     _ \<leftarrow> rate_limiter_period_ns (rate_limit_per_minute (api cfg));
     _ \<leftarrow> rate_limiter_period_ns (torrents_rate_limit_per_minute (api cfg));
     pool \<leftarrow> pool_new (all_download_tokens cfg);
     Some \<lparr>rd_config = cfg, rd_credentials = credentials_of cfg, rd_token_pool = pool, rd_ranked_hosts = None,
           rd_traffic_details = None, rd_connections = max permits 1\<rparr>
   }"

definition rd_new :: "config \<Rightarrow> real_debrid option" where
  "rd_new cfg = build cfg 30"

definition reload_credentials :: "config \<Rightarrow> real_debrid \<Rightarrow> real_debrid option" where
  "reload_credentials new_cfg rd =
     map_option (\<lambda>pool. rd\<lparr>rd_credentials := credentials_of new_cfg, rd_token_pool := pool\<rparr>)
       (update_tokens (all_download_tokens new_cfg) (rd_token_pool rd))"

definition reload_config :: "config \<Rightarrow> real_debrid \<Rightarrow> real_debrid" where
  "reload_config new_cfg rd = rd\<lparr>rd_config := new_cfg\<rparr>"

section \<open>Calls\<close>

text \<open>One \<open>execute\<close> of one of the three clients; only the download client shares the token pool.\<close>

definition client_config :: "client \<Rightarrow> real_debrid \<Rightarrow> rd_client_config" where
  "client_config cl rd =
     \<lparr>cc_max_retries = retries_until_failed (api (rd_config rd)), cc_is_download_client = (cl = DownloadClient)\<rparr>"

definition call ::
    "'w network_env \<Rightarrow> client \<Rightarrow> string option \<Rightarrow> (bool \<Rightarrow> request) \<Rightarrow> real_debrid \<Rightarrow> 'w \<Rightarrow>
     ((rd_error + response \<times> string) \<times> real_debrid \<times> 'w) option" where
  "call env cl bearer mk rd w =
     (let (rs, body, w') = ne_send env cl bearer mk w;
          pool = (if cl = DownloadClient then Some (rd_token_pool rd) else None)
      in case execute_impl (client_config cl rd) pool bearer (rd_credentials rd) rs of
           None \<Rightarrow> None
         | Some (res, st) \<Rightarrow>
             Some (map_sum id (\<lambda>r. (r, body)) res,
                   (case ex_pool st of None \<Rightarrow> rd | Some p \<Rightarrow> rd\<lparr>rd_token_pool := p\<rparr>), w'))"

definition api_base :: "real_debrid \<Rightarrow> string" where
  "api_base rd = trim_end_char (CHR ''/'') (base_url (api (rd_config rd))) @ ''/rest/1.0/''"

definition api_get :: "real_debrid \<Rightarrow> string \<Rightarrow> request" where
  "api_get rd p = \<lparr>rq_method = GET, rq_url = api_base rd @ p, rq_body = None, rq_range = None\<rparr>"

definition api_post :: "real_debrid \<Rightarrow> string \<Rightarrow> string \<Rightarrow> request" where
  "api_post rd p body = \<lparr>rq_method = POST, rq_url = api_base rd @ p, rq_body = Some body, rq_range = None\<rparr>"

text \<open>What follows a call: the error, the decoded body, or the failure to decode it.\<close>

definition decoded :: "(string \<Rightarrow> 'a option) \<Rightarrow> rd_error + response \<times> string \<Rightarrow> rd_error + 'a" where
  "decoded dec res =
     (case res of
        Inl e \<Rightarrow> Inl e
      | Inr (_, body) \<Rightarrow> (case dec body of None \<Rightarrow> Inl (RdNetwork ''decode'') | Some a \<Rightarrow> Inr a))"

definition api_call ::
    "'w network_env \<Rightarrow> request \<Rightarrow> (string \<Rightarrow> 'a option) \<Rightarrow> real_debrid \<Rightarrow> 'w \<Rightarrow> ((rd_error + 'a) \<times> real_debrid \<times> 'w) option" where
  "api_call env rq dec rd w = map_option (\<lambda>(res, rest). (decoded dec res, rest)) (call env ApiClient None (\<lambda>_. rq) rd w)"

definition get_user :: "'w network_env \<Rightarrow> real_debrid \<Rightarrow> 'w \<Rightarrow> ((rd_error + user) \<times> real_debrid \<times> 'w) option" where
  "get_user env rd w = api_call env (api_get rd ''user'') (ne_user env) rd w"

definition get_torrent_info ::
    "'w network_env \<Rightarrow> string \<Rightarrow> real_debrid \<Rightarrow> 'w \<Rightarrow> ((rd_error + torrent_info) \<times> real_debrid \<times> 'w) option" where
  "get_torrent_info env i rd w = api_call env (api_get rd (''torrents/info/'' @ i)) (ne_torrent_info env) rd w"

definition select_torrent_files ::
    "'w network_env \<Rightarrow> string \<Rightarrow> string \<Rightarrow> real_debrid \<Rightarrow> 'w \<Rightarrow> ((rd_error + unit) \<times> real_debrid \<times> 'w) option" where
  "select_torrent_files env i files rd w =
     api_call env (api_post rd (''torrents/selectFiles/'' @ i) (''files='' @ files)) (\<lambda>_. Some ()) rd w"

definition delete_torrent ::
    "'w network_env \<Rightarrow> string \<Rightarrow> real_debrid \<Rightarrow> 'w \<Rightarrow> ((rd_error + unit) \<times> real_debrid \<times> 'w) option" where
  "delete_torrent env i rd w =
     api_call env \<lparr>rq_method = DELETE, rq_url = api_base rd @ ''torrents/delete/'' @ i, rq_body = None, rq_range = None\<rparr>
       (\<lambda>_. Some ()) rd w"

definition add_magnet ::
    "'w network_env \<Rightarrow> string \<Rightarrow> real_debrid \<Rightarrow> 'w \<Rightarrow> ((rd_error + string) \<times> real_debrid \<times> 'w) option" where
  "add_magnet env hash rd w =
     api_call env (api_post rd ''torrents/addMagnet'' (''magnet=magnet%3A%3Fxt%3Durn%3Abtih%3A'' @ hash)) (ne_magnet env) rd w"

definition get_active_count ::
    "'w network_env \<Rightarrow> real_debrid \<Rightarrow> 'w \<Rightarrow> ((rd_error + active_count) \<times> real_debrid \<times> 'w) option" where
  "get_active_count env rd w = api_call env (api_get rd ''torrents/activeCount'') (ne_active_count env) rd w"

section \<open>Listing torrents\<close>

text \<open>The response of one page: its status, its \<open>x-total-count\<close> header and its body.\<close>

record page_response =
  pg_status :: nat
  pg_total :: "string option"
  pg_torrents :: "torrent list option"

definition parse_u32 :: "string \<Rightarrow> u32 option" where
  "parse_u32 s = (case parse_u64 s of Some n \<Rightarrow> if n \<le> u32_max then Some n else None | None \<Rightarrow> None)"

definition list_torrents :: "rd_error + page_response \<Rightarrow> rd_error + torrent list \<times> u32" where
  "list_torrents res =
     (case res of
        Inl e \<Rightarrow> Inl e
      | Inr r \<Rightarrow>
          if pg_status r = 204 then Inr ([], 0)
          else
            let tot = (case Option.bind (pg_total r) parse_u32 of None \<Rightarrow> 0 | Some n \<Rightarrow> n)
            in (case pg_torrents r of None \<Rightarrow> Inl (RdNetwork ''decode'') | Some ts \<Rightarrow> Inr (ts, tot)))"

definition div_ceil :: "nat \<Rightarrow> nat \<Rightarrow> nat" where
  "div_ceil a b = (a + b - 1) div b"

text \<open>The pages after the first arrive in the order \<open>order\<close> in which their tasks finish; the first
  error ends the listing.\<close>

fun collect_pages :: "(nat \<Rightarrow> rd_error + page_response) \<Rightarrow> nat list \<Rightarrow> rd_error + (nat \<times> torrent list) list" where
  "collect_pages fetch [] = Inr []"
| "collect_pages fetch (p # ps) =
     (case list_torrents (fetch p) of
        Inl e \<Rightarrow> Inl e
      | Inr (ts, _) \<Rightarrow> map_sum id ((#) (p, ts)) (collect_pages fetch ps))"

definition list_all_torrents ::
    "(nat \<Rightarrow> rd_error + page_response) \<Rightarrow> u32 \<Rightarrow> nat list \<Rightarrow> rd_error + torrent list" where
  "list_all_torrents fetch page_size order =
     (case list_torrents (fetch 1) of
        Inl e \<Rightarrow> Inl e
      | Inr (first_page, tot) \<Rightarrow>
          let total_pages = div_ceil tot (max page_size 1)
          in if tot = 0 \<or> total_pages \<le> 1 then Inr first_page
             else
               (case collect_pages fetch order of
                  Inl e \<Rightarrow> Inl e
                | Inr results \<Rightarrow> Inr (first_page @ concat (map snd (sort_key fst results)))))"

section \<open>The unrestrict cache\<close>

definition UNRESTRICT_CACHE_TTL :: int where
  "UNRESTRICT_CACHE_TTL = 4 * 3600 * 1000"

definition clear_unrestrict_cache :: "string \<Rightarrow> string \<Rightarrow> unrestrict_cache \<Rightarrow> unrestrict_cache" where
  "clear_unrestrict_cache tok link cache = AList.delete (tok, link) cache"

definition clear_unrestrict_cache_for_source_link :: "string \<Rightarrow> unrestrict_cache \<Rightarrow> unrestrict_cache" where
  "clear_unrestrict_cache_for_source_link link cache = filter (\<lambda>((_, l), _). l \<noteq> link) cache"

definition clear_unrestrict_cache_all :: "unrestrict_cache \<Rightarrow> unrestrict_cache" where
  "clear_unrestrict_cache_all cache = []"

definition sweep_unrestrict_cache_expired :: "int \<Rightarrow> int \<Rightarrow> unrestrict_cache \<Rightarrow> nat \<times> unrestrict_cache" where
  "sweep_unrestrict_cache_expired now max_age cache =
     (let stale = (\<lambda>(_, (_, inserted)). max_age \<le> max (now - inserted) 0)
      in (length (filter stale cache), filter (\<lambda>e. \<not> stale e) cache))"

definition replace_char :: "char \<Rightarrow> string \<Rightarrow> string \<Rightarrow> string" where
  "replace_char c r s = concat (map (\<lambda>x. if x = c then r else [x]) s)"

definition urlencoding_encode :: "string \<Rightarrow> string" where
  "urlencoding_encode s =
     replace_char (CHR ''+'') ''%2B'' (replace_char (CHR ''='') ''%3D'' (replace_char (CHR ''&'') ''%26'' s))"

text \<open>\<open>str::find\<close>: the position of the first occurrence.\<close>

fun str_find :: "string \<Rightarrow> string \<Rightarrow> nat option" where
  "str_find [] p = (if p = [] then Some 0 else None)"
| "str_find (c # s) p = (if starts_with (c # s) p then Some 0 else map_option Suc (str_find s p))"

definition extract_base_download_url :: "string \<Rightarrow> string" where
  "extract_base_download_url url =
     (case str_find url ''/d/'' of
        None \<Rightarrow> url
      | Some idx \<Rightarrow>
          let hash_start = idx + 3
          in (case str_find (drop hash_start url) ''/'' of
                None \<Rightarrow> url
              | Some slash \<Rightarrow> take (hash_start + slash) url))"

section \<open>Unrestricting\<close>

definition unrestrict_form :: "(string \<Rightarrow> u64) \<Rightarrow> string \<Rightarrow> real_debrid \<Rightarrow> string" where
  "unrestrict_form hasher link rd =
     (let form_body = ''link='' @ urlencoding_encode link; a = api (rd_config rd)
      in if cfg_cdn_mode a = ForceLocation then
           (case (cdn_location a, rd_ranked_hosts rd) of
              (Some loc, Some pin) \<Rightarrow>
                (case geo_unrestrict_ip hasher pin loc link of
                   Some ip \<Rightarrow> form_body @ ''&ip='' @ urlencoding_encode ip
                 | None \<Rightarrow> form_body)
            | _ \<Rightarrow> form_body)
         else form_body)"

definition ALL_EXHAUSTED :: rd_error where
  "ALL_EXHAUSTED = RdApi (ApiTrafficExhausted ''all RD tokens are bandwidth-exhausted for unrestrict'')"

text \<open>A row of the cache that is younger than the time to live.\<close>

definition cached_fresh :: "int \<Rightarrow> string \<times> string \<Rightarrow> unrestrict_cache \<Rightarrow> download option" where
  "cached_fresh now key cache =
     (case map_of cache key of
        Some (dl, cached_at) \<Rightarrow> if now - cached_at < UNRESTRICT_CACHE_TTL then Some dl else None
      | None \<Rightarrow> None)"

definition fetched_download :: "int \<Rightarrow> string \<Rightarrow> download \<Rightarrow> download" where
  "fetched_download now tok d =
     d\<lparr>dl_generated_at := Some now, dl_token := tok, dl_download := extract_base_download_url (dl_download d)\<rparr>"

partial_function (option) unrestrict_loop ::
    "'w network_env \<Rightarrow> request \<Rightarrow> string \<Rightarrow> rd_error option \<Rightarrow> unrestrict_cache \<Rightarrow> real_debrid \<Rightarrow> 'w \<Rightarrow>
     ((rd_error + download) \<times> unrestrict_cache \<times> real_debrid \<times> 'w) option" where
  [code]: "unrestrict_loop env rq link last_bandwidth cache rd w =
     (case eligible_tokens_in_order (rd_token_pool rd) of
        [] \<Rightarrow> Some (Inl (case last_bandwidth of None \<Rightarrow> ALL_EXHAUSTED | Some e \<Rightarrow> e), cache, rd, w)
      | tok # _ \<Rightarrow>
          (case cached_fresh (ne_now env w) (tok, link) cache of
             Some dl \<Rightarrow> Some (Inr dl, cache, rd, w)
           | None \<Rightarrow>
               (case call env UnrestrictClient (Some tok) (\<lambda>_. rq) rd w of
                  None \<Rightarrow> None
                | Some (Inl e, rd1, w1) \<Rightarrow>
                    if is_bandwidth_limited e
                    then unrestrict_loop env rq link (Some e) cache
                           (rd1\<lparr>rd_token_pool := mark_exhausted tok (rd_token_pool rd1)\<rparr>) w1
                    else Some (Inl e, cache, rd1, w1)
                | Some (Inr (rsp, body), rd1, w1) \<Rightarrow>
                    (case ne_download env body of
                       None \<Rightarrow> Some (Inl (RdNetwork ''decode''), cache, rd1, w1)
                     | Some d \<Rightarrow>
                         let download = fetched_download (ne_now env w1) tok d
                         in Some (Inr download, AList.update (tok, link) (download, ne_now env w1) cache, rd1, w1)))))"

definition unrestrict_link ::
    "(string \<Rightarrow> u64) \<Rightarrow> 'w network_env \<Rightarrow> string \<Rightarrow> unrestrict_cache \<Rightarrow> real_debrid \<Rightarrow> 'w \<Rightarrow>
     ((rd_error + download) \<times> unrestrict_cache \<times> real_debrid \<times> 'w) option" where
  "unrestrict_link hasher env link cache rd w =
     unrestrict_loop env (api_post rd ''unrestrict/link'' (unrestrict_form hasher link rd)) link None cache rd w"

section \<open>Verification of a link\<close>

definition rewrite_download_url :: "'u url_lib \<Rightarrow> (string \<Rightarrow> u64) \<Rightarrow> real_debrid \<Rightarrow> string \<Rightarrow> bool \<Rightarrow> string option" where
  "rewrite_download_url ul hasher rd url use_fallback =
     (case (use_fallback, rd_ranked_hosts rd) of
        (False, Some pin) \<Rightarrow>
          rewrite_url ul hasher pin url (cfg_cdn_mode (api (rd_config rd))) (cdn_location (api (rd_config rd)))
      | _ \<Rightarrow> None)"

definition active_url :: "'u url_lib \<Rightarrow> (string \<Rightarrow> u64) \<Rightarrow> real_debrid \<Rightarrow> string \<Rightarrow> bool \<Rightarrow> string" where
  "active_url ul hasher rd url fb = (case rewrite_download_url ul hasher rd url fb of None \<Rightarrow> url | Some u \<Rightarrow> u)"

datatype verify_error = VerifyCall rd_error | VerifyStatus nat

definition verify_head ::
    "'u url_lib \<Rightarrow> (string \<Rightarrow> u64) \<Rightarrow> 'w network_env \<Rightarrow> string \<Rightarrow> real_debrid \<Rightarrow> 'w \<Rightarrow>
     ((verify_error + unit) \<times> real_debrid \<times> 'w) option" where
  "verify_head ul hasher env url rd w =
     map_option (\<lambda>(res, rest).
         ((case res of
             Inl e \<Rightarrow> Inl (VerifyCall e)
           | Inr (rsp, _) \<Rightarrow> if is_success (rsp_status rsp) then Inr () else Inl (VerifyStatus (rsp_status rsp))), rest))
       (call env DownloadClient None
          (\<lambda>fb. \<lparr>rq_method = HEAD, rq_url = active_url ul hasher rd url fb, rq_body = None, rq_range = None\<rparr>) rd w)"

definition verify_range ::
    "'u url_lib \<Rightarrow> (string \<Rightarrow> u64) \<Rightarrow> 'w network_env \<Rightarrow> string \<Rightarrow> real_debrid \<Rightarrow> 'w \<Rightarrow>
     ((verify_error + unit) \<times> real_debrid \<times> 'w) option" where
  "verify_range ul hasher env url rd w =
     map_option (\<lambda>(res, rest).
         ((case res of
             Inl e \<Rightarrow> Inl (VerifyCall e)
           | Inr (rsp, _) \<Rightarrow>
               if rsp_status rsp = 206 \<or> is_success (rsp_status rsp) then Inr () else Inl (VerifyStatus (rsp_status rsp))), rest))
       (call env DownloadClient None
          (\<lambda>fb. \<lparr>rq_method = GET, rq_url = active_url ul hasher rd url fb, rq_body = None, rq_range = Some ''bytes=0-0''\<rparr>) rd w)"

definition verify_link ::
    "'u url_lib \<Rightarrow> (string \<Rightarrow> u64) \<Rightarrow> 'w network_env \<Rightarrow> string \<Rightarrow> real_debrid \<Rightarrow> 'w \<Rightarrow>
     ((verify_error + unit) \<times> real_debrid \<times> 'w) option" where
  "verify_link ul hasher env url rd w =
     (if use_range_verification (api (rd_config rd)) then verify_range ul hasher env url rd w
      else verify_head ul hasher env url rd w)"

section \<open>Traffic details\<close>

definition fetch_traffic_details_token ::
    "'w network_env \<Rightarrow> string \<Rightarrow> real_debrid \<Rightarrow> 'w \<Rightarrow> ((rd_error + string) \<times> real_debrid \<times> 'w) option" where
  "fetch_traffic_details_token env tok rd w =
     map_option (\<lambda>(res, rest). (decoded (ne_traffic env) res, rest))
       (call env ApiClient (Some tok) (\<lambda>_. api_get rd ''traffic/details'') rd w)"

fun traffic_loop ::
    "'w network_env \<Rightarrow> string list \<Rightarrow> real_debrid \<Rightarrow> 'w \<Rightarrow> ((string \<times> string) list \<times> real_debrid \<times> 'w) option" where
  "traffic_loop env [] rd w = Some ([], rd, w)"
| "traffic_loop env (tok # toks) rd w =
     (case fetch_traffic_details_token env tok rd w of
        None \<Rightarrow> None
      | Some (res, rd1, w1) \<Rightarrow>
          map_option (\<lambda>(by, rest). ((case res of Inl _ \<Rightarrow> by | Inr d \<Rightarrow> (tok, d) # by), rest))
            (traffic_loop env toks rd1 w1))"

definition refresh_traffic_details_snapshot ::
    "'w network_env \<Rightarrow> real_debrid \<Rightarrow> 'w \<Rightarrow> (real_debrid \<times> 'w) option" where
  "refresh_traffic_details_snapshot env rd w =
     map_option (\<lambda>(by, rd1, w1).
         (rd1\<lparr>rd_traffic_details := Some \<lparr>td_fetched_at = ne_now env w1, td_by_token = by\<rparr>\<rparr>, w1))
       (traffic_loop env (tokens_in_order (rd_token_pool rd)) rd w)"

section \<open>Lemmas\<close>

lemma exec_step_no_pool:
  assumes "ex_pool st = None"
  shows "case exec_step cfg mt fixed creds r st of Continue st' \<Rightarrow> ex_pool st' = None | Return _ st' \<Rightarrow> ex_pool st' = None"
proof -
  obtain tok s1 where a: "active_token fixed creds st = (tok, s1)" by fastforce
  then have p: "ex_pool s1 = None" using assms by (cases fixed) (simp_all add: active_token_def)
  show ?thesis
  proof (cases r)
    case (SendErr e)
    with a p show ?thesis by (simp add: exec_step_def exec_send_error_def)
  next
    case (SendOk rsp)
    have "case exec_api_error cfg rsp s1 of Continue st' \<Rightarrow> ex_pool st' = None | Return _ st' \<Rightarrow> ex_pool st' = None"
      using p by (auto simp: exec_api_error_def exec_status_error_def Let_def split: option.splits)
    with SendOk a p show ?thesis by (simp add: exec_step_def exec_cdn_error_def Let_def)
  qed
qed

lemma exec_loop_no_pool:
  "ex_pool st = None \<Longrightarrow> exec_loop cfg mt fixed creds rs st = Some (res, st') \<Longrightarrow> ex_pool st' = None"
proof (induction rs arbitrary: st)
  case (Cons r rs)
  from exec_step_no_pool [OF Cons.prems(1), of cfg mt fixed creds r] Cons show ?case
    by (cases "exec_step cfg mt fixed creds r st") auto
qed simp

text \<open>The API and unrestrict clients leave the client state as it is.\<close>

lemma call_keeps_rd:
  assumes "cl \<noteq> DownloadClient" and "call env cl bearer mk rd w = Some (res, rd', w')"
  shows "rd' = rd"
proof -
  from assms obtain rs body res' st where x: "execute_impl (client_config cl rd) None bearer (rd_credentials rd) rs = Some (res', st)"
    and rd': "rd' = (case ex_pool st of None \<Rightarrow> rd | Some p \<Rightarrow> rd\<lparr>rd_token_pool := p\<rparr>)"
    by (auto simp: call_def split: prod.splits option.splits)
  from x have "ex_pool st = None" unfolding execute_impl_def by (rule exec_loop_no_pool [rotated]) (simp add: exec_init_def)
  with rd' show ?thesis by simp
qed

definition uc_ok :: "unrestrict_cache \<Rightarrow> bool" where
  "uc_ok cache = list_all (\<lambda>((tok, _), (d, _)). dl_token d = tok) cache"

lemma uc_ok_lookup: "uc_ok cache \<Longrightarrow> map_of cache (tok, link) = Some (d, t) \<Longrightarrow> dl_token d = tok"
  by (auto simp: uc_ok_def list_all_iff dest!: map_of_SomeD)

lemma uc_ok_update: "uc_ok cache \<Longrightarrow> dl_token d = tok \<Longrightarrow> uc_ok (AList.update (tok, link) (d, t) cache)"
  by (induction cache) (auto simp: uc_ok_def)

lemma fetched_token [simp]: "dl_token (fetched_download now tok d) = tok"
  by (simp add: fetched_download_def)

definition pool_good :: "token_pool \<Rightarrow> bool" where
  "pool_good p \<longleftrightarrow> pool_inv p \<and> distinct (tp_tokens p)"

lemma pool_good_mark: "pool_good p \<Longrightarrow> pool_good (mark_exhausted t p)"
  by (auto simp: pool_good_def mark_exhausted_inv) (auto simp: mark_exhausted_def split: option.splits)

lemma eligible_mark:
  assumes "pool_good p" and "t \<in> set (eligible_tokens_in_order p)"
  shows "card (set (eligible_tokens_in_order (mark_exhausted t p))) < card (set (eligible_tokens_in_order p))"
proof -
  have tk: "tp_tokens (mark_exhausted t p) = tp_tokens p" by (auto simp: mark_exhausted_def split: option.splits)
  have "set (eligible_tokens_in_order (mark_exhausted t p)) = set (eligible_tokens_in_order p) - {t}"
    using assms pool_good_mark [OF assms(1), of t]
    by (auto simp: pool_good_def eligible_not_exhausted is_exhausted_mark tk)
  with assms(2) show ?thesis by (metis List.finite_set card_Diff1_less)
qed

text \<open>What a returning \<open>unrestrict_loop\<close> guarantees.\<close>

definition unrestrict_post ::
    "'w network_env \<Rightarrow> string \<Rightarrow> (rd_error + download) \<times> unrestrict_cache \<times> real_debrid \<times> 'w \<Rightarrow> bool" where
  "unrestrict_post env link out =
     (case out of
        (Inr d, cache, rd, w) \<Rightarrow>
          dl_token d \<in> set (eligible_tokens_in_order (rd_token_pool rd)) \<and>
          cached_fresh (ne_now env w) (dl_token d, link) cache = Some d \<and> uc_ok cache
      | (Inl e, cache, rd, w) \<Rightarrow>
          (is_bandwidth_limited e \<longrightarrow> \<not> any_non_exhausted (rd_token_pool rd)) \<and> uc_ok cache)"

lemma unrestrict_loop_post:
  assumes "pool_good (rd_token_pool rd)" and "uc_ok cache"
    and "\<And>e. lb = Some e \<Longrightarrow> is_bandwidth_limited e"
  shows "(\<forall>out. unrestrict_loop env rq link lb cache rd w = Some out \<longrightarrow> unrestrict_post env link out) \<and>
    ((\<forall>tok rd w. call env UnrestrictClient (Some tok) (\<lambda>_. rq) rd w \<noteq> None) \<longrightarrow>
       unrestrict_loop env rq link lb cache rd w \<noteq> None)"
  using assms
proof (induction "card (set (eligible_tokens_in_order (rd_token_pool rd)))" arbitrary: rd w lb rule: less_induct)
  case less
  have inv: "pool_inv (rd_token_pool rd)" using less.prems(1) by (simp add: pool_good_def)
  show ?case
  proof (cases "eligible_tokens_in_order (rd_token_pool rd)")
    case Nil
    then have run: "unrestrict_loop env rq link lb cache rd w =
        Some (Inl (case lb of None \<Rightarrow> ALL_EXHAUSTED | Some e \<Rightarrow> e), cache, rd, w)"
      by (subst unrestrict_loop.simps) simp
    from Nil inv have "\<not> any_non_exhausted (rd_token_pool rd)" by (simp flip: eligible_empty_iff)
    with run less.prems(2) show ?thesis by (simp add: unrestrict_post_def)
  next
    case (Cons tok toks)
    then have el: "tok \<in> set (eligible_tokens_in_order (rd_token_pool rd))" by simp
    consider (hit) d where "cached_fresh (ne_now env w) (tok, link) cache = Some d"
      | (stuck) "cached_fresh (ne_now env w) (tok, link) cache = None"
          "call env UnrestrictClient (Some tok) (\<lambda>_. rq) rd w = None"
      | (ran) res rd1 w1 where "cached_fresh (ne_now env w) (tok, link) cache = None"
          "call env UnrestrictClient (Some tok) (\<lambda>_. rq) rd w = Some (res, rd1, w1)"
      by (cases "cached_fresh (ne_now env w) (tok, link) cache";
          cases "call env UnrestrictClient (Some tok) (\<lambda>_. rq) rd w") auto
    then show ?thesis
    proof cases
      case hit
      then have "dl_token d = tok" using less.prems(2)
        by (auto simp: cached_fresh_def split: option.splits if_splits dest: uc_ok_lookup)
      moreover have "unrestrict_loop env rq link lb cache rd w = Some (Inr d, cache, rd, w)"
        using hit Cons by (subst unrestrict_loop.simps) simp
      ultimately show ?thesis using hit el less.prems(2) by (simp add: unrestrict_post_def)
    next
      case stuck
      with Cons have "unrestrict_loop env rq link lb cache rd w = None" by (subst unrestrict_loop.simps) simp
      with stuck(2) show ?thesis by (intro conjI allI impI) (simp, blast)
    next
      case ran
      have rd1: "rd1 = rd" using call_keeps_rd [OF _ ran(2)] by simp
      show ?thesis
      proof (cases res)
        case (Inl e)
        show ?thesis
        proof (cases "is_bandwidth_limited e")
          case True
          let ?rd2 = "rd\<lparr>rd_token_pool := mark_exhausted tok (rd_token_pool rd)\<rparr>"
          have "unrestrict_loop env rq link lb cache rd w = unrestrict_loop env rq link (Some e) cache ?rd2 w1"
            using ran Cons Inl rd1 True by (subst unrestrict_loop.simps) simp
          moreover have "card (set (eligible_tokens_in_order (rd_token_pool ?rd2)))
              < card (set (eligible_tokens_in_order (rd_token_pool rd)))"
            using eligible_mark [OF less.prems(1) el] by simp
          note less.hyps [OF this, of "Some e" w1]
          ultimately show ?thesis using True less.prems(1,2) pool_good_mark by auto
        next
          case False
          have "unrestrict_loop env rq link lb cache rd w = Some (Inl e, cache, rd, w1)"
            using ran Cons Inl rd1 False by (subst unrestrict_loop.simps) simp
          with False less.prems(2) show ?thesis by (simp add: unrestrict_post_def)
        qed
      next
        case (Inr rb)
        obtain rsp body where rb: "rb = (rsp, body)" by fastforce
        show ?thesis
        proof (cases "ne_download env body")
          case None
          have "unrestrict_loop env rq link lb cache rd w = Some (Inl (RdNetwork ''decode''), cache, rd, w1)"
            using ran Cons Inr rb rd1 None by (subst unrestrict_loop.simps) simp
          with less.prems(2) show ?thesis by (simp add: unrestrict_post_def)
        next
          case (Some d)
          let ?d = "fetched_download (ne_now env w1) tok d"
          have run: "unrestrict_loop env rq link lb cache rd w =
              Some (Inr ?d, AList.update (tok, link) (?d, ne_now env w1) cache, rd, w1)"
            using ran Cons Inr rb rd1 Some by (subst unrestrict_loop.simps) (simp add: Let_def)
          have "cached_fresh (ne_now env w1) (tok, link) (AList.update (tok, link) (?d, ne_now env w1) cache) = Some ?d"
            by (simp add: cached_fresh_def update_conv' UNRESTRICT_CACHE_TTL_def)
          with run el less.prems(2) show ?thesis by (simp add: unrestrict_post_def uc_ok_update)
        qed
      qed
    qed
  qed
qed

lemma div_ceil_covers:
  assumes "0 < b"
  shows "a \<le> div_ceil a b * b"
proof -
  have "a + b - 1 = (a + b - 1) div b * b + (a + b - 1) mod b" by (simp only: div_mult_mod_eq)
  moreover have "(a + b - 1) mod b < b" by (rule mod_less_divisor [OF assms])
  ultimately have "a + b - 1 < div_ceil a b * b + b" unfolding div_ceil_def by linarith
  then show ?thesis using assms by linarith
qed

lemma collect_pages_ok:
  "(\<And>p. p \<in> set ps \<Longrightarrow> list_torrents (fetch p) = Inr (pg p, tot)) \<Longrightarrow>
     collect_pages fetch ps = Inr (map (\<lambda>p. (p, pg p)) ps)"
  by (induction ps) auto

lemma sort_key_pages:
  assumes "mset ps = mset [a..<b]"
  shows "map snd (sort_key fst (map (\<lambda>p. (p, pg p)) ps)) = map pg [a..<b]"
proof -
  have set: "set ps = set [a..<b]" using assms by (metis set_mset_mset)
  have d: "distinct ps" using assms by (metis distinct_upt mset_eq_imp_distinct_iff)
  have "inj_on fst (set (sort_key fst (map (\<lambda>p. (p, pg p)) ps)))" by (auto simp: inj_on_def)
  moreover have "distinct (sort_key fst (map (\<lambda>p. (p, pg p)) ps))" using d by (simp add: distinct_map inj_on_def)
  ultimately have df: "distinct (map fst (sort_key fst (map (\<lambda>p. (p, pg p)) ps)))" by (simp add: distinct_map)
  have "sort_key fst (map (\<lambda>p. (p, pg p)) ps) = map (\<lambda>p. (p, pg p)) [a..<b]"
  proof (rule map_sorted_distinct_set_unique)
    show "inj_on fst (set (sort_key fst (map (\<lambda>p. (p, pg p)) ps)) \<union> set (map (\<lambda>p. (p, pg p)) [a..<b]))"
      by (auto simp: inj_on_def)
  qed (use set df in \<open>auto simp: o_def\<close>)
  then show ?thesis by (simp add: o_def)
qed

lemma concat_slices:
  "concat (map (\<lambda>k. take n (drop (k * n) xs)) [0..<m]) = take (m * n) xs"
proof (induction m)
  case (Suc m)
  have "take (Suc m * n) xs = take (m * n) xs @ take n (drop (m * n) xs)"
    by (metis add.commute mult_Suc take_add)
  with Suc show ?case by simp
qed simp

text \<open>The cache as a keyed store.\<close>

interpretation ucs: keyed_store "\<lambda>(c :: unrestrict_cache) k. map_of c k" "AList.update" "\<lambda>(tok, link). clear_unrestrict_cache tok link"
  by unfold_locales (auto simp: update_conv' delete_conv' clear_unrestrict_cache_def split: if_splits)

lemma clear_for_source_link_lookup:
  "map_of (clear_unrestrict_cache_for_source_link link cache) (tok, l) = (if l = link then None else map_of cache (tok, l))"
  by (induction cache) (auto simp: clear_unrestrict_cache_for_source_link_def)

lemma clear_all_for_token_and_link:
  "cached_fresh now (tok, link) (clear_unrestrict_cache tok link cache) = None"
  "cached_fresh now (tok, link) (clear_unrestrict_cache_for_source_link link cache) = None"
  using ucs.get_del_same [of "(tok, link)" cache] by (simp_all add: cached_fresh_def clear_for_source_link_lookup)

text \<open>A sweep with the time to live removes only rows that a lookup would not return.\<close>

lemma sweep_keeps_fresh:
  assumes "distinct (map fst cache)"
  shows "cached_fresh now key (snd (sweep_unrestrict_cache_expired now UNRESTRICT_CACHE_TTL cache)) = cached_fresh now key cache"
  using assms
proof (induction cache)
  case (Cons x cache)
  obtain k d t where x: "x = (k, d, t)" by (metis prod.exhaust)
  show ?case
  proof (cases "UNRESTRICT_CACHE_TTL \<le> max (now - t) 0")
    case True
    then have "\<not> now - t < UNRESTRICT_CACHE_TTL" by (auto simp: UNRESTRICT_CACHE_TTL_def)
    moreover have "map_of cache k = None" using Cons.prems x by (simp add: map_of_eq_None_iff)
    ultimately have "cached_fresh now key (x # cache) = cached_fresh now key cache"
      by (auto simp: cached_fresh_def x)
    with True Cons x show ?thesis by (simp add: sweep_unrestrict_cache_expired_def Let_def)
  next
    case False
    with Cons x show ?thesis by (auto simp: sweep_unrestrict_cache_expired_def Let_def cached_fresh_def)
  qed
qed (simp add: sweep_unrestrict_cache_expired_def)

text \<open>The percent sign is not escaped: two links may have one form.\<close>

lemma urlencoding_not_injective: "urlencoding_encode ''a&'' = urlencoding_encode ''a%26''"
  by code_simp

lemma str_find_after_host:
  "CHR ''/'' \<notin> set h \<Longrightarrow> str_find (h @ CHR ''/'' # CHR ''d'' # CHR ''/'' # r) ''/d/'' = Some (length h)"
  by (induction h) (auto simp: starts_with_def)

lemma str_find_slash:
  "CHR ''/'' \<notin> set c \<Longrightarrow> str_find (c @ CHR ''/'' # r) ''/'' = Some (length c)"
  by (induction c) (auto simp: starts_with_def)

lemma str_find_https:
  assumes "CHR ''/'' \<notin> set h" and "h \<noteq> ''d''"
  shows "str_find (''https://'' @ h @ ''/d/'' @ r) ''/d/'' = Some (8 + length h)"
proof -
  have "\<not> starts_with (CHR ''/'' # h @ ''/d/'' @ r) ''/d/''"
  proof (cases h)
    case (Cons c cs)
    with assms show ?thesis by (cases cs) (auto simp: starts_with_def)
  qed (simp add: starts_with_def)
  moreover have "str_find (h @ ''/d/'' @ r) ''/d/'' = Some (length h)" using str_find_after_host [OF assms(1)] by simp
  ultimately show ?thesis by (simp add: starts_with_def)
qed

lemma extract_base_strips_name:
  assumes "CHR ''/'' \<notin> set h" and "h \<noteq> ''d''" and "CHR ''/'' \<notin> set code"
  shows "extract_base_download_url (''https://'' @ h @ ''/d/'' @ code @ ''/'' @ name) = ''https://'' @ h @ ''/d/'' @ code"
proof -
  define pre where "pre = ''https://'' @ h @ ''/d/''"
  have u: "''https://'' @ h @ ''/d/'' @ code @ ''/'' @ name = pre @ code @ ''/'' @ name" by (simp add: pre_def)
  have l: "8 + length h + 3 = length pre" by (simp add: pre_def)
  have f: "str_find (pre @ code @ ''/'' @ name) ''/d/'' = Some (8 + length h)"
    unfolding u [symmetric] by (rule str_find_https [OF assms(1,2)])
  have s: "str_find (drop (length pre) (pre @ code @ ''/'' @ name)) ''/'' = Some (length code)" using str_find_slash [OF assms(3)] by simp
  have "extract_base_download_url (pre @ code @ ''/'' @ name) = take (length pre + length code) (pre @ code @ ''/'' @ name)"
    unfolding extract_base_download_url_def f option.case Let_def l s ..
  then have "extract_base_download_url (pre @ code @ ''/'' @ name) = pre @ code" by simp
  then show ?thesis unfolding u by (simp add: pre_def)
qed

definition demo_rd_config :: config where
  "demo_rd_config = \<lparr>token = ''a'', mount_path = [], cache_dir = [], download_tokens = [''b''],
     on_library_update = on_library_update_config_default, repair = repair_config_default, api = api_config_default,
     vfs = vfs_config_default\<rparr>"

definition demo_client :: real_debrid where
  "demo_client = the (rd_new demo_rd_config)"

definition demo_download :: download where
  "demo_download = \<lparr>dl_filename = ''m.mkv'', dl_filesize = 5, dl_link = ''l'', dl_download = ''https://h/d/C/m.mkv'',
     dl_streamable = 1, dl_generated_at = None, dl_token = []\<rparr>"

text \<open>A service that reports the traffic of account \<open>a\<close> as exhausted and serves account \<open>b\<close>; the world counts
  the requests.\<close>

definition demo_net :: "nat network_env" where
  "demo_net =
     \<lparr>ne_send = (\<lambda>_ bearer _ w.
          ([SendOk \<lparr>rsp_status = (if bearer = Some ''a'' then 503 else 200), rsp_x_error = None,
              rsp_content_type = Some ''application/json'', rsp_content_range = None,
              rsp_err_body = Some (Some (''traffic_exhausted'', 23))\<rparr>], ''x'', Suc w)),
      ne_now = int, ne_download = (\<lambda>_. Some demo_download), ne_torrents = (\<lambda>_. None), ne_torrent_info = (\<lambda>_. None),
      ne_user = (\<lambda>_. None), ne_magnet = (\<lambda>_. None), ne_active_count = (\<lambda>_. None), ne_traffic = Some\<rparr>"

section \<open>Properties\<close>

text \<open>C9: unrestricting walks over the accounts: a returned link was unrestricted under a token that is not
  bandwidth-exhausted and is in the cache under that token and link, and a bandwidth error reaches the
  caller only when every token of the pool is exhausted.\<close>

theorem unrestrict_link_tries_every_token:
  assumes "pool_good (rd_token_pool rd)" and "uc_ok cache"
    and "unrestrict_link hs env link cache rd w = Some (res, cache', rd', w')"
  shows "uc_ok cache' \<and>
    (case res of
       Inr d \<Rightarrow> dl_token d \<in> set (eligible_tokens_in_order (rd_token_pool rd')) \<and>
         cached_fresh (ne_now env w') (dl_token d, link) cache' = Some d
     | Inl e \<Rightarrow> is_bandwidth_limited e \<longrightarrow> \<not> any_non_exhausted (rd_token_pool rd'))"
  using unrestrict_loop_post [OF assms(1,2), of None env "api_post rd ''unrestrict/link'' (unrestrict_form hs link rd)" link w]
    assms(3)
  by (auto simp: unrestrict_link_def unrestrict_post_def split: sum.splits)

theorem unrestrict_link_tries_every_token_witness:
  "\<exists>d cache rd w. unrestrict_link (\<lambda>_. 0) demo_net ''l'' [] demo_client 0 = Some (Inr d, cache, rd, w) \<and>
     dl_token d = ''b'' \<and> cached_fresh (int w) (''b'', ''l'') cache = Some d"
proof -
  have c: "map_option (\<lambda>(res, _, _, w). (map_sum id dl_token res, w)) (unrestrict_link (\<lambda>_. 0) demo_net ''l'' [] demo_client 0)
      = Some (Inr ''b'', 2)" by code_simp
  then obtain d cache rd w where r: "unrestrict_link (\<lambda>_. 0) demo_net ''l'' [] demo_client 0 = Some (Inr d, cache, rd, w)"
    and d: "dl_token d = ''b''"
    by (cases "unrestrict_link (\<lambda>_. 0) demo_net ''l'' [] demo_client 0") (auto split: prod.splits simp: map_sum_def split: sum.splits)
  have "pool_good (rd_token_pool demo_client)" "uc_ok []" "\<And>w. ne_now demo_net w = int w"
    by (simp_all add: pool_good_def pool_inv_def demo_client_def demo_rd_config_def rd_new_def build_def
        rate_limiter_period_ns_def api_config_default_def pool_new_def all_download_tokens_def uc_ok_def demo_net_def)
  with unrestrict_link_tries_every_token [OF this(1,2) r] d r show ?thesis by auto
qed

text \<open>Unrestricting ends: when each exchange with the service does, so does \<open>unrestrict_link\<close>, since every
  round that continues takes a token out of the eligible ones.\<close>

theorem unrestrict_link_returns:
  assumes "pool_good (rd_token_pool rd)" and "uc_ok cache"
    and "\<And>tok rq rd w. call env UnrestrictClient (Some tok) (\<lambda>_. rq) rd w \<noteq> None"
  shows "\<exists>out. unrestrict_link hs env link cache rd w = Some out"
  using unrestrict_loop_post [OF assms(1,2), of None env "api_post rd ''unrestrict/link'' (unrestrict_form hs link rd)" link w]
    assms(3)
  by (auto simp: unrestrict_link_def)

theorem unrestrict_link_returns_witness: "\<exists>out. unrestrict_link (\<lambda>_. 0) demo_net ''l'' [] demo_client 0 = Some out"
proof (rule unrestrict_link_returns)
  show "pool_good (rd_token_pool demo_client)"
    by (simp add: pool_good_def pool_inv_def demo_client_def demo_rd_config_def rd_new_def build_def
        rate_limiter_period_ns_def api_config_default_def pool_new_def all_download_tokens_def)
  show "call demo_net UnrestrictClient (Some tok) (\<lambda>_. rq) rd w \<noteq> None" for tok rq rd w
    by (simp add: call_def demo_net_def execute_impl_def exec_step_def active_token_def exec_api_error_def
        from_code_def is_success_def starts_with_def exec_init_def)
qed (simp add: uc_ok_def)

text \<open>The pages of a list, in whatever order they arrive, sorted and joined.\<close>

lemma pages_join:
  assumes "0 < ps" and "n = div_ceil (length xs) ps" and "1 < n" and "mset order = mset [2..<n + 1]"
  shows "take ps xs @ concat (map snd (sort_key fst (map (\<lambda>p. (p, take ps (drop ((p - 1) * ps) xs))) order))) = xs"
proof -
  define sl where "sl p = take ps (drop ((p - 1) * ps) xs)" for p
  have upt: "[1..<n + 1] = map Suc [0..<n]" by (simp add: map_Suc_upt del: upt_Suc)
  have "map sl [1..<n + 1] = map (\<lambda>k. take ps (drop (k * ps) xs)) [0..<n]"
    unfolding upt by (simp add: sl_def)
  then have "concat (map sl [1..<n + 1]) = xs"
    using concat_slices [where n = ps and xs = xs and m = n] div_ceil_covers [OF assms(1), of "length xs"] assms(2) by simp
  moreover have "[1..<n + 1] = 1 # [2..<n + 1]" using assms(3) by (simp add: upt_conv_Cons numeral_2_eq_2)
  ultimately have "take ps xs @ concat (map sl [2..<n + 1]) = xs" by (simp add: sl_def)
  with sort_key_pages [OF assms(4), of sl] show ?thesis by (simp add: sl_def)
qed

text \<open>C36: the library listing is complete and in order whatever the order in which the concurrent page
  requests finish: for a server that cuts its list of torrents into pages of the requested size and
  announces its length, \<open>list_all_torrents\<close> returns exactly that list.\<close>

theorem list_all_torrents_complete:
  assumes "0 < ps" and "\<And>p. list_torrents (fetch p) = Inr (take ps (drop ((p - 1) * ps) xs), length xs)"
    and "mset order = mset [2..<div_ceil (length xs) ps + 1]"
  shows "list_all_torrents fetch ps order = Inr xs"
proof -
  let ?n = "div_ceil (length xs) ps"
  have cov: "length xs \<le> ?n * ps" by (rule div_ceil_covers [OF assms(1)])
  have m: "max ps 1 = ps" using assms(1) by simp
  show ?thesis
  proof (cases "length xs = 0 \<or> ?n \<le> 1")
    case True
    then have "length xs \<le> ps" using cov by (cases ?n) auto
    with True assms(2) [of 1] m show ?thesis by (simp add: list_all_torrents_def Let_def)
  next
    case False
    have "collect_pages fetch order = Inr (map (\<lambda>p. (p, take ps (drop ((p - 1) * ps) xs))) order)"
      by (rule collect_pages_ok) (simp add: assms(2))
    with False assms(2) [of 1] m pages_join [OF assms(1) refl _ assms(3)] show ?thesis
      by (simp add: list_all_torrents_def Let_def)
  qed
qed

definition page_torrent :: "string \<Rightarrow> torrent" where
  "page_torrent i = \<lparr>t_id = i, t_name = ''n'', t_hash = ''h'', t_progress = 100, t_status = ''downloaded'', t_links = [], t_added = 0\<rparr>"

theorem list_all_torrents_complete_witness:
  "list_all_torrents (\<lambda>p. Inr \<lparr>pg_status = 200, pg_total = Some ''3'',
     pg_torrents = Some (take 1 (drop ((p - 1) * 1) [page_torrent ''1'', page_torrent ''2'', page_torrent ''3'']))\<rparr>) 1 [3, 2] = Inr [page_torrent ''1'', page_torrent ''2'', page_torrent ''3'']"
proof (rule list_all_torrents_complete)
  show "list_torrents (Inr \<lparr>pg_status = 200, pg_total = Some ''3'',
     pg_torrents = Some (take 1 (drop ((p - 1) * 1) [page_torrent ''1'', page_torrent ''2'', page_torrent ''3'']))\<rparr>) =
     Inr (take 1 (drop ((p - 1) * 1) [page_torrent ''1'', page_torrent ''2'', page_torrent ''3'']), length [page_torrent ''1'', page_torrent ''2'', page_torrent ''3''])" for p :: nat
    by (simp add: list_torrents_def parse_u32_def parse_u64_def is_ascii_digit_def digits_val_def digit_val_def
        u64_bound_def u32_max_def)
  show "mset [3, 2] = mset [2..<div_ceil (length [page_torrent ''1'', page_torrent ''2'', page_torrent ''3'']) 1 + 1]" by (simp add: div_ceil_def upt_conv_Cons numeral_eq_Suc)
qed simp

end
