(* ===== verification/Fuse_Read.thy ===== *)
theory Fuse_Read
  imports Fuse_Fs Cache_Store Rd_Api
begin

text \<open>
  The read of a file (\<^verbatim>\<open>src/src/fuse/read.rs\<close>) and its caller in \<^verbatim>\<open>src/src/fuse/fs.rs\<close>: from the inode to the
  file, through the broken-file wait, the window of the handle, the retry loop of unrestrict, link
  check and cache read, to the reply. It composes the filesystem, the torrent manager, the cache
  store, the unrestrict cache and the window.

  Three calls run concurrently with the rest of the program and are parameters over a world:
  \<open>unrestrict_link\<close> (theory \<open>Rd_Api\<close>), \<open>read_at\<close> of the cache item (put in place by theory \<open>Read_Path\<close>), and the
  time spent waiting for a repair, in which other tasks may change everything. A wait without an
  event that ends it is \<open>None\<close>.
\<close>

section \<open>State and environment\<close>

record read_sys =
  rs_fs :: rdfs
  rs_cache :: cache
  rs_uc :: unrestrict_cache

datatype wait_event = StateChanged torrent_state | SenderGone | DeadlineHit | ReadCancelled

record 'w read_env =
  re_tm :: tm_env
  re_config :: config
  re_api :: "'w rd_api"
  re_now :: "'w \<Rightarrow> int"
  re_open_ok :: "open_call \<Rightarrow> bool"
  re_rm_ok :: bool
  re_db_ok :: bool
  re_unrestrict :: "string \<Rightarrow> unrestrict_cache \<Rightarrow> 'w \<Rightarrow> (rd_error + download) \<times> unrestrict_cache \<times> 'w"
  re_read_at :: "nat \<Rightarrow> u64 \<Rightarrow> u32 \<Rightarrow> download \<Rightarrow> cache \<Rightarrow> 'w \<Rightarrow> (cache_read_error + byte list) \<times> cache \<times> 'w"
  re_idle :: "read_sys \<Rightarrow> 'w \<Rightarrow> wait_event list \<times> read_sys \<times> 'w"

definition MAX_RETRIES :: usize where
  "MAX_RETRIES = 3"

definition sanitize_filename :: "string \<Rightarrow> string" where
  "sanitize_filename name =
     map (\<lambda>c. if is_ascii_alnum c \<or> c = CHR ''.'' \<or> c = CHR ''-'' \<or> c = CHR ''_'' then c else CHR ''_'') name"

definition upd_mgr :: "(manager \<Rightarrow> manager) \<Rightarrow> read_sys \<Rightarrow> read_sys" where
  "upd_mgr f s = s\<lparr>rs_fs := (rs_fs s)\<lparr>fs_mgr := f (fs_mgr (rs_fs s))\<rparr>\<rparr>"

abbreviation rs_mgr :: "read_sys \<Rightarrow> manager" where
  "rs_mgr s \<equiv> fs_mgr (rs_fs s)"

section \<open>Waiting for a repair\<close>

text \<open>The loop of \<open>wait_for_repair_ok\<close> over the events its \<open>select!\<close> sees.\<close>

fun wait_loop :: "wait_event list \<Rightarrow> bool option" where
  "wait_loop [] = None"
| "wait_loop (ReadCancelled # _) = Some False"
| "wait_loop (DeadlineHit # _) = Some False"
| "wait_loop (SenderGone # _) = Some False"
| "wait_loop (StateChanged st # evs) = (if st = Ok then Some True else wait_loop evs)"

definition wait_for_repair_ok ::
    "'w read_env \<Rightarrow> nat \<Rightarrow> read_sys \<Rightarrow> 'w \<Rightarrow> (bool \<times> read_sys \<times> 'w) option" where
  "wait_for_repair_ok env ch s w =
     (if ch < length (tm_channels (rs_mgr s)) \<and> wc_value (tm_channels (rs_mgr s) ! ch) = Ok
      then Some (True, upd_mgr (receiver_drop ch) s, w)
      else
        let (evs, s1, w1) = re_idle env s w
        in map_option (\<lambda>b. (b, upd_mgr (receiver_drop ch) s1, w1)) (wait_loop evs))"

section \<open>One pass of the outer loop\<close>

text \<open>A pass replies, or the outer loop goes round again after a repair.\<close>

datatype pass = Reply "errno + byte list" | Again

text \<open>The branch shared by a fatal unrestrict error and a corrupted link, after the caches were
  cleared: the first reader reports the file and queues the repair; every reader that has not waited
  yet waits.\<close>

definition report_broken :: "tm_env \<Rightarrow> string \<Rightarrow> string \<Rightarrow> manager \<Rightarrow> manager" where
  "report_broken tm key fpath mgr =
     fuse_end_fatal_read_repair key fpath
       (enqueue_repair key
         (snd (mark_file_broken tm key fpath (snd (update_torrent_state tm key Broken None mgr)))))"

definition fatal_read ::
    "'w read_env \<Rightarrow> bool \<Rightarrow> string \<Rightarrow> string \<Rightarrow> read_sys \<Rightarrow> 'w \<Rightarrow> (pass \<times> read_sys \<times> 'w) option" where
  "fatal_read env waited key fpath s w =
     (let tm = re_tm env;
          (leader, mgr1) = fuse_begin_fatal_read_repair key fpath (rs_mgr s);
          subscribe = (\<not> waited \<and> 0 < fuse_repair_wait_secs (repair (re_config env)));
          (ch, mgr2) = (if subscribe then subscribe_repair_state tm key mgr1 else (0, mgr1));
          mgr3 = (if leader then report_broken tm key fpath mgr2 else mgr2);
          s1 = upd_mgr (\<lambda>_. mgr3) s
      in if subscribe
         then map_option (\<lambda>(ok, s2, w2). (if ok then Again else Reply (Inl ENOENT), s2, w2)) (wait_for_repair_ok env ch s1 w)
         else Some (Reply (Inl ENOENT), s1, w))"

definition is_fatal :: "rd_error \<Rightarrow> bool" where
  "is_fatal e = (case e of RdApi a \<Rightarrow> \<not> should_retry a | _ \<Rightarrow> False)"

text \<open>The link is corrupted when the service announces another size and another extension.\<close>

definition link_corrupted :: "download \<Rightarrow> string \<Rightarrow> u64 \<Rightarrow> bool" where
  "link_corrupted dl fpath file_size =
     (dl_filesize dl \<noteq> 0 \<and> i64_to_u64 (dl_filesize dl) \<noteq> file_size \<and>
      map_option str_lower (download_extension dl) \<noteq> map_option str_lower (Rd_Types.path_extension fpath))"

datatype fetch_plan = Direct | Buffered u64 u32

definition upd_buffer :: "u64 \<Rightarrow> (vfs_read_buffer \<Rightarrow> vfs_read_buffer) \<Rightarrow> rdfs \<Rightarrow> rdfs" where
  "upd_buffer fh f fs =
     (case map_of (fs_open_files fs) fh of
        None \<Rightarrow> fs
      | Some st \<Rightarrow> fs\<lparr>fs_open_files := AList.update fh (st\<lparr>of_buffer := f (of_buffer st)\<rparr>) (fs_open_files fs)\<rparr>)"

definition serve :: "fetch_plan \<Rightarrow> u64 \<Rightarrow> byte list \<Rightarrow> read_sys \<Rightarrow> byte list \<times> read_sys" where
  "serve plan read_off filled s =
     (case plan of
        Direct \<Rightarrow> (filled, s)
      | Buffered fh tk \<Rightarrow>
          (take (min tk (length filled)) filled, s\<lparr>rs_fs := upd_buffer fh (after_fetch read_off filled tk) (rs_fs s)\<rparr>))"

text \<open>What the retry loop works with: the cache item, the names and sizes, the window to fetch.\<close>

record read_task =
  rt_key :: string
  rt_path :: string
  rt_sanitized :: string
  rt_size :: u64
  rt_link :: string
  rt_item :: nat
  rt_off :: u64
  rt_len :: u32
  rt_plan :: fetch_plan

definition drop_cached_file :: "'w read_env \<Rightarrow> read_task \<Rightarrow> read_sys \<Rightarrow> read_sys" where
  "drop_cached_file env t s =
     s\<lparr>rs_cache := invalidate (re_rm_ok env) (re_db_ok env) (rt_key t) (rt_sanitized t) (rs_cache s)\<rparr>"

fun read_attempts ::
    "'w read_env \<Rightarrow> bool \<Rightarrow> read_task \<Rightarrow> nat list \<Rightarrow> read_sys \<Rightarrow> 'w \<Rightarrow> (pass \<times> read_sys \<times> 'w) option" where
  "read_attempts env waited t [] s w = Some (Reply (Inl EIO), s, w)"
| "read_attempts env waited t (attempt # rest) s w =
     (case re_unrestrict env (rt_link t) (rs_uc s) w of
        (Inl e, uc, w1) \<Rightarrow>
          let s1 = s\<lparr>rs_uc := uc\<rparr>
          in if is_fatal e
             then fatal_read env waited (rt_key t) (rt_path t)
                    (drop_cached_file env t
                       (s1\<lparr>rs_uc := clear_unrestrict_cache_for_source_link (rt_link t) (rs_uc s1)\<rparr>)) w1
             else read_attempts env waited t rest s1 w1
      | (Inr dl, uc, w1) \<Rightarrow>
          let s1 = s\<lparr>rs_uc := uc\<rparr>
          in if link_corrupted dl (rt_path t) (rt_size t)
             then fatal_read env waited (rt_key t) (rt_path t)
                    (drop_cached_file env t
                       (s1\<lparr>rs_uc := clear_unrestrict_cache (dl_token dl) (rt_link t) (rs_uc s1)\<rparr>)) w1
             else
               (case re_read_at env (rt_item t) (rt_off t) (rt_len t) dl (rs_cache s1) w1 of
                  (Inr filled, c, w2) \<Rightarrow>
                    let (reply, s2) = serve (rt_plan t) (rt_off t) filled (s1\<lparr>rs_cache := c\<rparr>)
                    in Some (Reply (Inr reply), s2, w2)
                | (Inl CacheCancelled, c, w2) \<Rightarrow> Some (Reply (Inl EINTR), s1\<lparr>rs_cache := c\<rparr>, w2)
                | (Inl DownloadFailed, c, w2) \<Rightarrow>
                    read_attempts env waited t rest
                      (s1\<lparr>rs_cache := c, rs_uc := clear_unrestrict_cache (dl_token dl) (rt_link t) (rs_uc s1)\<rparr>) w2
                | (Inl CacheIo, c, w2) \<Rightarrow> Some (Reply (Inl EIO), s1\<lparr>rs_cache := c\<rparr>, w2)))"

text \<open>The window: a hit replies at once, a miss fetches from the window's start.\<close>

datatype fetch_choice = FetchReply "byte list" | Fetch u64 u32 fetch_plan

definition choose_fetch :: "'w read_env \<Rightarrow> u64 \<Rightarrow> u64 \<Rightarrow> u32 \<Rightarrow> u64 \<Rightarrow> rdfs \<Rightarrow> fetch_choice \<times> rdfs" where
  "choose_fetch env fh offset sz file_size fs =
     (case (fh, map_of (fs_open_files fs) fh) of
        (Suc _, Some st) \<Rightarrow>
          (case prepare_read offset sz file_size
                  (clamp_buffer_size (parse_byte_size (buffer_size (vfs (re_config env))))) (of_buffer st) of
             (prepare_result.Hit data, b) \<Rightarrow> (FetchReply data, upd_buffer fh (\<lambda>_. b) fs)
           | (prepare_result.Miss fo fl tk, b) \<Rightarrow>
               (if fl = 0 then FetchReply [] else Fetch fo fl (Buffered fh tk), upd_buffer fh (\<lambda>_. b) fs))
      | _ \<Rightarrow> (Fetch offset sz Direct, fs))"

definition release_item :: "'w read_env \<Rightarrow> nat \<Rightarrow> pass \<times> read_sys \<times> 'w \<Rightarrow> pass \<times> read_sys \<times> 'w" where
  "release_item env i out =
     (case out of (p, s, w) \<Rightarrow>
        (p, s\<lparr>rs_cache := cache_release (re_db_ok env) (nat (re_now env w)) i (rs_cache s)\<rparr>, w))"

text \<open>A file marked broken: one wait for a repair, then the throttled warning and \<open>ENOENT\<close>.\<close>

definition warn_broken :: "int \<Rightarrow> string \<Rightarrow> string \<Rightarrow> rdfs \<Rightarrow> rdfs" where
  "warn_broken now key fpath fs =
     (let log_key = warn_prefix key @ fpath
      in if (case map_of (fs_broken_read_warn_ts fs) log_key of None \<Rightarrow> True | Some t \<Rightarrow> 60000 \<le> now - t)
         then fs\<lparr>fs_broken_read_warn_ts := AList.update log_key now (fs_broken_read_warn_ts fs)\<rparr> else fs)"

definition broken_read ::
    "'w read_env \<Rightarrow> bool \<Rightarrow> string \<Rightarrow> string \<Rightarrow> read_sys \<Rightarrow> 'w \<Rightarrow> (pass \<times> read_sys \<times> 'w) option" where
  "broken_read env waited key fpath s w =
     (let give_up = (\<lambda>s w. (Reply (Inl ENOENT), s\<lparr>rs_fs := warn_broken (re_now env w) key fpath (rs_fs s)\<rparr>, w))
      in if \<not> waited \<and> 0 < fuse_repair_wait_secs (repair (re_config env))
         then
           (let (ch, mgr1) = subscribe_repair_state (re_tm env) key (rs_mgr s);
                s1 = upd_mgr (\<lambda>_. enqueue_repair key mgr1) s
            in map_option (\<lambda>(ok, s2, w2). if ok then (Again, s2, w2) else give_up s2 w2)
                 (wait_for_repair_ok env ch s1 w))
         else Some (give_up s w))"

definition cache_file_name :: "nat \<Rightarrow> string \<Rightarrow> string" where
  "cache_file_name file_idx fpath =
     (case path_file_name fpath of None \<Rightarrow> ''file_'' @ show_nat file_idx | Some n \<Rightarrow> n)"

text \<open>The rest of a pass for a file that is not marked broken: the link, the cache item, the window, the
  retry loop, and the release of the item on every way out.\<close>

definition read_window ::
    "'w read_env \<Rightarrow> bool \<Rightarrow> read_task \<Rightarrow> u64 \<Rightarrow> u64 \<Rightarrow> u32 \<Rightarrow> read_sys \<Rightarrow> 'w \<Rightarrow> (pass \<times> read_sys \<times> 'w) option" where
  "read_window env waited t fh offset sz s w =
     (case choose_fetch env fh offset sz (rt_size t) (rs_fs s) of
        (FetchReply data, fs2) \<Rightarrow> Some (Reply (Inr data), s\<lparr>rs_fs := fs2\<rparr>, w)
      | (Fetch off len plan, fs2) \<Rightarrow>
          read_attempts env waited (t\<lparr>rt_off := off, rt_len := len, rt_plan := plan\<rparr>)
            [0..<MAX_RETRIES + 1] (s\<lparr>rs_fs := fs2\<rparr>) w)"

definition read_file ::
    "'w read_env \<Rightarrow> bool \<Rightarrow> string \<Rightarrow> nat \<Rightarrow> rd_file \<Rightarrow> string list \<Rightarrow> u64 \<Rightarrow> u64 \<Rightarrow> u32 \<Rightarrow> read_sys \<Rightarrow> 'w \<Rightarrow>
     (pass \<times> read_sys \<times> 'w) option" where
  "read_file env waited key file_idx f links fh offset sz s w =
     (let file_size = i64_to_u64 (f_bytes f);
          link_idx = min file_idx (length links - 1);
          sanitized = sanitize_filename (cache_file_name file_idx (f_path f))
      in if length links \<le> link_idx then Some (Reply (Inl ENOENT), s, w)
         else
           (case get_or_create (re_open_ok env) (nat (re_now env w)) key sanitized file_size (rs_cache s) of
              (Inl _, c) \<Rightarrow> Some (Reply (Inl EIO), s\<lparr>rs_cache := c\<rparr>, w)
            | (Inr i, c) \<Rightarrow>
                map_option (release_item env i)
                  (read_window env waited
                     \<lparr>rt_key = key, rt_path = f_path f, rt_sanitized = sanitized, rt_size = file_size,
                      rt_link = links ! link_idx, rt_item = i, rt_off = offset, rt_len = sz, rt_plan = Direct\<rparr>
                     fh offset sz (s\<lparr>rs_cache := c\<rparr>) w)))"

definition marked_broken :: "managed_torrent \<Rightarrow> string \<Rightarrow> bool" where
  "marked_broken m fpath =
     (case mt_file_states m of None \<Rightarrow> False | Some st \<Rightarrow> map_of st fpath = Some ''broken'')"

definition read_pass ::
    "'w read_env \<Rightarrow> bool \<Rightarrow> string \<Rightarrow> nat \<Rightarrow> u64 \<Rightarrow> u64 \<Rightarrow> u32 \<Rightarrow> read_sys \<Rightarrow> 'w \<Rightarrow>
     (pass \<times> read_sys \<times> 'w) option" where
  "read_pass env waited key file_idx fh offset sz s0 w0 =
     (case fs_ensure_torrent_info (re_api env) key (rs_fs s0) w0 of
        (None, fs1, w) \<Rightarrow> Some (Reply (Inl ENOENT), s0\<lparr>rs_fs := fs1\<rparr>, w)
      | (Some m, fs1, w) \<Rightarrow>
          let s = s0\<lparr>rs_fs := fs1\<rparr>
          in (case mt_info m of
                None \<Rightarrow> Some (Reply (Inl ENOENT), s, w)
              | Some ti \<Rightarrow>
                  let selected = filter is_selected (ti_files ti); f = selected ! file_idx
                  in if length selected \<le> file_idx then Some (Reply (Inl ENOENT), s, w)
                     else if i64_to_u64 (f_bytes f) = 0 then Some (Reply (Inr []), s, w)
                     else if marked_broken m (f_path f) then broken_read env waited key (f_path f) s w
                     else read_file env waited key file_idx f (ti_links ti) fh offset sz s w))"

section \<open>The read\<close>

text \<open>\<open>repair_waited\<close> is set before a pass asks for another one.\<close>

partial_function (option) read_retry ::
    "'w read_env \<Rightarrow> bool \<Rightarrow> string \<Rightarrow> nat \<Rightarrow> u64 \<Rightarrow> u64 \<Rightarrow> u32 \<Rightarrow> read_sys \<Rightarrow> 'w \<Rightarrow>
     ((errno + byte list) \<times> read_sys \<times> 'w) option" where
  [code]: "read_retry env waited key file_idx fh offset sz s w =
     (case read_pass env waited key file_idx fh offset sz s w of
        None \<Rightarrow> None
      | Some (Reply r, s1, w1) \<Rightarrow> Some (r, s1, w1)
      | Some (Again, s1, w1) \<Rightarrow> read_retry env True key file_idx fh offset sz s1 w1)"

definition fuse_read ::
    "'w read_env \<Rightarrow> u64 \<Rightarrow> u64 \<Rightarrow> u64 \<Rightarrow> u32 \<Rightarrow> read_sys \<Rightarrow> 'w \<Rightarrow>
     ((errno + byte list) \<times> read_sys \<times> 'w) option" where
  "fuse_read env inode fh offset sz s w =
     (if inode < INODE_FILE_BASE then Some (Inl ENOENT, s, w)
      else
        let offset_from_base = inode - INODE_FILE_BASE;
            torrent_idx = offset_from_base div 10000;
            file_idx = offset_from_base mod 10000
        in (case inode_to_access_key (rs_fs s) (INODE_TORRENT_BASE + torrent_idx) of
              None \<Rightarrow> Some (Inl ENOENT, s, w)
            | Some key \<Rightarrow> read_retry env False key file_idx fh offset sz s w))"

text \<open>\<open>RdFs::read\<close>: the read is registered for cancellation while it runs.\<close>

definition fs_read ::
    "'w read_env \<Rightarrow> u64 \<Rightarrow> u64 \<Rightarrow> u64 \<Rightarrow> u64 \<Rightarrow> u32 \<Rightarrow> read_sys \<Rightarrow> 'w \<Rightarrow>
     ((errno + byte list) \<times> read_sys \<times> 'w) option" where
  "fs_read env unique inode fh offset sz s w =
     (let (tok, fs1) = read_register unique fh (rs_fs s)
      in map_option (\<lambda>(r, s1, w1). (r, s1\<lparr>rs_fs := read_unregister unique tok (rs_fs s1)\<rparr>, w1))
           (fuse_read env inode fh offset sz (s\<lparr>rs_fs := fs1\<rparr>) w))"

section \<open>Bounded retries\<close>

text \<open>
  A counter on the world that counts the unrestrict requests of a read, in an environment in which
  every wait for a repair sees its deadline.
\<close>

definition counts_requests :: "'w read_env \<Rightarrow> ('w \<Rightarrow> nat) \<Rightarrow> bool" where
  "counts_requests env cnt \<longleftrightarrow>
     (\<forall>link uc w. cnt (snd (snd (re_unrestrict env link uc w))) \<le> Suc (cnt w)) \<and>
     (\<forall>i off len dl c w. cnt (snd (snd (re_read_at env i off len dl c w))) \<le> cnt w) \<and>
     (\<forall>i w. cnt (snd (api_torrent_info (re_api env) i w)) \<le> cnt w) \<and>
     (\<forall>s w. cnt (snd (snd (re_idle env s w))) \<le> cnt w \<and> DeadlineHit \<in> set (fst (re_idle env s w)))"

text \<open>An outcome within a budget of requests; a pass that has waited does not ask for another.\<close>

definition pass_within :: "('w \<Rightarrow> nat) \<Rightarrow> bool \<Rightarrow> nat \<Rightarrow> (pass \<times> read_sys \<times> 'w) option \<Rightarrow> bool" where
  "pass_within cnt waited n out =
     (case out of None \<Rightarrow> False | Some (p, s, w) \<Rightarrow> cnt w \<le> n \<and> (waited \<longrightarrow> p \<noteq> Again))"

lemma pass_within_mono: "pass_within cnt waited m out \<Longrightarrow> m \<le> n \<Longrightarrow> pass_within cnt waited n out"
  by (auto simp: pass_within_def split: option.splits)

lemma wait_loop_ends: "DeadlineHit \<in> set evs \<Longrightarrow> \<exists>b. wait_loop evs = Some b"
  by (induction evs rule: wait_loop.induct) auto

lemma wait_for_repair_within:
  assumes "counts_requests env cnt"
  shows "\<exists>b s' w'. wait_for_repair_ok env ch s w = Some (b, s', w') \<and> cnt w' \<le> cnt w"
proof -
  obtain evs s1 w1 where i: "re_idle env s w = (evs, s1, w1)" by (metis prod.exhaust)
  have "cnt (snd (snd (re_idle env s w))) \<le> cnt w" "DeadlineHit \<in> set (fst (re_idle env s w))"
    using assms by (simp_all add: counts_requests_def)
  with i wait_loop_ends [of evs] show ?thesis by (auto simp: wait_for_repair_ok_def)
qed

lemma fatal_read_within:
  assumes "counts_requests env cnt"
  shows "pass_within cnt waited (cnt w) (fatal_read env waited key fpath s w)"
proof (cases "\<not> waited \<and> 0 < fuse_repair_wait_secs (repair (re_config env))")
  case True
  obtain leader mgr1 where l: "fuse_begin_fatal_read_repair key fpath (rs_mgr s) = (leader, mgr1)" by fastforce
  obtain ch mgr2 where c: "subscribe_repair_state (re_tm env) key mgr1 = (ch, mgr2)" by fastforce
  define s1 where "s1 = upd_mgr (\<lambda>_. if leader then report_broken (re_tm env) key fpath mgr2 else mgr2) s"
  have "fatal_read env waited key fpath s w =
      map_option (\<lambda>(ok, s2, w2). (if ok then Again else Reply (Inl ENOENT), s2, w2)) (wait_for_repair_ok env ch s1 w)"
    using True l c unfolding fatal_read_def s1_def Let_def by (simp only: if_True prod.case simp_thms)
  with wait_for_repair_within [OF assms, of ch s1 w] True show ?thesis by (auto simp: pass_within_def)
next
  case False
  then show ?thesis by (auto simp: fatal_read_def pass_within_def Let_def split: prod.splits)
qed

lemma broken_read_within:
  assumes "counts_requests env cnt"
  shows "pass_within cnt waited (cnt w) (broken_read env waited key fpath s w)"
proof (cases "\<not> waited \<and> 0 < fuse_repair_wait_secs (repair (re_config env))")
  case True
  obtain ch mgr1 where c: "subscribe_repair_state (re_tm env) key (rs_mgr s) = (ch, mgr1)" by fastforce
  from wait_for_repair_within [OF assms, of ch "upd_mgr (\<lambda>_. enqueue_repair key mgr1) s" w] True c show ?thesis
    by (auto simp: broken_read_def pass_within_def)
next
  case False
  then show ?thesis by (auto simp: broken_read_def pass_within_def Let_def)
qed

lemma read_attempts_within:
  assumes "counts_requests env cnt"
  shows "pass_within cnt waited (cnt w + length attempts) (read_attempts env waited t attempts s w)"
proof (induction attempts arbitrary: s w)
  case (Cons attempt rest)
  obtain r uc w1 where u: "re_unrestrict env (rt_link t) (rs_uc s) w = (r, uc, w1)" by (metis prod.exhaust)
  have w1: "cnt w1 \<le> Suc (cnt w)" using assms u by (simp add: counts_requests_def) (metis snd_conv)
  have fatal: "pass_within cnt waited (cnt w + length (attempt # rest)) (fatal_read env waited k p s' w1)" for k p s'
    using fatal_read_within [OF assms] by (rule pass_within_mono) (use w1 in simp)
  show ?case
  proof (cases r)
    case (Inl e)
    have "pass_within cnt waited (cnt w + length (attempt # rest)) (read_attempts env waited t rest s' w1)" for s'
      using Cons.IH [of w1 s'] by (rule pass_within_mono) (use w1 in simp)
    with Inl u fatal show ?thesis by (simp add: Let_def)
  next
    case (Inr dl)
    show ?thesis
    proof (cases "link_corrupted dl (rt_path t) (rt_size t)")
      case True
      with Inr u fatal show ?thesis by (simp add: Let_def)
    next
      case False
      obtain res c w2 where ra: "re_read_at env (rt_item t) (rt_off t) (rt_len t) dl (rs_cache s) w1 = (res, c, w2)"
        by (metis prod.exhaust)
      have w2: "cnt w2 \<le> Suc (cnt w)" using assms ra w1 by (simp add: counts_requests_def) (metis le_trans snd_conv)
      have "pass_within cnt waited (cnt w + length (attempt # rest)) (read_attempts env waited t rest s' w2)" for s'
        using Cons.IH [of w2 s'] by (rule pass_within_mono) (use w2 in simp)
      with Inr False u ra w2 show ?thesis
        by (auto simp: Let_def pass_within_def split: sum.splits cache_read_error.splits prod.splits)
    qed
  qed
qed (simp add: pass_within_def)

lemma release_within [simp]: "pass_within cnt waited n (map_option (release_item env i) out) = pass_within cnt waited n out"
  by (auto simp: pass_within_def release_item_def split: option.splits)

lemma read_file_within:
  assumes "counts_requests env cnt"
  shows "pass_within cnt waited (cnt w + 4) (read_file env waited key idx f links fh offset sz s w)"
proof -
  have r: "pass_within cnt waited (cnt w + 4) (Some (Reply x, s', w))" for x s' by (simp add: pass_within_def)
  have "pass_within cnt waited (cnt w + 4) (read_window env waited t fh offset sz s' w)" for t s'
    using read_attempts_within [OF assms, of waited w "[0..<MAX_RETRIES + 1]"] r
    by (auto simp: read_window_def MAX_RETRIES_def simp del: upt_Suc split: prod.splits fetch_choice.splits)
  with r show ?thesis by (auto simp: read_file_def Let_def split: prod.splits sum.splits)
qed

lemma read_pass_within:
  assumes "counts_requests env cnt"
  shows "pass_within cnt waited (cnt w + 4) (read_pass env waited key file_idx fh offset sz s w)"
proof -
  obtain mt fs1 w1 where e: "fs_ensure_torrent_info (re_api env) key (rs_fs s) w = (mt, fs1, w1)" by (metis prod.exhaust)
  have w1: "cnt w1 \<le> cnt w"
    using e assms by (auto simp: fs_ensure_torrent_info_def ensure_torrent_info_def counts_requests_def
        split: prod.splits ensure_start.splits sum.splits) (metis snd_conv)+
  have "pass_within cnt waited (cnt w + 4) (broken_read env waited key p s' w1)"
    "pass_within cnt waited (cnt w + 4) (read_file env waited key file_idx f links fh offset sz s' w1)"
    "pass_within cnt waited (cnt w + 4) (Some (Reply x, s', w1))" for p s' f links x
    using pass_within_mono [OF broken_read_within [OF assms]] pass_within_mono [OF read_file_within [OF assms]] w1
    by (auto simp: pass_within_def)
  with e show ?thesis by (auto simp: read_pass_def Let_def split: option.splits)
qed

lemma read_retry_within:
  assumes "counts_requests env cnt"
  shows "\<exists>r s' w'. read_retry env waited key file_idx fh offset sz s w = Some (r, s', w') \<and>
    cnt w' \<le> cnt w + (if waited then 4 else 8)"
proof -
  have one: "\<exists>r s' w'. read_retry env True key file_idx fh offset sz s w = Some (r, s', w') \<and> cnt w' \<le> cnt w + 4" for s w
    using read_pass_within [OF assms, of True w key file_idx fh offset sz s]
    by (subst read_retry.simps) (auto simp: pass_within_def split: option.splits pass.splits)
  show ?thesis
  proof (cases waited)
    case False
    from read_pass_within [OF assms, of waited w key file_idx fh offset sz s]
    obtain p s1 w1 where p: "read_pass env waited key file_idx fh offset sz s w = Some (p, s1, w1)" "cnt w1 \<le> cnt w + 4"
      by (auto simp: pass_within_def split: option.splits)
    with one [of s1 w1] False show ?thesis by (subst read_retry.simps) (cases p; auto)
  qed (use one in simp)
qed
section \<open>What a read returns\<close>

definition handle_ok :: "byte list \<Rightarrow> u64 \<Rightarrow> rdfs \<Rightarrow> bool" where
  "handle_ok remote fh fs \<longleftrightarrow>
     (\<forall>st. map_of (fs_open_files fs) fh = Some st \<longrightarrow> buffer_coherent remote (of_buffer st))"

lemma handle_ok_upd: "buffer_coherent remote (f (of_buffer (the (map_of (fs_open_files fs) fh)))) \<Longrightarrow>
    handle_ok remote fh (upd_buffer fh f fs)"
  by (auto simp: handle_ok_def upd_buffer_def update_conv' split: option.splits)

lemma fs_ensure_open_files: "fs_ensure_torrent_info rd k fs w = (r, fs', w') \<Longrightarrow> fs_open_files fs' = fs_open_files fs"
  by (auto simp: fs_ensure_torrent_info_def split: prod.splits)

lemma choose_fetch_remote:
  assumes "choose_fetch env fh offset sz (length remote) fs = (ch, fs')" and "handle_ok remote fh fs"
    and "length remote < u64_bound" and "sz \<le> u32_max"
  shows "handle_ok remote fh fs' \<and>
    (case ch of
       FetchReply data \<Rightarrow> data = piece remote offset sz
     | Fetch off len Direct \<Rightarrow> off = offset \<and> len = sz
     | Fetch off len (Buffered h tk) \<Rightarrow> off = offset \<and> h = fh \<and> 0 < len \<and> len \<le> u32_max \<and>
         take (min tk (length (piece remote offset len))) (piece remote offset len) = piece remote offset sz)"
proof (cases "fh \<noteq> 0 \<and> map_of (fs_open_files fs) fh \<noteq> None")
  case True
  then obtain k st where st: "fh = Suc k" "map_of (fs_open_files fs) (Suc k) = Some st" by (cases fh) auto
  define bsize where "bsize = clamp_buffer_size (parse_byte_size (buffer_size (vfs (re_config env))))"
  obtain r b where pr: "prepare_read offset sz (length remote) bsize (of_buffer st) = (r, b)" by fastforce
  have coh: "buffer_coherent remote (of_buffer st)" using assms(2) st by (simp add: handle_ok_def)
  note an = prepare_read_answer [OF assms(3,4) coh pr]
  have "buffer_coherent remote b" using prepare_read_cases [OF pr coh assms(3)] by blast
  then have h: "handle_ok remote fh (upd_buffer fh (\<lambda>_. b) fs)" by (rule handle_ok_upd)
  have run: "choose_fetch env fh offset sz (length remote) fs =
      (case r of prepare_result.Hit data \<Rightarrow> FetchReply data
         | prepare_result.Miss fo fl tk \<Rightarrow> if fl = 0 then FetchReply [] else Fetch fo fl (Buffered fh tk), upd_buffer fh (\<lambda>_. b) fs)"
    using st pr by (cases r) (simp_all add: choose_fetch_def bsize_def)
  from an show ?thesis
  proof (elim disjE exE conjE)
    fix n tk
    assume m: "r = prepare_result.Miss offset n tk" "0 < tk" "tk \<le> n" "n \<le> u32_max"
      "take (min tk (length (piece remote offset n))) (piece remote offset n) = piece remote offset sz"
    with run assms(1) h show ?thesis by auto
  qed (use run assms(1) h in simp)
next
  case False
  then have "choose_fetch env fh offset sz (length remote) fs = (Fetch offset sz Direct, fs)"
    by (cases fh) (auto simp: choose_fetch_def)
  with assms(1,2) show ?thesis by auto
qed

lemma fatal_read_no_bytes: "fatal_read env waited key fpath s w = Some (Reply (Inr bs), s', w') \<Longrightarrow> False"
  by (auto simp: fatal_read_def Let_def split: prod.splits if_splits)

lemma serve_remote:
  assumes "handle_ok remote fh (rs_fs s)" and "length remote < u64_bound"
    and "case plan of Direct \<Rightarrow> off = offset \<and> len = sz
      | Buffered h tk \<Rightarrow> off = offset \<and> h = fh \<and> len \<le> u32_max \<and>
          take (min tk (length (piece remote offset len))) (piece remote offset len) = piece remote offset sz"
  shows "fst (serve plan off (piece remote off len) s) = piece remote offset sz \<and>
    handle_ok remote fh (rs_fs (snd (serve plan off (piece remote off len) s)))"
proof (cases plan)
  case (Buffered h tk)
  with assms handle_ok_upd [OF after_fetch_coherent [OF assms(2), of len off tk]] show ?thesis by (simp add: serve_def)
qed (use assms in \<open>simp add: serve_def\<close>)

section \<open>The contract of the cache\<close>

text \<open>
  What the retry loop relies on: while \<open>ready\<close> holds of the cache and the world, an unrestrict request
  keeps it, and a \<open>read_at\<close> of the item keeps it and returns, when it succeeds, the remote bytes. Theory
  \<open>Read_Path\<close> shows the contract of the readers, sessions and workers of the chunk cache.
\<close>

locale file_reader =
  fixes env :: "'w read_env"
    and item :: nat
    and remote :: "byte list"
    and ready :: "cache \<Rightarrow> 'w \<Rightarrow> bool"
  assumes unrestrict_keeps: "ready c w \<Longrightarrow> re_unrestrict env link uc w = (r, uc', w') \<Longrightarrow> ready c w'"
    and read_at_remote: "ready c w \<Longrightarrow> 0 < len \<Longrightarrow> off + len < u64_bound \<Longrightarrow>
      re_read_at env item off len dl c w = (res, c', w') \<Longrightarrow>
      ready c' w' \<and> (\<forall>b. res = Inr b \<longrightarrow> b = piece remote off len)"
begin

lemma read_attempts_reply:
  assumes "rt_item t = item" and "0 < rt_len t" and "rt_off t + rt_len t < u64_bound"
    and "ready (rs_cache s) w"
    and "read_attempts env waited t attempts s w = Some (Reply (Inr bs), s', w')"
  shows "bs = fst (serve (rt_plan t) (rt_off t) (piece remote (rt_off t) (rt_len t)) s) \<and>
    rs_fs s' = rs_fs (snd (serve (rt_plan t) (rt_off t) (piece remote (rt_off t) (rt_len t)) s)) \<and>
    ready (rs_cache s') w'"
  using assms(4,5)
proof (induction attempts arbitrary: s w)
  case (Cons attempt rest)
  obtain r uc w1 where u: "re_unrestrict env (rt_link t) (rs_uc s) w = (r, uc, w1)" by (metis prod.exhaust)
  have w1: "ready (rs_cache s) w1" using unrestrict_keeps [OF Cons.prems(1) u] .
  have same: "fst (serve p off b s1) = fst (serve p off b s)" "rs_fs (snd (serve p off b s1)) = rs_fs (snd (serve p off b s))"
    if "rs_fs s1 = rs_fs s" for p off b s1
    using that by (auto simp: serve_def split: fetch_plan.splits)
  show ?case
  proof (cases r)
    case (Inl e)
    with Cons.prems(2) u have "read_attempts env waited t rest (s\<lparr>rs_uc := uc\<rparr>) w1 = Some (Reply (Inr bs), s', w')"
      by (auto simp: Let_def split: if_splits dest: fatal_read_no_bytes)
    with Cons.IH [of "s\<lparr>rs_uc := uc\<rparr>" w1] w1 same [of "s\<lparr>rs_uc := uc\<rparr>"] show ?thesis by simp
  next
    case (Inr dl)
    obtain res c w2 where ra: "re_read_at env (rt_item t) (rt_off t) (rt_len t) dl (rs_cache s) w1 = (res, c, w2)"
      by (metis prod.exhaust)
    have law: "ready c w2 \<and> (\<forall>b. res = Inr b \<longrightarrow> b = piece remote (rt_off t) (rt_len t))"
      by (rule read_at_remote [OF w1 assms(2,3)]) (use ra assms(1) in simp)
    let ?s1 = "s\<lparr>rs_uc := uc\<rparr>"
    let ?s2 = "?s1\<lparr>rs_cache := c, rs_uc := clear_unrestrict_cache (dl_token dl) (rt_link t) uc\<rparr>"
    have nc: "\<not> link_corrupted dl (rt_path t) (rt_size t)"
      using Cons.prems(2) u Inr by (auto simp: Let_def dest: fatal_read_no_bytes)
    consider
      (served) filled where "res = Inr filled"
        "(bs, s') = serve (rt_plan t) (rt_off t) filled (?s1\<lparr>rs_cache := c\<rparr>)" "w' = w2"
      | (again) "read_attempts env waited t rest ?s2 w2 = Some (Reply (Inr bs), s', w')"
    proof (cases res)
      case (Inl e)
      with Cons.prems(2) u \<open>r = Inr dl\<close> ra nc again show thesis by (cases e) (simp_all add: Let_def)
    next
      case (Inr filled)
      obtain reply s2 where sv: "serve (rt_plan t) (rt_off t) filled (?s1\<lparr>rs_cache := c\<rparr>) = (reply, s2)" by fastforce
      with Cons.prems(2) u \<open>r = Inr dl\<close> ra nc Inr have "bs = reply" "s' = s2" "w' = w2" by (simp_all add: Let_def)
      with sv Inr served show thesis by simp
    qed
    then show ?thesis
    proof cases
      case served
      then have f: "filled = piece remote (rt_off t) (rt_len t)" using law by blast
      from served(2) have "bs = fst (serve (rt_plan t) (rt_off t) filled (?s1\<lparr>rs_cache := c\<rparr>))"
        "s' = snd (serve (rt_plan t) (rt_off t) filled (?s1\<lparr>rs_cache := c\<rparr>))" by (metis fst_conv snd_conv)+
      moreover have "rs_cache s' = c" unfolding \<open>s' = _\<close> by (simp add: serve_def split: fetch_plan.split)
      ultimately show ?thesis using same [of "?s1\<lparr>rs_cache := c\<rparr>"] f law served(3) by simp
    next
      case again
      from Cons.IH [OF _ again] law same [of ?s2] show ?thesis by simp
    qed
  qed
qed simp

lemma read_window_remote:
  assumes "read_window env waited t fh offset sz s w = Some (Reply (Inr bs), s', w')"
    and "rt_size t = length remote" and "handle_ok remote fh (rs_fs s)"
    and "length remote < u64_bound" and "sz \<le> u32_max"
    and "rt_item t = item" and "ready (rs_cache s) w" and "0 < sz" and "offset + u32_max < u64_bound"
  shows "bs = piece remote offset sz \<and> handle_ok remote fh (rs_fs s') \<and> ready (rs_cache s') w'"
proof -
  obtain ch fs2 where c: "choose_fetch env fh offset sz (length remote) (rs_fs s) = (ch, fs2)" by fastforce
  note cr = choose_fetch_remote [OF c assms(3,4,5)]
  show ?thesis
  proof (cases ch)
    case (FetchReply data)
    with assms(1,2,7) c cr show ?thesis by (auto simp: read_window_def)
  next
    case (Fetch off len plan)
    let ?t = "t\<lparr>rt_off := off, rt_len := len, rt_plan := plan\<rparr>" and ?s = "s\<lparr>rs_fs := fs2\<rparr>"
    from assms(1,2) c Fetch have ra: "read_attempts env waited ?t [0..<MAX_RETRIES + 1] ?s w = Some (Reply (Inr bs), s', w')"
      by (simp add: read_window_def)
    have "bs = fst (serve plan off (piece remote off len) ?s) \<and>
        rs_fs s' = rs_fs (snd (serve plan off (piece remote off len) ?s)) \<and> ready (rs_cache s') w'"
      using read_attempts_reply [OF _ _ _ _ ra] cr Fetch assms(5-9) by (cases plan) auto
    moreover have "fst (serve plan off (piece remote off len) ?s) = piece remote offset sz \<and>
        handle_ok remote fh (rs_fs (snd (serve plan off (piece remote off len) ?s)))"
      by (rule serve_remote) (use cr Fetch assms(4) in \<open>auto split: fetch_plan.splits\<close>)
    ultimately show ?thesis by simp
  qed
qed

end

section \<open>Broken links\<close>

lemma mark_file_broken_get:
  assumes "get_mt mgr key = Some m"
  shows "\<exists>m'. get_mt (snd (mark_file_broken env key p mgr)) key = Some m' \<and> mt_state m' = mt_state m \<and> marked_broken m' p"
    and "tm_fatal_locks (snd (mark_file_broken env key p mgr)) = tm_fatal_locks mgr"
proof -
  define m' where "m' = m\<lparr>mt_file_states := Some (AList.update p ''broken'' (case mt_file_states m of None \<Rightarrow> [] | Some fs \<Rightarrow> fs))\<rparr>"
  obtain r d where u: "upsert_torrents_batch (te_json env) (te_stmt_ok env) (te_commit_ok env) [torrent_to_row env m'] (tm_db mgr) = (r, d)"
    by fastforce
  then have d: "save_rows env [torrent_to_row env m'] (insert_mt key m' mgr) = (r, (insert_mt key m' mgr)\<lparr>tm_db := d\<rparr>)"
    by (simp add: save_rows_def)
  have "snd (mark_file_broken env key p mgr) = (insert_mt key m' mgr)\<lparr>tm_db := d\<rparr>"
    using d assms by (simp add: mark_file_broken_def m'_def Let_def)
  moreover have "mt_state m' = mt_state m \<and> marked_broken m' p" by (simp add: m'_def marked_broken_def update_conv')
  ultimately show "\<exists>m'. get_mt (snd (mark_file_broken env key p mgr)) key = Some m' \<and> mt_state m' = mt_state m \<and> marked_broken m' p"
    "tm_fatal_locks (snd (mark_file_broken env key p mgr)) = tm_fatal_locks mgr"
    by (auto simp: mts.get_put insert_mt_def) (simp add: mts.get_put_same flip: insert_mt_def)
qed

lemma report_broken_effect:
  assumes "env_ok env" and "get_mt mgr key = Some m"
  shows "\<exists>m'. get_mt (report_broken env key p mgr) key = Some m' \<and> mt_state m' = Broken \<and> marked_broken m' p"
    and "key \<in> set (tm_repair_queue (report_broken env key p mgr))"
    and "(key, p) \<notin> set (tm_fatal_locks (report_broken env key p mgr))"
proof -
  let ?m1 = "snd (update_torrent_state env key Broken None mgr)"
  let ?m2 = "snd (mark_file_broken env key p ?m1)"
  have g: "get_mt (report_broken env key p mgr) = get_mt ?m2"
    by (simp add: report_broken_def fuse_end_fatal_read_repair_def enqueue_repair_def get_mt_def fun_eq_iff)
  have "get_mt ?m1 key = Some (restated env Broken None m)" using update_state_get(1) [OF assms(2)] by simp
  from mark_file_broken_get(1) [OF this, of env p]
  show "\<exists>m'. get_mt (report_broken env key p mgr) key = Some m' \<and> mt_state m' = Broken \<and> marked_broken m' p"
    unfolding g by (simp add: restated_def)
  show "key \<in> set (tm_repair_queue (report_broken env key p mgr))" "(key, p) \<notin> set (tm_fatal_locks (report_broken env key p mgr))"
    by (simp_all add: report_broken_def fuse_end_fatal_read_repair_def enqueue_repair_def push_back_def)
qed

lemma path_components_https:
  assumes "CHR ''/'' \<notin> set h" and "CHR ''/'' \<notin> set code" and "code \<noteq> []" and "CHR ''.'' \<notin> set code"
  shows "path_file_name (''https://'' @ h @ ''/d/'' @ code) = Some code"
proof -
  have s: "str_split (CHR ''/'') (''https://'' @ h @ ''/d/'' @ code) =
      str_split (CHR ''/'') (''https:/'' @ [CHR ''/''] @ h) @ str_split (CHR ''/'') ''d'' @ str_split (CHR ''/'') code"
    using str_split_append [of "CHR ''/''" "''https:/'' @ [CHR ''/''] @ h" "''d'' @ [CHR ''/''] @ code"]
      str_split_append [of "CHR ''/''" "''d''" code] by simp
  have c: "code \<noteq> ''.''" "code \<noteq> ''..''" using assms(4) by auto
  have "path_components (''https://'' @ h @ ''/d/'' @ code) =
      filter (\<lambda>c. c \<noteq> [] \<and> c \<noteq> ''.'') (str_split (CHR ''/'') (''https:/'' @ [CHR ''/''] @ h) @ str_split (CHR ''/'') ''d'') @ [code]"
    unfolding path_components_def s using str_split_noc [OF assms(2)] assms(3) c by simp
  with c show ?thesis by (simp add: path_file_name_def Let_def)
qed

lemma read_file_bytes:
  assumes "read_file env waited key idx f links fh offset sz s w = Some (Reply (Inr bs), s', w')"
  obtains i c t s2 w2 where "rt_size t = i64_to_u64 (f_bytes f)" and "rt_item t = i"
    and "get_or_create (re_open_ok env) (nat (re_now env w)) key (sanitize_filename (cache_file_name idx (f_path f)))
      (i64_to_u64 (f_bytes f)) (rs_cache s) = (Inr i, c)"
    and "read_window env waited t fh offset sz (s\<lparr>rs_cache := c\<rparr>) w = Some (Reply (Inr bs), s2, w2)"
    and "s' = s2\<lparr>rs_cache := cache_release (re_db_ok env) (nat (re_now env w2)) i (rs_cache s2)\<rparr>" and "w' = w2"
proof -
  let ?li = "min idx (length links - 1)" and ?sn = "sanitize_filename (cache_file_name idx (f_path f))"
  obtain g c where g: "get_or_create (re_open_ok env) (nat (re_now env w)) key ?sn (i64_to_u64 (f_bytes f)) (rs_cache s) = (g, c)"
    by fastforce
  have ne: "\<not> length links \<le> ?li"
  proof
    assume "length links \<le> ?li"
    with assms show False unfolding read_file_def Let_def by (simp only: if_True) simp
  qed
  then obtain i where i: "g = Inr i" using assms g by (cases g) (auto simp: read_file_def Let_def)
  define t where "t = \<lparr>rt_key = key, rt_path = f_path f, rt_sanitized = ?sn, rt_size = i64_to_u64 (f_bytes f),
     rt_link = links ! ?li, rt_item = i, rt_off = offset, rt_len = sz, rt_plan = Direct\<rparr>"
  have "map_option (release_item env i) (read_window env waited t fh offset sz (s\<lparr>rs_cache := c\<rparr>) w) = Some (Reply (Inr bs), s', w')"
    using assms unfolding read_file_def Let_def if_not_P [OF ne] g prod.case i sum.case t_def .
  then obtain p s2 w2 where win: "read_window env waited t fh offset sz (s\<lparr>rs_cache := c\<rparr>) w = Some (p, s2, w2)"
    and r: "release_item env i (p, s2, w2) = (Reply (Inr bs), s', w')" by auto
  show thesis by (rule that [of t i c s2 w2]) (use win r g i in \<open>auto simp: t_def release_item_def\<close>)
qed

section \<open>Properties\<close>

definition demo_read_env :: "(rd_error + download) \<Rightarrow> string list read_env" where
  "demo_read_env answer =
     \<lparr>re_tm = demo_tm_env, re_config = demo_rd_config, re_api = demo_rd, re_now = (\<lambda>_. 5), re_open_ok = (\<lambda>_. True),
      re_rm_ok = True, re_db_ok = True, re_unrestrict = (\<lambda>link uc w. (answer, uc, link # w)),
      re_read_at = (\<lambda>i off len dl c w. (Inr (piece [1, 2, 3, 4, 5] off len), c, w)),
      re_idle = (\<lambda>s w. ([StateChanged UnderRepair, DeadlineHit], s, w))\<rparr>"

definition demo_read_sys :: read_sys where
  "demo_read_sys = \<lparr>rs_fs = snd (fs_open INODE_FILE_BASE 0 demo_open_fs), rs_cache = demo_cache, rs_uc = []\<rparr>"




definition demo_task :: read_task where
  "demo_task = \<lparr>rt_key = ''h/n'', rt_path = ''/a.mkv'', rt_sanitized = ''a.mkv'', rt_size = 5, rt_link = ''L'', rt_item = 0,
     rt_off = 0, rt_len = 5, rt_plan = Direct\<rparr>"


text \<open>The corrupted-link check compares no extensions in practice: \<open>unrestrict_link\<close> has removed the file
  name from the download URL, so for a link of the usual form every size mismatch of a file with an
  extension counts as a corrupted link, whatever file the service announced.\<close>

theorem corrupted_check_ignores_extension:
  assumes "CHR ''/'' \<notin> set h" and "h \<noteq> ''d''" and "CHR ''/'' \<notin> set code" and "CHR ''.'' \<notin> set code" and "code \<noteq> []"
    and "dl_download d = ''https://'' @ h @ ''/d/'' @ code @ ''/'' @ name"
  shows "link_corrupted (fetched_download now tok d) fpath file_size \<longleftrightarrow>
    dl_filesize d \<noteq> 0 \<and> i64_to_u64 (dl_filesize d) \<noteq> file_size \<and> Rd_Types.path_extension fpath \<noteq> None"
proof -
  have "dl_download (fetched_download now tok d) = ''https://'' @ h @ ''/d/'' @ code"
    unfolding fetched_download_def using extract_base_strips_name [OF assms(1,2,3), of name] assms(6) by simp
  then have "download_extension (fetched_download now tok d) = None"
    using path_components_https [OF assms(1,3,5,4)] assms(4)
    by (simp add: download_extension_def Rd_Types.path_extension_def name_extension_def)
  then show ?thesis by (auto simp: link_corrupted_def fetched_download_def)
qed

theorem corrupted_check_ignores_extension_witness:
  "link_corrupted (fetched_download 0 ''t'' (demo_download\<lparr>dl_filesize := 9\<rparr>)) ''/m.mkv'' 5"
proof -
  have "dl_download (demo_download\<lparr>dl_filesize := 9\<rparr>) = ''https://'' @ ''h'' @ ''/d/'' @ ''C'' @ ''/'' @ ''m.mkv''"
    by (simp add: demo_download_def)
  moreover have "Rd_Types.path_extension ''/m.mkv'' \<noteq> None" by code_simp
  ultimately show ?thesis
    using corrupted_check_ignores_extension [of "''h''" "''C''" "demo_download\<lparr>dl_filesize := 9\<rparr>" "''m.mkv''" 0 "''t''" "''/m.mkv''" 5]
    by (simp add: i64_to_u64_def)
qed

end
