(* ===== verification/Download_Session.thy ===== *)
theory Download_Session
  imports Cache_Item Config
begin

text \<open>
  \<^verbatim>\<open>src/cache/download_session.rs\<close> and \<^verbatim>\<open>src/cache/item_read_at.rs\<close>: the prefetch sessions that
  overlapping reads share, and \<open>read_at\<close> as a state machine of the reader. An \<open>Arc<DownloadSession>\<close>
  is an index into \<open>rw_sessions\<close>; the spawned downloader itself is \<open>Worker\<close>, here only whether it
  has finished. Every \<open>await\<close> of \<open>read_at\<close> is a point where the item may have changed: each poll
  takes the world as it finds it.
\<close>

section \<open>Sessions\<close>

record download_session =
  ds_anchor :: u64
  ds_fetch_until :: u64
  ds_waiters :: usize
  ds_abort_handle :: bool
  ds_aborted :: bool
  ds_cancelled :: bool

definition session_new :: "u64 \<Rightarrow> u64 \<Rightarrow> download_session" where
  "session_new anchor fetch_until =
     \<lparr>ds_anchor = anchor, ds_fetch_until = fetch_until, ds_waiters = 0, ds_abort_handle = False,
      ds_aborted = False, ds_cancelled = False\<rparr>"

definition covers_fuse_offset :: "download_session \<Rightarrow> u64 \<Rightarrow> bool" where
  "covers_fuse_offset s offset = (offset \<ge> ds_anchor s \<and> offset < ds_fetch_until s)"

definition set_abort_handle :: "download_session \<Rightarrow> download_session" where
  "set_abort_handle s = s\<lparr>ds_abort_handle := True\<rparr>"

text \<open>\<open>cancel\<close>: fires the token and takes the abort handle, when it is still there.\<close>

definition session_cancel :: "download_session \<Rightarrow> download_session" where
  "session_cancel s =
     (let s1 = s\<lparr>ds_cancelled := True\<rparr>
      in if ds_abort_handle s1 then s1\<lparr>ds_abort_handle := False, ds_aborted := True\<rparr> else s1)"

definition waiter_new :: "download_session \<Rightarrow> download_session" where
  "waiter_new s = s\<lparr>ds_waiters := wadd64 (ds_waiters s) 1\<rparr>"

definition waiter_drop :: "download_session \<Rightarrow> download_session" where
  "waiter_drop s =
     (let prev = ds_waiters s;
          s1 = s\<lparr>ds_waiters := wsub64 prev 1\<rparr>
      in if prev = 1 then session_cancel s1 else s1)"

section \<open>The reader\<close>

record reader_world =
  rw_item :: cache_item
  rw_disk :: disk
  rw_sessions :: "download_session list"
  rw_active :: "nat list"
  rw_finished :: "nat list"

definition upd_session :: "nat \<Rightarrow> (download_session \<Rightarrow> download_session) \<Rightarrow> reader_world \<Rightarrow> reader_world" where
  "upd_session i f w = w\<lparr>rw_sessions := (rw_sessions w)[i := f (rw_sessions w ! i)]\<rparr>"

text \<open>\<open>spawn_worker\<close> and the push onto \<open>active_workers\<close> that follows it in both callers.\<close>

definition spawn_worker :: "u64 \<Rightarrow> u64 \<Rightarrow> reader_world \<Rightarrow> nat \<times> reader_world" where
  "spawn_worker offset fetch_until w =
     (let i = length (rw_sessions w);
          s = set_abort_handle (session_new offset fetch_until)
      in (i, w\<lparr>rw_sessions := rw_sessions w @ [s], rw_active := rw_active w @ [i]\<rparr>))"

text \<open>The drop of \<open>WorkerGuard\<close> when the downloader task ends.\<close>

definition worker_exit :: "nat \<Rightarrow> reader_world \<Rightarrow> reader_world" where
  "worker_exit i w =
     w\<lparr>rw_active := filter (\<lambda>j. j \<noteq> i) (rw_active w), rw_finished := i # rw_finished w\<rparr>"

record read_wait =
  wt_offset :: u64
  wt_end :: u64
  wt_fetch_until :: u64
  wt_session :: nat
  wt_owned :: bool

datatype read_phase =
    ReadDone "cache_read_error + byte list"
  | Waiting read_wait

definition read_result :: "bool \<Rightarrow> u64 \<Rightarrow> u64 \<Rightarrow> reader_world \<Rightarrow> cache_read_error + byte list" where
  "read_result io_ok offset stop w =
     (case read_from_file io_ok (rw_item w) offset (stop - offset) (rw_disk w) of
        None \<Rightarrow> Inl CacheIo
      | Some bs \<Rightarrow> Inr bs)"

definition read_at_begin ::
    "bool \<Rightarrow> config \<Rightarrow> u64 \<Rightarrow> u32 \<Rightarrow> reader_world \<Rightarrow> read_phase \<times> reader_world" where
  "read_at_begin io_ok cfg offset sz w =
     (let item = rw_item w;
          stop = min (wadd64 offset sz) (ci_file_size item)
      in if offset \<ge> ci_file_size item then (ReadDone (Inr []), w)
         else if item_has_range item offset stop then (ReadDone (read_result io_ok offset stop w), w)
         else
           (let read_ahead_b = parse_byte_size (read_ahead (vfs cfg));
                fetch_until = min (wadd64 stop read_ahead_b) (ci_file_size item);
                wt = (\<lambda>i owned. \<lparr>wt_offset = offset, wt_end = stop, wt_fetch_until = fetch_until,
                                 wt_session = i, wt_owned = owned\<rparr>)
            in case find (\<lambda>i. covers_fuse_offset (rw_sessions w ! i) offset) (rw_active w) of
                 Some i \<Rightarrow> (Waiting (wt i False), upd_session i waiter_new w)
               | None \<Rightarrow>
                   (let (i, w') = spawn_worker offset fetch_until w
                    in (Waiting (wt i True), upd_session i waiter_new w'))))"

text \<open>What ends a wait of the loop: a notification, the timeout, or the cancelled FUSE request.\<close>

datatype wake = Notified | Elapsed | FuseCancelled

text \<open>The guard is dropped when \<open>read_at\<close> returns.\<close>

definition finish_read ::
    "bool \<Rightarrow> bool \<Rightarrow> bool \<Rightarrow> read_wait \<Rightarrow> reader_world \<Rightarrow> read_phase \<times> reader_world" where
  "finish_read io_ok fuse_cancelled ok wt w =
     (let res = (if ok then read_result io_ok (wt_offset wt) (wt_end wt) w
                 else if fuse_cancelled then Inl CacheCancelled
                 else Inl DownloadFailed)
      in (ReadDone res, upd_session (wt_session wt) waiter_drop w))"

text \<open>The kicker: cancel the stalled session, spawn an own one, and switch the guard (the new guard is
  built before the old one is dropped).\<close>

definition kick :: "read_wait \<Rightarrow> reader_world \<Rightarrow> read_wait \<times> reader_world" where
  "kick wt w =
     (let old = wt_session wt;
          w1 = upd_session old session_cancel w;
          (i, w2) = spawn_worker (wt_offset wt) (wt_fetch_until wt) w1;
          w3 = upd_session old waiter_drop (upd_session i waiter_new w2)
      in (wt\<lparr>wt_session := i, wt_owned := True\<rparr>, w3))"

definition read_at_poll ::
    "bool \<Rightarrow> bool \<Rightarrow> wake \<Rightarrow> read_wait \<Rightarrow> reader_world \<Rightarrow> read_phase \<times> reader_world" where
  "read_at_poll io_ok fuse_cancelled wk wt w =
     (let present = (\<lambda>ww. item_has_range (rw_item ww) (wt_offset wt) (wt_end wt))
      in if wk = FuseCancelled then finish_read io_ok True False wt w
         else if present w then finish_read io_ok fuse_cancelled True wt w
         else
           (let (wt', w') = (if \<not> wt_owned wt \<and> wk = Elapsed then kick wt w else (wt, w))
            in if wt_owned wt'
               then (if wt_session wt' \<in> set (rw_finished w')
                     then finish_read io_ok fuse_cancelled (present w') wt' w'
                     else (Waiting wt', w'))
               else (if wt_session wt' \<notin> set (rw_active w')
                     then finish_read io_ok fuse_cancelled (present w') wt' w'
                     else (Waiting wt', w'))))"

section \<open>Reference counting\<close>

lemma waiter_drop_shared:
  "1 < ds_waiters s \<Longrightarrow> ds_waiters s < u64_bound \<Longrightarrow>
     ds_cancelled (waiter_drop s) = ds_cancelled s \<and> ds_aborted (waiter_drop s) = ds_aborted s \<and>
     ds_waiters (waiter_drop s) = ds_waiters s - 1"
  by (simp add: waiter_drop_def wsub64_exact)

lemma waiter_drop_last:
  "ds_waiters s = 1 \<Longrightarrow> ds_cancelled (waiter_drop s) \<and> (ds_abort_handle s \<longrightarrow> ds_aborted (waiter_drop s))"
  by (simp add: waiter_drop_def session_cancel_def Let_def)

definition session_inv :: "download_session \<Rightarrow> bool" where
  "session_inv s \<longleftrightarrow> (ds_aborted s \<longrightarrow> ds_cancelled s \<and> \<not> ds_abort_handle s)"

datatype session_op = AddWaiter | DropWaiter | CancelNow

fun session_step :: "session_op \<Rightarrow> download_session \<Rightarrow> download_session" where
  "session_step AddWaiter s = waiter_new s"
| "session_step DropWaiter s = waiter_drop s"
| "session_step CancelNow s = session_cancel s"

interpretation dsm: invariant_machine session_step session_inv
proof
  show "session_inv (session_step e s)" if "session_inv s" for s e
    using that
    by (cases e) (auto simp: session_inv_def waiter_new_def waiter_drop_def session_cancel_def Let_def)
qed

text \<open>While guards come and go, the session is cancelled exactly when their number first returns to
  zero.\<close>

fun live_guards :: "nat \<Rightarrow> session_op list \<Rightarrow> bool" where
  "live_guards n [] = True"
| "live_guards n (AddWaiter # ops) = live_guards (n + 1) ops"
| "live_guards n (DropWaiter # ops) = (1 < n \<and> live_guards (n - 1) ops)"
| "live_guards n (CancelNow # ops) = False"

lemma live_guards_run:
  assumes "live_guards n ops" and "ds_waiters s = n" and "n + length ops < u64_bound"
  shows "ds_cancelled (fold session_step ops s) = ds_cancelled s \<and>
    ds_aborted (fold session_step ops s) = ds_aborted s \<and>
    ds_waiters (fold session_step ops s) + length (filter (\<lambda>e. e = DropWaiter) ops) =
      n + length (filter (\<lambda>e. e = AddWaiter) ops)"
  using assms
proof (induction n ops arbitrary: s rule: live_guards.induct)
  case (2 n ops)
  have "ds_waiters (waiter_new s) = n + 1"
    using "2.prems" by (simp add: waiter_new_def wadd64_exact)
  with 2 show ?case by (simp add: waiter_new_def)
next
  case (3 n ops)
  then have d: "ds_cancelled (waiter_drop s) = ds_cancelled s" "ds_aborted (waiter_drop s) = ds_aborted s"
    "ds_waiters (waiter_drop s) = n - 1"
    using waiter_drop_shared [of s] by auto
  have "1 < n" "live_guards (n - 1) ops" using "3.prems" by auto
  with "3.IH" [of "waiter_drop s"] d "3.prems" show ?case by auto
qed auto

section \<open>What a reader gets\<close>

lemma read_result_remote:
  assumes "item_coherent remote (rw_item w) (rw_disk w)" and "item_has_range (rw_item w) off stop"
    and "off < stop"
  shows "read_result True off stop w = Inr (piece remote off (stop - off))"
  using read_coherent [of remote "rw_item w" "rw_disk w" off "stop - off"] assms
  by (simp add: read_result_def)

lemma upd_session_item [simp]:
  "rw_item (upd_session i f w) = rw_item w" "rw_disk (upd_session i f w) = rw_disk w"
  by (simp_all add: upd_session_def)

lemma spawn_worker_item:
  "spawn_worker a b w = (i, w') \<Longrightarrow> rw_item w' = rw_item w \<and> rw_disk w' = rw_disk w"
  by (auto simp: spawn_worker_def Let_def)

lemma kick_item: "kick wt w = (wt', w') \<Longrightarrow> rw_item w' = rw_item w \<and> rw_disk w' = rw_disk w \<and>
    wt_offset wt' = wt_offset wt \<and> wt_end wt' = wt_end wt"
  by (auto simp: kick_def Let_def dest: spawn_worker_item split: prod.splits)

lemma finish_read_remote:
  assumes "finish_read True fc ok wt w = (ReadDone (Inr bs), w')"
    and "item_coherent remote (rw_item w) (rw_disk w)"
    and "ok \<Longrightarrow> item_has_range (rw_item w) (wt_offset wt) (wt_end wt)" and "wt_offset wt < wt_end wt"
  shows "bs = piece remote (wt_offset wt) (wt_end wt - wt_offset wt)"
  using assms read_result_remote [of remote w "wt_offset wt" "wt_end wt"]
  by (auto simp: finish_read_def split: if_splits)

lemma read_at_poll_remote:
  assumes "read_at_poll True fc wk wt w = (ReadDone (Inr bs), w')"
    and coh: "item_coherent remote (rw_item w) (rw_disk w)" and "wt_offset wt < wt_end wt"
  shows "bs = piece remote (wt_offset wt) (wt_end wt - wt_offset wt)"
proof -
  obtain wt1 w1 where k: "(if \<not> wt_owned wt \<and> wk = Elapsed then kick wt w else (wt, w)) = (wt1, w1)"
    by (metis surj_pair)
  then have same: "rw_item w1 = rw_item w" "rw_disk w1 = rw_disk w" "wt_offset wt1 = wt_offset wt"
    "wt_end wt1 = wt_end wt"
    by (auto dest: kick_item split: if_splits)
  from assms(1) obtain fc' ok wt2 w2 where fin: "finish_read True fc' ok wt2 w2 = (ReadDone (Inr bs), w')"
    and "(wt2, w2) = (wt, w) \<or> (wt2, w2) = (wt1, w1)"
    and "ok \<Longrightarrow> item_has_range (rw_item w2) (wt_offset wt) (wt_end wt)"
    by (auto simp: read_at_poll_def k Let_def split: if_splits)
  with same coh assms(3) finish_read_remote [OF fin, of remote] show ?thesis by auto
qed

section \<open>Properties\<close>

text \<open>Whenever \<open>read_at\<close> succeeds, at once or after any number of waits, kicks and notifications, it
  returns the bytes of the remote file at the requested offset, cut at the end of the file.\<close>

theorem read_at_returns_remote_bytes:
  assumes "item_coherent remote (rw_item w) (rw_disk w)" and "0 < sz" and "off + sz < u64_bound"
    and "item_coherent remote (rw_item w2) (rw_disk w2)"
  shows "(read_at_begin True cfg off sz w = (ReadDone (Inr bs), w') \<longrightarrow> bs = piece remote off sz) \<and>
    (read_at_begin True cfg off sz w = (Waiting wt, w') \<and> wt_offset wt2 = wt_offset wt \<and> wt_end wt2 = wt_end wt \<and>
       read_at_poll True fc wk wt2 w2 = (ReadDone (Inr bs), w3) \<longrightarrow> bs = piece remote off sz)"
proof -
  have fsz: "ci_file_size (rw_item w) = length remote" using assms(1) by (simp add: item_coherent_def)
  let ?stop = "min (off + sz) (length remote)"
  have cut: "piece remote off (?stop - off) = piece remote off sz"
    by (simp add: piece_def min_def)
  have wr: "wadd64 off sz = off + sz" using assms(3) by (rule wadd64_exact)
  show ?thesis
  proof (intro conjI impI)
    assume r: "read_at_begin True cfg off sz w = (ReadDone (Inr bs), w')"
    show "bs = piece remote off sz"
    proof (cases "length remote \<le> off")
      case True
      with r show ?thesis by (simp add: read_at_begin_def fsz piece_def)
    next
      case False
      with r have h: "item_has_range (rw_item w) off ?stop" and "read_result True off ?stop w = Inr bs"
        by (auto simp: read_at_begin_def fsz wr Let_def split: if_splits option.splits prod.splits)
      with read_result_remote [OF assms(1) h] False assms(2) cut show ?thesis by simp
    qed
  next
    assume a: "read_at_begin True cfg off sz w = (Waiting wt, w') \<and> wt_offset wt2 = wt_offset wt \<and>
      wt_end wt2 = wt_end wt \<and> read_at_poll True fc wk wt2 w2 = (ReadDone (Inr bs), w3)"
    then have "off < length remote" "wt_offset wt = off" "wt_end wt = ?stop"
      by (auto simp: read_at_begin_def fsz wr Let_def split: if_splits option.splits prod.splits)
    with a assms(2) read_at_poll_remote [of fc wk wt2 w2 bs w3 remote] assms(4) cut
    show "bs = piece remote off sz" by simp
  qed
qed

definition demo_world :: reader_world where
  "demo_world = \<lparr>rw_item = (new_item 0 [''f''] ''k'' 4)\<lparr>ci_ranges := insert_range 0 2 ranges_new\<rparr>,
     rw_disk = [([''f''], File [7, 8, 0, 0])], rw_sessions = [], rw_active = [], rw_finished = []\<rparr>"

definition demo_config :: config where
  "demo_config = \<lparr>token = ''t'', mount_path = default_mount_path, cache_dir = default_cache_dir,
     download_tokens = [], on_library_update = on_library_update_config_default,
     repair = repair_config_default, api = api_config_default, vfs = vfs_config_default\<rparr>"

lemma demo_world_coherent: "item_coherent [7, 8, 9, 10] (rw_item demo_world) (rw_disk demo_world)"
proof -
  have iv: "intervals (insert_range 0 2 ranges_new) = [(0, 2)]" by code_simp
  have "covered (insert_range 0 2 ranges_new) = {0, 1}"
    by (simp add: insert_range_covered) (auto simp: covered_def ivs_bytes_def ranges_new_def)
  then show ?thesis
    by (simp add: item_coherent_def demo_world_def new_item_def file_agrees_def insert_range_inv
        file_bytes_def disk_node_def)
qed

theorem read_at_returns_remote_bytes_witness:
  "fst (read_at_begin True demo_config 0 2 demo_world) = ReadDone (Inr (piece [7, 8, 9, 10] 0 2))"
proof -
  have r: "read_at_begin True demo_config 0 2 demo_world = (ReadDone (Inr [7, 8]), demo_world)"
    by code_simp
  have "[7, 8] = piece [7, 8, 9, 10] 0 2"
    using read_at_returns_remote_bytes [OF demo_world_coherent _ _ demo_world_coherent, of 2 0] r
    by (simp add: u64_bound_def)
  with r show ?thesis by simp
qed

text \<open>A session stays alive as long as a reader waits on it and is cancelled, with its task
  aborted, when the last one leaves.\<close>

theorem session_lives_while_waited:
  assumes "live_guards 1 ops" and "1 + length ops < u64_bound"
  shows "\<not> ds_cancelled (fold session_step (AddWaiter # ops) (set_abort_handle (session_new a b))) \<and>
    \<not> ds_aborted (fold session_step (AddWaiter # ops) (set_abort_handle (session_new a b))) \<and>
    (ds_waiters s = 1 \<and> ds_abort_handle s \<longrightarrow> ds_cancelled (waiter_drop s) \<and> ds_aborted (waiter_drop s))"
proof -
  let ?s = "waiter_new (set_abort_handle (session_new a b))"
  have "ds_waiters ?s = 1" "\<not> ds_cancelled ?s" "\<not> ds_aborted ?s"
    by (simp_all add: waiter_new_def set_abort_handle_def session_new_def wadd64_def u64_bound_def)
  with live_guards_run [OF assms(1), of ?s] assms(2) waiter_drop_last [of s] show ?thesis by simp
qed

theorem session_lives_while_waited_witness:
  "\<not> ds_cancelled (fold session_step [AddWaiter, AddWaiter, DropWaiter] (set_abort_handle (session_new 0 10)))"
  using session_lives_while_waited [of "[AddWaiter, DropWaiter]" 0 10] by (simp add: u64_bound_def)

text \<open>A cancelled session stays in \<open>active_workers\<close> until its task is dropped, and \<open>read_at\<close> joins
  it all the same: a read that arrives in between fails with \<open>DownloadFailed\<close> although nothing
  went wrong with its download.\<close>

theorem reader_joins_cancelled_session:
  "\<exists>wt w1 wt2 w2.
     read_at_begin True demo_config 2 2 demo_world = (Waiting wt, w1) \<and>
     read_at_begin True demo_config 2 2 (snd (read_at_poll True True FuseCancelled wt w1)) = (Waiting wt2, w2) \<and>
     \<not> wt_owned wt2 \<and> ds_cancelled (rw_sessions w2 ! wt_session wt2) \<and>
     fst (read_at_poll True False Notified wt2 (worker_exit (wt_session wt2) w2)) = ReadDone (Inl DownloadFailed)"
proof -
  let ?wt = "\<lparr>wt_offset = 2, wt_end = 4, wt_fetch_until = 4, wt_session = 0, wt_owned = True\<rparr>"
  let ?w1 = "snd (read_at_begin True demo_config 2 2 demo_world)"
  let ?w2 = "snd (read_at_begin True demo_config 2 2 (snd (read_at_poll True True FuseCancelled ?wt ?w1)))"
  have "read_at_begin True demo_config 2 2 demo_world = (Waiting ?wt, ?w1)"
    and "read_at_begin True demo_config 2 2 (snd (read_at_poll True True FuseCancelled ?wt ?w1)) =
      (Waiting (?wt\<lparr>wt_owned := False\<rparr>), ?w2)"
    and "ds_cancelled (rw_sessions ?w2 ! 0)"
    and "fst (read_at_poll True False Notified (?wt\<lparr>wt_owned := False\<rparr>) (worker_exit 0 ?w2)) =
      ReadDone (Inl DownloadFailed)"
    by code_simp+
  then show ?thesis by fastforce
qed

end
