(* ===== verification/Worker.thy ===== *)
theory Worker
  imports Cache_Item Rd_Errors Config
begin

text \<open>
  \<^verbatim>\<open>src/cache/worker.rs\<close> and \<^verbatim>\<open>src/cache/link_heal.rs\<close>: the pool of chunk workers of one prefetch
  session. Each worker is a state machine between its \<open>await\<close> points; the queue of slices, the
  chunk multiplier, the heal budget, the live URL and the cache item are shared. What the network
  does next is the event of a step, and a run is any interleaving of steps of the workers.
  The semaphore permit and the sleeps between retries only delay.
\<close>

section \<open>Slices to download\<close>

definition MAX_DOWNLOAD_RETRIES :: u32 where
  "MAX_DOWNLOAD_RETRIES = 3"

definition MAX_SESSION_LINK_HEALS :: u32 where
  "MAX_SESSION_LINK_HEALS = 3"

text \<open>The \<open>while\<close> loop of \<open>run_downloader\<close> that collects the gaps.\<close>

function missing_slices :: "byte_ranges \<Rightarrow> u64 \<Rightarrow> u64 \<Rightarrow> interval list" where
  "missing_slices r pos target_end =
     (if pos < target_end then
        (case find_missing r pos target_end of
           Some (miss_start, miss_end) \<Rightarrow> (miss_start, miss_end) # missing_slices r miss_end target_end
         | None \<Rightarrow> [])
      else [])"
  by pat_completeness auto
termination
  by (relation "measure (\<lambda>(r, pos, target_end). target_end - pos)") (auto dest!: find_missing_bounds)

declare missing_slices.simps [simp del]

section \<open>State\<close>

record dl_shared =
  dl_queue :: "interval list"
  dl_mult :: u32
  dl_heal :: u32
  dl_url :: string
  dl_item :: cache_item
  dl_disk :: disk
  dl_table :: range_table
  dl_cancelled :: bool
  dl_paused :: bool

datatype worker_state =
    Idle
  | PauseWait
  | Headers u64 u64 u32
  | Body u64 u64 u32 u64
  | WDone
  | WFailed

text \<open>What happens at the next \<open>await\<close> point of a worker.\<close>

datatype worker_event =
    Turn
  | PauseChanged
  | SeeCancel
  | PermitClosed
  | HeadersStalled
  | HeadersError rd_error "rd_error + string"
  | HeadersOk nat bool
  | BodyData "byte list" write_fault bool u64
  | BodyStalled
  | BodyError
  | BodyEof

section \<open>Steps of a worker\<close>

text \<open>\<open>refresh\<close> is what \<open>refresh_cdn_url\<close> returns; it is called only when the error warrants it and
  budget is left.\<close>

definition attempt_cdn_link_refresh ::
    "rd_error \<Rightarrow> rd_error + string \<Rightarrow> dl_shared \<Rightarrow> bool \<times> dl_shared" where
  "attempt_cdn_link_refresh err refresh sh =
     (if \<not> should_refresh_via_unrestrict err then (False, sh)
      else if dl_heal sh = 0 then (False, sh)
      else
        (case refresh of
           Inl _ \<Rightarrow> (False, sh)
         | Inr url \<Rightarrow> (True, sh\<lparr>dl_heal := dl_heal sh - 1, dl_url := url\<rparr>)))"

definition pop_chunk :: "u64 \<Rightarrow> dl_shared \<Rightarrow> interval option \<times> dl_shared" where
  "pop_chunk base_chunk sh =
     (case dl_queue sh of
        [] \<Rightarrow> (None, sh)
      | (slice_start, slice_end) # q \<Rightarrow>
          (let chunk_size = min (sat_mul64 base_chunk (dl_mult sh)) (slice_end - slice_start);
               chunk_end = slice_start + chunk_size;
               q' = (if chunk_end < slice_end then (chunk_end, slice_end) # q else q)
           in (Some (slice_start, chunk_end), sh\<lparr>dl_queue := q'\<rparr>)))"

definition take_chunk :: "u64 \<Rightarrow> dl_shared \<Rightarrow> worker_state \<times> dl_shared" where
  "take_chunk base_chunk sh =
     (case pop_chunk base_chunk sh of
        (None, sh') \<Rightarrow> (WDone, sh')
      | (Some (s, e), sh') \<Rightarrow> (Headers s e 0, sh'))"

text \<open>The shrink that every retried failure makes: the multiplier falls back to one, and a chunk
  longer than the base size gives its tail back to the queue.\<close>

definition shrink_chunk :: "u64 \<Rightarrow> u64 \<Rightarrow> u64 \<Rightarrow> dl_shared \<Rightarrow> u64 \<times> dl_shared" where
  "shrink_chunk base_chunk s e sh =
     (let sh1 = sh\<lparr>dl_mult := 1\<rparr>
      in if e - s > base_chunk
         then (s + base_chunk, sh1\<lparr>dl_queue := (s + base_chunk, e) # dl_queue sh1\<rparr>)
         else (e, sh1))"

definition retry_chunk :: "u64 \<Rightarrow> u64 \<Rightarrow> u64 \<Rightarrow> u32 \<Rightarrow> dl_shared \<Rightarrow> worker_state \<times> dl_shared" where
  "retry_chunk base_chunk s e retries sh =
     (if retries + 1 \<ge> MAX_DOWNLOAD_RETRIES then (WFailed, sh)
      else (case shrink_chunk base_chunk s e sh of (e', sh') \<Rightarrow> (Headers s e' (retries + 1), sh')))"

definition range_header :: "u64 \<Rightarrow> u64 \<Rightarrow> string" where
  "range_header s e = ''bytes='' @ show_nat s @ ''-'' @ show_nat (wsub64 e 1)"

fun headers_step ::
    "u64 \<Rightarrow> worker_event \<Rightarrow> u64 \<Rightarrow> u64 \<Rightarrow> u32 \<Rightarrow> dl_shared \<Rightarrow> worker_state \<times> dl_shared" where
  "headers_step base PermitClosed s e retries sh = (WFailed, sh)"
| "headers_step base HeadersStalled s e retries sh = retry_chunk base s e retries sh"
| "headers_step base (HeadersError err refresh) s e retries sh =
     (case attempt_cdn_link_refresh err refresh sh of
        (True, sh') \<Rightarrow> (Headers s e 0, sh')
      | (False, sh') \<Rightarrow> retry_chunk base s e retries sh')"
| "headers_step base (HeadersOk status content_range) s e retries sh =
     (if status = 200 \<and> \<not> content_range \<and> s > 0
      then (if retries + 1 \<ge> MAX_DOWNLOAD_RETRIES then (WFailed, sh) else (Headers s e (retries + 1), sh))
      else (Body s e retries s, sh))"
| "headers_step base _ s e retries sh = (Headers s e retries, sh)"

fun body_step ::
    "u64 \<Rightarrow> worker_event \<Rightarrow> u64 \<Rightarrow> u64 \<Rightarrow> u32 \<Rightarrow> u64 \<Rightarrow> dl_shared \<Rightarrow> worker_state \<times> dl_shared" where
  "body_step base (BodyData data fault db_ok now) s e retries pos sh =
     (case write_range fault db_ok now pos data (dl_item sh) (dl_disk sh) (dl_table sh) of
        (res, item, d, t) \<Rightarrow>
          (let sh' = sh\<lparr>dl_item := item, dl_disk := d, dl_table := t\<rparr>
           in case res of
                Inl _ \<Rightarrow> retry_chunk base s e retries sh'
              | Inr _ \<Rightarrow> (Body s e retries (wadd64 pos (length data)), sh')))"
| "body_step base BodyStalled s e retries pos sh = retry_chunk base s e retries sh"
| "body_step base BodyError s e retries pos sh = retry_chunk base s e retries sh"
| "body_step base BodyEof s e retries pos sh = (Idle, sh\<lparr>dl_mult := min (dl_mult sh * 2) 16\<rparr>)"
| "body_step base _ s e retries pos sh = (Body s e retries pos, sh)"

fun worker_step :: "u64 \<Rightarrow> worker_event \<Rightarrow> worker_state \<Rightarrow> dl_shared \<Rightarrow> worker_state \<times> dl_shared" where
  "worker_step base ev Idle sh =
     (if dl_cancelled sh then (WDone, sh)
      else if ev = Turn then (if dl_paused sh then (PauseWait, sh) else take_chunk base sh)
      else (Idle, sh))"
| "worker_step base ev PauseWait sh =
     (if dl_cancelled sh then (WDone, sh)
      else if ev = PauseChanged then take_chunk base sh
      else (PauseWait, sh))"
| "worker_step base ev (Headers s e r) sh =
     (if dl_cancelled sh then (WDone, sh) else headers_step base ev s e r sh)"
| "worker_step base ev (Body s e r pos) sh =
     (if dl_cancelled sh then (WDone, sh) else body_step base ev s e r pos sh)"
| "worker_step base ev WDone sh = (WDone, sh)"
| "worker_step base ev WFailed sh = (WFailed, sh)"

section \<open>The pool\<close>

type_synonym dl_system = "worker_state list \<times> dl_shared"

text \<open>\<open>run_downloader\<close> up to the spawning of its workers: \<open>None\<close> when nothing is missing.\<close>

definition run_downloader_init ::
    "u64 \<Rightarrow> u64 \<Rightarrow> u64 \<Rightarrow> u32 \<Rightarrow> string \<Rightarrow> bool \<Rightarrow> cache_item \<Rightarrow> disk \<Rightarrow> range_table \<Rightarrow> dl_system option" where
  "run_downloader_init start stop read_ahead_b streams url paused item d t =
     (let target_end = min (wadd64 stop read_ahead_b) (ci_file_size item);
          missing = missing_slices (ci_ranges item) start target_end
      in if missing = [] then None
         else
           Some (replicate (max streams 1) Idle,
                 \<lparr>dl_queue = missing, dl_mult = 1, dl_heal = MAX_SESSION_LINK_HEALS, dl_url = url,
                  dl_item = item, dl_disk = d, dl_table = t, dl_cancelled = False, dl_paused = paused\<rparr>))"

text \<open>A step of the system: one worker moves, the session is cancelled, or the pause flag changes.\<close>

datatype dl_event = WorkerEv nat worker_event | CancelSession | SetPaused bool

fun dl_step :: "u64 \<Rightarrow> dl_event \<Rightarrow> dl_system \<Rightarrow> dl_system" where
  "dl_step base (WorkerEv i ev) (ws, sh) =
     (if i < length ws
      then (case worker_step base ev (ws ! i) sh of (w, sh') \<Rightarrow> (ws[i := w], sh'))
      else (ws, sh))"
| "dl_step base CancelSession (ws, sh) = (ws, sh\<lparr>dl_cancelled := True\<rparr>)"
| "dl_step base (SetPaused b) (ws, sh) = (ws, sh\<lparr>dl_paused := b\<rparr>)"

text \<open>The \<open>join_next\<close> loop: the first failed worker makes the whole run an error.\<close>

datatype run_status = Running | RunOk | RunErr

definition run_status :: "dl_system \<Rightarrow> run_status" where
  "run_status sys =
     (if list_ex (\<lambda>w. w = WFailed) (fst sys) then RunErr
      else if list_all (\<lambda>w. w = WDone) (fst sys) then RunOk
      else Running)"

section \<open>The missing slices are the gaps\<close>

lemma missing_slices_stop:
  "\<not> (pos < target \<and> find_missing r pos target \<noteq> None) \<Longrightarrow> missing_slices r pos target = []"
  by (subst missing_slices.simps) (auto split: option.split)

lemma missing_slices_step:
  assumes "pos < target" and "find_missing r pos target = Some (x, y)"
  shows "missing_slices r pos target = (x, y) # missing_slices r y target"
  using assms by (simp add: missing_slices.simps [of r pos target])

lemma missing_slices_bounds:
  "(s, e) \<in> set (missing_slices r pos target) \<Longrightarrow> pos \<le> s \<and> s < e \<and> e \<le> target"
proof (induction r pos target rule: missing_slices.induct)
  case (1 r pos target)
  show ?case
  proof (cases "pos < target \<and> find_missing r pos target \<noteq> None")
    case False
    then have "missing_slices r pos target = []" by (rule missing_slices_stop)
    with "1.prems" show ?thesis by simp
  next
    case True
    then obtain x y where xy: "find_missing r pos target = Some (x, y)" by auto
    note b = find_missing_bounds [OF xy]
    have step: "missing_slices r pos target = (x, y) # missing_slices r y target"
      using True xy missing_slices_step by blast
    have IH: "(s, e) \<in> set (missing_slices r y target) \<Longrightarrow> y \<le> s \<and> s < e \<and> e \<le> target"
      using "1.IH" True xy by auto
    from "1.prems" b IH show ?thesis by (auto simp: step)
  qed
qed

lemma missing_slices_bytes:
  "ranges_inv r \<Longrightarrow> ivs_bytes (missing_slices r pos target) = {pos..<target} - covered r"
proof (induction r pos target rule: missing_slices.induct)
  case (1 r pos target)
  show ?case
  proof (cases "pos < target \<and> find_missing r pos target \<noteq> None")
    case False
    then have "missing_slices r pos target = []" by (rule missing_slices_stop)
    moreover have "{pos..<target} \<subseteq> covered r"
      using False find_missing_None_iff [OF "1.prems", of pos target] by (cases "pos < target") auto
    ultimately show ?thesis by auto
  next
    case True
    then obtain x y where xy: "find_missing r pos target = Some (x, y)" by auto
    note b = find_missing_bounds [OF xy] and g = find_missing_Some [OF "1.prems" xy]
    have step: "missing_slices r pos target = (x, y) # missing_slices r y target"
      using True xy missing_slices_step by blast
    have IH: "ivs_bytes (missing_slices r y target) = {y..<target} - covered r"
      using "1.IH" True xy "1.prems" by auto
    have "{pos..<target} = {pos..<x} \<union> {x..<y} \<union> {y..<target}" using b by auto
    with g show ?thesis unfolding step ivs_bytes_Cons IH by blast
  qed
qed

section \<open>How often a byte is claimed\<close>

text \<open>The number of intervals of a list that contain a byte; two workers never hold the same byte when
  it is at most one over the queue and the chunks in flight.\<close>

definition cnt :: "nat \<Rightarrow> interval list \<Rightarrow> nat" where
  "cnt x ivs = length (filter (\<lambda>(s, e). s \<le> x \<and> x < e) ivs)"

lemma cnt_simps [simp]:
  "cnt x [] = 0"
  "cnt x ((s, e) # ivs) = (if s \<le> x \<and> x < e then 1 else 0) + cnt x ivs"
  by (simp_all add: cnt_def)

lemma cnt_pos_iff: "0 < cnt x ivs \<longleftrightarrow> x \<in> ivs_bytes ivs"
  by (force simp: cnt_def ivs_bytes_def filter_empty_conv)

fun active_chunk :: "worker_state \<Rightarrow> interval list" where
  "active_chunk (Headers s e _) = [(s, e)]"
| "active_chunk (Body s e _ _) = [(s, e)]"
| "active_chunk _ = []"

definition in_flight :: "nat \<Rightarrow> worker_state list \<Rightarrow> nat" where
  "in_flight x ws = sum_list (map (\<lambda>w. cnt x (active_chunk w)) ws)"

lemma in_flight_update:
  assumes "i < length ws"
  shows "in_flight x (ws[i := w]) + cnt x (active_chunk (ws ! i)) = in_flight x ws + cnt x (active_chunk w)"
proof -
  have "cnt x (active_chunk (ws ! i)) \<le> in_flight x ws"
    unfolding in_flight_def by (rule member_le_sum_list) (use assms in auto)
  with assms show ?thesis
    by (simp add: in_flight_def map_update sum_list_update)
qed

text \<open>What one worker step does to the claims: nothing is claimed twice, and a byte stops being
  claimed only when its chunk is finished, given up or cancelled.\<close>

definition keeps_claims :: "worker_state \<Rightarrow> dl_shared \<Rightarrow> worker_state \<Rightarrow> dl_shared \<Rightarrow> bool" where
  "keeps_claims w sh w' sh' \<longleftrightarrow>
     (\<forall>x. cnt x (dl_queue sh') + cnt x (active_chunk w') = cnt x (dl_queue sh) + cnt x (active_chunk w))"

definition drops_claims :: "worker_state \<Rightarrow> dl_shared \<Rightarrow> worker_state \<Rightarrow> dl_shared \<Rightarrow> bool" where
  "drops_claims w sh w' sh' \<longleftrightarrow> dl_queue sh' = dl_queue sh \<and> active_chunk w' = []"

lemma take_chunk_keeps:
  assumes "take_chunk base sh = (w', sh')" and "active_chunk w = []"
  shows "keeps_claims w sh w' sh'"
proof (cases "dl_queue sh")
  case Nil
  with assms show ?thesis by (auto simp: take_chunk_def pop_chunk_def keeps_claims_def)
next
  case (Cons iv q)
  obtain a b where iv: "iv = (a, b)" by (cases iv)
  let ?c = "min (sat_mul64 base (dl_mult sh)) (b - a)"
  have *: "(if a \<le> x \<and> x < a + ?c then 1 else 0) + (if a + ?c \<le> x \<and> x < b then 1 else 0) =
      (if a \<le> x \<and> x < b then 1 else (0 :: nat))" for x
    by auto
  from assms Cons iv have w': "w' = Headers a (a + ?c) 0"
    and q': "dl_queue sh' = (if a + ?c < b then (a + ?c, b) # q else q)"
    by (auto simp: take_chunk_def pop_chunk_def Let_def split: if_splits)
  show ?thesis
    unfolding keeps_claims_def w' q' Cons iv using assms(2) * by auto
qed

lemma retry_chunk_claims:
  assumes "retry_chunk base s e r sh = (w', sh')" and "active_chunk w = [(s, e)]"
  shows "keeps_claims w sh w' sh' \<or> (w' = WFailed \<and> drops_claims w sh w' sh')"
  using assms
  by (auto simp: retry_chunk_def shrink_chunk_def keeps_claims_def drops_claims_def Let_def split: if_splits)

lemma attempt_refresh_frame:
  "attempt_cdn_link_refresh err refresh sh = (b, sh') \<Longrightarrow>
     dl_queue sh' = dl_queue sh \<and> dl_item sh' = dl_item sh \<and> dl_disk sh' = dl_disk sh \<and>
     dl_table sh' = dl_table sh \<and> dl_mult sh' = dl_mult sh \<and> dl_heal sh' \<le> dl_heal sh \<and>
     dl_cancelled sh' = dl_cancelled sh \<and> (b \<longrightarrow> dl_heal sh' + 1 = dl_heal sh)"
  by (auto simp: attempt_cdn_link_refresh_def split: if_splits sum.splits)

lemma headers_step_claims:
  assumes "headers_step base ev s e r sh = (w', sh')"
  shows "keeps_claims (Headers s e r) sh w' sh' \<or> (w' = WFailed \<and> drops_claims (Headers s e r) sh w' sh')"
proof (cases "(base, ev, s, e, r, sh)" rule: headers_step.cases)
  case (3 base' err refresh s' e' retries sh1)
  obtain b sh2 where a: "attempt_cdn_link_refresh err refresh sh = (b, sh2)" by (metis surj_pair)
  note fr = attempt_refresh_frame [OF a]
  show ?thesis
  proof (cases b)
    case True
    with assms 3 a fr show ?thesis by (auto simp: keeps_claims_def)
  next
    case False
    with assms 3 a have "retry_chunk base s e r sh2 = (w', sh')" by simp
    from retry_chunk_claims [OF this, of "Headers s e r"] fr show ?thesis
      by (simp add: keeps_claims_def drops_claims_def)
  qed
next
  case (2 base' s' e' retries sh1)
  with assms retry_chunk_claims [of base s e r sh w' sh' "Headers s e r"] show ?thesis by simp
qed (use assms in \<open>auto simp: keeps_claims_def drops_claims_def split: if_splits\<close>)

lemma body_step_claims:
  assumes "body_step base ev s e r pos sh = (w', sh')"
  shows "keeps_claims (Body s e r pos) sh w' sh' \<or>
    (drops_claims (Body s e r pos) sh w' sh' \<and> (w' = WFailed \<or> (w' = Idle \<and> ev = BodyEof)))"
proof (cases "(base, ev, s, e, r, pos, sh)" rule: body_step.cases)
  case (1 base' data fault db_ok now s' e' retries pos' sh1)
  obtain res item d t where wr: "write_range fault db_ok now pos data (dl_item sh) (dl_disk sh) (dl_table sh) = (res, item, d, t)"
    by (metis surj_pair)
  show ?thesis
  proof (cases res)
    case (Inl err)
    with assms 1 wr have "retry_chunk base s e r (sh\<lparr>dl_item := item, dl_disk := d, dl_table := t\<rparr>) = (w', sh')"
      by simp
    from retry_chunk_claims [OF this, of "Body s e r pos"] show ?thesis
      by (auto simp: keeps_claims_def drops_claims_def)
  next
    case (Inr u)
    with assms 1 wr show ?thesis by (auto simp: keeps_claims_def)
  qed
next
  case (2 base' s' e' retries pos' sh1)
  with assms retry_chunk_claims [of base s e r sh w' sh' "Body s e r pos"] show ?thesis by auto
next
  case (3 base' s' e' retries pos' sh1)
  with assms retry_chunk_claims [of base s e r sh w' sh' "Body s e r pos"] show ?thesis by auto
qed (use assms in \<open>auto simp: keeps_claims_def drops_claims_def\<close>)

lemma worker_step_claims:
  assumes "worker_step base ev w sh = (w', sh')"
  shows "keeps_claims w sh w' sh' \<or>
    (drops_claims w sh w' sh' \<and>
     (dl_cancelled sh \<or> w' = WFailed \<or> (w' = Idle \<and> ev = BodyEof \<and> (\<exists>s e r pos. w = Body s e r pos))))"
proof (cases "dl_cancelled sh")
  case True
  with assms show ?thesis by (cases w) (auto simp: keeps_claims_def drops_claims_def)
next
  case False
  show ?thesis
  proof (cases w)
    case Idle
    with assms False take_chunk_keeps [of base sh w' sh' Idle] show ?thesis
      by (auto simp: keeps_claims_def split: if_splits)
  next
    case PauseWait
    with assms False take_chunk_keeps [of base sh w' sh' PauseWait] show ?thesis
      by (auto simp: keeps_claims_def split: if_splits)
  next
    case (Headers s e r)
    with assms False headers_step_claims [of base ev s e r sh w' sh'] show ?thesis by auto
  next
    case (Body s e r pos)
    with assms False body_step_claims [of base ev s e r pos sh w' sh'] show ?thesis by auto
  qed (use assms in \<open>auto simp: keeps_claims_def\<close>)
qed

section \<open>Invariants of a run\<close>

definition sh_ok :: "byte list \<Rightarrow> dl_shared \<Rightarrow> bool" where
  "sh_ok remote sh \<longleftrightarrow>
     item_coherent remote (dl_item sh) (dl_disk sh) \<and>
     row_coherent remote (ci_path (dl_item sh)) (ci_cache_key (dl_item sh)) (dl_disk sh) (dl_table sh) \<and>
     (\<forall>(s, e) \<in> set (dl_queue sh). s \<le> e \<and> e \<le> length remote) \<and>
     1 \<le> dl_mult sh \<and> dl_mult sh \<le> 16 \<and> dl_heal sh \<le> MAX_SESSION_LINK_HEALS"

fun w_ok :: "byte list \<Rightarrow> nat set \<Rightarrow> worker_state \<Rightarrow> bool" where
  "w_ok remote have (Headers s e r) = (s \<le> e \<and> e \<le> length remote \<and> r < MAX_DOWNLOAD_RETRIES)"
| "w_ok remote have (Body s e r pos) =
     (s \<le> e \<and> e \<le> length remote \<and> r < MAX_DOWNLOAD_RETRIES \<and>
      s \<le> pos \<and> pos \<le> length remote \<and> {s..<pos} \<subseteq> have)"
| "w_ok remote have _ = True"

abbreviation cov :: "dl_shared \<Rightarrow> nat set" where
  "cov sh \<equiv> covered (ci_ranges (dl_item sh))"

text \<open>The server is honest: a piece of the body is what the remote file has at the position of the
  stream, and the body of a chunk does not end before the chunk does.\<close>

fun honest :: "byte list \<Rightarrow> worker_event \<Rightarrow> worker_state \<Rightarrow> bool" where
  "honest remote (BodyData data _ _ _) (Body s e r pos) = (data = piece remote pos (length data))"
| "honest remote BodyEof (Body s e r pos) = (e \<le> pos)"
| "honest remote _ _ = True"

lemma w_ok_mono: "w_ok remote A w \<Longrightarrow> A \<subseteq> B \<Longrightarrow> w_ok remote B w"
  by (cases w) auto

lemma retry_chunk_ok:
  assumes "retry_chunk base s e r sh = (w', sh')" and "sh_ok remote sh" and "s \<le> e" "e \<le> length remote"
  shows "sh_ok remote sh' \<and> w_ok remote A w' \<and> dl_item sh' = dl_item sh \<and> dl_cancelled sh' = dl_cancelled sh"
  using assms
  by (auto simp: retry_chunk_def shrink_chunk_def sh_ok_def Let_def split: if_splits)

lemma take_chunk_ok:
  assumes "take_chunk base sh = (w', sh')" and "sh_ok remote sh"
  shows "sh_ok remote sh' \<and> w_ok remote A w' \<and> dl_item sh' = dl_item sh \<and> dl_cancelled sh' = dl_cancelled sh"
proof (cases "dl_queue sh")
  case Nil
  with assms show ?thesis by (auto simp: take_chunk_def pop_chunk_def)
next
  case (Cons iv q)
  obtain a b where iv: "iv = (a, b)" by (cases iv)
  let ?c = "min (sat_mul64 base (dl_mult sh)) (b - a)"
  from assms(1) Cons iv have w': "w' = Headers a (a + ?c) 0"
    and sh': "sh' = sh\<lparr>dl_queue := if a + ?c < b then (a + ?c, b) # q else q\<rparr>"
    by (auto simp: take_chunk_def pop_chunk_def Let_def split: if_splits)
  have ab: "a \<le> b" "b \<le> length remote" using assms(2) Cons iv by (auto simp: sh_ok_def)
  then have "a + ?c \<le> b" by linarith
  with ab assms(2) Cons iv show ?thesis
    unfolding w' sh' by (auto simp: sh_ok_def MAX_DOWNLOAD_RETRIES_def)
qed

lemma headers_step_ok:
  assumes "headers_step base ev s e r sh = (w', sh')" and "sh_ok remote sh" and "w_ok remote A (Headers s e r)"
  shows "sh_ok remote sh' \<and> w_ok remote A w' \<and> dl_item sh' = dl_item sh \<and> dl_cancelled sh' = dl_cancelled sh"
proof (cases "(base, ev, s, e, r, sh)" rule: headers_step.cases)
  case (3 base' err refresh s' e' retries sh1)
  obtain b sh2 where a: "attempt_cdn_link_refresh err refresh sh = (b, sh2)" by (metis surj_pair)
  note fr = attempt_refresh_frame [OF a]
  have ok2: "sh_ok remote sh2" using fr assms(2) by (auto simp: sh_ok_def)
  show ?thesis
  proof (cases b)
    case True
    with assms 3 a fr ok2 show ?thesis by (auto simp: MAX_DOWNLOAD_RETRIES_def)
  next
    case False
    with assms(1) 3 a have "retry_chunk base s e r sh2 = (w', sh')" by simp
    from retry_chunk_ok [OF this ok2, of A] fr assms(3) show ?thesis by simp
  qed
next
  case (2 base' s' e' retries sh1)
  with assms retry_chunk_ok [of base s e r sh w' sh' remote A] show ?thesis by simp
qed (use assms in \<open>auto split: if_splits\<close>)

lemma body_step_ok:
  assumes run: "body_step base ev s e r pos sh = (w', sh')" and ok: "sh_ok remote sh"
    and w: "w_ok remote (cov sh) (Body s e r pos)" and hon: "honest remote ev (Body s e r pos)"
    and len: "length remote < 2 ^ 63"
  shows "sh_ok remote sh' \<and> w_ok remote (cov sh') w' \<and> cov sh \<subseteq> cov sh' \<and> dl_cancelled sh' = dl_cancelled sh \<and>
    (ev = BodyEof \<longrightarrow> {s..<e} \<subseteq> cov sh')"
proof (cases "(base, ev, s, e, r, pos, sh)" rule: body_step.cases)
  case (1 base' data fault db_ok now s' e' retries pos' sh1)
  then have data: "data = piece remote pos (length data)" using hon by simp
  obtain res item d t where wr0: "write_range fault db_ok now pos data (dl_item sh) (dl_disk sh) (dl_table sh) = (res, item, d, t)"
    by (metis surj_pair)
  then have wr: "write_range fault db_ok now pos (piece remote pos (length data)) (dl_item sh) (dl_disk sh) (dl_table sh) =
      (res, item, d, t)" using data by simp
  let ?sh = "sh\<lparr>dl_item := item, dl_disk := d, dl_table := t\<rparr>"
  have c: "item_coherent remote (dl_item sh) (dl_disk sh)"
    "row_coherent remote (ci_path (dl_item sh)) (ci_cache_key (dl_item sh)) (dl_disk sh) (dl_table sh)"
    using ok by (auto simp: sh_ok_def)
  note W = write_range_coherent [OF c(1) len c(2) wr]
  have ok1: "sh_ok remote ?sh" using ok W by (auto simp: sh_ok_def)
  have sub: "cov sh \<subseteq> cov ?sh" using W by (cases "res = Inr ()") auto
  show ?thesis
  proof (cases res)
    case (Inl err)
    with run 1 wr0 have "retry_chunk base s e r ?sh = (w', sh')" by simp
    from retry_chunk_ok [OF this ok1, of "cov sh'"] w sub 1 show ?thesis by auto
  next
    case (Inr u)
    have le: "pos + length data \<le> length remote"
      using data w by (metis length_piece add.commute add_le_imp_le_diff le_add_diff_inverse2
          min.cobounded2 nat_add_left_cancel_le w_ok.simps(2) le_diff_conv2)
    then have "wadd64 pos (length data) = pos + length data"
      using len by (intro wadd64_exact) (simp add: u64_bound_def)
    with run 1 wr0 Inr have w': "w' = Body s e r (pos + length data)" and sh': "sh' = ?sh" by auto
    have "length (piece remote pos (length data)) = length data" by (simp only: data [symmetric])
    with W Inr have "cov ?sh = cov sh \<union> {pos..<pos + length data}" by simp
    with w le ok1 sub 1 show ?thesis by (auto simp: w' sh')
  qed
next
  case (2 base' s' e' retries pos' sh1)
  with assms retry_chunk_ok [of base s e r sh w' sh' remote "cov sh'"] show ?thesis by auto
next
  case (3 base' s' e' retries pos' sh1)
  with assms retry_chunk_ok [of base s e r sh w' sh' remote "cov sh'"] show ?thesis by auto
next
  case (4 base' s' e' retries pos' sh1)
  with assms show ?thesis by (auto simp: sh_ok_def subset_iff)
qed (use assms in auto)

lemma worker_step_ok:
  assumes "worker_step base ev w sh = (w', sh')" and "sh_ok remote sh" and "w_ok remote (cov sh) w"
    and "honest remote ev w" and "length remote < 2 ^ 63"
  shows "sh_ok remote sh' \<and> w_ok remote (cov sh') w' \<and> cov sh \<subseteq> cov sh' \<and> dl_cancelled sh' = dl_cancelled sh \<and>
    (\<forall>s e r pos. w = Body s e r pos \<and> ev = BodyEof \<and> \<not> dl_cancelled sh \<longrightarrow> {s..<e} \<subseteq> cov sh')"
proof (cases "dl_cancelled sh")
  case True
  with assms show ?thesis by (cases w) auto
next
  case False
  show ?thesis
  proof (cases w)
    case Idle
    with assms False take_chunk_ok [of base sh w' sh' remote "cov sh'"] show ?thesis by (auto split: if_splits)
  next
    case PauseWait
    with assms False take_chunk_ok [of base sh w' sh' remote "cov sh'"] show ?thesis by (auto split: if_splits)
  next
    case (Headers s e r)
    with assms False headers_step_ok [of base ev s e r sh w' sh' remote "cov sh"] show ?thesis by auto
  next
    case (Body s e r pos)
    with assms False body_step_ok [of base ev s e r pos sh w' sh' remote] show ?thesis by auto
  qed (use assms in auto)
qed

text \<open>A worker ends normally only on an empty queue.\<close>

lemma worker_step_done:
  assumes "worker_step base ev w sh = (WDone, sh')" and "\<not> dl_cancelled sh" and "w \<noteq> WDone"
  shows "dl_queue sh' = []"
proof -
  have take: "take_chunk base sh = (WDone, sh') \<Longrightarrow> dl_queue sh' = []"
    by (auto simp: take_chunk_def pop_chunk_def Let_def split: list.splits prod.splits option.splits)
  have retry: "retry_chunk base s e r shx \<noteq> (WDone, sh')" for s e r shx
    by (auto simp: retry_chunk_def split: prod.splits)
  have hd: "headers_step base ev s e r sh \<noteq> (WDone, sh')" for s e r
    by (cases "(base, ev, s, e, r, sh)" rule: headers_step.cases)
      (auto simp: retry split: prod.splits bool.splits)
  have bd: "body_step base ev s e r pos sh \<noteq> (WDone, sh')" for s e r pos
    by (cases "(base, ev, s, e, r, pos, sh)" rule: body_step.cases)
      (auto simp: retry Let_def split: prod.splits sum.splits)
  from assms take hd bd show ?thesis by (cases w) (auto split: if_splits)
qed

definition dl_inv :: "byte list \<Rightarrow> u64 \<Rightarrow> u64 \<Rightarrow> dl_system \<Rightarrow> bool" where
  "dl_inv remote start target sys \<longleftrightarrow>
     (case sys of (ws, sh) \<Rightarrow>
        sh_ok remote sh \<and> (\<forall>w \<in> set ws. w_ok remote (cov sh) w) \<and>
        (\<forall>x. cnt x (dl_queue sh) + in_flight x ws \<le> 1) \<and>
        (\<not> dl_cancelled sh \<and> WFailed \<notin> set ws \<longrightarrow>
           (\<forall>x \<in> {start..<target}. x \<in> cov sh \<or> 0 < cnt x (dl_queue sh) + in_flight x ws) \<and>
           (dl_queue sh \<noteq> [] \<longrightarrow> (\<exists>w \<in> set ws. w \<noteq> WDone))))"

definition honest_step :: "byte list \<Rightarrow> dl_event \<Rightarrow> dl_system \<Rightarrow> bool" where
  "honest_step remote ev sys =
     (case ev of WorkerEv i wev \<Rightarrow> i < length (fst sys) \<longrightarrow> honest remote wev (fst sys ! i) | _ \<Rightarrow> True)"

lemma claims_step:
  assumes "i < length ws" and "worker_step base ev (ws ! i) sh = (w', sh')"
    and "cnt x (dl_queue sh) + in_flight x ws \<le> 1"
  shows "cnt x (dl_queue sh') + in_flight x (ws[i := w']) \<le> 1"
  using worker_step_claims [OF assms(2)] in_flight_update [OF assms(1), of x w'] assms(3)
  by (auto simp: keeps_claims_def drops_claims_def dest!: spec [of _ x])

lemma claimed_step:
  assumes i: "i < length ws" and run: "worker_step base ev (ws ! i) sh = (w', sh')"
    and ok: "sh_ok remote sh" "w_ok remote (cov sh) (ws ! i)" and hon: "honest remote ev (ws ! i)"
    and len: "length remote < 2 ^ 63"
    and live: "\<not> dl_cancelled sh" "w' \<noteq> WFailed"
    and x: "x \<in> cov sh \<or> 0 < cnt x (dl_queue sh) + in_flight x ws"
  shows "x \<in> cov sh' \<or> 0 < cnt x (dl_queue sh') + in_flight x (ws[i := w'])"
proof -
  note S = worker_step_ok [OF run ok hon len]
  from worker_step_claims [OF run] live consider
      (keep) "keeps_claims (ws ! i) sh w' sh'"
    | (eof) s e r pos where "drops_claims (ws ! i) sh w' sh'" "ev = BodyEof" "ws ! i = Body s e r pos"
    by auto
  then show ?thesis
  proof cases
    case keep
    then have "cnt x (dl_queue sh') + cnt x (active_chunk w') = cnt x (dl_queue sh) + cnt x (active_chunk (ws ! i))"
      by (simp add: keeps_claims_def)
    with in_flight_update [OF i, of x w'] x S show ?thesis by auto
  next
    case eof
    then have sub: "{s..<e} \<subseteq> cov sh'" using S live by blast
    have "cnt x (active_chunk (ws ! i)) = (if s \<le> x \<and> x < e then 1 else 0)" using eof by simp
    with in_flight_update [OF i, of x w'] x S eof sub show ?thesis
      by (auto simp: drops_claims_def split: if_splits)
  qed
qed

lemma dl_step_inv:
  assumes inv: "dl_inv remote start target sys" and hon: "honest_step remote ev sys"
    and len: "length remote < 2 ^ 63"
  shows "dl_inv remote start target (dl_step base ev sys)"
proof -
  obtain ws sh where sys: "sys = (ws, sh)" by (cases sys)
  have I: "sh_ok remote sh" "\<forall>w \<in> set ws. w_ok remote (cov sh) w"
    "\<And>x. cnt x (dl_queue sh) + in_flight x ws \<le> 1"
    "\<not> dl_cancelled sh \<and> WFailed \<notin> set ws \<Longrightarrow>
       (\<forall>x \<in> {start..<target}. x \<in> cov sh \<or> 0 < cnt x (dl_queue sh) + in_flight x ws) \<and>
       (dl_queue sh \<noteq> [] \<longrightarrow> (\<exists>w \<in> set ws. w \<noteq> WDone))"
    using inv unfolding dl_inv_def sys by auto
  show ?thesis
  proof (cases ev)
    case CancelSession
    with I show ?thesis by (simp add: sys dl_inv_def sh_ok_def)
  next
    case (SetPaused b)
    with I show ?thesis by (simp add: sys dl_inv_def sh_ok_def)
  next
    case (WorkerEv i wev)
    show ?thesis
    proof (cases "i < length ws")
      case False
      with inv WorkerEv show ?thesis by (simp add: sys)
    next
      case i: True
      obtain w' sh' where run: "worker_step base wev (ws ! i) sh = (w', sh')" by (metis surj_pair)
      have wi: "w_ok remote (cov sh) (ws ! i)" using I(2) i by simp
      have h: "honest remote wev (ws ! i)" using hon i by (simp add: honest_step_def WorkerEv sys)
      note S = worker_step_ok [OF run I(1) wi h len]
      have ws': "\<forall>w \<in> set (ws[i := w']). w_ok remote (cov sh') w"
        using I(2) S w_ok_mono [of remote "cov sh" _ "cov sh'"] by (auto dest!: set_update_subset_insert [THEN subsetD])
      have cl: "cnt x (dl_queue sh') + in_flight x (ws[i := w']) \<le> 1" for x
        by (rule claims_step [OF i run I(3)])
      have live: "(\<forall>x \<in> {start..<target}. x \<in> cov sh' \<or> 0 < cnt x (dl_queue sh') + in_flight x (ws[i := w'])) \<and>
         (dl_queue sh' \<noteq> [] \<longrightarrow> (\<exists>w \<in> set (ws[i := w']). w \<noteq> WDone))"
        if l: "\<not> dl_cancelled sh'" "WFailed \<notin> set (ws[i := w'])"
      proof -
        have w': "w' \<in> set (ws[i := w'])" using i by (rule set_update_memI)
        have nc: "\<not> dl_cancelled sh" using S l by simp
        have nf: "WFailed \<notin> set ws"
        proof
          assume "WFailed \<in> set ws"
          then obtain j where j: "j < length ws" "ws ! j = WFailed" by (auto simp: in_set_conv_nth)
          with run have "ws[i := w'] ! j = WFailed" by (cases "i = j") auto
          with l(2) j(1) show False by (metis length_list_update nth_mem)
        qed
        note L = I(4) [OF conjI [OF nc nf]]
        have nf': "w' \<noteq> WFailed" using w' l(2) by auto
        have "\<forall>x \<in> {start..<target}. x \<in> cov sh' \<or> 0 < cnt x (dl_queue sh') + in_flight x (ws[i := w'])"
        proof
          fix x
          assume "x \<in> {start..<target}"
          with L have "x \<in> cov sh \<or> 0 < cnt x (dl_queue sh) + in_flight x ws" by simp
          then show "x \<in> cov sh' \<or> 0 < cnt x (dl_queue sh') + in_flight x (ws[i := w'])"
            by (rule claimed_step [OF i run I(1) wi h len nc nf'])
        qed
        moreover have "\<exists>w \<in> set (ws[i := w']). w \<noteq> WDone" if q: "dl_queue sh' \<noteq> []"
        proof (cases "w' = WDone")
          case False
          with w' show ?thesis by blast
        next
          case True
          with worker_step_done run nc q have wd: "ws ! i = WDone" by blast
          with run True have "sh' = sh" "ws[i := w'] = ws" by (auto simp: list_update_same_conv i)
          with L q show ?thesis by simp
        qed
        ultimately show ?thesis by blast
      qed
      have step: "dl_step base ev sys = (ws[i := w'], sh')" by (simp add: WorkerEv sys run i)
      show ?thesis
        unfolding step dl_inv_def prod.case
      proof (intro conjI allI impI)
        show "sh_ok remote sh'" using S by simp
        show "Ball (set (ws[i := w'])) (w_ok remote (cov sh'))" by (rule ws')
        show "cnt x (dl_queue sh') + in_flight x (ws[i := w']) \<le> 1" for x by (rule cl)
      qed (elim conjE, drule (1) live, simp)+
    qed
  qed
qed

section \<open>Runs\<close>

inductive dl_run :: "byte list \<Rightarrow> u64 \<Rightarrow> dl_system \<Rightarrow> dl_system \<Rightarrow> bool" for remote base where
  dl_refl: "dl_run remote base sys sys"
| dl_next: "dl_run remote base sys sys' \<Longrightarrow> honest_step remote ev sys' \<Longrightarrow>
    dl_run remote base sys (dl_step base ev sys')"

lemma dl_run_inv:
  "dl_run remote base sys sys' \<Longrightarrow> dl_inv remote start target sys \<Longrightarrow> length remote < 2 ^ 63 \<Longrightarrow>
     dl_inv remote start target sys'"
  by (induction rule: dl_run.induct) (auto intro: dl_step_inv)

lemma cnt_missing_slices: "cnt x (missing_slices r pos target) \<le> 1"
proof (induction r pos target rule: missing_slices.induct)
  case (1 r pos target)
  show ?case
  proof (cases "pos < target \<and> find_missing r pos target \<noteq> None")
    case False
    then show ?thesis by (simp add: missing_slices_stop)
  next
    case True
    then obtain a b where ab: "find_missing r pos target = Some (a, b)" by auto
    have step: "missing_slices r pos target = (a, b) # missing_slices r b target"
      using True ab missing_slices_step by blast
    have IH: "cnt x (missing_slices r b target) \<le> 1" using "1.IH" True ab by auto
    have "cnt x (missing_slices r b target) = 0" if "x < b"
    proof -
      have "x \<notin> ivs_bytes (missing_slices r b target)"
        using that by (auto simp: ivs_bytes_def dest: missing_slices_bounds)
      then show ?thesis using cnt_pos_iff by fastforce
    qed
    with IH show ?thesis by (auto simp: step)
  qed
qed

lemma in_flight_replicate_Idle [simp]: "in_flight x (replicate n Idle) = 0"
  by (simp add: in_flight_def sum_list_replicate)

lemma run_downloader_init_inv:
  assumes "item_coherent remote item d" and "row_coherent remote (ci_path item) (ci_cache_key item) d t"
    and "run_downloader_init start stop ra streams url paused item d t = Some sys"
  shows "dl_inv remote start (min (wadd64 stop ra) (length remote)) sys"
proof -
  let ?target = "min (wadd64 stop ra) (length remote)"
  have sz: "ci_file_size item = length remote" and inv: "ranges_inv (ci_ranges item)"
    using assms(1) by (auto simp: item_coherent_def file_agrees_def)
  let ?ms = "missing_slices (ci_ranges item) start ?target"
  from assms(3) sz obtain sh where sys: "sys = (replicate (max streams 1) Idle, sh)"
    and sh: "dl_queue sh = ?ms" "dl_item sh = item" "dl_disk sh = d" "dl_table sh = t" "dl_mult sh = 1"
      "dl_heal sh = MAX_SESSION_LINK_HEALS" "\<not> dl_cancelled sh"
    by (auto simp: run_downloader_init_def Let_def split: if_splits)
  have "\<forall>(s, e) \<in> set ?ms. s \<le> e \<and> e \<le> length remote"
    by (auto dest!: missing_slices_bounds)
  with assms(1,2) sh have "sh_ok remote sh" by (simp add: sh_ok_def)
  moreover have "\<forall>x \<in> {start..<?target}. x \<in> cov sh \<or> 0 < cnt x (dl_queue sh)"
    using missing_slices_bytes [OF inv, of start ?target] by (auto simp: sh cnt_pos_iff)
  moreover have "\<exists>w \<in> set (replicate (max streams 1) Idle). w \<noteq> WDone" by (auto simp: set_replicate_conv_if)
  moreover have "\<forall>x. cnt x (dl_queue sh) \<le> 1" unfolding sh by (intro allI cnt_missing_slices)
  ultimately show ?thesis by (auto simp: sys dl_inv_def)
qed

section \<open>A measure of the work left\<close>

definition bytes_of :: "interval list \<Rightarrow> nat" where
  "bytes_of ivs = sum_list (map (\<lambda>(s, e). e - s) ivs)"

lemma bytes_of_simps [simp]: "bytes_of [] = 0" "bytes_of ((s, e) # ivs) = (e - s) + bytes_of ivs"
  by (simp_all add: bytes_of_def)

fun weight :: "worker_state \<Rightarrow> nat" where
  "weight Idle = 8"
| "weight PauseWait = 7"
| "weight (Headers s e r) = 2 * (3 - r)"
| "weight (Body s e r pos) = 2 * (3 - r) - 1"
| "weight WDone = 0"
| "weight WFailed = 0"

definition local_work :: "worker_state \<Rightarrow> dl_shared \<Rightarrow> nat" where
  "local_work w sh = 8 * (bytes_of (dl_queue sh) + bytes_of (active_chunk w)) + 5 * dl_heal sh + weight w"

fun w_pos :: "worker_state \<Rightarrow> bool" where
  "w_pos (Headers s e r) = (s < e \<and> r < 3)"
| "w_pos (Body s e r pos) = (s < e \<and> r < 3)"
| "w_pos _ = True"

definition sh_pos :: "dl_shared \<Rightarrow> bool" where
  "sh_pos sh \<longleftrightarrow> (\<forall>(s, e) \<in> set (dl_queue sh). s < e) \<and> 1 \<le> dl_mult sh"

text \<open>A step makes progress, or the worker stays where it is (a piece of the body arrived, or nothing
  happened).\<close>

definition stays :: "worker_state \<Rightarrow> worker_state \<Rightarrow> bool" where
  "stays w w' \<longleftrightarrow> w' = w \<or> (\<exists>s e r pos pos'. w = Body s e r pos \<and> w' = Body s e r pos')"

lemma retry_chunk_work:
  assumes "retry_chunk base s e r sh = (w', sh')" and "0 < base" "s < e" "r < 3" "sh_pos sh"
  shows "8 * (bytes_of (dl_queue sh') + bytes_of (active_chunk w')) + 5 * dl_heal sh' + weight w' + 1
      < 8 * (bytes_of (dl_queue sh) + (e - s)) + 5 * dl_heal sh + 2 * (3 - r) \<and>
    w_pos w' \<and> sh_pos sh'"
  using assms
  by (auto simp: retry_chunk_def shrink_chunk_def sh_pos_def MAX_DOWNLOAD_RETRIES_def Let_def split: if_splits)

lemma take_chunk_work:
  assumes "take_chunk base sh = (w', sh')" and "0 < base" "sh_pos sh"
  shows "local_work w' sh' \<le> 8 * bytes_of (dl_queue sh) + 5 * dl_heal sh + 6 \<and> w_pos w' \<and> sh_pos sh'"
proof (cases "dl_queue sh")
  case Nil
  with assms show ?thesis by (auto simp: take_chunk_def pop_chunk_def local_work_def)
next
  case (Cons iv q)
  obtain a b where iv: "iv = (a, b)" by (cases iv)
  let ?c = "min (sat_mul64 base (dl_mult sh)) (b - a)"
  from assms(1) Cons iv have w': "w' = Headers a (a + ?c) 0"
    and sh': "sh' = sh\<lparr>dl_queue := if a + ?c < b then (a + ?c, b) # q else q\<rparr>"
    by (auto simp: take_chunk_def pop_chunk_def Let_def split: if_splits)
  have ab: "a < b" "\<forall>(s, e) \<in> set q. s < e" "1 \<le> dl_mult sh" using assms(3) Cons iv by (auto simp: sh_pos_def)
  have "1 \<le> base * dl_mult sh" using assms(2) ab(3) by simp
  then have "0 < sat_mul64 base (dl_mult sh)" by (simp add: sat_mul64_def u64_bound_def)
  with ab have "0 < ?c" "a + ?c \<le> b" by auto
  with ab Cons iv show ?thesis
    unfolding w' sh' by (auto simp: local_work_def sh_pos_def)
qed

lemma headers_step_work:
  assumes "headers_step base ev s e r sh = (w', sh')" and "0 < base" "w_pos (Headers s e r)" "sh_pos sh"
  shows "(w' = Headers s e r \<and> sh' = sh \<or> local_work w' sh' < local_work (Headers s e r) sh) \<and>
    w_pos w' \<and> sh_pos sh'"
proof (cases "(base, ev, s, e, r, sh)" rule: headers_step.cases)
  case (3 base' err refresh s' e' retries sh1)
  obtain b sh2 where a: "attempt_cdn_link_refresh err refresh sh = (b, sh2)" by (metis surj_pair)
  note fr = attempt_refresh_frame [OF a]
  have pos2: "sh_pos sh2" using fr assms(4) by (simp add: sh_pos_def)
  show ?thesis
  proof (cases b)
    case True
    with assms 3 a fr pos2 show ?thesis by (auto simp: local_work_def)
  next
    case False
    with assms(1) 3 a have "retry_chunk base s e r sh2 = (w', sh')" by simp
    from retry_chunk_work [OF this assms(2)] fr assms(3) pos2 show ?thesis by (auto simp: local_work_def)
  qed
next
  case (2 base' s' e' retries sh1)
  with assms retry_chunk_work [of base s e r sh w' sh'] show ?thesis by (auto simp: local_work_def)
qed (use assms in \<open>auto simp: local_work_def MAX_DOWNLOAD_RETRIES_def split: if_splits\<close>)

lemma body_step_work:
  assumes "body_step base ev s e r pos sh = (w', sh')" and "0 < base" "w_pos (Body s e r pos)" "sh_pos sh"
  shows "(stays (Body s e r pos) w' \<or> local_work w' sh' < local_work (Body s e r pos) sh) \<and>
    dl_heal sh' = dl_heal sh \<and> w_pos w' \<and> sh_pos sh' \<and> (stays (Body s e r pos) w' \<longrightarrow> dl_queue sh' = dl_queue sh)"
proof (cases "(base, ev, s, e, r, pos, sh)" rule: body_step.cases)
  case (1 base' data fault db_ok now s' e' retries pos' sh1)
  obtain res item d t where wr: "write_range fault db_ok now pos data (dl_item sh) (dl_disk sh) (dl_table sh) = (res, item, d, t)"
    by (metis surj_pair)
  let ?sh = "sh\<lparr>dl_item := item, dl_disk := d, dl_table := t\<rparr>"
  show ?thesis
  proof (cases res)
    case (Inl err)
    with assms(1) 1 wr have run: "retry_chunk base s e r ?sh = (w', sh')" by simp
    have "sh_pos ?sh" using assms(4) by (simp add: sh_pos_def)
    moreover have "dl_heal sh' = dl_heal sh" using run
      by (auto simp: retry_chunk_def shrink_chunk_def Let_def split: if_splits)
    moreover have "\<not> stays (Body s e r pos) w'" using run
      by (auto simp: retry_chunk_def stays_def split: if_splits prod.splits)
    ultimately show ?thesis
      using retry_chunk_work [OF run assms(2)] assms(3) by (auto simp: local_work_def)
  next
    case (Inr u)
    with assms 1 wr show ?thesis by (auto simp: stays_def sh_pos_def)
  qed
next
  case (4 base' s' e' retries pos' sh1)
  with assms show ?thesis by (auto simp: local_work_def sh_pos_def stays_def)
next
  case (2 base' s' e' retries pos' sh1)
  then have run: "retry_chunk base s e r sh = (w', sh')" using assms(1) by simp
  then have "dl_heal sh' = dl_heal sh" "\<not> stays (Body s e r pos) w'"
    by (auto simp: retry_chunk_def shrink_chunk_def stays_def Let_def split: if_splits)
  with retry_chunk_work [OF run assms(2)] assms(3,4) show ?thesis by (auto simp: local_work_def)
next
  case (3 base' s' e' retries pos' sh1)
  then have run: "retry_chunk base s e r sh = (w', sh')" using assms(1) by simp
  then have "dl_heal sh' = dl_heal sh" "\<not> stays (Body s e r pos) w'"
    by (auto simp: retry_chunk_def shrink_chunk_def stays_def Let_def split: if_splits)
  with retry_chunk_work [OF run assms(2)] assms(3,4) show ?thesis by (auto simp: local_work_def)
qed (use assms in \<open>auto simp: stays_def\<close>)

text \<open>A step moves a worker when it changes its state, other than by a piece of the body, or spends a
  link refresh.\<close>

definition moves :: "worker_state \<Rightarrow> dl_shared \<Rightarrow> worker_state \<Rightarrow> dl_shared \<Rightarrow> bool" where
  "moves w sh w' sh' \<longleftrightarrow> \<not> stays w w' \<or> dl_heal sh' \<noteq> dl_heal sh"

lemma stays_work: "stays w w' \<Longrightarrow> dl_queue sh' = dl_queue sh \<Longrightarrow> dl_heal sh' = dl_heal sh \<Longrightarrow>
    local_work w' sh' = local_work w sh"
  by (auto simp: stays_def local_work_def)

lemma worker_step_work:
  assumes "worker_step base ev w sh = (w', sh')" and "0 < base" "w_pos w" "sh_pos sh"
  shows "local_work w' sh' \<le> local_work w sh \<and> (moves w sh w' sh' \<longrightarrow> local_work w' sh' < local_work w sh) \<and>
    w_pos w' \<and> sh_pos sh'"
proof -
  have same: ?thesis if "w' = w" "sh' = sh" using that assms by (simp add: moves_def stays_def)
  have less: ?thesis if "local_work w' sh' < local_work w sh" "w_pos w'" "sh_pos sh'" using that by simp
  show ?thesis
  proof (cases "dl_cancelled sh")
    case True
    then have "w' = w \<and> sh' = sh \<or> w' = WDone \<and> sh' = sh \<and> 0 < weight w"
      using assms(1,3) by (cases w) auto
    then show ?thesis
    proof (elim disjE conjE)
      assume "w' = w" "sh' = sh"
      then show ?thesis by (rule same)
    next
      assume "w' = WDone" "sh' = sh" "0 < weight w"
      with assms(4) show ?thesis by (intro less) (simp_all add: local_work_def)
    qed
  next
    case nc: False
    show ?thesis
    proof (cases w)
      case Idle
      have "(if ev = Turn then (if dl_paused sh then (PauseWait, sh) else take_chunk base sh) else (Idle, sh)) = (w', sh')"
        using assms(1) nc Idle by simp
      then consider "(Idle, sh) = (w', sh')" | "(PauseWait, sh) = (w', sh')" | "take_chunk base sh = (w', sh')"
        by argo
      then show ?thesis
      proof cases
        case 1
        with Idle show ?thesis by (intro same) auto
      next
        case 2
        with Idle assms(4) show ?thesis by (intro less) (auto simp: local_work_def)
      next
        case 3
        from take_chunk_work [OF this assms(2,4)] Idle show ?thesis by (intro less) (simp_all add: local_work_def)
      qed
    next
      case PauseWait
      have "(if ev = PauseChanged then take_chunk base sh else (PauseWait, sh)) = (w', sh')"
        using assms(1) nc PauseWait by simp
      then consider "(PauseWait, sh) = (w', sh')" | "take_chunk base sh = (w', sh')"
        by argo
      then show ?thesis
      proof cases
        case 1
        with PauseWait show ?thesis by (intro same) auto
      next
        case 2
        from take_chunk_work [OF this assms(2,4)] PauseWait show ?thesis by (intro less) (simp_all add: local_work_def)
      qed
    next
      case (Headers s e r)
      with assms(1) nc have "headers_step base ev s e r sh = (w', sh')" by simp
      from headers_step_work [OF this assms(2) _ assms(4)] assms(3) Headers
      have H: "w' = w \<and> sh' = sh \<or> local_work w' sh' < local_work w sh" "w_pos w'" "sh_pos sh'" by auto
      from H(1) show ?thesis
      proof (elim disjE conjE)
        assume "w' = w" "sh' = sh"
        then show ?thesis by (rule same)
      next
        assume "local_work w' sh' < local_work w sh"
        then show ?thesis using H(2,3) by (rule less)
      qed
    next
      case (Body s e r pos)
      with assms(1) nc have "body_step base ev s e r pos sh = (w', sh')" by simp
      from body_step_work [OF this assms(2) _ assms(4)] assms(3) Body
      have B: "stays w w' \<or> local_work w' sh' < local_work w sh" "dl_heal sh' = dl_heal sh" "w_pos w'" "sh_pos sh'"
        "stays w w' \<longrightarrow> dl_queue sh' = dl_queue sh"
        by auto
      show ?thesis
      proof (cases "stays w w'")
        case True
        with B stays_work [of w w' sh' sh] show ?thesis by (simp add: moves_def)
      next
        case False
        with B show ?thesis by (simp add: moves_def)
      qed
    qed (use assms in \<open>simp_all add: moves_def stays_def\<close>)
  qed
qed

definition work :: "dl_system \<Rightarrow> nat" where
  "work sys = (case sys of (ws, sh) \<Rightarrow>
     8 * (bytes_of (dl_queue sh) + sum_list (map (\<lambda>w. bytes_of (active_chunk w)) ws)) + 5 * dl_heal sh
     + sum_list (map weight ws))"

definition sys_pos :: "dl_system \<Rightarrow> bool" where
  "sys_pos sys = (case sys of (ws, sh) \<Rightarrow> (\<forall>w \<in> set ws. w_pos w) \<and> sh_pos sh)"

definition dl_moves :: "u64 \<Rightarrow> dl_event \<Rightarrow> dl_system \<Rightarrow> bool" where
  "dl_moves base ev sys =
     (case (ev, sys) of
        (WorkerEv i wev, (ws, sh)) \<Rightarrow>
          i < length ws \<and> (case worker_step base wev (ws ! i) sh of (w', sh') \<Rightarrow> moves (ws ! i) sh w' sh')
      | _ \<Rightarrow> False)"

lemma sum_list_map_update:
  fixes f :: "'a \<Rightarrow> nat"
  assumes "i < length xs"
  shows "sum_list (map f (xs[i := y])) + f (xs ! i) = sum_list (map f xs) + f y"
proof -
  have "f (xs ! i) \<le> sum_list (map f xs)"
    by (rule member_le_sum_list) (use assms in auto)
  with assms show ?thesis by (simp add: map_update sum_list_update)
qed

lemma dl_step_work:
  assumes "0 < base" and "sys_pos sys"
  shows "work (dl_step base ev sys) + (if dl_moves base ev sys then 1 else 0) \<le> work sys \<and>
    sys_pos (dl_step base ev sys)"
proof -
  obtain ws sh where sys: "sys = (ws, sh)" by (cases sys)
  show ?thesis
  proof (cases ev)
    case (WorkerEv i wev)
    show ?thesis
    proof (cases "i < length ws")
      case i: True
      obtain w' sh' where run: "worker_step base wev (ws ! i) sh = (w', sh')" by (metis surj_pair)
      have p: "w_pos (ws ! i)" "sh_pos sh" using assms(2) i by (auto simp: sys sys_pos_def)
      note W = worker_step_work [OF run assms(1) p]
      have "work (ws[i := w'], sh') + local_work (ws ! i) sh = work (ws, sh) + local_work w' sh'"
        using sum_list_map_update [OF i, of weight w']
          sum_list_map_update [OF i, of "\<lambda>w. bytes_of (active_chunk w)" w']
        by (simp add: work_def local_work_def algebra_simps)
      moreover have "sys_pos (ws[i := w'], sh')"
        using W assms(2) by (auto simp: sys sys_pos_def dest!: set_update_subset_insert [THEN subsetD])
      ultimately show ?thesis
        using W i by (auto simp: sys WorkerEv run dl_moves_def)
    qed (use assms in \<open>simp add: sys WorkerEv dl_moves_def\<close>)
  qed (use assms in \<open>simp_all add: sys dl_moves_def work_def sys_pos_def sh_pos_def\<close>)
qed

fun count_moves :: "u64 \<Rightarrow> dl_event list \<Rightarrow> dl_system \<Rightarrow> nat" where
  "count_moves base [] sys = 0"
| "count_moves base (ev # evs) sys =
     (if dl_moves base ev sys then 1 else 0) + count_moves base evs (dl_step base ev sys)"

lemma count_moves_bound: "0 < base \<Longrightarrow> sys_pos sys \<Longrightarrow> count_moves base evs sys \<le> work sys"
proof (induction evs arbitrary: sys)
  case (Cons ev evs)
  from dl_step_work [OF Cons.prems, of ev] Cons.IH [OF Cons.prems(1), of "dl_step base ev sys"] show ?case
    by auto
qed simp

lemma run_downloader_init_pos:
  assumes "run_downloader_init start stop ra streams url paused item d t = Some sys"
  shows "sys_pos sys \<and> work sys = 8 * bytes_of (dl_queue (snd sys)) + 15 + 8 * max streams 1 \<and>
    dl_queue (snd sys) = missing_slices (ci_ranges item) start (min (wadd64 stop ra) (ci_file_size item))"
  using assms
  by (auto simp: run_downloader_init_def sys_pos_def sh_pos_def work_def MAX_SESSION_LINK_HEALS_def
      sum_list_replicate Let_def split: if_splits dest!: missing_slices_bounds)

text \<open>With a chunk size of zero every chunk is empty and the queue never changes.\<close>

definition zero_inv :: "interval list \<Rightarrow> dl_system \<Rightarrow> bool" where
  "zero_inv q sys \<longleftrightarrow>
     (case sys of (ws, sh) \<Rightarrow>
        dl_queue sh = q \<and> (\<forall>w \<in> set ws. \<forall>(s, e) \<in> set (active_chunk w). s = e) \<and>
        (\<not> dl_cancelled sh \<longrightarrow> WDone \<notin> set ws))"

lemma take_chunk_zero:
  assumes "take_chunk 0 sh = (w', sh')" and "dl_queue sh = (a, b) # q" "a < b"
  shows "sh' = sh \<and> w' = Headers a a 0"
  using assms by (auto simp: take_chunk_def pop_chunk_def sat_mul64_def)

lemma retry_chunk_zero:
  assumes "retry_chunk 0 s s r sh = (w', sh')"
  shows "dl_queue sh' = dl_queue sh \<and> dl_cancelled sh' = dl_cancelled sh \<and> (w' = WFailed \<or> w' = Headers s s (r + 1))"
  using assms by (auto simp: retry_chunk_def shrink_chunk_def Let_def split: if_splits)

lemma worker_step_zero:
  assumes run: "worker_step 0 ev w sh = (w', sh')" and q: "dl_queue sh = (a, b) # q" "a < b"
    and w: "\<forall>(s, e) \<in> set (active_chunk w). s = e"
  shows "dl_queue sh' = dl_queue sh \<and> dl_cancelled sh' = dl_cancelled sh \<and>
    (\<forall>(s, e) \<in> set (active_chunk w'). s = e) \<and> (\<not> dl_cancelled sh \<and> w \<noteq> WDone \<longrightarrow> w' \<noteq> WDone)"
proof (cases "dl_cancelled sh")
  case True
  with run w show ?thesis by (cases w) auto
next
  case nc: False
  show ?thesis
  proof (cases w)
    case Idle
    with run nc take_chunk_zero [OF _ q, of w' sh'] show ?thesis by (auto split: if_splits)
  next
    case PauseWait
    with run nc take_chunk_zero [OF _ q, of w' sh'] show ?thesis by (auto split: if_splits)
  next
    case (Headers s e r)
    with w have e: "e = s" by simp
    have "headers_step 0 ev s s r sh = (w', sh')" using run nc Headers e by simp
    then have "dl_queue sh' = dl_queue sh \<and> dl_cancelled sh' = dl_cancelled sh \<and>
      (w' = WFailed \<or> (\<exists>k. w' = Headers s s k) \<or> w' = Body s s r s)"
    proof (cases "(0 :: nat, ev, s, s, r, sh)" rule: headers_step.cases)
      case (3 base' err refresh s' e' retries sh1)
      then have a: "(case attempt_cdn_link_refresh err refresh sh of
          (True, sh2) \<Rightarrow> (Headers s s 0, sh2) | (False, sh2) \<Rightarrow> retry_chunk 0 s s r sh2) = (w', sh')"
        using \<open>headers_step 0 ev s s r sh = (w', sh')\<close> by auto
      obtain b sh2 where at: "attempt_cdn_link_refresh err refresh sh = (b, sh2)" by (metis surj_pair)
      from attempt_refresh_frame [OF at] a at retry_chunk_zero [of s r sh2 w' sh'] show ?thesis
        by (cases b) auto
    qed (use \<open>headers_step 0 ev s s r sh = (w', sh')\<close> retry_chunk_zero [of s r sh w' sh'] in
        \<open>auto split: if_splits\<close>)
    then show ?thesis by auto
  next
    case (Body s e r pos)
    with w have e: "e = s" by simp
    have "body_step 0 ev s s r pos sh = (w', sh')" using run nc Body e by simp
    then have "dl_queue sh' = dl_queue sh \<and> dl_cancelled sh' = dl_cancelled sh \<and>
      (w' = WFailed \<or> w' = Idle \<or> (\<exists>k. w' = Headers s s k) \<or> (\<exists>k. w' = Body s s r k))"
    proof (cases "(0 :: nat, ev, s, s, r, pos, sh)" rule: body_step.cases)
      case (1 base' data fault db_ok now s' e' retries pos' sh1)
      obtain res item d t where wr: "write_range fault db_ok now pos data (dl_item sh) (dl_disk sh) (dl_table sh) = (res, item, d, t)"
        by (metis surj_pair)
      with 1 \<open>body_step 0 ev s s r pos sh = (w', sh')\<close>
        retry_chunk_zero [of s r "sh\<lparr>dl_item := item, dl_disk := d, dl_table := t\<rparr>" w' sh'] show ?thesis
        by (cases res) auto
    qed (use \<open>body_step 0 ev s s r pos sh = (w', sh')\<close> retry_chunk_zero [of s r sh w' sh'] in auto)
    then show ?thesis by auto
  qed (use run w in auto)
qed

lemma dl_step_zero:
  assumes "zero_inv ((a, b) # q) sys" and "a < b"
  shows "zero_inv ((a, b) # q) (dl_step 0 ev sys)"
proof -
  obtain ws sh where sys: "sys = (ws, sh)" by (cases sys)
  have I: "dl_queue sh = (a, b) # q" "\<forall>w \<in> set ws. \<forall>(s, e) \<in> set (active_chunk w). s = e"
    "\<not> dl_cancelled sh \<longrightarrow> WDone \<notin> set ws"
    using assms(1) by (auto simp: zero_inv_def sys)
  show ?thesis
  proof (cases ev)
    case (WorkerEv i wev)
    show ?thesis
    proof (cases "i < length ws")
      case i: True
      obtain w' sh' where run: "worker_step 0 wev (ws ! i) sh = (w', sh')" by (metis surj_pair)
      have "\<forall>(s, e) \<in> set (active_chunk (ws ! i)). s = e" using bspec [OF I(2) nth_mem [OF i]] .
      note Z = worker_step_zero [OF run I(1) assms(2) this]
      have step: "dl_step 0 ev sys = (ws[i := w'], sh')" by (simp add: WorkerEv sys run i)
      show ?thesis
        unfolding step zero_inv_def prod.case
      proof (intro conjI impI)
        show "dl_queue sh' = (a, b) # q" using Z I(1) by simp
        show "\<forall>w \<in> set (ws[i := w']). \<forall>(s, e) \<in> set (active_chunk w). s = e"
          using Z I(2) by (auto dest!: set_update_subset_insert [THEN subsetD])
        assume "\<not> dl_cancelled sh'"
        with Z I(3) nth_mem [OF i] have "WDone \<notin> set ws" "w' \<noteq> WDone" by metis+
        then show "WDone \<notin> set (ws[i := w'])" by (auto dest!: set_update_subset_insert [THEN subsetD])
      qed
    qed (use assms in \<open>simp add: sys WorkerEv\<close>)
  qed (use I in \<open>auto simp: sys zero_inv_def\<close>)
qed

lemma dl_step_workers: "fst sys \<noteq> [] \<Longrightarrow> fst (dl_step base ev sys) \<noteq> []"
  by (cases sys; cases ev) (auto split: prod.splits)

lemma dl_run_zero:
  "dl_run remote 0 sys sys' \<Longrightarrow> zero_inv ((a, b) # q) sys \<Longrightarrow> a < b \<Longrightarrow> fst sys \<noteq> [] \<Longrightarrow>
     zero_inv ((a, b) # q) sys' \<and> fst sys' \<noteq> []"
  by (induction rule: dl_run.induct) (auto intro: dl_step_zero simp: dl_step_workers)

lemma dl_inv_finished:
  assumes "dl_inv remote a b (ws, sh)" and "run_status (ws, sh) = RunOk" and "\<not> dl_cancelled sh"
  shows "{a..<b} \<subseteq> cov sh"
proof -
  have ws: "WFailed \<notin> set ws" "\<forall>w \<in> set ws. w = WDone"
    using assms(2) by (auto simp: run_status_def list_ex_iff list_all_iff split: if_splits)
  then have "in_flight x ws = 0" for x by (auto simp: in_flight_def)
  moreover have "dl_queue sh = []" using assms(1,3) ws by (auto simp: dl_inv_def)
  ultimately show ?thesis using assms(1,3) ws by (auto simp: dl_inv_def)
qed

section \<open>Properties\<close>


definition demo_item :: cache_item where
  "demo_item = new_item 0 [''f''] ''k'' 3"

definition demo_events :: "dl_event list" where
  "demo_events = [WorkerEv 0 Turn, WorkerEv 0 (HeadersOk 206 True),
     WorkerEv 0 (BodyData [7, 8, 9] NoFault True 1), WorkerEv 0 BodyEof, WorkerEv 0 Turn]"

fun honest_list :: "byte list \<Rightarrow> u64 \<Rightarrow> dl_event list \<Rightarrow> dl_system \<Rightarrow> bool" where
  "honest_list remote base [] sys = True"
| "honest_list remote base (ev # evs) sys =
     (honest_step remote ev sys \<and> honest_list remote base evs (dl_step base ev sys))"

lemma dl_run_fold:
  "dl_run remote base s0 sys \<Longrightarrow> honest_list remote base evs sys \<Longrightarrow>
     dl_run remote base s0 (fold (dl_step base) evs sys)"
proof (induction evs arbitrary: sys)
  case (Cons ev evs)
  then have "dl_run remote base s0 (dl_step base ev sys)" by (auto intro: dl_next)
  with Cons show ?case by simp
qed simp




text \<open>C30: with a positive chunk size a session does a bounded amount of work: over any sequence of
  events, all workers together change state at most
  \<open>8 * missing bytes + 15 + 8 * workers\<close> times besides receiving pieces of a body.\<close>

theorem downloader_work_bounded:
  assumes "run_downloader_init start stop ra streams url paused item d t = Some sys" and "0 < base"
  shows "count_moves base evs sys \<le>
    8 * bytes_of (missing_slices (ci_ranges item) start (min (wadd64 stop ra) (ci_file_size item)))
    + 15 + 8 * max streams 1"
  using count_moves_bound [OF assms(2), of sys evs] run_downloader_init_pos [OF assms(1)] by simp

theorem downloader_work_bounded_witness:
  "count_moves 4 demo_events
     (the (run_downloader_init 0 3 0 1 ''u'' False demo_item [([''f''], File [0, 0, 0])] [])) \<le>
   8 * bytes_of (missing_slices (ci_ranges demo_item) 0 (min (wadd64 3 0) (ci_file_size demo_item))) + 15 + 8 * max 1 1"
proof (rule downloader_work_bounded)
  show "run_downloader_init 0 3 0 1 ''u'' False demo_item [([''f''], File [0, 0, 0])] [] =
      Some (the (run_downloader_init 0 3 0 1 ''u'' False demo_item [([''f''], File [0, 0, 0])] []))"
    by code_simp
qed simp

text \<open>A chunk size that parses to zero (\<open>"1.5M"\<close> does) makes every chunk empty: the queue never
  shrinks and no run of the downloader ends normally unless the session is cancelled.\<close>

theorem zero_chunk_size_never_completes:
  assumes "run_downloader_init start stop ra streams url paused item d t = Some sys"
    and "dl_run remote 0 sys sys'" and "\<not> dl_cancelled (snd sys')"
  shows "run_status sys' \<noteq> RunOk \<and> dl_queue (snd sys') = dl_queue (snd sys)"
proof -
  let ?ms = "missing_slices (ci_ranges item) start (min (wadd64 stop ra) (ci_file_size item))"
  from assms(1) have ne: "?ms \<noteq> []" and q: "dl_queue (snd sys) = ?ms"
    and ws: "fst sys = replicate (max streams 1) Idle" and "\<not> dl_cancelled (snd sys)"
    by (auto simp: run_downloader_init_def Let_def split: if_splits)
  then obtain a b rest where ab: "?ms = (a, b) # rest" by (cases ?ms) auto
  have "a < b" using missing_slices_bounds [of a b] ab by (metis list.set_intros(1))
  have "zero_inv ((a, b) # rest) sys"
    using q ab ws by (cases sys) (auto simp: zero_inv_def)
  moreover have "fst sys \<noteq> []" using ws by simp
  ultimately have "zero_inv ((a, b) # rest) sys' \<and> fst sys' \<noteq> []"
    using dl_run_zero [OF assms(2)] \<open>a < b\<close> by blast
  moreover from this have "\<not> list_all (\<lambda>w. w = WDone) (fst sys')"
    using assms(3) by (cases sys'; cases "fst sys'") (auto simp: zero_inv_def)
  ultimately show ?thesis
    using q ab by (cases sys') (auto simp: zero_inv_def run_status_def)
qed

theorem zero_chunk_size_never_completes_witness:
  "parse_byte_size ''1.5M'' = 0 \<and>
   run_status (fold (dl_step (parse_byte_size ''1.5M'')) [WorkerEv 0 Turn, WorkerEv 0 (HeadersOk 206 True), WorkerEv 0 BodyEof, WorkerEv 0 Turn]
     (the (run_downloader_init 0 3 0 1 ''u'' False demo_item [([''f''], File [0, 0, 0])] []))) \<noteq> RunOk"
proof -
  let ?sys = "the (run_downloader_init 0 3 0 1 ''u'' False demo_item [([''f''], File [0, 0, 0])] [])"
  let ?evs = "[WorkerEv 0 Turn, WorkerEv 0 (HeadersOk 206 True), WorkerEv 0 BodyEof, WorkerEv 0 Turn]"
  have z: "parse_byte_size ''1.5M'' = 0" by code_simp
  have i: "run_downloader_init 0 3 0 1 ''u'' False demo_item [([''f''], File [0, 0, 0])] [] = Some ?sys"
    by code_simp
  have h: "honest_list [7, 8, 9] 0 ?evs ?sys" by code_simp
  have nc: "\<not> dl_cancelled (snd (fold (dl_step 0) ?evs ?sys))" by code_simp
  from zero_chunk_size_never_completes [OF i dl_run_fold [OF dl_refl h] nc] z show ?thesis by simp
qed

end
