(* ===== verification/Read_Pipeline.thy ===== *)
theory Read_Pipeline
  imports Download_Session Worker
begin

text \<open>
  The read path of one cache entry put together: the readers inside \<open>read_at\<close>
  (\<^verbatim>\<open>src/src/cache/item_read_at.rs\<close>), the sessions they share (\<^verbatim>\<open>src/src/cache/download_session.rs\<close>),
  the tasks that \<open>spawn_worker\<close> hands to the runtime and the chunk workers inside them
  (\<^verbatim>\<open>src/src/cache/worker.rs\<close>), all over one item, file and row. A step is one reader or worker between
  two of its \<open>await\<close> points, or what the runtime does to a task; a run is any sequence of steps.
  The invariant is shown step by step, with interference: what a component needs to know of the others
  is that coverage grows, the file stays coherent and sessions keep their bounds.
\<close>

section \<open>State\<close>

text \<open>\<open>DownloaderArgs\<close>, without the handles it shares with the session.\<close>

record downloader_args =
  da_start :: u64
  da_end :: u64
  da_base_chunk :: u64
  da_read_ahead :: u64
  da_max_parallel_streams :: u32
  da_url :: string

text \<open>The task that \<open>spawn_worker\<close> hands to the runtime: not polled yet, inside \<open>run_downloader\<close>, returned,
  or dropped by its abort handle.\<close>

datatype dl_task =
    TaskSpawned downloader_args
  | TaskRunning downloader_args dl_system
  | TaskEnded run_status
  | TaskAborted

record pipe_reader =
  rr_offset :: u64
  rr_size :: u32
  rr_url :: string
  rr_phase :: read_phase

record read_pipeline =
  rp_world :: reader_world
  rp_table :: range_table
  rp_paused :: bool
  rp_tasks :: "dl_task list"
  rp_readers :: "pipe_reader list"

section \<open>Steps\<close>

definition downloader_args_of :: "config \<Rightarrow> string \<Rightarrow> u64 \<Rightarrow> u64 \<Rightarrow> downloader_args" where
  "downloader_args_of cfg url offset stop =
     \<lparr>da_start = offset, da_end = stop, da_base_chunk = parse_byte_size (chunk_size (vfs cfg)),
      da_read_ahead = parse_byte_size (read_ahead (vfs cfg)),
      da_max_parallel_streams = max_parallel_streams (vfs cfg), da_url = url\<rparr>"

text \<open>The \<open>tokio::spawn\<close> of \<open>spawn_worker\<close>: one task for a session that has none yet.\<close>

definition spawn_tasks :: "downloader_args \<Rightarrow> reader_world \<Rightarrow> dl_task list \<Rightarrow> dl_task list" where
  "spawn_tasks args w ts = ts @ replicate (length (rw_sessions w) - length ts) (TaskSpawned args)"

definition pipe_begin :: "config \<Rightarrow> bool \<Rightarrow> string \<Rightarrow> u64 \<Rightarrow> u32 \<Rightarrow> read_pipeline \<Rightarrow> read_pipeline" where
  "pipe_begin cfg io_ok url offset sz p =
     (let stop = min (wadd64 offset sz) (ci_file_size (rw_item (rp_world p)));
          (ph, w') = read_at_begin io_ok cfg offset sz (rp_world p)
      in p\<lparr>rp_world := w',
           rp_tasks := spawn_tasks (downloader_args_of cfg url offset stop) w' (rp_tasks p),
           rp_readers := rp_readers p @
             [\<lparr>rr_offset = offset, rr_size = sz, rr_url = url, rr_phase = ph\<rparr>]\<rparr>)"

definition pipe_poll ::
    "config \<Rightarrow> nat \<Rightarrow> bool \<Rightarrow> bool \<Rightarrow> wake \<Rightarrow> read_pipeline \<Rightarrow> read_pipeline" where
  "pipe_poll cfg j io_ok fuse_cancelled wk p =
     (if length (rp_readers p) \<le> j then p
      else
        (let r = rp_readers p ! j
         in case rr_phase r of
              ReadDone _ \<Rightarrow> p
            | Waiting wt \<Rightarrow>
                (let (ph, w') = read_at_poll io_ok fuse_cancelled wk wt (rp_world p);
                     args = downloader_args_of cfg (rr_url r) (wt_offset wt) (wt_end wt)
                 in p\<lparr>rp_world := w', rp_tasks := spawn_tasks args w' (rp_tasks p),
                      rp_readers := (rp_readers p)[j := r\<lparr>rr_phase := ph\<rparr>]\<rparr>)))"

text \<open>What the workers of session \<open>i\<close> see of the state they share with everybody else: the item, its file
  and row, the cancellation token of the session and the pause flag.\<close>

definition load_shared :: "read_pipeline \<Rightarrow> nat \<Rightarrow> dl_system \<Rightarrow> dl_system" where
  "load_shared p i sys =
     (fst sys,
      (snd sys)\<lparr>dl_item := rw_item (rp_world p), dl_disk := rw_disk (rp_world p), dl_table := rp_table p,
                dl_cancelled := ds_cancelled (rw_sessions (rp_world p) ! i), dl_paused := rp_paused p\<rparr>)"

definition store_shared :: "dl_shared \<Rightarrow> read_pipeline \<Rightarrow> read_pipeline" where
  "store_shared sh p =
     p\<lparr>rp_world := (rp_world p)\<lparr>rw_item := dl_item sh, rw_disk := dl_disk sh\<rparr>, rp_table := dl_table sh\<rparr>"

definition set_task :: "nat \<Rightarrow> dl_task \<Rightarrow> read_pipeline \<Rightarrow> read_pipeline" where
  "set_task i tk p = p\<lparr>rp_tasks := (rp_tasks p)[i := tk]\<rparr>"

text \<open>The guard of the task is dropped when the task returns or is aborted after its first poll.\<close>

definition guard_drop :: "nat \<Rightarrow> read_pipeline \<Rightarrow> read_pipeline" where
  "guard_drop i p = p\<lparr>rp_world := worker_exit i (rp_world p)\<rparr>"

text \<open>The first poll of a task enters \<open>run_downloader\<close>.\<close>

definition pipe_start :: "nat \<Rightarrow> read_pipeline \<Rightarrow> read_pipeline" where
  "pipe_start i p =
     (let w = rp_world p
      in if length (rp_tasks p) \<le> i \<or> ds_aborted (rw_sessions w ! i) then p
         else
           (case rp_tasks p ! i of
              TaskSpawned args \<Rightarrow>
                (case run_downloader_init (da_start args) (da_end args) (da_read_ahead args)
                        (da_max_parallel_streams args) (da_url args) (rp_paused p) (rw_item w) (rw_disk w)
                        (rp_table p) of
                   None \<Rightarrow> guard_drop i (set_task i (TaskEnded RunOk) p)
                 | Some sys \<Rightarrow> set_task i (TaskRunning args sys) p)
            | _ \<Rightarrow> p))"

definition pipe_work :: "nat \<Rightarrow> nat \<Rightarrow> worker_event \<Rightarrow> read_pipeline \<Rightarrow> read_pipeline" where
  "pipe_work i k wev p =
     (if length (rp_tasks p) \<le> i then p
      else
        (case rp_tasks p ! i of
           TaskRunning args sys \<Rightarrow>
             (let sys' = dl_step (da_base_chunk args) (WorkerEv k wev) (load_shared p i sys)
              in store_shared (snd sys') (set_task i (TaskRunning args sys') p))
         | _ \<Rightarrow> p))"

definition pipe_return :: "nat \<Rightarrow> read_pipeline \<Rightarrow> read_pipeline" where
  "pipe_return i p =
     (if length (rp_tasks p) \<le> i then p
      else
        (case rp_tasks p ! i of
           TaskRunning args sys \<Rightarrow>
             (if run_status sys = Running then p
              else guard_drop i (set_task i (TaskEnded (run_status sys)) p))
         | _ \<Rightarrow> p))"

text \<open>An aborted task is dropped at its next scheduling. Before the first poll the guard does not exist
  yet: the task counts as finished, but nothing removes the session from \<open>active_workers\<close>.\<close>

definition pipe_abort :: "nat \<Rightarrow> read_pipeline \<Rightarrow> read_pipeline" where
  "pipe_abort i p =
     (let w = rp_world p
      in if length (rp_tasks p) \<le> i \<or> \<not> ds_aborted (rw_sessions w ! i) then p
         else
           (case rp_tasks p ! i of
              TaskSpawned _ \<Rightarrow> set_task i TaskAborted (p\<lparr>rp_world := w\<lparr>rw_finished := i # rw_finished w\<rparr>\<rparr>)
            | TaskRunning _ _ \<Rightarrow> guard_drop i (set_task i TaskAborted p)
            | _ \<Rightarrow> p))"

definition pipe_handle_open :: "u64 \<Rightarrow> read_pipeline \<Rightarrow> read_pipeline" where
  "pipe_handle_open now p = p\<lparr>rp_world := (rp_world p)\<lparr>rw_item := item_open now (rw_item (rp_world p))\<rparr>\<rparr>"

definition pipe_handle_release :: "bool \<Rightarrow> u64 \<Rightarrow> read_pipeline \<Rightarrow> read_pipeline" where
  "pipe_handle_release db_ok now p =
     (let (item', t') = item_release db_ok now (rw_item (rp_world p)) (rp_table p)
      in p\<lparr>rp_world := (rp_world p)\<lparr>rw_item := item'\<rparr>, rp_table := t'\<rparr>)"

datatype pipe_event =
    BeginRead bool string u64 u32
  | PollReader nat bool bool wake
  | StartTask nat
  | StepWorker nat nat worker_event
  | ReturnTask nat
  | AbortTask nat
  | SetPause bool
  | HandleOpen u64
  | HandleRelease bool u64

fun pipe_step :: "config \<Rightarrow> pipe_event \<Rightarrow> read_pipeline \<Rightarrow> read_pipeline" where
  "pipe_step cfg (BeginRead io url off sz) p = pipe_begin cfg io url off sz p"
| "pipe_step cfg (PollReader j io fc wk) p = pipe_poll cfg j io fc wk p"
| "pipe_step cfg (StartTask i) p = pipe_start i p"
| "pipe_step cfg (StepWorker i k wev) p = pipe_work i k wev p"
| "pipe_step cfg (ReturnTask i) p = pipe_return i p"
| "pipe_step cfg (AbortTask i) p = pipe_abort i p"
| "pipe_step cfg (SetPause b) p = p\<lparr>rp_paused := b\<rparr>"
| "pipe_step cfg (HandleOpen now) p = pipe_handle_open now p"
| "pipe_step cfg (HandleRelease db_ok now) p = pipe_handle_release db_ok now p"

definition pipe_init :: "cache_item \<Rightarrow> disk \<Rightarrow> range_table \<Rightarrow> bool \<Rightarrow> read_pipeline" where
  "pipe_init item d t paused =
     \<lparr>rp_world = \<lparr>rw_item = item, rw_disk = d, rw_sessions = [], rw_active = [], rw_finished = []\<rparr>,
      rp_table = t, rp_paused = paused, rp_tasks = [], rp_readers = []\<rparr>"

section \<open>Sessions only grow old\<close>

text \<open>What any operation of a reader may do to the sessions: their bounds are fixed, a token that has fired
  stays fired, and sessions it adds have the bounds \<open>(a, b)\<close>.\<close>

definition session_le :: "download_session \<Rightarrow> download_session \<Rightarrow> bool" where
  "session_le s s' \<longleftrightarrow> ds_anchor s' = ds_anchor s \<and> ds_fetch_until s' = ds_fetch_until s \<and>
     (ds_cancelled s \<longrightarrow> ds_cancelled s') \<and> (ds_aborted s \<longrightarrow> ds_aborted s') \<and>
     (session_inv s \<longrightarrow> session_inv s')"

definition world_ext :: "u64 \<Rightarrow> u64 \<Rightarrow> reader_world \<Rightarrow> reader_world \<Rightarrow> bool" where
  "world_ext a b w w' \<longleftrightarrow>
     rw_item w' = rw_item w \<and> rw_disk w' = rw_disk w \<and>
     length (rw_sessions w) \<le> length (rw_sessions w') \<and>
     (\<forall>i < length (rw_sessions w). session_le (rw_sessions w ! i) (rw_sessions w' ! i)) \<and>
     (\<forall>i < length (rw_sessions w'). length (rw_sessions w) \<le> i \<longrightarrow>
        ds_anchor (rw_sessions w' ! i) = a \<and> ds_fetch_until (rw_sessions w' ! i) = b \<and>
        session_inv (rw_sessions w' ! i)) \<and>
     rw_finished w' = rw_finished w \<and>
     set (rw_active w') = set (rw_active w) \<union> {length (rw_sessions w)..<length (rw_sessions w')}"

lemma session_le_refl [simp]: "session_le s s"
  by (simp add: session_le_def)

lemma session_le_trans: "session_le s s' \<Longrightarrow> session_le s' s'' \<Longrightarrow> session_le s s''"
  by (auto simp: session_le_def)

lemma session_le_ops [simp]:
  "session_le s (waiter_new s)" "session_le s (waiter_drop s)" "session_le s (session_cancel s)"
  by (auto simp: session_le_def session_inv_def waiter_new_def waiter_drop_def session_cancel_def Let_def)

lemma world_ext_refl [simp]: "world_ext a b w w"
  by (simp add: world_ext_def)

lemma world_ext_trans:
  assumes "world_ext a b w w'" and "world_ext a b w' w''"
  shows "world_ext a b w w''"
proof -
  have "session_le (rw_sessions w ! i) (rw_sessions w'' ! i)" if "i < length (rw_sessions w)" for i
  proof -
    have "i < length (rw_sessions w')" using that assms(1) by (simp add: world_ext_def)
    with that assms show ?thesis
      by (auto simp: world_ext_def intro: session_le_trans [of _ "rw_sessions w' ! i"])
  qed
  moreover have "ds_anchor (rw_sessions w'' ! i) = a \<and> ds_fetch_until (rw_sessions w'' ! i) = b \<and>
      session_inv (rw_sessions w'' ! i)"
    if "i < length (rw_sessions w'')" "length (rw_sessions w) \<le> i" for i
  proof (cases "i < length (rw_sessions w')")
    case True
    with assms have "session_le (rw_sessions w' ! i) (rw_sessions w'' ! i)" by (simp add: world_ext_def)
    with True that assms(1) show ?thesis by (simp add: world_ext_def session_le_def)
  next
    case False
    with that assms(2) show ?thesis by (simp add: world_ext_def)
  qed
  ultimately show ?thesis using assms by (auto simp: world_ext_def)
qed

lemma upd_session_ext:
  assumes "\<And>s. session_le s (f s)"
  shows "world_ext a b w (upd_session i f w)"
  using assms by (cases "i < length (rw_sessions w)")
    (auto simp: world_ext_def upd_session_def nth_list_update)

lemma spawn_worker_ext:
  "spawn_worker a b w = (i, w') \<Longrightarrow> world_ext a b w w' \<and> i = length (rw_sessions w) \<and>
     length (rw_sessions w') = Suc i \<and> set (rw_active w') = insert i (set (rw_active w))"
  by (auto simp: spawn_worker_def world_ext_def Let_def nth_append session_inv_def session_new_def set_abort_handle_def less_Suc_eq)

lemma upd_session_length [simp]: "length (rw_sessions (upd_session i f w)) = length (rw_sessions w)"
  by (simp add: upd_session_def)

lemma kick_ext:
  assumes "kick wt w = (wt', w')"
  shows "world_ext (wt_offset wt) (wt_fetch_until wt) w w' \<and> wt' = wt\<lparr>wt_session := length (rw_sessions w), wt_owned := True\<rparr> \<and>
    length (rw_sessions w') = Suc (length (rw_sessions w))"
proof -
  let ?w1 = "upd_session (wt_session wt) session_cancel w"
  obtain i w2 where sp: "spawn_worker (wt_offset wt) (wt_fetch_until wt) ?w1 = (i, w2)" by (metis surj_pair)
  with assms have w': "w' = upd_session (wt_session wt) waiter_drop (upd_session i waiter_new w2)"
    and wt': "wt' = wt\<lparr>wt_session := i, wt_owned := True\<rparr>"
    by (auto simp: kick_def Let_def)
  let ?ext = "world_ext (wt_offset wt) (wt_fetch_until wt)"
  have "?ext w ?w1" by (rule upd_session_ext) simp
  moreover have "?ext ?w1 w2" using spawn_worker_ext [OF sp] by simp
  moreover have "?ext w2 (upd_session i waiter_new w2)" by (rule upd_session_ext) simp
  moreover have "?ext (upd_session i waiter_new w2) w'" unfolding w' by (rule upd_session_ext) simp
  ultimately have "?ext w w'" by (meson world_ext_trans)
  with spawn_worker_ext [OF sp] show ?thesis by (simp add: w' wt')
qed

section \<open>What a reader does to the world\<close>

lemma read_at_begin_cases:
  assumes "read_at_begin io cfg off sz w = (ph, w')"
  obtains (now) res where "ph = ReadDone res" "w' = w"
      "res = (if ci_file_size (rw_item w) \<le> off then Inr []
              else read_result io off (min (wadd64 off sz) (ci_file_size (rw_item w))) w)"
      "off < ci_file_size (rw_item w) \<Longrightarrow> item_has_range (rw_item w) off (min (wadd64 off sz) (ci_file_size (rw_item w)))"
    | (wait) wt where "ph = Waiting wt" "off < ci_file_size (rw_item w)" "wt_offset wt = off"
      "wt_end wt = min (wadd64 off sz) (ci_file_size (rw_item w))"
      "wt_fetch_until wt = min (wadd64 (wt_end wt) (parse_byte_size (read_ahead (vfs cfg)))) (ci_file_size (rw_item w))"
      "\<not> item_has_range (rw_item w) off (wt_end wt)"
      "world_ext off (wt_fetch_until wt) w w'"
      "set (rw_active w) \<subseteq> {..<length (rw_sessions w)} \<Longrightarrow> wt_session wt < length (rw_sessions w')"
      "wt_owned wt \<Longrightarrow> wt_session wt = length (rw_sessions w) \<and> length (rw_sessions w') = Suc (length (rw_sessions w))"
      "\<not> wt_owned wt \<Longrightarrow> length (rw_sessions w') = length (rw_sessions w) \<and>
         covers_fuse_offset (rw_sessions w ! wt_session wt) off \<and> wt_session wt \<in> set (rw_active w)"
proof -
  let ?stop = "min (wadd64 off sz) (ci_file_size (rw_item w))"
  let ?fu = "min (wadd64 ?stop (parse_byte_size (read_ahead (vfs cfg)))) (ci_file_size (rw_item w))"
  show thesis
  proof (cases "ci_file_size (rw_item w) \<le> off \<or> item_has_range (rw_item w) off ?stop")
    case True
    with assms show thesis by (intro now) (auto simp: read_at_begin_def Let_def split: if_splits)
  next
    case False
    let ?f = "find (\<lambda>i. covers_fuse_offset (rw_sessions w ! i) off) (rw_active w)"
    show thesis
    proof (cases ?f)
      case (Some i)
      with assms False have e: "ph = Waiting \<lparr>wt_offset = off, wt_end = ?stop, wt_fetch_until = ?fu, wt_session = i, wt_owned = False\<rparr>"
        "w' = upd_session i waiter_new w"
        by (auto simp: read_at_begin_def Let_def)
      have c: "i \<in> set (rw_active w)" "covers_fuse_offset (rw_sessions w ! i) off"
        using Some by (auto simp: find_Some_iff)
      show thesis by (rule wait [OF e(1)]) (use False c in \<open>auto simp: e(2) upd_session_ext\<close>)
    next
      case None
      obtain i w1 where sp: "spawn_worker off ?fu w = (i, w1)" by (metis surj_pair)
      with None assms False have e: "ph = Waiting \<lparr>wt_offset = off, wt_end = ?stop, wt_fetch_until = ?fu, wt_session = i, wt_owned = True\<rparr>"
        "w' = upd_session i waiter_new w1"
        by (auto simp: read_at_begin_def Let_def)
      note s = spawn_worker_ext [OF sp]
      have "world_ext off ?fu w (upd_session i waiter_new w1)"
        using s world_ext_trans [OF _ upd_session_ext [OF session_le_ops(1)]] by blast
      with s False show thesis by (intro wait [OF e(1)]) (auto simp: e(2))
    qed
  qed
qed

lemma finish_read_ext:
  "finish_read io fc ok wt w = (ph, w') \<Longrightarrow> world_ext a b w w' \<and> (\<exists>res. ph = ReadDone res) \<and>
     (ph = ReadDone (Inr bs) \<longrightarrow> io)"
  by (auto simp: finish_read_def read_result_def read_from_file_def upd_session_ext split: if_splits)

lemma read_at_poll_ext:
  assumes "read_at_poll io fc wk wt w = (ph, w')"
  shows "world_ext (wt_offset wt) (wt_fetch_until wt) w w' \<and> (ph = ReadDone (Inr bs) \<longrightarrow> io) \<and>
    (\<forall>wt'. ph = Waiting wt' \<longrightarrow> wt' = wt \<and> w' = w \<or>
       wt' = wt\<lparr>wt_session := length (rw_sessions w), wt_owned := True\<rparr> \<and>
       length (rw_sessions w') = Suc (length (rw_sessions w)))"
proof -
  let ?ext = "world_ext (wt_offset wt) (wt_fetch_until wt)"
  obtain wt1 w1 where k: "(if \<not> wt_owned wt \<and> wk = Elapsed then kick wt w else (wt, w)) = (wt1, w1)"
    by (metis surj_pair)
  have K: "?ext w w1 \<and> (wt1 = wt \<and> w1 = w \<or>
      wt1 = wt\<lparr>wt_session := length (rw_sessions w), wt_owned := True\<rparr> \<and>
      length (rw_sessions w1) = Suc (length (rw_sessions w)))"
    using k kick_ext [of wt w wt1 w1] by (auto split: if_splits)
  let ?has = "item_has_range (rw_item w) (wt_offset wt) (wt_end wt)"
  consider
      (start) ok fc' where "finish_read io fc' ok wt w = (ph, w')"
    | (fin) ok where "finish_read io fc ok wt1 w1 = (ph, w')"
    | (wait) "ph = Waiting wt1" "w' = w1"
  proof (cases "wk = FuseCancelled \<or> ?has")
    case True
    with assms have "finish_read io (wk = FuseCancelled \<or> fc) (wk \<noteq> FuseCancelled) wt w = (ph, w')"
      by (cases "wk = FuseCancelled") (simp_all add: read_at_poll_def)
    then show ?thesis by (rule start)
  next
    case False
    let ?ok = "item_has_range (rw_item w1) (wt_offset wt) (wt_end wt)"
    have "(ph, w') = finish_read io fc ?ok wt1 w1 \<or> (ph, w') = (Waiting wt1, w1)"
      using assms False by (simp add: read_at_poll_def k Let_def split: if_split_asm)
    with fin wait show ?thesis by auto
  qed
  then show ?thesis
  proof cases
    case start
    from finish_read_ext [OF this] show ?thesis by auto
  next
    case fin
    from finish_read_ext [OF this, of "wt_offset wt" "wt_fetch_until wt" bs] K
      world_ext_trans [of "wt_offset wt" "wt_fetch_until wt" w w1 w'] show ?thesis by auto
  next
    case wait
    with K show ?thesis by auto
  qed
qed

section \<open>The invariant\<close>

definition shared_ok :: "byte list \<Rightarrow> read_pipeline \<Rightarrow> bool" where
  "shared_ok remote p \<longleftrightarrow>
     (let item = rw_item (rp_world p); d = rw_disk (rp_world p)
      in item_coherent remote item d \<and> row_coherent remote (ci_path item) (ci_cache_key item) d (rp_table p))"

abbreviation pipe_cov :: "read_pipeline \<Rightarrow> nat set" where
  "pipe_cov p \<equiv> covered (ci_ranges (rw_item (rp_world p)))"

definition args_of_session :: "byte list \<Rightarrow> downloader_args \<Rightarrow> download_session \<Rightarrow> bool" where
  "args_of_session remote args s \<longleftrightarrow> da_start args = ds_anchor s \<and>
     min (wadd64 (da_end args) (da_read_ahead args)) (length remote) = ds_fetch_until s"

definition window_ok :: "byte list \<Rightarrow> read_pipeline \<Rightarrow> nat \<Rightarrow> dl_system \<Rightarrow> bool" where
  "window_ok remote p i sys =
     (let s = rw_sessions (rp_world p) ! i
      in dl_inv remote (ds_anchor s) (ds_fetch_until s) (load_shared p i sys))"

fun task_ok :: "byte list \<Rightarrow> read_pipeline \<Rightarrow> nat \<Rightarrow> dl_task \<Rightarrow> bool" where
  "task_ok remote p i (TaskSpawned args) = args_of_session remote args (rw_sessions (rp_world p) ! i)"
| "task_ok remote p i (TaskRunning args sys) = window_ok remote p i sys"
| "task_ok remote p i (TaskEnded st) =
     (let s = rw_sessions (rp_world p) ! i
      in st \<noteq> Running \<and> (st = RunOk \<and> \<not> ds_cancelled s \<longrightarrow> {ds_anchor s..<ds_fetch_until s} \<subseteq> pipe_cov p))"
| "task_ok remote p i TaskAborted = ds_cancelled (rw_sessions (rp_world p) ! i)"

text \<open>The registers that readers consult: a finished task is over, and so is one whose session is no longer
  registered.\<close>

fun task_over :: "dl_task \<Rightarrow> bool" where
  "task_over (TaskEnded _) = True"
| "task_over TaskAborted = True"
| "task_over _ = False"

definition registers_ok :: "read_pipeline \<Rightarrow> bool" where
  "registers_ok p \<longleftrightarrow>
     set (rw_active (rp_world p)) \<subseteq> {..<length (rp_tasks p)} \<and>
     set (rw_finished (rp_world p)) = {i. i < length (rp_tasks p) \<and> task_over (rp_tasks p ! i)} \<and>
     {i. i < length (rp_tasks p) \<and> \<not> task_over (rp_tasks p ! i)} \<subseteq> set (rw_active (rp_world p))"

definition waiting_ok :: "byte list \<Rightarrow> config \<Rightarrow> reader_world \<Rightarrow> u64 \<Rightarrow> u32 \<Rightarrow> read_wait \<Rightarrow> bool" where
  "waiting_ok remote cfg w off sz wt \<longleftrightarrow>
     wt_offset wt = off \<and> wt_end wt = min (off + sz) (length remote) \<and> off < wt_end wt \<and>
     wt_fetch_until wt = min (wadd64 (wt_end wt) (parse_byte_size (read_ahead (vfs cfg)))) (length remote) \<and>
     wt_session wt < length (rw_sessions w) \<and> ds_anchor (rw_sessions w ! wt_session wt) \<le> off \<and>
     (wt_owned wt \<longrightarrow> ds_anchor (rw_sessions w ! wt_session wt) = off \<and>
        ds_fetch_until (rw_sessions w ! wt_session wt) = wt_fetch_until wt)"

fun phase_ok :: "byte list \<Rightarrow> config \<Rightarrow> reader_world \<Rightarrow> u64 \<Rightarrow> u32 \<Rightarrow> read_phase \<Rightarrow> bool" where
  "phase_ok remote cfg w off sz (ReadDone (Inr bs)) = (bs = piece remote off sz)"
| "phase_ok remote cfg w off sz (ReadDone (Inl err)) = True"
| "phase_ok remote cfg w off sz (Waiting wt) = waiting_ok remote cfg w off sz wt"

abbreviation reader_ok :: "byte list \<Rightarrow> config \<Rightarrow> reader_world \<Rightarrow> pipe_reader \<Rightarrow> bool" where
  "reader_ok remote cfg w r \<equiv> phase_ok remote cfg w (rr_offset r) (rr_size r) (rr_phase r)"

definition pipe_inv :: "byte list \<Rightarrow> config \<Rightarrow> read_pipeline \<Rightarrow> bool" where
  "pipe_inv remote cfg p \<longleftrightarrow>
     shared_ok remote p \<and>
     length (rp_tasks p) = length (rw_sessions (rp_world p)) \<and>
     (\<forall>s \<in> set (rw_sessions (rp_world p)). session_inv s) \<and> registers_ok p \<and>
     (\<forall>i < length (rp_tasks p). task_ok remote p i (rp_tasks p ! i)) \<and>
     (\<forall>r \<in> set (rp_readers p). reader_ok remote cfg (rp_world p) r)"

section \<open>Interference\<close>

text \<open>What the rest of the pipeline may do while a task or a reader does not move: more of the file is
  covered, it stays coherent, the session keeps its bounds and may be cancelled.\<close>

definition interferes :: "nat \<Rightarrow> read_pipeline \<Rightarrow> read_pipeline \<Rightarrow> bool" where
  "interferes i p p' \<longleftrightarrow> pipe_cov p \<subseteq> pipe_cov p' \<and>
     session_le (rw_sessions (rp_world p) ! i) (rw_sessions (rp_world p') ! i)"

lemma window_ok_interference:
  assumes "window_ok remote p i sys" and "shared_ok remote p'" and "interferes i p p'"
  shows "window_ok remote p' i sys"
proof -
  obtain ws sh where sys: "sys = (ws, sh)" by (cases sys)
  have "\<forall>w \<in> set ws. w_ok remote (pipe_cov p') w"
    using assms(1,3) w_ok_mono [of remote "pipe_cov p" _ "pipe_cov p'"]
    by (auto simp: window_ok_def load_shared_def sys dl_inv_def Let_def interferes_def)
  with assms show ?thesis
    by (auto simp: window_ok_def load_shared_def sys dl_inv_def Let_def interferes_def session_le_def shared_ok_def sh_ok_def)
qed

lemma task_ok_interference:
  assumes "task_ok remote p i tk" and "shared_ok remote p'" and "interferes i p p'"
  shows "task_ok remote p' i tk"
proof (cases tk)
  case (TaskRunning args sys)
  with assms window_ok_interference show ?thesis by simp
qed (use assms in \<open>auto simp: interferes_def session_le_def args_of_session_def Let_def\<close>)

lemma phase_ok_interference:
  assumes "phase_ok remote cfg w off sz ph"
    and "length (rw_sessions w) \<le> length (rw_sessions w')"
    and "\<And>i. i < length (rw_sessions w) \<Longrightarrow> session_le (rw_sessions w ! i) (rw_sessions w' ! i)"
  shows "phase_ok remote cfg w' off sz ph"
  using assms
  by (cases "(remote, cfg, w, off, sz, ph)" rule: phase_ok.cases)
    (auto simp: waiting_ok_def session_le_def)

lemma world_ext_interferes:
  "world_ext a b (rp_world p) (rp_world p') \<Longrightarrow> i < length (rw_sessions (rp_world p)) \<Longrightarrow> interferes i p p'"
  by (simp add: world_ext_def interferes_def)

section \<open>Every step keeps the invariant\<close>

text \<open>The server sends the bytes of the remote file and ends a body where the chunk ends; the kernel asks
  for at least one byte, at an offset whose end is a 64-bit number.\<close>

fun pipe_honest :: "byte list \<Rightarrow> pipe_event \<Rightarrow> read_pipeline \<Rightarrow> bool" where
  "pipe_honest remote (BeginRead io url off sz) p = (0 < sz \<and> off + sz < u64_bound)"
| "pipe_honest remote (StepWorker i k wev) p =
     (if i < length (rp_tasks p)
      then (case rp_tasks p ! i of TaskRunning args sys \<Rightarrow> honest_step remote (WorkerEv k wev) sys | _ \<Rightarrow> True)
      else True)"
| "pipe_honest remote _ p = True"

lemma pipe_invD:
  assumes "pipe_inv remote cfg p"
  shows "shared_ok remote p" "length (rp_tasks p) = length (rw_sessions (rp_world p))"
    "set (rw_active (rp_world p)) \<subseteq> {..<length (rw_sessions (rp_world p))}" "registers_ok p"
    "\<And>i. i < length (rw_sessions (rp_world p)) \<Longrightarrow> task_ok remote p i (rp_tasks p ! i)"
    "\<And>r. r \<in> set (rp_readers p) \<Longrightarrow> reader_ok remote cfg (rp_world p) r"
    "\<And>s. s \<in> set (rw_sessions (rp_world p)) \<Longrightarrow> session_inv s"
  using assms by (auto simp: pipe_inv_def registers_ok_def)

lemma reader_op_inv:
  assumes inv: "pipe_inv remote cfg p" and ext: "world_ext a b (rp_world p) w'"
    and args: "da_start args = a" "min (wadd64 (da_end args) (da_read_ahead args)) (length remote) = b"
    and rs: "\<And>r. r \<in> set rs \<Longrightarrow> reader_ok remote cfg w' r"
  shows "pipe_inv remote cfg (p\<lparr>rp_world := w', rp_tasks := spawn_tasks args w' (rp_tasks p), rp_readers := rs\<rparr>)"
    (is "pipe_inv remote cfg ?p")
proof -
  note I = pipe_invD [OF inv]
  have sh: "shared_ok remote ?p" using I(1) ext by (simp add: shared_ok_def world_ext_def)
  have len: "length (rp_tasks ?p) = length (rw_sessions w')"
    using I(2) ext by (simp add: spawn_tasks_def world_ext_def)
  have "task_ok remote ?p i (rp_tasks ?p ! i)" if i: "i < length (rw_sessions w')" for i
  proof (cases "i < length (rw_sessions (rp_world p))")
    case True
    have "rp_tasks ?p ! i = rp_tasks p ! i" using True I(2) by (simp add: spawn_tasks_def nth_append)
    moreover have "interferes i p ?p" using ext True by (simp add: world_ext_interferes)
    ultimately show ?thesis using task_ok_interference [OF I(5) [OF True] sh] by simp
  next
    case False
    then have "rp_tasks ?p ! i = TaskSpawned args" using I(2) i by (simp add: spawn_tasks_def nth_append)
    with False i ext args show ?thesis by (simp add: world_ext_def args_of_session_def)
  qed
  moreover have "registers_ok ?p"
    using I(4) I(2) ext len
    by (auto simp: registers_ok_def world_ext_def spawn_tasks_def nth_append split: if_splits)
  moreover have "session_inv (rw_sessions w' ! i)" if "i < length (rw_sessions w')" for i
    using that ext I(7) by (cases "i < length (rw_sessions (rp_world p))") (auto simp: world_ext_def session_le_def)
  ultimately show ?thesis using sh len rs by (simp add: pipe_inv_def all_set_conv_all_nth)
qed

lemma read_at_begin_phase:
  assumes run: "read_at_begin io cfg off sz w = (ph, w')" and coh: "item_coherent remote (rw_item w) (rw_disk w)"
    and act: "set (rw_active w) \<subseteq> {..<length (rw_sessions w)}" and sz: "0 < sz" "off + sz < u64_bound"
  shows "phase_ok remote cfg w' off sz ph"
proof -
  have fsz: "ci_file_size (rw_item w) = length remote" using coh by (simp add: item_coherent_def)
  have wr: "wadd64 off sz = off + sz" using sz(2) by (rule wadd64_exact)
  from run show ?thesis
  proof (cases rule: read_at_begin_cases)
    case (now res)
    show ?thesis
    proof (cases "length remote \<le> off")
      case True
      with now fsz show ?thesis by (simp add: piece_def)
    next
      case False
      let ?stop = "min (off + sz) (length remote)"
      have "read_result True off ?stop w = Inr (piece remote off (?stop - off))"
        using now(4) False sz(1) by (intro read_result_remote [OF coh]) (auto simp: fsz wr)
      moreover have "piece remote off (?stop - off) = piece remote off sz" by (simp add: piece_def min_def)
      moreover have "read_result False off ?stop w = Inl CacheIo" by (simp add: read_result_def read_from_file_def)
      ultimately show ?thesis using now(1,3) False fsz wr by (cases io) auto
    qed
  next
    case (wait wt)
    have "wt_owned wt \<Longrightarrow> ds_anchor (rw_sessions w' ! wt_session wt) = off \<and>
        ds_fetch_until (rw_sessions w' ! wt_session wt) = wt_fetch_until wt"
      using wait(7,9) by (auto simp: world_ext_def)
    moreover have "ds_anchor (rw_sessions w' ! wt_session wt) \<le> off" if "\<not> wt_owned wt"
      using wait(7) wait(10) [OF that] act by (auto simp: world_ext_def session_le_def covers_fuse_offset_def)
    ultimately show ?thesis using wait act sz fsz wr by (cases "wt_owned wt") (auto simp: waiting_ok_def)
  qed
qed

lemma pipe_begin_inv:
  assumes inv: "pipe_inv remote cfg p" and sz: "0 < sz" "off + sz < u64_bound"
  shows "pipe_inv remote cfg (pipe_begin cfg io url off sz p)"
proof -
  note I = pipe_invD [OF inv]
  have coh: "item_coherent remote (rw_item (rp_world p)) (rw_disk (rp_world p))"
    using I(1) by (simp add: shared_ok_def Let_def)
  then have fsz: "ci_file_size (rw_item (rp_world p)) = length remote" by (simp add: item_coherent_def)
  obtain ph w' where run: "read_at_begin io cfg off sz (rp_world p) = (ph, w')" by (metis surj_pair)
  let ?stop = "min (wadd64 off sz) (length remote)"
  let ?args = "downloader_args_of cfg url off ?stop"
  let ?b = "min (wadd64 ?stop (parse_byte_size (read_ahead (vfs cfg)))) (length remote)"
  have ext: "world_ext off ?b (rp_world p) w'"
    using run by (cases rule: read_at_begin_cases) (simp_all add: fsz)
  have "pipe_begin cfg io url off sz p = p\<lparr>rp_world := w', rp_tasks := spawn_tasks ?args w' (rp_tasks p),
      rp_readers := rp_readers p @ [\<lparr>rr_offset = off, rr_size = sz, rr_url = url, rr_phase = ph\<rparr>]\<rparr>"
    by (simp add: pipe_begin_def run fsz)
  also have "pipe_inv remote cfg \<dots>"
  proof (rule reader_op_inv [OF inv ext])
    show "reader_ok remote cfg w' r"
      if "r \<in> set (rp_readers p @ [\<lparr>rr_offset = off, rr_size = sz, rr_url = url, rr_phase = ph\<rparr>])" for r
      using that read_at_begin_phase [OF run coh I(3) sz] I(6) [of r] ext
      by (auto simp: world_ext_def intro: phase_ok_interference)
  qed (simp_all add: downloader_args_of_def)
  finally show ?thesis .
qed

lemma read_at_poll_phase:
  assumes run: "read_at_poll io fc wk wt w = (ph, w')" and coh: "item_coherent remote (rw_item w) (rw_disk w)"
    and ok: "waiting_ok remote cfg w off sz wt"
  shows "phase_ok remote cfg w' off sz ph"
proof (cases ph)
  case (ReadDone res)
  show ?thesis
  proof (cases res)
    case (Inr bs)
    with ReadDone read_at_poll_ext [OF run, of bs] run have "read_at_poll True fc wk wt w = (ReadDone (Inr bs), w')"
      by simp
    from read_at_poll_remote [OF this coh] ok have "bs = piece remote off (min (off + sz) (length remote) - off)"
      by (auto simp: waiting_ok_def)
    also have "\<dots> = piece remote off sz" by (simp add: piece_def min_def)
    finally show ?thesis using ReadDone Inr by simp
  qed (simp add: ReadDone)
next
  case (Waiting wt')
  with read_at_poll_ext [OF run] ok show ?thesis
    by (auto simp: waiting_ok_def world_ext_def)
qed

lemma pipe_poll_inv:
  assumes inv: "pipe_inv remote cfg p"
  shows "pipe_inv remote cfg (pipe_poll cfg j io fc wk p)"
proof (cases "j < length (rp_readers p) \<and> (\<exists>wt. rr_phase (rp_readers p ! j) = Waiting wt)")
  case False
  then show ?thesis using inv by (auto simp: pipe_poll_def Let_def split: read_phase.split)
next
  case True
  then obtain wt where j: "j < length (rp_readers p)" and wt: "rr_phase (rp_readers p ! j) = Waiting wt" by blast
  let ?r = "rp_readers p ! j"
  note I = pipe_invD [OF inv]
  have ok: "waiting_ok remote cfg (rp_world p) (rr_offset ?r) (rr_size ?r) wt"
    using I(6) [OF nth_mem [OF j]] wt by simp
  have coh: "item_coherent remote (rw_item (rp_world p)) (rw_disk (rp_world p))"
    using I(1) by (simp add: shared_ok_def Let_def)
  obtain ph w' where run: "read_at_poll io fc wk wt (rp_world p) = (ph, w')" by (metis surj_pair)
  let ?args = "downloader_args_of cfg (rr_url ?r) (wt_offset wt) (wt_end wt)"
  have ext: "world_ext (wt_offset wt) (wt_fetch_until wt) (rp_world p) w'"
    using read_at_poll_ext [OF run] by blast
  have "pipe_poll cfg j io fc wk p = p\<lparr>rp_world := w', rp_tasks := spawn_tasks ?args w' (rp_tasks p),
      rp_readers := (rp_readers p)[j := ?r\<lparr>rr_phase := ph\<rparr>]\<rparr>"
    using j by (simp add: pipe_poll_def wt run Let_def)
  also have "pipe_inv remote cfg \<dots>"
  proof (rule reader_op_inv [OF inv ext])
    show "reader_ok remote cfg w' r" if "r \<in> set ((rp_readers p)[j := ?r\<lparr>rr_phase := ph\<rparr>])" for r
    proof -
      from that consider "r = ?r\<lparr>rr_phase := ph\<rparr>" | "r \<in> set (rp_readers p)"
        by (auto dest: set_update_subset_insert [THEN subsetD])
      then show ?thesis
      proof cases
        case 1
        with read_at_poll_phase [OF run coh ok] show ?thesis by simp
      next
        case 2
        from phase_ok_interference [OF I(6) [OF this]] ext show ?thesis by (simp add: world_ext_def)
      qed
    qed
  qed (use ok in \<open>simp_all add: downloader_args_of_def waiting_ok_def\<close>)
  finally show ?thesis .
qed

lemma worker_step_pause: "worker_step base ev w sh = (w', sh') \<Longrightarrow> dl_paused sh' = dl_paused sh"
proof -
  have retry: "retry_chunk base s e r x = (w', sh') \<Longrightarrow> dl_paused sh' = dl_paused x" for s e r x
    by (auto simp: retry_chunk_def shrink_chunk_def Let_def split: if_splits)
  have take: "take_chunk base sh = (w', sh') \<Longrightarrow> dl_paused sh' = dl_paused sh"
    by (auto simp: take_chunk_def pop_chunk_def Let_def split: list.splits prod.splits)
  have at: "attempt_cdn_link_refresh err refresh sh = (b, x) \<Longrightarrow> dl_paused x = dl_paused sh" for err refresh b x
    by (auto simp: attempt_cdn_link_refresh_def split: if_splits sum.splits)
  have hd: "headers_step base ev s e r sh = (w', sh') \<Longrightarrow> dl_paused sh' = dl_paused sh" for s e r
    by (cases "(base, ev, s, e, r, sh)" rule: headers_step.cases)
      (auto split: prod.splits bool.splits if_splits dest: retry at)
  have bd: "body_step base ev s e r pos sh = (w', sh') \<Longrightarrow> dl_paused sh' = dl_paused sh" for s e r pos
    by (cases "(base, ev, s, e, r, pos, sh)" rule: body_step.cases)
      (auto simp: Let_def split: prod.splits sum.splits dest!: retry)
  assume "worker_step base ev w sh = (w', sh')"
  then show ?thesis by (cases w) (auto split: if_splits dest: take hd bd)
qed

lemma dl_step_frame:
  assumes "dl_inv remote a b sys" and "honest_step remote (WorkerEv k wev) sys" and "length remote < 2 ^ 63"
    and "dl_step base (WorkerEv k wev) sys = (ws', sh')"
  shows "dl_cancelled sh' = dl_cancelled (snd sys) \<and> cov (snd sys) \<subseteq> cov sh' \<and> dl_paused sh' = dl_paused (snd sys)"
proof -
  obtain ws sh where sys: "sys = (ws, sh)" by (cases sys)
  show ?thesis
  proof (cases "k < length ws")
    case True
    obtain w' sh1 where run: "worker_step base wev (ws ! k) sh = (w', sh1)" by (metis surj_pair)
    have "sh_ok remote sh" "w_ok remote (cov sh) (ws ! k)" "honest remote wev (ws ! k)"
      using assms(1,2) True by (auto simp: sys dl_inv_def honest_step_def)
    from worker_step_ok [OF run this assms(3)] worker_step_pause [OF run] assms(4) True run show ?thesis
      by (auto simp: sys)
  qed (use assms(4) in \<open>auto simp: sys\<close>)
qed

lemma task_op_inv:
  assumes inv: "pipe_inv remote cfg p" and sh: "shared_ok remote p'" and cov: "pipe_cov p \<subseteq> pipe_cov p'"
    and frame: "rp_readers p' = rp_readers p" "rw_sessions (rp_world p') = rw_sessions (rp_world p)"
    and reg: "registers_ok p'"
    and tasks: "rp_tasks p' = (rp_tasks p)[i := tk]" "i < length (rp_tasks p) \<Longrightarrow> task_ok remote p' i tk"
  shows "pipe_inv remote cfg p'"
proof -
  note I = pipe_invD [OF inv]
  have "task_ok remote p' k (rp_tasks p' ! k)" if k: "k < length (rp_tasks p)" for k
  proof (cases "k = i")
    case True
    with tasks k show ?thesis by simp
  next
    case False
    have "interferes k p p'" using cov frame(2) by (simp add: interferes_def)
    with False k tasks(1) I(2) task_ok_interference [OF I(5) sh] show ?thesis by simp
  qed
  moreover have "reader_ok remote cfg (rp_world p') r" if "r \<in> set (rp_readers p)" for r
    using phase_ok_interference [OF I(6) [OF that]] frame(2) by simp
  ultimately show ?thesis
    using I(2,7) sh frame tasks(1) reg by (simp add: pipe_inv_def)
qed

lemma guard_drop_simps [simp]:
  "rp_readers (guard_drop i p) = rp_readers p" "rp_tasks (guard_drop i p) = rp_tasks p"
  "rp_table (guard_drop i p) = rp_table p" "rw_item (rp_world (guard_drop i p)) = rw_item (rp_world p)"
  "rw_disk (rp_world (guard_drop i p)) = rw_disk (rp_world p)"
  "rw_sessions (rp_world (guard_drop i p)) = rw_sessions (rp_world p)"
  "set (rw_active (rp_world (guard_drop i p))) = set (rw_active (rp_world p)) - {i}"
  "rw_finished (rp_world (guard_drop i p)) = i # rw_finished (rp_world p)"
  by (auto simp: guard_drop_def worker_exit_def)

lemma set_task_simps [simp]:
  "rp_readers (set_task i tk p) = rp_readers p" "rp_tasks (set_task i tk p) = (rp_tasks p)[i := tk]"
  "rp_table (set_task i tk p) = rp_table p" "rp_world (set_task i tk p) = rp_world p"
  "rp_paused (set_task i tk p) = rp_paused p"
  by (simp_all add: set_task_def)

lemma registers_ok_set_task:
  assumes "registers_ok p" and "rp_tasks p' = (rp_tasks p)[i := tk]" and "i < length (rp_tasks p)"
    and "\<not> task_over (rp_tasks p ! i)"
    and "set (rw_finished (rp_world p')) = (if task_over tk then insert i else id) (set (rw_finished (rp_world p)))"
    and "set (rw_active (rp_world p)) - (if task_over tk then {i} else {}) \<subseteq> set (rw_active (rp_world p'))"
    and "set (rw_active (rp_world p')) \<subseteq> set (rw_active (rp_world p))"
  shows "registers_ok p'"
proof -
  have "task_over (rp_tasks p' ! k) = (if k = i then task_over tk else task_over (rp_tasks p ! k))" 
    if "k < length (rp_tasks p)" for k
    using that assms(2,3) by simp
  note over = this
  have "k \<in> set (rw_active (rp_world p'))" if k: "k < length (rp_tasks p)" "\<not> task_over (rp_tasks p' ! k)" for k
  proof -
    have "k \<in> set (rw_active (rp_world p))" "task_over tk \<Longrightarrow> k \<noteq> i"
      using over [OF k(1)] k assms(1,4) by (auto simp: registers_ok_def split: if_splits)
    with assms(6) show ?thesis by (auto split: if_splits)
  qed
  moreover have "set (rw_finished (rp_world p')) = {k. k < length (rp_tasks p') \<and> task_over (rp_tasks p' ! k)}"
    using over assms(1,2,3,4,5) by (auto simp: registers_ok_def split: if_splits)
  ultimately show ?thesis using assms(1,2,7) by (auto simp: registers_ok_def)
qed

lemma run_downloader_none:
  assumes "item_coherent remote item d" and "run_downloader_init a e ra n url paused item d t = None"
  shows "{a..<min (wadd64 e ra) (length remote)} \<subseteq> covered (ci_ranges item)"
proof -
  have sz: "ci_file_size item = length remote" and iv: "ranges_inv (ci_ranges item)"
    using assms(1) by (auto simp: item_coherent_def file_agrees_def)
  have "missing_slices (ci_ranges item) a (min (wadd64 e ra) (length remote)) = []"
    using assms(2) by (simp add: run_downloader_init_def sz Let_def split: if_splits)
  with missing_slices_bytes [OF iv, of a "min (wadd64 e ra) (length remote)"] show ?thesis by auto
qed

lemma pipe_start_inv:
  assumes inv: "pipe_inv remote cfg p"
  shows "pipe_inv remote cfg (pipe_start i p)"
proof -
  note I = pipe_invD [OF inv]
  let ?w = "rp_world p"
  have coh: "item_coherent remote (rw_item ?w) (rw_disk ?w)"
    and row: "row_coherent remote (ci_path (rw_item ?w)) (ci_cache_key (rw_item ?w)) (rw_disk ?w) (rp_table p)"
    using I(1) by (auto simp: shared_ok_def Let_def)
  show ?thesis
  proof (cases "i < length (rp_tasks p) \<and> \<not> ds_aborted (rw_sessions ?w ! i) \<and> (\<exists>args. rp_tasks p ! i = TaskSpawned args)")
    case False
    then show ?thesis using inv by (auto simp: pipe_start_def Let_def split: dl_task.split)
  next
    case True
    then obtain args where i: "i < length (rp_tasks p)" "\<not> ds_aborted (rw_sessions ?w ! i)"
      and tk: "rp_tasks p ! i = TaskSpawned args" by blast
    let ?init = "run_downloader_init (da_start args) (da_end args) (da_read_ahead args)
       (da_max_parallel_streams args) (da_url args) (rp_paused p) (rw_item ?w) (rw_disk ?w) (rp_table p)"
    have as: "args_of_session remote args (rw_sessions ?w ! i)" using I(2,5) i tk by fastforce
    show ?thesis
    proof (cases ?init)
      case None
      then have run: "pipe_start i p = guard_drop i (set_task i (TaskEnded RunOk) p)"
        using i by (simp add: pipe_start_def tk Let_def)
      show ?thesis unfolding run
        by (rule task_op_inv [OF inv, where i = i and tk = "TaskEnded RunOk"])
          (use I(1) as run_downloader_none [OF coh None] i tk in
            \<open>auto simp: shared_ok_def args_of_session_def Let_def intro!: registers_ok_set_task [OF I(4)]\<close>)
    next
      case (Some sys)
      then have run: "pipe_start i p = set_task i (TaskRunning args sys) p"
        using i by (simp add: pipe_start_def tk Let_def)
      have fields: "dl_item (snd sys) = rw_item ?w" "dl_disk (snd sys) = rw_disk ?w" "dl_table (snd sys) = rp_table p"
        "\<not> dl_cancelled (snd sys)" "dl_paused (snd sys) = rp_paused p"
        using Some by (auto simp: run_downloader_init_def Let_def split: if_splits)
      let ?p = "set_task i (TaskRunning args sys) p"
      have "dl_inv remote (ds_anchor (rw_sessions ?w ! i)) (ds_fetch_until (rw_sessions ?w ! i)) sys"
        using run_downloader_init_inv [OF coh row Some] as by (simp add: args_of_session_def)
      then have "window_ok remote ?p i sys"
        using fields by (cases sys) (auto simp: window_ok_def load_shared_def dl_inv_def sh_ok_def Let_def)
      then show ?thesis unfolding run
        by (intro task_op_inv [OF inv, where i = i and tk = "TaskRunning args sys"])
          (use I(1) i tk in \<open>auto simp: shared_ok_def Let_def intro!: registers_ok_set_task [OF I(4)]\<close>)
    qed
  qed
qed

lemma pipe_work_inv:
  assumes inv: "pipe_inv remote cfg p" and hon: "pipe_honest remote (StepWorker i k wev) p"
    and len: "length remote < 2 ^ 63"
  shows "pipe_inv remote cfg (pipe_work i k wev p)"
proof (cases "i < length (rp_tasks p) \<and> (\<exists>args sys. rp_tasks p ! i = TaskRunning args sys)")
  case False
  then show ?thesis using inv by (auto simp: pipe_work_def split: dl_task.split)
next
  case True
  then obtain args sys where i: "i < length (rp_tasks p)" and tk: "rp_tasks p ! i = TaskRunning args sys" by blast
  note I = pipe_invD [OF inv]
  let ?w = "rp_world p"
  let ?s = "rw_sessions ?w ! i"
  obtain ws sh where ld: "load_shared p i sys = (ws, sh)" by (metis surj_pair)
  obtain ws' sh' where st: "dl_step (da_base_chunk args) (WorkerEv k wev) (load_shared p i sys) = (ws', sh')"
    by (metis surj_pair)
  have pre: "dl_inv remote (ds_anchor ?s) (ds_fetch_until ?s) (load_shared p i sys)"
    using I(2,5) i tk by (fastforce simp: window_ok_def Let_def)
  have hs: "honest_step remote (WorkerEv k wev) (load_shared p i sys)"
    using hon i tk by (simp add: honest_step_def load_shared_def)
  from dl_step_inv [OF pre hs len, of "da_base_chunk args"]
  have post: "dl_inv remote (ds_anchor ?s) (ds_fetch_until ?s) (ws', sh')" by (simp add: st)
  have fr: "dl_cancelled sh' = dl_cancelled sh \<and> cov sh \<subseteq> cov sh' \<and> dl_paused sh' = dl_paused sh"
    using dl_step_frame [OF pre hs len st] by (simp add: ld)
  let ?p = "store_shared sh' (set_task i (TaskRunning args (ws', sh')) p)"
  have run: "pipe_work i k wev p = ?p" using i by (simp add: pipe_work_def tk st)
  have shf: "dl_item sh = rw_item ?w" "dl_cancelled sh = ds_cancelled ?s" "dl_paused sh = rp_paused p"
    using ld by (auto simp: load_shared_def)
  have sh_p: "shared_ok remote ?p"
    using post by (simp add: dl_inv_def sh_ok_def shared_ok_def store_shared_def)
  have "load_shared ?p i (ws', sh') = (ws', sh')"
    using fr shf by (simp add: load_shared_def store_shared_def)
  then have "window_ok remote ?p i (ws', sh')" using post by (simp add: window_ok_def store_shared_def)
  then show ?thesis unfolding run
    by (intro task_op_inv [OF inv sh_p, where i = i and tk = "TaskRunning args (ws', sh')"])
      (use fr shf i tk in \<open>auto simp: store_shared_def intro!: registers_ok_set_task [OF I(4)]\<close>)
qed

lemma pipe_return_inv:
  assumes inv: "pipe_inv remote cfg p"
  shows "pipe_inv remote cfg (pipe_return i p)"
proof (cases "i < length (rp_tasks p) \<and> (\<exists>args sys. rp_tasks p ! i = TaskRunning args sys \<and> run_status sys \<noteq> Running)")
  case False
  then show ?thesis using inv by (auto simp: pipe_return_def split: dl_task.split)
next
  case True
  then obtain args sys where i: "i < length (rp_tasks p)" and tk: "rp_tasks p ! i = TaskRunning args sys"
    and st: "run_status sys \<noteq> Running" by blast
  note I = pipe_invD [OF inv]
  let ?s = "rw_sessions (rp_world p) ! i"
  let ?p = "guard_drop i (set_task i (TaskEnded (run_status sys)) p)"
  have run: "pipe_return i p = ?p" using i st by (simp add: pipe_return_def tk)
  have w: "window_ok remote p i sys" using I(2,5) i tk by fastforce
  have "{ds_anchor ?s..<ds_fetch_until ?s} \<subseteq> pipe_cov p" if "run_status sys = RunOk" "\<not> ds_cancelled ?s"
  proof -
    have "run_status (load_shared p i sys) = RunOk" using that(1) by (simp add: run_status_def load_shared_def split: if_splits)
    with w that(2) dl_inv_finished [of remote "ds_anchor ?s" "ds_fetch_until ?s" "fst (load_shared p i sys)" "snd (load_shared p i sys)"]
    show ?thesis by (simp add: window_ok_def load_shared_def Let_def)
  qed
  then show ?thesis unfolding run
    by (intro task_op_inv [OF inv, where i = i and tk = "TaskEnded (run_status sys)"])
      (use I(1) i tk st in \<open>auto simp: shared_ok_def Let_def intro!: registers_ok_set_task [OF I(4)]\<close>)
qed

lemma pipe_abort_inv:
  assumes inv: "pipe_inv remote cfg p"
  shows "pipe_inv remote cfg (pipe_abort i p)"
proof (cases "i < length (rp_tasks p) \<and> ds_aborted (rw_sessions (rp_world p) ! i) \<and> \<not> task_over (rp_tasks p ! i)")
  case False
  then show ?thesis using inv by (auto simp: pipe_abort_def Let_def split: dl_task.split)
next
  case True
  note I = pipe_invD [OF inv]
  have can: "ds_cancelled (rw_sessions (rp_world p) ! i)"
    using True I(2,7) by (simp add: session_inv_def)
  have "rp_tasks (pipe_abort i p) = (rp_tasks p)[i := TaskAborted]"
    and "set (rw_finished (rp_world (pipe_abort i p))) = insert i (set (rw_finished (rp_world p)))"
    and "set (rw_active (rp_world p)) - {i} \<subseteq> set (rw_active (rp_world (pipe_abort i p)))"
    and "set (rw_active (rp_world (pipe_abort i p))) \<subseteq> set (rw_active (rp_world p))"
    and "rw_item (rp_world (pipe_abort i p)) = rw_item (rp_world p)"
    and "rw_disk (rp_world (pipe_abort i p)) = rw_disk (rp_world p)"
    and "rw_sessions (rp_world (pipe_abort i p)) = rw_sessions (rp_world p)"
    and "rp_table (pipe_abort i p) = rp_table p" and "rp_readers (pipe_abort i p) = rp_readers p"
    using True by (cases "rp_tasks p ! i"; auto simp: pipe_abort_def Let_def)+
  then show ?thesis
    by (intro task_op_inv [OF inv, where i = i and tk = TaskAborted])
      (use I(1) True can in \<open>auto simp: shared_ok_def intro!: registers_ok_set_task [OF I(4)]\<close>)
qed

lemma pipe_shared_inv:
  assumes inv: "pipe_inv remote cfg p" and sh: "shared_ok remote (p\<lparr>rp_world := (rp_world p)\<lparr>rw_item := item\<rparr>, rp_table := t\<rparr>)"
    and rg: "ci_ranges item = ci_ranges (rw_item (rp_world p))"
  shows "pipe_inv remote cfg (p\<lparr>rp_world := (rp_world p)\<lparr>rw_item := item\<rparr>, rp_table := t\<rparr>)"
  by (rule task_op_inv [OF inv sh, where i = "length (rp_tasks p)" and tk = TaskAborted])
    (use pipe_invD(4) [OF inv] rg in \<open>auto simp: registers_ok_def list_update_beyond\<close>)

lemma pipe_step_inv:
  assumes inv: "pipe_inv remote cfg p" and hon: "pipe_honest remote ev p" and len: "length remote < 2 ^ 63"
  shows "pipe_inv remote cfg (pipe_step cfg ev p)"
proof (cases ev)
  case (SetPause b)
  have "pipe_inv remote cfg (p\<lparr>rp_paused := b\<rparr>)"
    by (rule task_op_inv [OF inv, where i = "length (rp_tasks p)" and tk = TaskAborted])
      (use pipe_invD(1,4) [OF inv] in \<open>auto simp: registers_ok_def shared_ok_def list_update_beyond\<close>)
  with SetPause show ?thesis by simp
next
  case (HandleOpen now)
  have "shared_ok remote (p\<lparr>rp_world := (rp_world p)\<lparr>rw_item := item_open now (rw_item (rp_world p))\<rparr>, rp_table := rp_table p\<rparr>)"
    using pipe_invD(1) [OF inv] by (simp add: shared_ok_def Let_def) (simp add: item_open_def)
  from pipe_shared_inv [OF inv this] HandleOpen show ?thesis
    by (simp add: pipe_handle_open_def) (simp add: item_open_def)
next
  case (HandleRelease ok now)
  let ?item = "rw_item (rp_world p)"
  obtain item' t' where rel: "item_release ok now ?item (rp_table p) = (item', t')" by (metis surj_pair)
  have "world_inv remote (ci_path ?item) (ci_cache_key ?item) (Some ?item, rw_disk (rp_world p), rp_table p)"
    using pipe_invD(1) [OF inv] by (simp add: shared_ok_def Let_def)
  from item_release_world [OF len this rel]
  have "shared_ok remote (p\<lparr>rp_world := (rp_world p)\<lparr>rw_item := item'\<rparr>, rp_table := t'\<rparr>)"
    by (simp add: shared_ok_def Let_def)
  moreover have "ci_ranges item' = ci_ranges ?item"
    using arg_cong [OF rel, of "\<lambda>x. ci_ranges (fst x)"] by (simp add: item_release_def Let_def split: if_splits)
  ultimately show ?thesis
    using pipe_shared_inv [OF inv] by (simp add: HandleRelease pipe_handle_release_def rel)
qed (use assms in \<open>simp_all add: pipe_begin_inv pipe_poll_inv pipe_start_inv pipe_work_inv pipe_return_inv pipe_abort_inv
  del: pipe_honest.simps(2)\<close>)

lemma pipe_init_inv:
  assumes "item_coherent remote item d" and "row_coherent remote (ci_path item) (ci_cache_key item) d t"
  shows "pipe_inv remote cfg (pipe_init item d t paused)"
  using assms by (simp add: pipe_inv_def pipe_init_def shared_ok_def registers_ok_def)

interpretation pipe: guarded_machine "pipe_step cfg" "pipe_honest remote"
    "\<lambda>p. length remote < 2 ^ 63 \<and> pipe_inv remote cfg p" for cfg remote
  by unfold_locales (simp add: pipe_step_inv)

abbreviation pipe_run :: "config \<Rightarrow> pipe_event list \<Rightarrow> read_pipeline \<Rightarrow> read_pipeline" where
  "pipe_run cfg \<equiv> fold (pipe_step cfg)"

lemma pipe_run_inv:
  assumes "item_coherent remote item d" and "row_coherent remote (ci_path item) (ci_cache_key item) d t"
    and "length remote < 2 ^ 63" and "guarded_run (pipe_honest remote) (pipe_step cfg) es (pipe_init item d t paused)"
  shows "pipe_inv remote cfg (pipe_run cfg es (pipe_init item d t paused))"
  using pipe.guarded_run_inv [OF assms(4)] assms(3) pipe_init_inv [OF assms(1,2)] by blast

section \<open>Why a read fails\<close>

lemma waiting_window:
  assumes "pipe_inv remote cfg p" and "r \<in> set (rp_readers p)" and "rr_phase r = Waiting wt"
    and "rp_tasks p ! wt_session wt = TaskEnded RunOk" and "\<not> ds_cancelled (rw_sessions (rp_world p) ! wt_session wt)"
    and "wt_end wt \<le> ds_fetch_until (rw_sessions (rp_world p) ! wt_session wt)"
  shows "item_has_range (rw_item (rp_world p)) (wt_offset wt) (wt_end wt)"
proof -
  note I = pipe_invD [OF assms(1)]
  have ok: "waiting_ok remote cfg (rp_world p) (rr_offset r) (rr_size r) wt" using I(6) [OF assms(2)] assms(3) by simp
  let ?s = "rw_sessions (rp_world p) ! wt_session wt"
  have "task_ok remote p (wt_session wt) (rp_tasks p ! wt_session wt)"
    using I(5) ok by (simp add: waiting_ok_def)
  then have "{ds_anchor ?s..<ds_fetch_until ?s} \<subseteq> pipe_cov p" using assms(4,5) by (simp add: Let_def)
  with ok assms(6) have "{wt_offset wt..<wt_end wt} \<subseteq> pipe_cov p" by (auto simp: waiting_ok_def subset_iff)
  moreover have "ranges_inv (ci_ranges (rw_item (rp_world p)))"
    using I(1) by (auto simp: shared_ok_def item_coherent_def file_agrees_def Let_def)
  ultimately show ?thesis by (simp add: item_has_range_def has_range_iff)
qed

lemma owned_window:
  assumes "waiting_ok remote cfg w off sz wt" and "wt_owned wt"
    and "length remote + parse_byte_size (read_ahead (vfs cfg)) < u64_bound"
  shows "wt_end wt \<le> ds_fetch_until (rw_sessions w ! wt_session wt)"
proof -
  have "wadd64 (wt_end wt) (parse_byte_size (read_ahead (vfs cfg))) = wt_end wt + parse_byte_size (read_ahead (vfs cfg))"
    using assms(1,3) by (intro wadd64_exact) (auto simp: waiting_ok_def)
  with assms(1,2) show ?thesis by (auto simp: waiting_ok_def)
qed

text \<open>A poll that ends in \<open>DownloadFailed\<close> saw its session over, with the bytes still missing.\<close>

lemma poll_failed:
  assumes "fst (read_at_poll io fc wk wt w) = ReadDone (Inl DownloadFailed)"
    and "set (rw_finished w) \<subseteq> {..<length (rw_sessions w)}"
  shows "\<not> item_has_range (rw_item w) (wt_offset wt) (wt_end wt) \<and>
    (if wt_owned wt then wt_session wt \<in> set (rw_finished w) else wt_session wt \<notin> set (rw_active w))"
proof -
  obtain wt1 w1 where k: "(if \<not> wt_owned wt \<and> wk = Elapsed then kick wt w else (wt, w)) = (wt1, w1)"
    by (metis surj_pair)
  have ne: "read_result io a b x \<noteq> Inl DownloadFailed" for a b x
    by (simp add: read_result_def split: option.split)
  have c1: "wk \<noteq> FuseCancelled" using assms(1) by (auto simp: read_at_poll_def finish_read_def)
  have c2: "\<not> item_has_range (rw_item w) (wt_offset wt) (wt_end wt)"
  proof
    assume "item_has_range (rw_item w) (wt_offset wt) (wt_end wt)"
    with assms(1) c1 ne show False by (simp add: read_at_poll_def finish_read_def)
  qed
  note c = c1 c2
  show ?thesis
  proof (cases "\<not> wt_owned wt \<and> wk = Elapsed")
    case False
    with k have "wt1 = wt" "w1 = w" by (auto split: if_splits)
    with assms(1) k c show ?thesis by (auto simp: read_at_poll_def Let_def split: if_splits)
  next
    case True
    with k have kk: "kick wt w = (wt1, w1)" by simp
    from kick_ext [OF kk] assms(2) have "wt_owned wt1" "wt_session wt1 \<notin> set (rw_finished w1)"
      by (auto simp: world_ext_def)
    with assms(1) k c show ?thesis by (simp add: read_at_poll_def Let_def)
  qed
qed

section \<open>Sessions that never leave\<close>

lemma task_over_stays_registered:
  assumes "i \<in> set (rw_active (rp_world p))" and "i < length (rp_tasks p)" and "task_over (rp_tasks p ! i)"
    and "length (rp_tasks p) = length (rw_sessions (rp_world p))"
  shows "i \<in> set (rw_active (rp_world (pipe_step cfg ev p))) \<and> i < length (rp_tasks (pipe_step cfg ev p)) \<and>
    task_over (rp_tasks (pipe_step cfg ev p) ! i) \<and>
    length (rp_tasks (pipe_step cfg ev p)) = length (rw_sessions (rp_world (pipe_step cfg ev p)))"
proof -
  have grow: ?thesis if "rp_world (pipe_step cfg ev p) = w'" "world_ext a b (rp_world p) w'"
    "rp_tasks (pipe_step cfg ev p) = spawn_tasks args w' (rp_tasks p)" for a b w' args
    using that assms by (auto simp: world_ext_def spawn_tasks_def nth_append)
  have other: "k \<noteq> i" if "\<not> task_over (rp_tasks p ! k)" for k using that assms(3) by auto
  show ?thesis
  proof (cases ev)
    case (BeginRead io url off sz)
    obtain ph w' where run: "read_at_begin io cfg off sz (rp_world p) = (ph, w')" by (metis surj_pair)
    then have "\<exists>b. world_ext off b (rp_world p) w'" by (cases rule: read_at_begin_cases) auto
    then show ?thesis by (elim exE, intro grow) (auto simp: BeginRead pipe_begin_def run Let_def)
  next
    case (PollReader j io fc wk)
    show ?thesis
    proof (cases "j < length (rp_readers p) \<and> (\<exists>wt. rr_phase (rp_readers p ! j) = Waiting wt)")
      case True
      then obtain wt where wt: "rr_phase (rp_readers p ! j) = Waiting wt" by blast
      obtain ph w' where run: "read_at_poll io fc wk wt (rp_world p) = (ph, w')" by (metis surj_pair)
      show ?thesis
        by (rule grow [OF _ conjunct1 [OF read_at_poll_ext [OF run]]])
          (use True in \<open>simp_all add: PollReader pipe_poll_def wt run Let_def\<close>)
    qed (use assms in \<open>auto simp: PollReader pipe_poll_def Let_def split: read_phase.split\<close>)
  next
    case (StartTask k)
    with assms other [of k] show ?thesis
      by (cases "k < length (rp_tasks p)") (auto simp: pipe_start_def Let_def split: dl_task.split option.split)
  next
    case (StepWorker k n wev)
    with assms other [of k] show ?thesis
      by (cases "k < length (rp_tasks p)") (auto simp: pipe_work_def store_shared_def Let_def split: dl_task.split)
  next
    case (ReturnTask k)
    with assms other [of k] show ?thesis
      by (cases "k < length (rp_tasks p)") (auto simp: pipe_return_def Let_def split: dl_task.split)
  next
    case (AbortTask k)
    with assms other [of k] show ?thesis
      by (cases "k < length (rp_tasks p)") (auto simp: pipe_abort_def Let_def split: dl_task.split)
  qed (use assms in \<open>auto simp: pipe_handle_open_def pipe_handle_release_def split: prod.splits\<close>)
qed

interpretation reg: invariant_machine "pipe_step cfg"
    "\<lambda>p. i \<in> set (rw_active (rp_world p)) \<and> i < length (rp_tasks p) \<and> task_over (rp_tasks p ! i) \<and>
       length (rp_tasks p) = length (rw_sessions (rp_world p))" for cfg i
  by unfold_locales (use task_over_stays_registered in blast)

section \<open>Runs\<close>

definition small_config :: config where
  "small_config = demo_config\<lparr>vfs := (vfs demo_config)\<lparr>read_ahead := ''0'', chunk_size := ''4'', max_parallel_streams := 1\<rparr>\<rparr>"

definition small_start :: read_pipeline where
  "small_start = pipe_init (new_item 0 [''f''] ''k'' 4) [([''f''], File [0, 0, 0, 0])] [] False"

text \<open>The download of the first two bytes by session 0.\<close>

definition fetch_two :: "pipe_event list" where
  "fetch_two = [StartTask 0, StepWorker 0 0 Turn, StepWorker 0 0 (HeadersOk 206 True),
     StepWorker 0 0 (BodyData [7, 8] NoFault True 1), StepWorker 0 0 BodyEof, StepWorker 0 0 Turn, ReturnTask 0]"

lemma small_start_coherent:
  "item_coherent [7, 8, 9, 10] (new_item 0 [''f''] ''k'' 4) [([''f''], File [0, 0, 0, 0])]"
  "row_coherent [7, 8, 9, 10] (ci_path (new_item 0 [''f''] ''k'' 4)) (ci_cache_key (new_item 0 [''f''] ''k'' 4))
     [([''f''], File [0, 0, 0, 0])] []"
  by (simp_all add: item_coherent_def row_coherent_def new_item_def file_bytes_def disk_node_def
      range_get_def select_row_def)

section \<open>Properties\<close>

text \<open>C2: any number of readers, download sessions and their workers run interleaved over one cache entry,
  sessions are joined, kicked, cancelled and aborted, chunks stall, fail and are retried, handles are
  opened and released: every read that ends successfully has returned exactly the bytes of the remote
  file at its offset.\<close>

theorem pipeline_reads_are_remote:
  assumes "item_coherent remote item d" and "row_coherent remote (ci_path item) (ci_cache_key item) d t"
    and "length remote < 2 ^ 63"
    and "guarded_run (pipe_honest remote) (pipe_step cfg) es (pipe_init item d t paused)"
    and "r \<in> set (rp_readers (pipe_run cfg es (pipe_init item d t paused)))"
    and "rr_phase r = ReadDone (Inr bs)"
  shows "bs = piece remote (rr_offset r) (rr_size r)"
  using pipe_invD(6) [OF pipe_run_inv [OF assms(1-4)] assms(5)] assms(6) by simp

definition one_read :: "pipe_event list" where
  "one_read = BeginRead True ''u'' 0 2 # fetch_two @ [PollReader 0 True False Notified]"

theorem pipeline_reads_are_remote_witness:
  "rr_phase (rp_readers (pipe_run small_config one_read small_start) ! 0) =
     ReadDone (Inr (piece [7, 8, 9, 10] 0 2))"
proof -
  let ?r = "rp_readers (pipe_run small_config one_read small_start) ! 0"
  have h: "guarded_run (pipe_honest [7, 8, 9, 10]) (pipe_step small_config) one_read small_start" by code_simp
  have "let p = pipe_run small_config one_read small_start; r = rp_readers p ! 0
      in r \<in> set (rp_readers p) \<and> rr_phase r = ReadDone (Inr [7, 8]) \<and> rr_offset r = 0 \<and> rr_size r = 2"
    by code_simp
  then have m: "?r \<in> set (rp_readers (pipe_run small_config one_read small_start))"
    and e: "rr_phase ?r = ReadDone (Inr [7, 8])" "rr_offset ?r = 0" "rr_size ?r = 2"
    unfolding Let_def by simp_all
  from pipeline_reads_are_remote [OF small_start_coherent _ h [unfolded small_start_def] m [unfolded small_start_def]]
    e show ?thesis by (simp add: small_start_def)
qed


definition two_reads :: "pipe_event list" where
  "two_reads = BeginRead True ''u'' 0 2 # BeginRead True ''u'' 1 2 # fetch_two"

lemma two_reads_honest: "guarded_run (pipe_honest [7, 8, 9, 10]) (pipe_step small_config) two_reads small_start"
  by code_simp

lemma two_reads_run:
  "let p = pipe_run small_config two_reads small_start; r = rp_readers p ! 0; r1 = rp_readers p ! 1;
       wt1 = \<lparr>wt_offset = 1, wt_end = 3, wt_fetch_until = 3, wt_session = 0, wt_owned = False\<rparr>
   in r \<in> set (rp_readers p) \<and> r1 \<in> set (rp_readers p) \<and> rr_offset r = 0 \<and> rr_size r = 2 \<and>
      rr_phase r = Waiting \<lparr>wt_offset = 0, wt_end = 2, wt_fetch_until = 2, wt_session = 0, wt_owned = True\<rparr> \<and>
      rr_phase r1 = Waiting wt1 \<and>
      fst (read_at_poll True False Notified wt1 (rp_world p)) = ReadDone (Inl DownloadFailed) \<and>
      rp_tasks p ! 0 = TaskEnded RunOk \<and> \<not> ds_cancelled (rw_sessions (rp_world p) ! 0)"
  by code_simp

lemma small_bound: "length [7, 8, 9, 10 :: byte] + parse_byte_size (read_ahead (vfs small_config)) < u64_bound"
proof -
  have "parse_byte_size (read_ahead (vfs small_config)) = 0" by code_simp
  then show ?thesis by (simp add: u64_bound_def)
qed




definition early_abort :: "pipe_event list" where
  "early_abort = [BeginRead True ''u'' 0 2, PollReader 0 True True FuseCancelled, AbortTask 0]"


text \<open>The widths of the code: every position, bound and difference of a worker is a \<open>u64\<close>, counters are \<open>u32\<close>.\<close>

fun worker_fits :: "worker_state \<Rightarrow> bool" where
  "worker_fits (Headers s e r) = (s \<le> e \<and> e < u64_bound \<and> r + 1 < 2 ^ 32)"
| "worker_fits (Body s e r pos) = (s \<le> e \<and> e < u64_bound \<and> r + 1 < 2 ^ 32 \<and> s \<le> pos \<and> pos < u64_bound)"
| "worker_fits _ = True"

definition shared_fits :: "dl_shared \<Rightarrow> bool" where
  "shared_fits sh \<longleftrightarrow> list_all (\<lambda>(s, e). s \<le> e \<and> e < u64_bound) (dl_queue sh) \<and> dl_mult sh * 2 < 2 ^ 32 \<and>
     dl_heal sh < 2 ^ 32"

definition reader_fits :: "pipe_reader \<Rightarrow> bool" where
  "reader_fits r =
     (case rr_phase r of
        ReadDone _ \<Rightarrow> True
      | Waiting wt \<Rightarrow> wt_offset wt < wt_end wt \<and> wt_end wt < u64_bound \<and> wt_fetch_until wt < u64_bound \<and>
          wt_end wt - wt_offset wt \<le> rr_size r)"

definition task_fits :: "dl_task \<Rightarrow> bool" where
  "task_fits tk = (case tk of TaskRunning _ (ws, sh) \<Rightarrow> list_all worker_fits ws \<and> shared_fits sh | _ \<Rightarrow> True)"

lemma task_ok_fits:
  assumes "task_ok remote p i tk" and "length remote < 2 ^ 63"
  shows "task_fits tk"
proof (cases tk)
  case (TaskRunning args sys)
  obtain ws sh where sys: "sys = (ws, sh)" by (cases sys)
  have len: "length remote < u64_bound" using assms(2) by (simp add: u64_bound_def)
  from assms(1) have inv: "dl_inv remote (ds_anchor (rw_sessions (rp_world p) ! i)) (ds_fetch_until (rw_sessions (rp_world p) ! i))
      (load_shared p i (ws, sh))" by (simp add: TaskRunning sys window_ok_def Let_def)
  have "worker_fits w" if "w \<in> set ws" for w
  proof -
    have "w_ok remote (pipe_cov p) w" using inv that by (auto simp: load_shared_def dl_inv_def)
    with len show ?thesis by (cases w) (auto simp: MAX_DOWNLOAD_RETRIES_def)
  qed
  moreover have "shared_fits sh"
    using inv len by (auto simp: load_shared_def dl_inv_def sh_ok_def shared_fits_def list_all_iff MAX_SESSION_LINK_HEALS_def)
  ultimately show ?thesis by (simp add: TaskRunning sys task_fits_def list_all_iff)
qed (simp_all add: task_fits_def)

text \<open>C34: the arithmetic of readers and workers stays within the machine types: in every reachable state the
  bounds of queued slices and chunks are ordered and 64-bit, positions do not run past them below, the
  multiplier can be doubled and the retry counter incremented in 32 bits, and the length of a read that
  is cast to \<open>u32\<close> is at most the size the kernel asked for.\<close>

theorem pipeline_values_fit:
  assumes "item_coherent remote item d" and "row_coherent remote (ci_path item) (ci_cache_key item) d t"
    and "length remote < 2 ^ 63"
    and "guarded_run (pipe_honest remote) (pipe_step cfg) es (pipe_init item d t paused)"
  shows "list_all task_fits (rp_tasks (pipe_run cfg es (pipe_init item d t paused))) \<and>
    list_all reader_fits (rp_readers (pipe_run cfg es (pipe_init item d t paused)))"
proof -
  let ?p = "pipe_run cfg es (pipe_init item d t paused)"
  have inv: "pipe_inv remote cfg ?p" by (rule pipe_run_inv [OF assms])
  note I = pipe_invD [OF inv]
  have len: "length remote < u64_bound" using assms(3) by (simp add: u64_bound_def)
  have "task_fits tk" if "tk \<in> set (rp_tasks ?p)" for tk
    using that I(2,5) task_ok_fits [OF _ assms(3)] by (metis in_set_conv_nth)
  moreover have "reader_fits r" if "r \<in> set (rp_readers ?p)" for r
    using I(6) [OF that] len by (auto simp: reader_fits_def waiting_ok_def split: read_phase.split)
  ultimately show ?thesis by (simp add: list_all_iff)
qed

theorem pipeline_values_fit_witness:
  "list_all task_fits (rp_tasks (pipe_run small_config (take 4 two_reads) small_start)) \<and>
   list_all reader_fits (rp_readers (pipe_run small_config (take 4 two_reads) small_start))"
proof -
  have "guarded_run (pipe_honest [7, 8, 9, 10]) (pipe_step small_config) (take 4 two_reads) small_start" by code_simp
  from pipeline_values_fit [OF small_start_coherent _ this [unfolded small_start_def]] show ?thesis
    by (simp add: small_start_def)
qed

end
