(* ===== verification/Read_Path.thy ===== *)
theory Read_Path
  imports Fuse_Read Read_Pipeline
begin

text \<open>
  A FUSE read down to the network: the \<open>read_at\<close> that \<^verbatim>\<open>src/src/fuse/read.rs\<close> calls on a cache item is the
  begin and the wait of a reader in the pipeline of that item (theory \<open>Read_Pipeline\<close>), over the item,
  file and row that the cache store holds. While it waits, anything may happen on the item: other
  readers, workers, aborts, handles. The chunk cache is shown to keep the contract \<open>file_reader\<close> of
  theory \<open>Fuse_Read\<close>. Other items are different files and do not take part.
\<close>

section \<open>Wiring\<close>

text \<open>Besides the world of the other calls, the readers, sessions and tasks of every cache item, and for
  each call of \<open>read_at\<close> to come what happens on its item while it waits.\<close>

record 'a path_world =
  pw_outer :: 'a
  pw_pipes :: "nat \<Rightarrow> read_pipeline"
  pw_schedule :: "pipe_event list list"

definition pipe_blank :: read_pipeline where
  "pipe_blank = pipe_init (new_item 0 [] [] 0) [] [] False"

text \<open>The item, its file and row and the pause flag belong to the cache store; a pipeline works on them
  in place.\<close>

definition attach :: "cache \<Rightarrow> nat \<Rightarrow> read_pipeline \<Rightarrow> read_pipeline" where
  "attach c i p =
     p\<lparr>rp_world := (rp_world p)\<lparr>rw_item := ca_heap c ! i, rw_disk := ca_disk c\<rparr>, rp_table := ca_range_db c,
       rp_paused := ca_pause_downloads c\<rparr>"

definition detach :: "read_pipeline \<Rightarrow> nat \<Rightarrow> cache \<Rightarrow> cache" where
  "detach p i c =
     c\<lparr>ca_heap := (ca_heap c)[i := rw_item (rp_world p)], ca_disk := rw_disk (rp_world p),
       ca_range_db := rp_table p, ca_pause_downloads := rp_paused p\<rparr>"

text \<open>The network serves the content of the file: what it would send otherwise does not happen.\<close>

definition served_step :: "byte list \<Rightarrow> config \<Rightarrow> pipe_event \<Rightarrow> read_pipeline \<Rightarrow> read_pipeline" where
  "served_step content cfg ev p = (if pipe_honest content ev p then pipe_step cfg ev p else p)"

text \<open>The wait of reader \<open>j\<close>: events happen until it is done; when none is left the request is cancelled.\<close>

fun wait_reader ::
    "byte list \<Rightarrow> config \<Rightarrow> nat \<Rightarrow> pipe_event list \<Rightarrow> read_pipeline \<Rightarrow> (cache_read_error + byte list) \<times> read_pipeline" where
  "wait_reader content cfg j [] p =
     (case rr_phase (rp_readers p ! j) of
        ReadDone res \<Rightarrow> (res, p)
      | Waiting _ \<Rightarrow> (Inl CacheCancelled, pipe_poll cfg j True True FuseCancelled p))"
| "wait_reader content cfg j (ev # evs) p =
     (case rr_phase (rp_readers p ! j) of
        ReadDone res \<Rightarrow> (res, p)
      | Waiting _ \<Rightarrow> wait_reader content cfg j evs (served_step content cfg ev p))"

text \<open>\<open>read_at\<close> of item \<open>i\<close> as a FUSE read calls it.\<close>

definition cached_read_at ::
    "(cache_key \<Rightarrow> byte list) \<Rightarrow> config \<Rightarrow> nat \<Rightarrow> u64 \<Rightarrow> u32 \<Rightarrow> download \<Rightarrow> cache \<Rightarrow> 'a path_world \<Rightarrow>
     (cache_read_error + byte list) \<times> cache \<times> 'a path_world" where
  "cached_read_at content cfg i off len dl c w =
     (let p0 = attach c i (pw_pipes w i);
          p1 = pipe_begin cfg True (dl_download dl) off len p0;
          evs = (case pw_schedule w of [] \<Rightarrow> [] | e # _ \<Rightarrow> e);
          (res, p2) = wait_reader (content (ci_cache_key (ca_heap c ! i))) cfg (length (rp_readers p0)) evs p1
      in (res, detach p2 i c, w\<lparr>pw_pipes := (pw_pipes w)(i := p2), pw_schedule := tl (pw_schedule w)\<rparr>))"

definition outer_call :: "('a \<Rightarrow> 'r \<times> 'a) \<Rightarrow> 'a path_world \<Rightarrow> 'r \<times> 'a path_world" where
  "outer_call f w = (case f (pw_outer w) of (r, a) \<Rightarrow> (r, w\<lparr>pw_outer := a\<rparr>))"

definition outer_api :: "'a rd_api \<Rightarrow> 'a path_world rd_api" where
  "outer_api rd =
     \<lparr>api_unrestrict = (\<lambda>l. outer_call (api_unrestrict rd l)), api_verify = (\<lambda>u. outer_call (api_verify rd u)),
      api_delete_torrent = (\<lambda>i. outer_call (api_delete_torrent rd i)),
      api_add_magnet = (\<lambda>h. outer_call (api_add_magnet rd h)),
      api_select_files = (\<lambda>i f. outer_call (api_select_files rd i f)),
      api_torrent_info = (\<lambda>i. outer_call (api_torrent_info rd i)), api_active_count = outer_call (api_active_count rd)\<rparr>"

text \<open>The environment of a FUSE read whose \<open>read_at\<close> is the one of the chunk cache.\<close>

definition wired_env ::
    "(cache_key \<Rightarrow> byte list) \<Rightarrow> (read_sys \<Rightarrow> 'a path_world \<Rightarrow> wait_event list \<times> read_sys \<times> 'a path_world) \<Rightarrow>
     'a read_env \<Rightarrow> 'a path_world read_env" where
  "wired_env content idle env =
     \<lparr>re_tm = re_tm env, re_config = re_config env, re_api = outer_api (re_api env), re_now = re_now env \<circ> pw_outer,
      re_open_ok = re_open_ok env, re_rm_ok = re_rm_ok env, re_db_ok = re_db_ok env,
      re_unrestrict = (\<lambda>link uc w. case re_unrestrict env link uc (pw_outer w) of
        (r, uc', a) \<Rightarrow> (r, uc', w\<lparr>pw_outer := a\<rparr>)),
      re_read_at = cached_read_at content (re_config env), re_idle = idle\<rparr>"

section \<open>The contract\<close>

definition file_ready ::
    "(cache_key \<Rightarrow> byte list) \<Rightarrow> config \<Rightarrow> byte list \<Rightarrow> string \<Rightarrow> string \<Rightarrow> nat \<Rightarrow> cache \<Rightarrow> 'a path_world \<Rightarrow> bool" where
  "file_ready content cfg remote ak fname i c w \<longleftrightarrow>
     cache_inv c \<and> map_of (ca_items c) (build_key ak fname) = Some i \<and>
     ci_path (ca_heap c ! i) = entry_path (ca_dir c) ak fname \<and>
     content (build_key ak fname) = remote \<and> length remote < 2 ^ 63 \<and>
     pipe_inv remote cfg (attach c i (pw_pipes w i)) \<and>
     (\<forall>j \<ge> length (ca_heap c). pw_pipes w j = pipe_blank)"

lemma served_step_inv:
  assumes "pipe_inv remote cfg p" and "length remote < 2 ^ 63"
  shows "pipe_inv remote cfg (served_step remote cfg ev p)"
  using assms pipe_step_inv by (simp add: served_step_def)

lemma pipe_step_readers:
  "length (rp_readers p) \<le> length (rp_readers (pipe_step cfg ev p)) \<and>
   (j < length (rp_readers p) \<longrightarrow>
      rr_offset (rp_readers (pipe_step cfg ev p) ! j) = rr_offset (rp_readers p ! j) \<and>
      rr_size (rp_readers (pipe_step cfg ev p) ! j) = rr_size (rp_readers p ! j))"
proof (cases ev)
  case (BeginRead io url off sz)
  then show ?thesis by (simp add: pipe_begin_def Let_def nth_append split: prod.splits)
next
  case (PollReader k io fc wk)
  then show ?thesis by (cases "k = j") (auto simp: pipe_poll_def Let_def split: read_phase.split prod.splits)
next
  case (StartTask k)
  then show ?thesis by (simp add: pipe_start_def Let_def split: dl_task.split option.split)
next
  case (StepWorker k n wev)
  then show ?thesis by (simp add: pipe_work_def store_shared_def Let_def split: dl_task.split)
next
  case (ReturnTask k)
  then show ?thesis by (simp add: pipe_return_def split: dl_task.split)
next
  case (AbortTask k)
  then show ?thesis by (simp add: pipe_abort_def Let_def split: dl_task.split)
qed (simp_all add: pipe_handle_open_def pipe_handle_release_def split: prod.splits)

text \<open>No step changes which file an item is about.\<close>

definition same_file :: "cache_item \<Rightarrow> cache_item \<Rightarrow> bool" where
  "same_file item item' \<longleftrightarrow> ci_path item' = ci_path item \<and> ci_cache_key item' = ci_cache_key item"

lemma same_file_refl [simp]: "same_file item item"
  by (simp add: same_file_def)

lemma write_range_same_file:
  assumes "write_range fault ok now off data item d t = (res, item', d', t')"
  shows "same_file item item'"
proof -
  have "same_file item (fst (snd (write_range fault ok now off data item d t)))"
    by (simp add: write_range_def same_file_def Let_def case_prod_unfold split: option.split write_fault.split)
  with assms show ?thesis by simp
qed

lemma worker_step_same_file:
  assumes "worker_step base ev w sh = (w', sh')"
  shows "same_file (dl_item sh) (dl_item sh')"
proof -
  have retry: "retry_chunk base s e r x = (w', sh') \<Longrightarrow> dl_item sh' = dl_item x" for s e r x
    by (auto simp: retry_chunk_def shrink_chunk_def Let_def split: if_splits)
  have take: "take_chunk base sh = (w', sh') \<Longrightarrow> dl_item sh' = dl_item sh"
    by (auto simp: take_chunk_def pop_chunk_def Let_def split: list.splits prod.splits)
  have hd: "headers_step base ev s e r sh = (w', sh') \<Longrightarrow> dl_item sh' = dl_item sh" for s e r
    by (cases "(base, ev, s, e, r, sh)" rule: headers_step.cases)
      (auto split: prod.splits bool.splits if_splits dest!: retry attempt_refresh_frame)
  have bd: "body_step base ev s e r pos sh = (w', sh') \<Longrightarrow> same_file (dl_item sh) (dl_item sh')" for s e r pos
    by (cases "(base, ev, s, e, r, pos, sh)" rule: body_step.cases)
      (auto simp: Let_def split: prod.splits sum.splits dest!: retry write_range_same_file)
  from assms show ?thesis by (cases w) (auto split: if_splits dest: take hd bd)
qed

lemma pipe_step_same_file: "same_file (rw_item (rp_world p)) (rw_item (rp_world (pipe_step cfg ev p)))"
proof (cases ev)
  case (BeginRead io url off sz)
  obtain ph w' where run: "read_at_begin io cfg off sz (rp_world p) = (ph, w')" by (metis surj_pair)
  then have "rw_item w' = rw_item (rp_world p)" by (cases rule: read_at_begin_cases) (auto simp: world_ext_def)
  with BeginRead run show ?thesis by (simp add: pipe_begin_def Let_def)
next
  case (PollReader k io fc wk)
  have "rw_item w' = rw_item (rp_world p)" if "read_at_poll io fc wk wt (rp_world p) = (ph, w')" for wt ph w'
    using read_at_poll_ext [OF that] by (simp add: world_ext_def)
  with PollReader show ?thesis by (auto simp: pipe_poll_def Let_def split: read_phase.split prod.splits)
next
  case (StartTask k)
  then show ?thesis by (simp add: pipe_start_def Let_def split: dl_task.split option.split)
next
  case (StepWorker k n wev)
  have "same_file (rw_item (rp_world p)) (dl_item (snd (dl_step base (WorkerEv n wev) (load_shared p k sys))))" for base sys
    using worker_step_same_file [of base wev "fst sys ! n" "snd (load_shared p k sys)"]
    by (auto simp: load_shared_def split: prod.splits)
  with StepWorker show ?thesis by (simp add: pipe_work_def store_shared_def Let_def split: dl_task.split)
next
  case (ReturnTask k)
  then show ?thesis by (simp add: pipe_return_def split: dl_task.split)
next
  case (AbortTask k)
  then show ?thesis by (simp add: pipe_abort_def Let_def split: dl_task.split)
next
  case (HandleRelease ok now)
  then show ?thesis
    by (simp add: pipe_handle_release_def item_release_def same_file_def Let_def case_prod_unfold)
qed (simp_all add: pipe_handle_open_def item_open_def same_file_def)

lemma same_file_trans: "same_file a b \<Longrightarrow> same_file b c \<Longrightarrow> same_file a c"
  by (simp add: same_file_def)

lemma wait_reader_remote:
  assumes "wait_reader remote cfg j evs p = (res, p')" and "pipe_inv remote cfg p" and "length remote < 2 ^ 63"
    and "j < length (rp_readers p)"
  shows "pipe_inv remote cfg p' \<and> same_file (rw_item (rp_world p)) (rw_item (rp_world p')) \<and>
    (\<forall>b. res = Inr b \<longrightarrow> b = piece remote (rr_offset (rp_readers p ! j)) (rr_size (rp_readers p ! j)))"
  using assms
proof (induction evs arbitrary: p)
  case Nil
  show ?case
  proof (cases "rr_phase (rp_readers p ! j)")
    case (ReadDone r)
    with Nil pipe_invD(6) [OF Nil(2) nth_mem [OF Nil(4)]] show ?thesis by (cases r) auto
  next
    case (Waiting wt)
    with Nil pipe_step_inv [OF Nil(2), of "PollReader j True True FuseCancelled"]
      pipe_step_same_file [of p cfg "PollReader j True True FuseCancelled"] show ?thesis by auto
  qed
next
  case (Cons ev evs)
  show ?case
  proof (cases "rr_phase (rp_readers p ! j)")
    case (ReadDone r)
    with Cons.prems pipe_invD(6) [OF Cons.prems(2) nth_mem [OF Cons.prems(4)]] show ?thesis by (cases r) auto
  next
    case (Waiting wt)
    let ?p = "served_step remote cfg ev p"
    have s: "length (rp_readers p) \<le> length (rp_readers ?p)"
      "rr_offset (rp_readers ?p ! j) = rr_offset (rp_readers p ! j)" "rr_size (rp_readers ?p ! j) = rr_size (rp_readers p ! j)"
      "same_file (rw_item (rp_world p)) (rw_item (rp_world ?p))"
      using pipe_step_readers [of p cfg ev j] pipe_step_same_file [of p cfg ev] Cons.prems(4)
      by (simp_all add: served_step_def)
    have w: "wait_reader remote cfg j evs ?p = (res, p')" using Cons.prems(1) Waiting by simp
    from Cons.IH [OF w served_step_inv [OF Cons.prems(2,3)] Cons.prems(3)] s Cons.prems(4) show ?thesis
      using same_file_trans [OF s(4)] by auto
  qed
qed

lemma attach_simps [simp]:
  "rw_item (rp_world (attach c i p)) = ca_heap c ! i" "rw_disk (rp_world (attach c i p)) = ca_disk c"
  "rp_table (attach c i p) = ca_range_db c" "rp_readers (attach c i p) = rp_readers p"
  by (simp_all add: attach_def)

lemma attach_detach: "i < length (ca_heap c) \<Longrightarrow> attach (detach p i c) i p = p"
  by (simp add: attach_def detach_def)

lemma detach_ready:
  assumes "file_ready content cfg remote ak fname i c w" and "pipe_inv remote cfg p"
    and "same_file (ca_heap c ! i) (rw_item (rp_world p))"
  shows "file_ready content cfg remote ak fname i (detach p i c) (w\<lparr>pw_pipes := (pw_pipes w)(i := p), pw_schedule := evs\<rparr>)"
proof -
  have r: "cache_inv c" "map_of (ca_items c) (build_key ak fname) = Some i"
    using assms(1) by (simp_all add: file_ready_def)
  have i: "i < length (ca_heap c)" using cache_invD(1) [OF r] .
  have "cache_inv (c\<lparr>ca_heap := (ca_heap c)[i := rw_item (rp_world p)]\<rparr>)"
    using r(1) assms(3) by (intro cache_inv_heap_update) (auto simp: same_file_def)
  then have "cache_inv (detach p i c)" by (simp add: detach_def cache_inv_def)
  with assms i show ?thesis
    by (simp add: file_ready_def attach_detach [OF i]) (simp add: detach_def same_file_def)
qed

lemma cached_read_at_law:
  assumes ready: "file_ready content cfg remote ak fname i c w" and len: "0 < len" "off + len < u64_bound"
    and run: "cached_read_at content cfg i off len dl c w = (res, c', w')"
  shows "file_ready content cfg remote ak fname i c' w' \<and> (\<forall>b. res = Inr b \<longrightarrow> b = piece remote off len)"
proof -
  let ?p0 = "attach c i (pw_pipes w i)"
  let ?p1 = "pipe_begin cfg True (dl_download dl) off len ?p0"
  let ?j = "length (rp_readers ?p0)"
  let ?evs = "case pw_schedule w of [] \<Rightarrow> [] | e # _ \<Rightarrow> e"
  have R: "content (build_key ak fname) = remote" "length remote < 2 ^ 63" "pipe_inv remote cfg ?p0"
    "cache_inv c" "map_of (ca_items c) (build_key ak fname) = Some i"
    using ready by (simp_all add: file_ready_def)
  have key: "ci_cache_key (ca_heap c ! i) = build_key ak fname" by (rule cache_invD(2) [OF R(4,5)])
  obtain res2 p2 where wr: "wait_reader remote cfg ?j ?evs ?p1 = (res2, p2)" by (metis surj_pair)
  have out: "res = res2" "c' = detach p2 i c" "w' = w\<lparr>pw_pipes := (pw_pipes w)(i := p2), pw_schedule := tl (pw_schedule w)\<rparr>"
    using run wr by (auto simp: cached_read_at_def key R(1) Let_def)
  have inv1: "pipe_inv remote cfg ?p1" by (rule pipe_begin_inv [OF R(3) len])
  have j: "?j < length (rp_readers ?p1)" "rr_offset (rp_readers ?p1 ! ?j) = off" "rr_size (rp_readers ?p1 ! ?j) = len"
    by (simp_all add: pipe_begin_def Let_def case_prod_unfold)
  note W = wait_reader_remote [OF wr inv1 R(2) j(1)]
  have "same_file (ca_heap c ! i) (rw_item (rp_world ?p1))"
    using pipe_step_same_file [of ?p0 cfg "BeginRead True (dl_download dl) off len"] by simp
  with W have "same_file (ca_heap c ! i) (rw_item (rp_world p2))" using same_file_trans by blast
  with detach_ready [OF ready] W j show ?thesis by (simp add: out)
qed

text \<open>The chunk cache keeps the contract that the retry loop of a FUSE read relies on.\<close>

interpretation wired: file_reader "wired_env content idle env" i remote
    "file_ready content (re_config env) remote ak fname i" for content idle env i remote ak fname
proof
  show "file_ready content (re_config env) remote ak fname i c w'"
    if "file_ready content (re_config env) remote ak fname i c w"
      "re_unrestrict (wired_env content idle env) link uc w = (r, uc', w')" for c w link uc r uc' w'
    using that by (auto simp: wired_env_def file_ready_def split: prod.splits)
  show "file_ready content (re_config env) remote ak fname i c' w' \<and> (\<forall>b. res = Inr b \<longrightarrow> b = piece remote off len)"
    if "file_ready content (re_config env) remote ak fname i c w" "0 < len" "off + len < u64_bound"
      "re_read_at (wired_env content idle env) i off len dl c w = (res, c', w')" for c w len off dl res c' w'
    using cached_read_at_law [OF that(1-3)] that(4) by (simp add: wired_env_def)
qed

section \<open>From the inode to the bytes\<close>

text \<open>What the cache owes to a file, open or not: its row claims nothing that is not on disk, an item in
  memory is ready, and items that do not exist yet have no readers.\<close>

definition store_ok ::
    "(cache_key \<Rightarrow> byte list) \<Rightarrow> config \<Rightarrow> byte list \<Rightarrow> string \<Rightarrow> string \<Rightarrow> cache \<Rightarrow> 'a path_world \<Rightarrow> bool" where
  "store_ok content cfg remote ak fname c w \<longleftrightarrow>
     cache_inv c \<and> content (build_key ak fname) = remote \<and> length remote < 2 ^ 63 \<and>
     row_coherent remote (entry_path (ca_dir c) ak fname) (build_key ak fname) (ca_disk c) (ca_range_db c) \<and>
     (\<forall>j \<ge> length (ca_heap c). pw_pipes w j = pipe_blank) \<and>
     (\<forall>i. map_of (ca_items c) (build_key ak fname) = Some i \<longrightarrow> file_ready content cfg remote ak fname i c w)"

lemma file_ready_store:
  assumes "file_ready content cfg remote ak fname i c w"
  shows "store_ok content cfg remote ak fname c w"
proof -
  have r: "cache_inv c" "map_of (ca_items c) (build_key ak fname) = Some i" "pipe_inv remote cfg (attach c i (pw_pipes w i))"
    "ci_path (ca_heap c ! i) = entry_path (ca_dir c) ak fname"
    using assms by (simp_all add: file_ready_def)
  have "row_coherent remote (entry_path (ca_dir c) ak fname) (build_key ak fname) (ca_disk c) (ca_range_db c)"
    using pipe_invD(1) [OF r(3)] r(4) cache_invD(2) [OF r(1,2)] by (simp add: shared_ok_def Let_def)
  with assms r(2) show ?thesis by (auto simp: store_ok_def file_ready_def)
qed

lemma pipe_blank_inv:
  "pipe_inv remote cfg (attach c i pipe_blank) \<longleftrightarrow>
     item_coherent remote (ca_heap c ! i) (ca_disk c) \<and>
     row_coherent remote (ci_path (ca_heap c ! i)) (ci_cache_key (ca_heap c ! i)) (ca_disk c) (ca_range_db c)"
  by (simp add: pipe_inv_def shared_ok_def registers_ok_def attach_def pipe_blank_def pipe_init_def Let_def)

lemma attach_handle_open:
  assumes "i < length (ca_heap c)"
  shows "attach (upd_item i (item_open now) c) i p = pipe_handle_open now (attach c i p)"
  using assms by (simp add: attach_def upd_item_def pipe_handle_open_def)

lemma goc_entry_ready:
  assumes ok: "store_ok content cfg remote ak fname c w"
    and run: "goc_entry opn now ak fname (length remote) c = (Inr i, c')"
  shows "file_ready content cfg remote ak fname i c' w"
proof (cases "map_of (ca_items c) (build_key ak fname)")
  case (Some j)
  with ok have r: "file_ready content cfg remote ak fname j c w" by (simp add: store_ok_def)
  from Some run have out: "i = j" "c' = upd_item j (item_open now) c" by (auto simp: goc_entry_def)
  have j: "j < length (ca_heap c)" using r Some cache_invD(1) by (auto simp: file_ready_def)
  have "pipe_inv remote cfg (pipe_step cfg (HandleOpen now) (attach c j (pw_pipes w j)))"
    using r by (intro pipe_step_inv) (auto simp: file_ready_def)
  with r j show ?thesis
    unfolding out file_ready_def attach_handle_open [OF j]
    by (auto simp: upd_item_inv) (auto simp: upd_item_def item_open_def)
next
  case None
  let ?path = "entry_path (ca_dir c) ak fname" and ?key = "build_key ak fname"
  obtain res d t where o: "open_or_create_with_db opn now ?path ?key (length remote) (ca_disk c) (ca_range_db c) = (res, d, t)"
    by (metis surj_pair)
  with None run obtain item where res: "res = Inr item" by (cases res) (auto simp: goc_entry_def)
  have row: "row_coherent remote ?path ?key (ca_disk c) (ca_range_db c)" using ok by (simp add: store_ok_def)
  note C = open_or_create_coherent [OF row o]
  let ?c = "c\<lparr>ca_disk := d, ca_range_db := t, ca_heap := ca_heap c @ [item], ca_items := (?key, length (ca_heap c)) # ca_items c\<rparr>"
  have out: "i = length (ca_heap c)" "c' = upd_item i (item_open now) ?c"
    using run None o res by (auto simp: goc_entry_def Let_def)
  have inv: "cache_inv c'" using goc_entry_inv [of c opn now ak fname "length remote"] ok run by (simp add: store_ok_def)
  have "pw_pipes w i = pipe_blank" using ok out by (simp add: store_ok_def)
  moreover have "pipe_inv remote cfg (attach c' i pipe_blank)"
    unfolding pipe_blank_inv using C res by (simp add: out upd_item_def) (simp add: item_open_def)
  ultimately show ?thesis
    using inv ok C res by (auto simp: file_ready_def store_ok_def out upd_item_def item_open_def)
qed

lemma cache_release_ready:
  assumes "file_ready content cfg remote ak fname i c w"
  shows "file_ready content cfg remote ak fname i (cache_release db_ok now i c) w"
proof -
  have i: "i < length (ca_heap c)" using assms cache_invD(1) by (auto simp: file_ready_def)
  let ?p = "attach c i (pw_pipes w i)"
  have at: "attach (cache_release db_ok now i c) i (pw_pipes w i) = pipe_step cfg (HandleRelease db_ok now) ?p"
    using i by (simp add: attach_def cache_release_def pipe_handle_release_def split: prod.splits)
  have "pipe_inv remote cfg (pipe_step cfg (HandleRelease db_ok now) ?p)"
    using assms by (intro pipe_step_inv) (auto simp: file_ready_def)
  moreover have "same_file (ca_heap c ! i) (ca_heap (cache_release db_ok now i c) ! i)"
    using pipe_step_same_file [of ?p cfg "HandleRelease db_ok now"] i
    by (simp add: pipe_handle_release_def cache_release_def split: prod.splits)
  moreover have "ca_items (cache_release db_ok now i c) = ca_items c" "ca_dir (cache_release db_ok now i c) = ca_dir c"
    "length (ca_heap (cache_release db_ok now i c)) = length (ca_heap c)"
    by (simp_all add: cache_release_def split: prod.splits)
  ultimately show ?thesis
    using assms cache_release_inv [of c db_ok now i] by (simp add: file_ready_def at same_file_def del: pipe_step.simps)
qed

lemma outer_call_pipes [simp]: "pw_pipes (snd (outer_call f w)) = pw_pipes w"
  by (simp add: outer_call_def split: prod.split)

lemma ensure_info_pipes:
  assumes "fs_ensure_torrent_info (outer_api rd) key fs w = (r, fs', w')"
  shows "pw_pipes w' = pw_pipes w"
proof -
  have "pw_pipes w2 = pw_pipes w" if "outer_call f w = (x, w2)" for f x w2
    using outer_call_pipes [of f w] that by simp
  with assms show ?thesis
    by (auto simp: fs_ensure_torrent_info_def ensure_torrent_info_def outer_api_def
        split: prod.splits ensure_start.splits sum.splits)
qed

lemma store_ok_pipes: "pw_pipes w' = pw_pipes w \<Longrightarrow> store_ok content cfg remote ak fname c w' = store_ok content cfg remote ak fname c w"
  by (simp add: store_ok_def file_ready_def)

section \<open>Properties\<close>


definition demo_path_env :: "string list path_world read_env" where
  "demo_path_env = wired_env (\<lambda>_. [1, 2, 3, 4, 5]) (\<lambda>s w. ([DeadlineHit], s, w)) (demo_read_env (Inr demo_download))"

definition demo_path_world :: "string list path_world" where
  "demo_path_world =
     \<lparr>pw_outer = [], pw_pipes = (\<lambda>_. pipe_blank),
      pw_schedule = [[StartTask 0, StepWorker 0 0 Turn, StepWorker 0 0 (HeadersOk 206 True),
        StepWorker 0 0 (BodyData [2, 3, 4, 5] NoFault True 1), PollReader 0 True False Notified]]\<rparr>"


end
