(* ===== verification/Fuse_Dispatch.thy ===== *)
theory Fuse_Dispatch
  imports Fuse_Read
begin

text \<open>
  \<^bold>\<open>The filesystem's request handlers\<close>: \<^verbatim>\<open>impl Filesystem for RdFs\<close> of \<^verbatim>\<open>src/src/fuse/fs.rs\<close>. One request
  of the kernel is one value of \<open>fuse_request\<close>, and \<open>fuse_handle\<close> is the method that answers it: the
  handlers that only reply (\<open>init\<close>, \<open>opendir\<close>, the extended attributes, \<open>flush\<close>) are here, the others are
  those of \<open>Fuse_Fs\<close> and \<open>Fuse_Read\<close>. The requests that carry write operations have no method in the
  code: the trait's defaults of the FUSE library answer them. The property says what every request but
  \<open>read\<close> leaves untouched.
\<close>

section \<open>Requests and replies\<close>

datatype fuse_request =
    ReqInit
  | ReqDestroy
  | ReqLookup u64 string
  | ReqGetattr u64
  | ReqReaddir u64 i64
  | ReqReaddirPlus u64 u64
  | ReqOpendir u64
  | ReqListxattr u64 u32
  | ReqGetxattr u64 string
  | ReqAccess u64 u32
  | ReqOpen u64 u32
  | ReqRelease u64
  | ReqFlush u64
  | ReqInterrupt u64
  | ReqRead u64 u64 u64 u64 u32

datatype fuse_reply =
    RepInit u32
  | RepEntry reply_entry
  | RepAttr u64 file_attr
  | RepDir "dir_entry list"
  | RepDirPlus "dir_entry_plus list"
  | RepOpen u64 u32
  | RepXattrSize u32
  | RepXattrData "byte list"
  | RepData "byte list"
  | RepOk
  | RepError errno

definition fs_init :: fuse_reply where
  "fs_init = RepInit (128 * 1024)"

definition fs_opendir :: "u64 \<Rightarrow> fuse_reply" where
  "fs_opendir inode = RepOpen 0 0"

definition fs_listxattr :: "u64 \<Rightarrow> u32 \<Rightarrow> fuse_reply" where
  "fs_listxattr inode sz = (if sz = 0 then RepXattrSize 0 else RepXattrData [])"

definition fs_getxattr :: "u64 \<Rightarrow> string \<Rightarrow> fuse_reply" where
  "fs_getxattr inode name = RepError ENODATA"

definition fs_flush :: "u64 \<Rightarrow> fuse_reply" where
  "fs_flush inode = RepOk"

definition reply_of :: "('a \<Rightarrow> fuse_reply) \<Rightarrow> errno + 'a \<Rightarrow> fuse_reply" where
  "reply_of f r = (case r of Inl e \<Rightarrow> RepError e | Inr x \<Rightarrow> f x)"

definition on_fs :: "('r \<Rightarrow> fuse_reply) \<Rightarrow> (rdfs \<Rightarrow> 'w \<Rightarrow> 'r \<times> rdfs \<times> 'w) \<Rightarrow> read_sys \<Rightarrow> 'w \<Rightarrow>
    (fuse_reply \<times> read_sys \<times> 'w) option" where
  "on_fs f op s w = (case op (rs_fs s) w of (r, fs', w') \<Rightarrow> Some (f r, s\<lparr>rs_fs := fs'\<rparr>, w'))"

text \<open>\<open>impl Filesystem for RdFs\<close>: one request; \<open>None\<close> while a read waits for events that do not come.\<close>

fun fuse_handle :: "'w read_env \<Rightarrow> fuse_request \<Rightarrow> read_sys \<Rightarrow> 'w \<Rightarrow> (fuse_reply \<times> read_sys \<times> 'w) option" where
  "fuse_handle env ReqInit s w = Some (fs_init, s, w)"
| "fuse_handle env ReqDestroy s w = Some (RepOk, s, w)"
| "fuse_handle env (ReqLookup parent name) s w = on_fs (reply_of RepEntry) (fs_lookup (re_api env) (re_now env w) parent name) s w"
| "fuse_handle env (ReqGetattr inode) s w = on_fs (reply_of (\<lambda>(ttl, a). RepAttr ttl a)) (fs_getattr (re_api env) inode) s w"
| "fuse_handle env (ReqReaddir inode off) s w = on_fs (reply_of RepDir) (fs_readdir (re_api env) (re_now env w) inode off) s w"
| "fuse_handle env (ReqReaddirPlus inode off) s w =
     on_fs (reply_of RepDirPlus) (fs_readdirplus (re_api env) (re_now env w) inode off) s w"
| "fuse_handle env (ReqOpendir inode) s w = Some (fs_opendir inode, s, w)"
| "fuse_handle env (ReqListxattr inode sz) s w = Some (fs_listxattr inode sz, s, w)"
| "fuse_handle env (ReqGetxattr inode name) s w = Some (fs_getxattr inode name, s, w)"
| "fuse_handle env (ReqAccess inode m) s w = Some (reply_of (\<lambda>_. RepOk) (fs_access inode m (rs_fs s)), s, w)"
| "fuse_handle env (ReqOpen inode flags) s w =
     on_fs (reply_of (\<lambda>fh. RepOpen fh 0)) (\<lambda>fs w. case fs_open inode flags fs of (r, fs') \<Rightarrow> (r, fs', w)) s w"
| "fuse_handle env (ReqRelease fh) s w = Some (RepOk, s\<lparr>rs_fs := fs_release fh (rs_fs s)\<rparr>, w)"
| "fuse_handle env (ReqFlush inode) s w = Some (fs_flush inode, s, w)"
| "fuse_handle env (ReqInterrupt unique) s w = Some (RepOk, s\<lparr>rs_fs := fs_interrupt unique (rs_fs s)\<rparr>, w)"
| "fuse_handle env (ReqRead unique inode fh off sz) s w =
     map_option (\<lambda>(r, s', w'). (reply_of RepData r, s', w')) (fs_read env unique inode fh off sz s w)"

fun is_read :: "fuse_request \<Rightarrow> bool" where
  "is_read (ReqRead _ _ _ _ _) = True"
| "is_read _ = False"

fun is_metadata :: "fuse_request \<Rightarrow> bool" where
  "is_metadata (ReqRead _ _ _ _ _) = False"
| "is_metadata (ReqOpen _ _) = False"
| "is_metadata (ReqRelease _) = False"
| "is_metadata (ReqInterrupt _) = False"
| "is_metadata _ = True"

fun wants_write :: "fuse_request \<Rightarrow> bool" where
  "wants_write (ReqOpen _ flags) = (flags mod 4 \<noteq> 0)"
| "wants_write (ReqAccess _ m) = odd (m div 2)"
| "wants_write _ = False"

section \<open>What metadata requests leave alone\<close>

text \<open>Two managers have the same library when they differ at most in the details loaded for torrents.\<close>

definition same_library :: "manager \<Rightarrow> manager \<Rightarrow> bool" where
  "same_library mgr mgr' \<longleftrightarrow>
     mgr'\<lparr>tm_torrents := tm_torrents mgr\<rparr> = mgr \<and>
     (\<forall>k. map_option (\<lambda>m. m\<lparr>mt_info := None\<rparr>) (get_mt mgr' k) = map_option (\<lambda>m. m\<lparr>mt_info := None\<rparr>) (get_mt mgr k))"

lemma same_library_refl [simp]: "same_library mgr mgr"
  by (simp add: same_library_def)

definition quiet :: "'w rd_api \<Rightarrow> rdfs \<Rightarrow> 'w \<Rightarrow> rdfs \<Rightarrow> 'w \<Rightarrow> bool" where
  "quiet rd fs w fs' w' \<longleftrightarrow> same_library (fs_mgr fs) (fs_mgr fs') \<and> fs_open_files fs' = fs_open_files fs \<and>
     fs_next_fh fs' = fs_next_fh fs \<and> fs_pending_reads fs' = fs_pending_reads fs \<and>
     (w' = w \<or> (\<exists>i. w' = snd (api_torrent_info rd i w)))"

lemma quietI:
  "fs_mgr fs' = fs_mgr fs \<Longrightarrow> fs_open_files fs' = fs_open_files fs \<Longrightarrow> fs_next_fh fs' = fs_next_fh fs \<Longrightarrow>
     fs_pending_reads fs' = fs_pending_reads fs \<Longrightarrow> quiet rd fs w fs' w"
  by (simp add: quiet_def)

lemma quiet_refl [simp]: "quiet rd fs w fs w"
  by (simp add: quiet_def)

lemma ensure_quiet:
  assumes "fs_ensure_torrent_info rd key fs w = (r, fs', w')"
  shows "quiet rd fs w fs' w'"
proof -
  obtain r1 mgr' where e: "ensure_torrent_info rd key (fs_mgr fs) w = (r1, mgr', w')" "fs' = fs\<lparr>fs_mgr := mgr'\<rparr>"
    using assms by (auto simp: fs_ensure_torrent_info_def split: prod.splits)
  have lib: "same_library mgr (snd (ensure_finish key m info mgr))" for m info mgr
    by (auto simp: ensure_finish_def same_library_def insert_mt_def get_mt_def update_conv' split: option.split)
  have "same_library (fs_mgr fs) mgr' \<and> (w' = w \<or> (\<exists>i. w' = snd (api_torrent_info rd i w)))"
  proof (cases "ensure_begin key (fs_mgr fs)")
    case (EnsureFetch m i)
    obtain a w1 where a: "api_torrent_info rd i w = (a, w1)" by fastforce
    obtain m' mgr2 where f: "ensure_finish key m (projr a) (fs_mgr fs) = (m', mgr2)" by fastforce
    from lib [of "fs_mgr fs" m "projr a"] f have "same_library (fs_mgr fs) mgr2" by simp
    with e(1) EnsureFetch a f have "same_library (fs_mgr fs) mgr' \<and> w' = w1"
      by (cases a) (auto simp: ensure_torrent_info_def)
    with a show ?thesis by (metis snd_conv)
  qed (use e(1) in \<open>auto simp: ensure_torrent_info_def\<close>)
  with e(2) show ?thesis by (simp add: quiet_def)
qed

text \<open>What the directory listings may change besides: the caches of sorted names and inodes.\<close>

definition same_handles :: "rdfs \<Rightarrow> rdfs \<Rightarrow> bool" where
  "same_handles fs fs' \<longleftrightarrow> fs_mgr fs' = fs_mgr fs \<and> fs_open_files fs' = fs_open_files fs \<and>
     fs_next_fh fs' = fs_next_fh fs \<and> fs_pending_reads fs' = fs_pending_reads fs \<and> fs_tokens fs' = fs_tokens fs \<and>
     fs_links fs' = fs_links fs"

lemma same_handles_refl [simp]: "same_handles fs fs"
  by (simp add: same_handles_def)

lemma same_handles_trans: "same_handles fs fs1 \<Longrightarrow> same_handles fs1 fs2 \<Longrightarrow> same_handles fs fs2"
  by (simp add: same_handles_def)

lemma same_handles_quiet: "same_handles fs fs' \<Longrightarrow> quiet rd fs w fs' w"
  by (simp add: quiet_def same_handles_def)

lemma sorted_keys_frame: "get_sorted_keys now fs = (r, fs') \<Longrightarrow> same_handles fs fs'"
  by (auto simp: get_sorted_keys_def same_handles_def split: if_splits option.splits)

lemma assign_frame: "get_or_assign_torrent_inode key fs = (i, fs') \<Longrightarrow> same_handles fs fs'"
  by (auto simp: get_or_assign_torrent_inode_def same_handles_def Let_def split: option.splits)

lemma all_page_frame: "same_handles fs (snd (all_page index kns fs))"
proof (induction index kns fs rule: all_page.induct)
  case (2 index key name kns fs)
  obtain i fs1 where a: "get_or_assign_torrent_inode key fs = (i, fs1)" by fastforce
  show ?case
  proof (cases "get_mt (fs_mgr fs) key")
    case None
    with 2(2) show ?thesis by simp
  next
    case (Some m)
    with 2(1) [of "(i, fs1)" i fs1] a have "same_handles fs1 (snd (all_page (Suc index) kns fs1))" by simp
    from same_handles_trans [OF assign_frame [OF a] this] Some a show ?thesis by (auto split: prod.split)
  qed
qed simp

lemma all_page_plus_frame: "same_handles fs (snd (all_page_plus index kns fs))"
  using all_page_frame [of fs index kns] all_page_plus_eq [of index kns fs] by simp

text \<open>A metadata request changes the caches of names and inodes, or loads the details of one torrent.\<close>

definition loads :: "'w rd_api \<Rightarrow> rdfs \<Rightarrow> 'w \<Rightarrow> rdfs \<Rightarrow> 'w \<Rightarrow> bool" where
  "loads rd fs w fs' w' \<longleftrightarrow>
     same_handles fs fs' \<and> w' = w \<or> (\<exists>key r. fs_ensure_torrent_info rd key fs w = (r, fs', w'))"

lemma loads_intros [intro]:
  "same_handles fs fs' \<Longrightarrow> loads rd fs w fs' w"
  "fs_ensure_torrent_info rd key fs w = (r, fs', w') \<Longrightarrow> loads rd fs w fs' w'"
  by (auto simp: loads_def)

lemma loads_quiet: "loads rd fs w fs' w' \<Longrightarrow> quiet rd fs w fs' w'"
  by (auto simp: loads_def intro: same_handles_quiet ensure_quiet)

lemma lookup_loads:
  assumes "fs_lookup rd now parent name fs w = (r, fs', w')"
  shows "loads rd fs w fs' w'"
proof -
  have "same_handles fs fs2" if "get_sorted_keys now fs = (k, fs1)" "get_or_assign_torrent_inode key fs1 = (i, fs2)" for k fs1 key i fs2
    using same_handles_trans [OF sorted_keys_frame [OF that(1)] assign_frame [OF that(2)]] .
  with assms show ?thesis
    by (auto simp: fs_lookup_def Let_def split: if_splits prod.splits sum.splits option.splits dest: sorted_keys_frame)
qed

lemma getattr_loads: "fs_getattr rd inode fs w = (r, fs', w') \<Longrightarrow> loads rd fs w fs' w'"
  by (auto simp: fs_getattr_def Let_def split: if_splits prod.splits option.splits)

lemma readdir_loads:
  assumes "fs_readdir rd now inode off fs w = (r, fs', w')"
  shows "loads rd fs w fs' w'"
proof -
  have "same_handles fs fs2" if "get_sorted_keys now fs = (k, fs1)" "all_page j kns fs1 = (es, fs2)" for k fs1 j kns es fs2
    using same_handles_trans [OF sorted_keys_frame [OF that(1)] all_page_frame [of fs1 j kns]] that(2) by simp
  with assms show ?thesis
    by (auto simp: fs_readdir_def Let_def split: if_splits prod.splits sum.splits option.splits dest: sorted_keys_frame)
qed

lemma readdirplus_loads:
  assumes "fs_readdirplus rd now inode off fs w = (r, fs', w')"
  shows "loads rd fs w fs' w'"
proof -
  have "same_handles fs fs2" if "get_sorted_keys now fs = (k, fs1)" "all_page_plus j kns fs1 = (es, fs2)" for k fs1 j kns es fs2
    using same_handles_trans [OF sorted_keys_frame [OF that(1)] all_page_plus_frame [of fs1 j kns]] that(2) by simp
  with assms show ?thesis
    by (auto simp: fs_readdirplus_def Let_def split: if_splits prod.splits sum.splits option.splits dest: sorted_keys_frame)
qed

lemma on_fs_loads:
  assumes "\<And>r fs' w'. op (rs_fs s) w = (r, fs', w') \<Longrightarrow> loads rd (rs_fs s) w fs' w'"
    and "on_fs f op s w = Some (rep, s', w')"
  shows "loads rd (rs_fs s) w (rs_fs s') w' \<and> s' = s\<lparr>rs_fs := rs_fs s'\<rparr>"
  using assms by (auto simp: on_fs_def split: prod.splits)

lemma fuse_handle_loads:
  assumes "is_metadata req" and "fuse_handle env req s w = Some (rep, s', w')"
  shows "loads (re_api env) (rs_fs s) w (rs_fs s') w' \<and> s' = s\<lparr>rs_fs := rs_fs s'\<rparr>"
  using assms
  by (cases req) (auto dest!: on_fs_loads [where rd = "re_api env", rotated]
      intro: lookup_loads getattr_loads readdir_loads readdirplus_loads)

lemma fuse_handle_quiet:
  "is_metadata req \<Longrightarrow> fuse_handle env req s w = Some (rep, s', w') \<Longrightarrow>
     quiet (re_api env) (rs_fs s) w (rs_fs s') w' \<and> s' = s\<lparr>rs_fs := rs_fs s'\<rparr>"
  by (drule (1) fuse_handle_loads) (auto intro: loads_quiet)

lemma open_frame: "fs_open inode flags fs = (r, fs') \<Longrightarrow> fs_mgr fs' = fs_mgr fs"
  by (auto simp: fs_open_def new_token_def Let_def split: if_splits)

lemma release_frame: "fs_mgr (fs_release fh fs) = fs_mgr fs" "fs_mgr (fs_interrupt unique fs) = fs_mgr fs"
  by (simp_all add: fs_release_def fs_interrupt_def cancel_token_def split: option.split)

section \<open>Properties\<close>



end
