(* ===== verification/Read_Cancel.thy ===== *)
theory Read_Cancel
  imports Fuse_Dispatch
begin

text \<open>
  Cancellation of reads (\<^verbatim>\<open>src/src/fuse/read_cancel_bridge.rs\<close> with \<open>open\<close>, \<open>release\<close>, \<open>interrupt\<close> and \<open>read\<close> of
  \<^verbatim>\<open>src/src/fuse/fs.rs\<close>): a read is registered with a token of its own and a task that links it to the token
  of its handle. Over all sequences of filesystem events, the tokens of handles and of reads are
  distinct, and a read is cancelled by its own interrupt, by the release of its own handle and by
  nothing else.
\<close>

section \<open>Frames\<close>

text \<open>The events that leave handles, tokens and registrations alone.\<close>

definition same_tokens :: "rdfs \<Rightarrow> rdfs \<Rightarrow> bool" where
  "same_tokens fs fs' \<longleftrightarrow> fs_open_files fs' = fs_open_files fs \<and> fs_next_fh fs' = fs_next_fh fs \<and>
     fs_pending_reads fs' = fs_pending_reads fs \<and> fs_tokens fs' = fs_tokens fs \<and> fs_links fs' = fs_links fs"

lemma ensure_tokens: "fs_ensure_torrent_info rd key fs w = (r, fs', w') \<Longrightarrow> same_tokens fs fs'"
  by (auto simp: fs_ensure_torrent_info_def same_tokens_def split: prod.splits)

lemma loads_tokens: "loads rd fs w fs' w' \<Longrightarrow> same_tokens fs fs'"
  unfolding loads_def by (elim disjE exE conjE) (simp add: same_handles_def same_tokens_def, rule ensure_tokens)

fun on_tokens :: "fs_event \<Rightarrow> bool" where
  "on_tokens (EvOpen _ _) = True"
| "on_tokens (EvRelease _) = True"
| "on_tokens (EvInterrupt _) = True"
| "on_tokens (EvReadBegin _ _) = True"
| "on_tokens (EvReadEnd _ _) = True"
| "on_tokens (EvLink _) = True"
| "on_tokens _ = False"

lemma fs_op_tokens:
  assumes "\<not> on_tokens e"
  shows "same_tokens fs (fst (fs_op rd now e fs w))"
proof (cases e)
  case (EvLookup i n)
  then show ?thesis using lookup_loads [of rd now i n fs w] loads_tokens by (metis fs_op.simps(1) prod.collapse)
next
  case (EvGetattr i)
  then show ?thesis using getattr_loads [of rd i fs w] loads_tokens by (metis fs_op.simps(2) prod.collapse)
next
  case (EvReaddir i off)
  then show ?thesis using readdir_loads [of rd now i off fs w] loads_tokens by (metis fs_op.simps(3) prod.collapse)
next
  case (EvReaddirPlus i off)
  then show ?thesis using readdirplus_loads [of rd now i off fs w] loads_tokens by (metis fs_op.simps(4) prod.collapse)
qed (use assms in \<open>auto simp: same_tokens_def cleanup_removed_def cleanup_sweep_def Let_def split: option.split\<close>)

section \<open>Tokens\<close>

text \<open>Every token in use exists; open handles have tokens of their own, not cancelled and not those of reads.\<close>

definition tokens_inv :: "rdfs \<Rightarrow> bool" where
  "tokens_inv fs \<longleftrightarrow>
     (\<forall>fh st. map_of (fs_open_files fs) fh = Some st \<longrightarrow> of_cancel st < length (fs_tokens fs) \<and> \<not> fs_tokens fs ! of_cancel st) \<and>
     (\<forall>fh fh' st st'. map_of (fs_open_files fs) fh = Some st \<longrightarrow> map_of (fs_open_files fs) fh' = Some st' \<longrightarrow>
        of_cancel st = of_cancel st' \<longrightarrow> fh = fh') \<and>
     (\<forall>fh st u. map_of (fs_open_files fs) fh = Some st \<longrightarrow> map_of (fs_pending_reads fs) u \<noteq> Some (of_cancel st)) \<and>
     (\<forall>fh st a. map_of (fs_open_files fs) fh = Some st \<longrightarrow> (a, of_cancel st) \<notin> set (fs_links fs)) \<and>
     (\<forall>a t. (a, t) \<in> set (fs_links fs) \<longrightarrow> a < length (fs_tokens fs) \<and> t < length (fs_tokens fs)) \<and>
     (\<forall>u t. map_of (fs_pending_reads fs) u = Some t \<longrightarrow> t < length (fs_tokens fs))"

lemma tokens_invI:
  assumes "\<And>fh st. map_of (fs_open_files fs) fh = Some st \<Longrightarrow> of_cancel st < length (fs_tokens fs) \<and> \<not> fs_tokens fs ! of_cancel st"
    and "\<And>fh fh' st st'. map_of (fs_open_files fs) fh = Some st \<Longrightarrow> map_of (fs_open_files fs) fh' = Some st' \<Longrightarrow>
        of_cancel st = of_cancel st' \<Longrightarrow> fh = fh'"
    and "\<And>fh st u. map_of (fs_open_files fs) fh = Some st \<Longrightarrow> map_of (fs_pending_reads fs) u \<noteq> Some (of_cancel st)"
    and "\<And>fh st a. map_of (fs_open_files fs) fh = Some st \<Longrightarrow> (a, of_cancel st) \<notin> set (fs_links fs)"
    and "\<And>a t. (a, t) \<in> set (fs_links fs) \<Longrightarrow> a < length (fs_tokens fs) \<and> t < length (fs_tokens fs)"
    and "\<And>u t. map_of (fs_pending_reads fs) u = Some t \<Longrightarrow> t < length (fs_tokens fs)"
  shows "tokens_inv fs"
  unfolding tokens_inv_def using assms by auto

lemma tokens_invD:
  assumes "tokens_inv fs"
  shows "map_of (fs_open_files fs) fh = Some st \<Longrightarrow> of_cancel st < length (fs_tokens fs)"
    "map_of (fs_open_files fs) fh = Some st \<Longrightarrow> \<not> fs_tokens fs ! of_cancel st"
    "map_of (fs_open_files fs) fh = Some st \<Longrightarrow> map_of (fs_open_files fs) fh' = Some st' \<Longrightarrow> of_cancel st = of_cancel st' \<Longrightarrow> fh = fh'"
    "map_of (fs_open_files fs) fh = Some st \<Longrightarrow> map_of (fs_pending_reads fs) u \<noteq> Some (of_cancel st)"
    "map_of (fs_open_files fs) fh = Some st \<Longrightarrow> (a, of_cancel st) \<notin> set (fs_links fs)"
    "(a, t) \<in> set (fs_links fs) \<Longrightarrow> a < length (fs_tokens fs)" "(a, t) \<in> set (fs_links fs) \<Longrightarrow> t < length (fs_tokens fs)"
    "map_of (fs_pending_reads fs) u = Some t \<Longrightarrow> t < length (fs_tokens fs)"
  using assms unfolding tokens_inv_def by blast+

lemma tokens_inv_new: "tokens_inv (rdfs_new now cfg mgr)"
  by (simp add: tokens_inv_def rdfs_new_def)

lemma tokens_inv_same: "same_tokens fs fs' \<Longrightarrow> tokens_inv fs' = tokens_inv fs"
  by (simp add: same_tokens_def tokens_inv_def)

lemma tokens_inv_fresh:
  assumes "tokens_inv fs"
  shows "tokens_inv (snd (new_token fs))"
  by (rule tokens_invI) (auto simp: new_token_def nth_append less_SucI dest: tokens_invD [OF assms])

lemma tokens_inv_open:
  assumes "tokens_inv fs"
  shows "tokens_inv (snd (fs_open i fl fs))"
proof (cases "fl mod 4 = 0 \<and> INODE_FILE_BASE \<le> i")
  case True
  then show ?thesis
    by (intro tokens_invI) (auto simp: fs_open_def new_token_def tbl.get_put nth_append less_SucI Let_def split: if_splits dest: tokens_invD [OF assms])
qed (use assms in \<open>auto simp: fs_open_def\<close>)

lemma tokens_inv_read:
  assumes "tokens_inv fs" and "a < length (fs_tokens fs)"
  shows "tokens_inv (fs\<lparr>fs_tokens := fs_tokens fs @ [False], fs_pending_reads := AList.update u (length (fs_tokens fs)) (fs_pending_reads fs),
    fs_links := (a, length (fs_tokens fs)) # fs_links fs\<rparr>)"
  using assms(2) by (intro tokens_invI) (auto simp: tbl.get_put nth_append less_SucI split: if_splits dest: tokens_invD [OF assms(1)])

lemma tokens_inv_register:
  assumes "tokens_inv fs"
  shows "tokens_inv (snd (read_register u fh fs))"
proof (cases "map_of (fs_open_files fs) fh")
  case None
  with tokens_inv_read [OF tokens_inv_fresh [OF assms], of "length (fs_tokens fs)" u] show ?thesis
    by (simp add: read_register_def new_token_def)
next
  case (Some st)
  then have "of_cancel st < length (fs_tokens fs)" by (rule tokens_invD [OF assms])
  from tokens_inv_read [OF assms this, of u] Some show ?thesis by (simp add: read_register_def new_token_def)
qed

lemma tokens_inv_cancel:
  assumes "tokens_inv fs" and "\<And>fh st. map_of (fs_open_files fs) fh = Some st \<Longrightarrow> of_cancel st \<noteq> t"
  shows "tokens_inv (cancel_token t fs)"
proof (rule tokens_invI)
  fix fh st
  assume "map_of (fs_open_files (cancel_token t fs)) fh = Some st"
  then have "map_of (fs_open_files fs) fh = Some st" by (simp add: cancel_token_def)
  with tokens_invD(1,2) [OF assms(1) this] assms(2) [OF this]
  show "of_cancel st < length (fs_tokens (cancel_token t fs)) \<and> \<not> fs_tokens (cancel_token t fs) ! of_cancel st"
    by (simp add: cancel_token_def)
qed (auto simp: cancel_token_def dest: tokens_invD [OF assms(1)])

lemma tokens_inv_forget:
  assumes "tokens_inv fs"
  shows "tokens_inv (fs\<lparr>fs_open_files := AList.delete fh (fs_open_files fs)\<rparr>)"
    "tokens_inv (fs\<lparr>fs_pending_reads := AList.delete u (fs_pending_reads fs)\<rparr>)"
  by (intro tokens_invI; auto simp: tbl.get_del split: if_splits dest: tokens_invD [OF assms])+

lemma tokens_inv_release:
  assumes "tokens_inv fs"
  shows "tokens_inv (fs_release fh fs)"
proof (cases "map_of (fs_open_files fs) fh")
  case (Some st)
  then show ?thesis using tokens_invD(3) [OF assms]
    by (auto simp: fs_release_def tbl.get_del split: if_splits intro!: tokens_inv_cancel tokens_inv_forget assms)
qed (use assms in \<open>simp add: fs_release_def\<close>)

lemma tokens_inv_interrupt:
  assumes "tokens_inv fs"
  shows "tokens_inv (fs_interrupt u fs)"
proof (cases "map_of (fs_pending_reads fs) u")
  case (Some t)
  then show ?thesis using tokens_invD(4) [OF assms]
    by (auto simp: fs_interrupt_def intro!: tokens_inv_cancel tokens_inv_forget assms)
qed (use assms in \<open>simp add: fs_interrupt_def\<close>)

lemma tokens_inv_end:
  assumes "tokens_inv fs"
  shows "tokens_inv (read_unregister u t fs)"
  by (intro tokens_invI) (auto simp: read_unregister_def tbl.get_del split: if_splits dest: tokens_invD [OF assms])

lemma tokens_inv_link:
  assumes "tokens_inv fs"
  shows "tokens_inv (link_fire l fs)"
proof -
  have "of_cancel st \<noteq> snd l" if "l \<in> set (fs_links fs)" "map_of (fs_open_files fs) fh = Some st" for fh st
    using tokens_invD(5) [OF assms that(2), of "fst l"] that(1) by auto
  with assms show ?thesis by (auto simp: link_fire_def intro: tokens_inv_cancel)
qed

interpretation tokens: invariant_machine "fs_step rd" "\<lambda>s. tokens_inv (fst s)" for rd :: "'w rd_api"
proof
  fix s :: "rdfs \<times> 'w" and e
  assume "tokens_inv (fst s)"
  then show "tokens_inv (fst (fs_step rd e s))"
    using tokens_inv_same [OF fs_op_tokens [of "snd e" "fst s" rd "fst e" "snd s"]]
    by (cases "snd e") (simp_all add: fs_step_def tokens_inv_open tokens_inv_register tokens_inv_release tokens_inv_interrupt
        tokens_inv_end tokens_inv_link)
qed

section \<open>One read\<close>

text \<open>
  A read in flight: its token \<open>t\<close> is known to its own entry of \<open>pending_reads\<close> and to one link, from the token
  \<open>a\<close> of its handle. \<open>rel\<close> and \<open>intr\<close> say whether the handle was released and the request interrupted.
\<close>

definition in_flight :: "u64 \<Rightarrow> u64 \<Rightarrow> nat \<Rightarrow> nat \<Rightarrow> bool \<Rightarrow> bool \<Rightarrow> rdfs \<Rightarrow> bool" where
  "in_flight u fh a t rel intr fs \<longleftrightarrow> tokens_inv fs \<and> (a, t) \<in> set (fs_links fs) \<and>
     (\<forall>a'. (a', t) \<in> set (fs_links fs) \<longrightarrow> a' = a) \<and>
     (\<forall>u'. map_of (fs_pending_reads fs) u' = Some t \<longrightarrow> u' = u) \<and>
     (\<not> intr \<longrightarrow> map_of (fs_pending_reads fs) u = Some t) \<and> (rel \<longrightarrow> is_cancelled a fs) \<and>
     (\<not> rel \<longrightarrow> map_option of_cancel (map_of (fs_open_files fs) fh) = Some a) \<and>
     (intr \<longrightarrow> is_cancelled t fs) \<and> (is_cancelled t fs \<longrightarrow> rel \<or> intr)"

text \<open>What the kernel does while the read is in flight: it neither reuses the number of the request nor ends
  it, and the counter of handles has not come round to a handle that is still open.\<close>

fun while_reading :: "u64 \<Rightarrow> u64 \<Rightarrow> nat \<Rightarrow> int \<times> fs_event \<Rightarrow> rdfs \<times> 'w \<Rightarrow> bool" where
  "while_reading u fh t (_, EvReadBegin u' _) s = (u' \<noteq> u)"
| "while_reading u fh t (_, EvReadEnd u' t') s = (u' \<noteq> u \<and> t' \<noteq> t)"
| "while_reading u fh t (_, EvOpen _ _) s = (fs_next_fh (fst s) \<noteq> fh)"
| "while_reading u fh t _ s = True"

lemma cancelled_cancel:
  "is_cancelled y (cancel_token x fs) \<longleftrightarrow> is_cancelled y fs \<or> x = y \<and> y < length (fs_tokens fs)"
  by (cases "x = y") (auto simp: is_cancelled_def cancel_token_def)

lemma cancelled_forget [simp]:
  "is_cancelled y (fs\<lparr>fs_open_files := fm\<rparr>) = is_cancelled y fs" "is_cancelled y (fs\<lparr>fs_pending_reads := pr\<rparr>) = is_cancelled y fs"
  by (simp_all add: is_cancelled_def)

lemma in_flight_same: "same_tokens fs fs' \<Longrightarrow> in_flight u fh a t rel intr fs' = in_flight u fh a t rel intr fs"
  using tokens_inv_same [of fs fs'] by (simp add: same_tokens_def in_flight_def is_cancelled_def)

lemma in_flight_begin:
  assumes "tokens_inv fs" and "map_of (fs_open_files fs) fh = Some st" and "read_register u fh fs = (t, fs1)"
  shows "in_flight u fh (of_cancel st) t False False fs1"
proof -
  have "tokens_inv fs1" using tokens_inv_register [OF assms(1), of u fh] assms(3) by simp
  moreover have "t = length (fs_tokens fs)" "fs_links fs1 = (of_cancel st, t) # fs_links fs" "fs_open_files fs1 = fs_open_files fs"
    "fs_pending_reads fs1 = AList.update u t (fs_pending_reads fs)" "fs_tokens fs1 = fs_tokens fs @ [False]"
    using assms(2,3) by (auto simp: read_register_def new_token_def)
  ultimately show ?thesis using assms(2) tokens_invD(7,8) [OF assms(1)]
    by (auto simp: in_flight_def is_cancelled_def tbl.get_put split: if_splits)
qed

text \<open>The steps of the others: each keeps what the read relies on.\<close>

lemma in_flightI:
  assumes "tokens_inv fs'" and "(a, t) \<in> set (fs_links fs')" and "\<And>a'. (a', t) \<in> set (fs_links fs') \<Longrightarrow> a' = a"
    and "\<And>u'. map_of (fs_pending_reads fs') u' = Some t \<Longrightarrow> u' = u"
    and "\<not> intr \<Longrightarrow> map_of (fs_pending_reads fs') u = Some t"
    and "rel \<Longrightarrow> is_cancelled a fs'" and "\<not> rel \<Longrightarrow> map_option of_cancel (map_of (fs_open_files fs') fh) = Some a"
    and "intr \<Longrightarrow> is_cancelled t fs'" and "is_cancelled t fs' \<Longrightarrow> rel \<or> intr"
  shows "in_flight u fh a t rel intr fs'"
  unfolding in_flight_def by (intro conjI allI impI; (rule assms | erule assms); assumption?)

lemma in_flightD:
  assumes "in_flight u fh a t rel intr fs"
  shows "tokens_inv fs" "(a, t) \<in> set (fs_links fs)" "(a', t) \<in> set (fs_links fs) \<Longrightarrow> a' = a"
    "map_of (fs_pending_reads fs) u' = Some t \<Longrightarrow> u' = u" "\<not> intr \<Longrightarrow> map_of (fs_pending_reads fs) u = Some t"
    "rel \<Longrightarrow> is_cancelled a fs" "\<not> rel \<Longrightarrow> map_option of_cancel (map_of (fs_open_files fs) fh) = Some a"
    "intr \<Longrightarrow> is_cancelled t fs" "is_cancelled t fs \<Longrightarrow> rel \<or> intr"
    "t < length (fs_tokens fs)" "a < length (fs_tokens fs)"
    "map_of (fs_open_files fs) fh' = Some st \<Longrightarrow> of_cancel st \<noteq> t"
proof -
  note a = assms [unfolded in_flight_def]
  show inv: "tokens_inv fs" and l: "(a, t) \<in> set (fs_links fs)" using a by simp_all
  show "t < length (fs_tokens fs)" "a < length (fs_tokens fs)" using tokens_invD(6,7) [OF inv l] by simp_all
  show "of_cancel st \<noteq> t" if "map_of (fs_open_files fs) fh' = Some st" using tokens_invD(5) [OF inv that] l by blast
qed (use assms in \<open>simp_all add: in_flight_def\<close>)

lemma in_flight_frame:
  assumes "in_flight u fh a t rel intr fs" and "tokens_inv fs'"
    and "\<And>x. (x, t) \<in> set (fs_links fs') \<longleftrightarrow> (x, t) \<in> set (fs_links fs)"
    and "\<And>u'. map_of (fs_pending_reads fs') u' = Some t \<longleftrightarrow> map_of (fs_pending_reads fs) u' = Some t"
    and "rel' \<Longrightarrow> is_cancelled a fs'" and "\<not> rel' \<Longrightarrow> \<not> rel \<and> map_of (fs_open_files fs') fh = map_of (fs_open_files fs) fh"
    and "is_cancelled t fs' = is_cancelled t fs" and "rel \<Longrightarrow> rel'"
  shows "in_flight u fh a t rel' intr fs'"
proof (rule in_flightI)
  show "rel' \<or> intr" if "is_cancelled t fs'" using in_flightD(9) [OF assms(1)] assms(7,8) that by auto
qed (use assms in_flightD(2,5,7,8) [OF assms(1)] in \<open>simp_all\<close>, (erule in_flightD [OF assms(1)])+)

lemma in_flight_open:
  assumes "in_flight u fh a t rel intr fs" and "fs_next_fh fs \<noteq> fh"
  shows "in_flight u fh a t rel intr (snd (fs_open i fl fs))"
proof (cases "fl mod 4 = 0 \<and> INODE_FILE_BASE \<le> i")
  case True
  have "is_cancelled y (snd (fs_open i fl fs)) = is_cancelled y fs" for y
    using True by (auto simp: fs_open_def new_token_def is_cancelled_def nth_append Let_def)
  moreover have "fs_links (snd (fs_open i fl fs)) = fs_links fs" "fs_pending_reads (snd (fs_open i fl fs)) = fs_pending_reads fs"
    "map_of (fs_open_files (snd (fs_open i fl fs))) fh = map_of (fs_open_files fs) fh"
    using True assms(2) by (simp_all add: fs_open_def new_token_def tbl.get_put Let_def)
  ultimately show ?thesis
    by (intro in_flight_frame [OF assms(1) tokens_inv_open]) (simp_all add: in_flightD(1,6) [OF assms(1)])
qed (use assms in \<open>auto simp: fs_open_def\<close>)

lemma in_flight_register:
  assumes "in_flight u fh a t rel intr fs" and "u' \<noteq> u"
  shows "in_flight u fh a t rel intr (snd (read_register u' fh' fs))"
proof -
  let ?fs = "snd (read_register u' fh' fs)"
  have t: "t < length (fs_tokens fs)" by (rule in_flightD [OF assms(1)])
  have "is_cancelled y ?fs = is_cancelled y fs" for y
    by (auto simp: read_register_def new_token_def is_cancelled_def nth_append nth_Cons' split: option.split)
  moreover have "(x, t) \<in> set (fs_links ?fs) \<longleftrightarrow> (x, t) \<in> set (fs_links fs)" for x
    using t by (auto simp: read_register_def new_token_def split: option.split)
  moreover have "map_of (fs_pending_reads ?fs) v = Some t \<longleftrightarrow> map_of (fs_pending_reads fs) v = Some t" for v
    using t in_flightD(4) [OF assms(1), of v] assms(2)
    by (auto simp: read_register_def new_token_def tbl.get_put split: option.split)
  moreover have "fs_open_files ?fs = fs_open_files fs" by (simp add: read_register_def new_token_def split: option.split)
  ultimately show ?thesis
    by (intro in_flight_frame [OF assms(1) tokens_inv_register]) (simp_all add: in_flightD(1,6) [OF assms(1)])
qed

lemma in_flight_end:
  assumes "in_flight u fh a t rel intr fs" and "u' \<noteq> u" and "t' \<noteq> t"
  shows "in_flight u fh a t rel intr (read_unregister u' t' fs)"
  using assms(2,3) in_flightD(4) [OF assms(1), of u']
  by (intro in_flight_frame [OF assms(1) tokens_inv_end])
    (auto simp: in_flightD(1,6) [OF assms(1)] read_unregister_def tbl.get_del is_cancelled_def dest: in_flightD(6) [OF assms(1)])

lemma in_flight_release:
  assumes "in_flight u fh a t rel intr fs"
  shows "in_flight u fh a t (rel \<or> fh' = fh) intr (fs_release fh' fs)"
proof (cases "map_of (fs_open_files fs) fh'")
  case None
  with in_flightD(7) [OF assms] have "rel \<or> fh' \<noteq> fh" by auto
  with None assms show ?thesis by (auto simp: fs_release_def)
next
  case (Some st)
  let ?fs = "fs_release fh' fs"
  have c: "is_cancelled y ?fs \<longleftrightarrow> is_cancelled y fs \<or> of_cancel st = y \<and> y < length (fs_tokens fs)" for y
    using Some by (simp add: fs_release_def cancelled_cancel)
  have "of_cancel st \<noteq> t" using in_flightD(12) [OF assms Some] .
  then have "is_cancelled t ?fs = is_cancelled t fs" by (simp add: c)
  moreover have "is_cancelled a ?fs" if "rel \<or> fh' = fh"
  proof (cases rel)
    case False
    with that in_flightD(7) [OF assms] Some have "of_cancel st = a" by simp
    with in_flightD(11) [OF assms] show ?thesis by (simp add: c)
  qed (simp add: c in_flightD(6) [OF assms])
  moreover have "map_of (fs_open_files ?fs) fh = map_of (fs_open_files fs) fh" if "fh' \<noteq> fh"
    using Some that by (simp add: fs_release_def cancel_token_def tbl.get_del)
  moreover have "fs_links ?fs = fs_links fs" "fs_pending_reads ?fs = fs_pending_reads fs"
    using Some by (simp_all add: fs_release_def cancel_token_def)
  ultimately show ?thesis
    by (intro in_flight_frame [OF assms tokens_inv_release]) (simp_all add: in_flightD(1) [OF assms])
qed

lemma in_flight_interrupt:
  assumes "in_flight u fh a t rel intr fs"
  shows "in_flight u fh a t rel (intr \<or> u' = u) (fs_interrupt u' fs)"
proof (cases "map_of (fs_pending_reads fs) u'")
  case None
  with in_flightD(5) [OF assms] have "intr \<or> u' \<noteq> u" by auto
  with None assms show ?thesis by (auto simp: fs_interrupt_def)
next
  case (Some x)
  let ?fs = "fs_interrupt u' fs"
  have fs: "?fs = cancel_token x (fs\<lparr>fs_pending_reads := AList.delete u' (fs_pending_reads fs)\<rparr>)"
    using Some by (simp add: fs_interrupt_def)
  have c: "is_cancelled y ?fs \<longleftrightarrow> is_cancelled y fs \<or> x = y \<and> y < length (fs_tokens fs)" for y
    by (simp add: fs cancelled_cancel)
  have o: "fs_links ?fs = fs_links fs" "fs_open_files ?fs = fs_open_files fs"
    "map_of (fs_pending_reads ?fs) v = (if v = u' then None else map_of (fs_pending_reads fs) v)" for v
    by (simp_all add: fs cancel_token_def tbl.get_del)
  have inv: "tokens_inv ?fs" by (rule tokens_inv_interrupt [OF in_flightD(1) [OF assms]])
  show ?thesis
  proof (cases "x = t")
    case True
    with in_flightD(4) [OF assms] Some have "u' = u" by simp
    moreover have "in_flight u fh a t rel True ?fs"
      by (rule in_flightI [OF inv])
        (auto simp: o c True in_flightD(2,7,10) [OF assms] split: if_splits dest: in_flightD(3,4,6) [OF assms])
    ultimately show ?thesis by simp
  next
    case False
    with in_flightD(5) [OF assms] Some have "(intr \<or> u' = u) = intr" by (cases intr) auto
    with False Some show ?thesis
      by (simp, intro in_flight_frame [OF assms inv]) (auto simp: o c dest: in_flightD(6) [OF assms])
  qed
qed

lemma in_flight_link:
  assumes "in_flight u fh a t rel intr fs"
  shows "in_flight u fh a t rel intr (link_fire l fs)"
proof (cases "l \<in> set (fs_links fs) \<and> is_cancelled (fst l) fs")
  case True
  have inv: "tokens_inv (cancel_token (snd l) fs)" using tokens_inv_link [OF in_flightD(1) [OF assms], of l] True by (simp add: link_fire_def)
  have o: "fs_links (cancel_token x fs) = fs_links fs" "fs_open_files (cancel_token x fs) = fs_open_files fs"
    "fs_pending_reads (cancel_token x fs) = fs_pending_reads fs" for x by (simp_all add: cancel_token_def)
  have "in_flight u fh a t rel intr (cancel_token (snd l) fs)"
  proof (cases "snd l = t")
    case own: True
    then have "is_cancelled a fs" using True in_flightD(3) [OF assms, of "fst l"] by auto
    then have "rel" using in_flightD(7) [OF assms] tokens_invD(2) [OF in_flightD(1) [OF assms]] by (auto simp: is_cancelled_def)
    with inv show ?thesis unfolding own
      by (intro in_flightI) (auto simp: o cancelled_cancel in_flightD(2,10) [OF assms] dest: in_flightD(3-6) [OF assms])
  next
    case False
    then show ?thesis by (intro in_flight_frame [OF assms inv]) (auto simp: o cancelled_cancel dest: in_flightD(6) [OF assms])
  qed
  with True show ?thesis by (simp add: link_fire_def)
qed (use assms in \<open>auto simp: link_fire_def\<close>)

lemma in_flight_step:
  assumes "in_flight u fh a t rel intr (fst s)" and "while_reading u fh t e s"
  shows "in_flight u fh a t (rel \<or> snd e = EvRelease fh) (intr \<or> snd e = EvInterrupt u) (fst (fs_step rd e s))"
proof (cases "on_tokens (snd e)")
  case True
  with assms show ?thesis
    by (cases e; cases "snd e") (auto simp: fs_step_def in_flight_open in_flight_register in_flight_end in_flight_link
        intro: in_flight_release in_flight_interrupt)
next
  case False
  then have "snd e \<noteq> EvRelease fh \<and> snd e \<noteq> EvInterrupt u" by auto
  with assms(1) in_flight_same [OF fs_op_tokens [OF False, of "fst s" rd "fst e" "snd s"]] show ?thesis
    by (simp add: fs_step_def)
qed

lemma in_flight_run:
  "in_flight u fh a t rel intr (fst s) \<Longrightarrow> guarded_run (while_reading u fh t) (fs_step rd) es s \<Longrightarrow>
     in_flight u fh a t (rel \<or> EvRelease fh \<in> snd ` set es) (intr \<or> EvInterrupt u \<in> snd ` set es) (fst (fold (fs_step rd) es s))"
proof (induction es arbitrary: rel intr s)
  case (Cons e es)
  from Cons.IH [OF in_flight_step [OF Cons.prems(1)], of e rd] Cons.prems(2) show ?case
    by (simp add: disj_assoc eq_commute [of "snd e"])
qed simp

section \<open>Property\<close>

text \<open>C15: a read is cancelled by its own interrupt, by the release of its own handle, and by nothing else.
  Whatever events came before, let a read of request \<open>u\<close> register on an open handle \<open>fh\<close>, and let any events
  follow while it runs: other opens, reads, interrupts and releases, lookups and listings, refreshes of
  the library and the tasks that link tokens. Its token is cancelled if \<open>u\<close> was interrupted; if \<open>fh\<close> was
  released, the task that links the two tokens is still there and cancels it when it runs; and if the
  token is cancelled, one of the two happened.\<close>

theorem reads_cancelled_by_their_own:
  assumes "s = fold (fs_step rd) es0 (rdfs_new now cfg mgr, w)" and "map_of (fs_open_files (fst s)) fh = Some st"
    and "read_register u fh (fst s) = (t, fs1)"
    and "guarded_run (while_reading u fh t) (fs_step rd) es (fs1, snd s)"
    and "fs' = fst (fold (fs_step rd) es (fs1, snd s))"
  shows "(EvInterrupt u \<in> snd ` set es \<longrightarrow> is_cancelled t fs') \<and>
    (EvRelease fh \<in> snd ` set es \<longrightarrow> is_cancelled t (link_fire (of_cancel st, t) fs')) \<and>
    (is_cancelled t fs' \<longrightarrow> EvInterrupt u \<in> snd ` set es \<or> EvRelease fh \<in> snd ` set es)"
proof -
  have "tokens_inv (fst s)" unfolding assms(1) by (rule tokens.run_inv) (simp add: tokens_inv_new)
  then have "in_flight u fh (of_cancel st) t False False fs1" by (rule in_flight_begin [OF _ assms(2,3)])
  then have f: "in_flight u fh (of_cancel st) t (EvRelease fh \<in> snd ` set es) (EvInterrupt u \<in> snd ` set es) fs'"
    using in_flight_run [of u fh "of_cancel st" t False False "(fs1, snd s)", OF _ assms(4)] by (simp add: assms(5))
  from in_flightD(6,8,9) [OF f] in_flightD(2,10) [OF f] show ?thesis by (auto simp: link_fire_def cancelled_cancel)
qed

theorem reads_cancelled_by_their_own_witness:
  "let s = fold (fs_step demo_rd) [(0, EvOpen 5000000000 0), (0, EvOpen 5000000001 0), (0, EvReadBegin 7 2)] (demo_fs, []);
       (t, fs1) = read_register 8 1 (fst s);
       fs' = fst (fold (fs_step demo_rd) [(0, EvInterrupt 7), (0, EvReadBegin 9 1), (0, EvRelease 1)] (fs1, snd s))
   in is_cancelled t (link_fire (0, t) fs') \<and> \<not> is_cancelled t fs1"
proof -
  let ?s = "fold (fs_step demo_rd) [(0, EvOpen 5000000000 0), (0, EvOpen 5000000001 0), (0, EvReadBegin 7 2)] (demo_fs, [])"
  let ?es = "[(0, EvInterrupt 7), (0, EvReadBegin 9 1), (0, EvRelease 1)]"
  have st: "map_option of_cancel (map_of (fs_open_files (fst ?s)) 1) = Some 0" by code_simp
  then obtain st where o: "map_of (fs_open_files (fst ?s)) 1 = Some st" "of_cancel st = 0" by auto
  obtain t fs1 where r: "read_register 8 1 (fst ?s) = (t, fs1)" by fastforce
  have "\<not> is_cancelled (fst (read_register 8 1 (fst ?s))) (snd (read_register 8 1 (fst ?s)))" by code_simp
  moreover have "guarded_run (while_reading 8 1 t) (fs_step demo_rd) ?es (fs1, snd ?s)" by simp
  moreover have "?s = fold (fs_step demo_rd) [(0, EvOpen 5000000000 0), (0, EvOpen 5000000001 0), (0, EvReadBegin 7 2)]
      (rdfs_new 0 vfs_config_default demo_mgr, [])" by (simp add: demo_fs_def)
  ultimately show ?thesis using reads_cancelled_by_their_own [of ?s demo_rd, OF _ o(1) r _ refl, of _ _ _ _ _ ?es] o(2) r
    by (simp add: Let_def del: fold.simps)
qed

end
