(* ===== verification/Request_Frame.thy ===== *)
theory Request_Frame
  imports Fuse_Dispatch
begin

text \<open>
  What FUSE requests keep: a property of the state and the world that every single call of a request
  keeps is kept by the whole request, reads with their retries and waits included. Theory \<open>Process\<close> uses
  it for the library, the cache and the client.
\<close>

section \<open>The interface\<close>

text \<open>
  What a FUSE request can do to the program's shared state, as an interface: manager operations other
  than a refresh, changes of the filesystem's own tables, the calls on the two caches and the requests
  to the service. A property that each of them keeps is kept by every request, however long a read
  retries or waits.
\<close>

fun is_sync :: "mgr_event \<Rightarrow> bool" where
  "is_sync (Sync _) = True"
| "is_sync _ = False"

lemmas read_retry_induct = read_retry.raw_induct [rotated, consumes 1, case_names step]

locale request_invariant =
  fixes env :: "'w read_env" and Q :: "read_sys \<Rightarrow> 'w \<Rightarrow> bool"
  assumes operation: "Q s w \<Longrightarrow> \<not> is_sync e \<Longrightarrow> Q (upd_mgr (mgr_op (re_tm env) e) s) w"
    and tables: "Q s w \<Longrightarrow> fs_mgr fs' = fs_mgr (rs_fs s) \<Longrightarrow> Q (s\<lparr>rs_fs := fs'\<rparr>) w"
    and asked: "Q s w \<Longrightarrow> api_torrent_info (re_api env) tid w = (r0, w') \<Longrightarrow> Q s w'"
    and unrestrict: "Q s w \<Longrightarrow> re_unrestrict env link (rs_uc s) w = (r, uc, w') \<Longrightarrow> Q (s\<lparr>rs_uc := uc\<rparr>) w'"
    and forget: "Q s w \<Longrightarrow> Q (s\<lparr>rs_uc := clear_unrestrict_cache tok link (rs_uc s)\<rparr>) w"
      "Q s w \<Longrightarrow> Q (s\<lparr>rs_uc := clear_unrestrict_cache_for_source_link link (rs_uc s)\<rparr>) w"
    and entry: "Q s w \<Longrightarrow> get_or_create (re_open_ok env) now key name sz (rs_cache s) = (x, c) \<Longrightarrow> Q (s\<lparr>rs_cache := c\<rparr>) w"
    and release: "Q s w \<Longrightarrow> Q (s\<lparr>rs_cache := cache_release (re_db_ok env) now i (rs_cache s)\<rparr>) w"
    and drop: "Q s w \<Longrightarrow> Q (s\<lparr>rs_cache := invalidate (re_rm_ok env) (re_db_ok env) key name (rs_cache s)\<rparr>) w"
    and read_at: "Q s w \<Longrightarrow> re_read_at env i off len dl (rs_cache s) w = (res, c, w') \<Longrightarrow> Q (s\<lparr>rs_cache := c\<rparr>) w'"
    and idle: "Q s w \<Longrightarrow> re_idle env s w = (evs, s', w') \<Longrightarrow> Q s' w'"
begin

lemma operation_on: "Q (upd_mgr (\<lambda>_. mgr) s) w \<Longrightarrow> \<not> is_sync e \<Longrightarrow> Q (upd_mgr (\<lambda>_. mgr_op (re_tm env) e mgr) s) w"
  using operation [of "upd_mgr (\<lambda>_. mgr) s" w e] by (simp add: upd_mgr_def)

lemma manager_self: "Q (upd_mgr (\<lambda>_. rs_mgr s) s) w = Q s w"
  by (simp add: upd_mgr_def)

lemma details:
  assumes "Q s w" and "fs_ensure_torrent_info (re_api env) key (rs_fs s) w = (r, fs', w')"
  shows "Q (s\<lparr>rs_fs := fs'\<rparr>) w'"
proof -
  obtain r1 mgr' where e: "ensure_torrent_info (re_api env) key (rs_mgr s) w = (r1, mgr', w')" "fs' = (rs_fs s)\<lparr>fs_mgr := mgr'\<rparr>"
    using assms(2) by (auto simp: fs_ensure_torrent_info_def split: prod.splits)
  have w': "Q s w'"
    using e(1) assms(1) by (auto simp: ensure_torrent_info_def Let_def split: ensure_start.splits prod.splits sum.splits dest: asked)
  have "mgr' = rs_mgr s \<or> (\<exists>m info. mgr' = mgr_op (re_tm env) (InfoLoaded key m info) (rs_mgr s))"
    using e(1) by (auto simp: ensure_torrent_info_def split: ensure_start.splits prod.splits sum.splits) (metis snd_conv)
  with w' operation [OF w', of "InfoLoaded key _ _"] e(2) show ?thesis by (auto simp: upd_mgr_def)
qed

lemma wait_keeps:
  assumes "Q s w" and "wait_for_repair_ok env ch s w = Some (b, s', w')"
  shows "Q s' w'"
proof -
  have d: "Q t v \<Longrightarrow> Q (upd_mgr (receiver_drop ch) t) v" for t v using operation [of t v "DropReceiver ch"] by (simp add: upd_mgr_def)
  from assms(2) consider "s' = upd_mgr (receiver_drop ch) s" "w' = w" | evs s1 where "re_idle env s w = (evs, s1, w')" "s' = upd_mgr (receiver_drop ch) s1"
    by (auto simp: wait_for_repair_ok_def Let_def split: if_splits prod.splits)
  then show ?thesis by cases (use d assms(1) idle in auto)
qed

lemma report_keeps: "Q (upd_mgr (\<lambda>_. mgr) s) w \<Longrightarrow> Q (upd_mgr (\<lambda>_. report_broken (re_tm env) key p mgr) s) w"
  using operation_on [of mgr s w "UpdateState key Broken None"] operation_on [of _ s w "MarkBroken key p"]
    operation_on [of _ s w "Enqueue key"] operation_on [of _ s w "FatalEnd key p"]
  by (simp add: report_broken_def)

lemma fatal_keeps:
  assumes "Q s w" and "fatal_read env waited key p s w = Some (out, s', w')"
  shows "Q s' w'"
proof -
  obtain leader mgr1 where l: "fuse_begin_fatal_read_repair key p (rs_mgr s) = (leader, mgr1)" by fastforce
  have m1: "Q (upd_mgr (\<lambda>_. mgr1) s) w" using operation_on [of "rs_mgr s" s w "FatalBegin key p"] assms(1) l by (simp add: manager_self)
  obtain ch mgr2 where c: "subscribe_repair_state (re_tm env) key mgr1 = (ch, mgr2)" by fastforce
  have m2: "Q (upd_mgr (\<lambda>_. mgr2) s) w" using operation_on [OF m1, of "Subscribe key"] c by simp
  have rep: "Q (upd_mgr (\<lambda>_. if leader then report_broken (re_tm env) key p mgr else mgr) s) w" if "Q (upd_mgr (\<lambda>_. mgr) s) w" for mgr
    using that report_keeps by simp
  show ?thesis
  proof (cases "\<not> waited \<and> 0 < fuse_repair_wait_secs (repair (re_config env))")
    case True
    with assms(2) l c obtain b where "wait_for_repair_ok env ch (upd_mgr (\<lambda>_. if leader then report_broken (re_tm env) key p mgr2 else mgr2) s) w = Some (b, s', w')"
      by (auto simp: fatal_read_def Let_def)
    with wait_keeps rep [OF m2] show ?thesis by blast
  next
    case False
    with assms(2) l have "s' = upd_mgr (\<lambda>_. if leader then report_broken (re_tm env) key p mgr1 else mgr1) s" "w' = w"
      by (auto simp: fatal_read_def Let_def)
    with rep [OF m1] show ?thesis by simp
  qed
qed

lemma broken_keeps:
  assumes "Q s w" and "broken_read env waited key p s w = Some (out, s', w')"
  shows "Q s' w'"
proof -
  have warn: "Q t v \<Longrightarrow> Q (t\<lparr>rs_fs := warn_broken now key p (rs_fs t)\<rparr>) v" for t v now
    by (erule tables) (simp add: warn_broken_def Let_def)
  show ?thesis
  proof (cases "\<not> waited \<and> 0 < fuse_repair_wait_secs (repair (re_config env))")
    case True
    obtain ch mgr1 where c: "subscribe_repair_state (re_tm env) key (rs_mgr s) = (ch, mgr1)" by fastforce
    have "Q (upd_mgr (\<lambda>_. mgr1) s) w" using operation_on [of "rs_mgr s" s w "Subscribe key"] assms(1) c by (simp add: manager_self)
    then have m: "Q (upd_mgr (\<lambda>_. enqueue_repair key mgr1) s) w" using operation_on [of mgr1 s w "Enqueue key"] by simp
    from True assms(2) c obtain b s2 where w: "wait_for_repair_ok env ch (upd_mgr (\<lambda>_. enqueue_repair key mgr1) s) w = Some (b, s2, w')"
      and s': "s' = s2 \<or> (\<exists>now. s' = s2\<lparr>rs_fs := warn_broken now key p (rs_fs s2)\<rparr>)"
      by (auto simp: broken_read_def Let_def split: if_splits)
    from wait_keeps [OF m w] s' warn show ?thesis by blast
  next
    case False
    with assms warn show ?thesis by (auto simp: broken_read_def Let_def)
  qed
qed

lemma buffer_keeps: "Q s w \<Longrightarrow> Q (s\<lparr>rs_fs := upd_buffer fh f (rs_fs s)\<rparr>) w"
  by (erule tables) (simp add: upd_buffer_def split: option.split)

lemma attempts_keep: "Q s w \<Longrightarrow> read_attempts env waited t attempts s w = Some (out, s', w') \<Longrightarrow> Q s' w'"
proof (induction attempts arbitrary: s w)
  case (Cons attempt rest)
  obtain r uc w1 where u: "re_unrestrict env (rt_link t) (rs_uc s) w = (r, uc, w1)" by (metis prod.exhaust)
  let ?s1 = "s\<lparr>rs_uc := uc\<rparr>"
  have s1: "Q ?s1 w1" using unrestrict [OF Cons.prems(1) u] .
  have fatal: "Q s' w'" if "fatal_read env waited (rt_key t) (rt_path t) (drop_cached_file env t s2) w1 = Some (out, s', w')" "Q s2 w1" for s2
    using fatal_keeps [OF _ that(1)] drop [OF that(2)] by (simp add: drop_cached_file_def)
  show ?case
  proof (cases r)
    case (Inl e)
    show ?thesis
    proof (cases "is_fatal e")
      case True
      with Cons.prems(2) Inl u fatal forget(2) [OF s1, of "rt_link t"] show ?thesis by simp
    next
      case False
      with Cons.prems(2) Inl u Cons.IH [OF s1] show ?thesis by simp
    qed
  next
    case (Inr dl)
    obtain res c w2 where ra: "re_read_at env (rt_item t) (rt_off t) (rt_len t) dl (rs_cache ?s1) w1 = (res, c, w2)"
      by (metis prod.exhaust)
    have s2: "Q (?s1\<lparr>rs_cache := c\<rparr>) w2" using read_at [OF s1 ra] .
    show ?thesis
    proof (cases "link_corrupted dl (rt_path t) (rt_size t)")
      case True
      with Cons.prems(2) Inr u fatal forget(1) [OF s1, of "dl_token dl" "rt_link t"] show ?thesis by simp
    next
      case False
      have run: "read_attempts env waited t (attempt # rest) s w =
          (case res of
             Inr filled \<Rightarrow> (case serve (rt_plan t) (rt_off t) filled (?s1\<lparr>rs_cache := c\<rparr>) of (reply, s2) \<Rightarrow> Some (Reply (Inr reply), s2, w2))
           | Inl CacheCancelled \<Rightarrow> Some (Reply (Inl EINTR), ?s1\<lparr>rs_cache := c\<rparr>, w2)
           | Inl DownloadFailed \<Rightarrow> read_attempts env waited t rest
               (?s1\<lparr>rs_cache := c, rs_uc := clear_unrestrict_cache (dl_token dl) (rt_link t) (rs_uc ?s1)\<rparr>) w2
           | Inl CacheIo \<Rightarrow> Some (Reply (Inl EIO), ?s1\<lparr>rs_cache := c\<rparr>, w2))"
        using False Inr u ra by (simp split: sum.split cache_read_error.split prod.split)
      show ?thesis
      proof (cases res)
        case (Inr filled)
        with run Cons.prems(2) have "s' = snd (serve (rt_plan t) (rt_off t) filled (?s1\<lparr>rs_cache := c\<rparr>))" "w' = w2" by (auto split: prod.splits)
        then show ?thesis
          using s2 buffer_keeps [OF s2] by (auto simp: serve_def split: fetch_plan.split)
      next
        case (Inl e)
        have "Q (?s1\<lparr>rs_cache := c, rs_uc := clear_unrestrict_cache (dl_token dl) (rt_link t) uc\<rparr>) w2"
          using forget(1) [OF s2, of "dl_token dl" "rt_link t"] by simp
        with run Inl Cons.prems(2) s2 Cons.IH show ?thesis by (cases e) auto
      qed
    qed
  qed
qed simp

lemma window_keeps:
  assumes "Q s w" and "read_window env waited t fh offset sz s w = Some (out, s', w')"
  shows "Q s' w'"
proof -
  obtain x fs2 where c: "choose_fetch env fh offset sz (rt_size t) (rs_fs s) = (x, fs2)" by fastforce
  have "fs2 = rs_fs s \<or> (\<exists>f. fs2 = upd_buffer fh f (rs_fs s))"
    using c by (auto simp: choose_fetch_def split: nat.splits option.splits prod.splits prepare_result.splits)
  then have s2: "Q (s\<lparr>rs_fs := fs2\<rparr>) w" using assms(1) buffer_keeps by auto
  show ?thesis
  proof (cases x)
    case (FetchReply d)
    with assms(2) c s2 show ?thesis by (auto simp: read_window_def)
  next
    case (Fetch off len plan)
    with assms(2) c have "read_attempts env waited (t\<lparr>rt_off := off, rt_len := len, rt_plan := plan\<rparr>)
        [0..<MAX_RETRIES + 1] (s\<lparr>rs_fs := fs2\<rparr>) w = Some (out, s', w')" by (simp add: read_window_def del: upt_Suc)
    from attempts_keep [OF s2 this] show ?thesis .
  qed
qed

lemma file_keeps:
  assumes "Q s w" and "read_file env waited key idx f links fh offset sz s w = Some (out, s', w')"
  shows "Q s' w'"
proof -
  let ?name = "sanitize_filename (cache_file_name idx (f_path f))" and ?size = "i64_to_u64 (f_bytes f)"
  obtain x c where g: "get_or_create (re_open_ok env) (nat (re_now env w)) key ?name ?size (rs_cache s) = (x, c)" by fastforce
  have s1: "Q (s\<lparr>rs_cache := c\<rparr>) w" using entry [OF assms(1) g] .
  show ?thesis
  proof (cases "length links \<le> min idx (length links - 1)")
    case True
    then have "read_file env waited key idx f links fh offset sz s w = Some (Reply (Inl ENOENT), s, w)"
      unfolding read_file_def Let_def by (simp only: if_True)
    with assms show ?thesis by simp
  next
    case False
    show ?thesis
    proof (cases x)
      case (Inl e)
      with False g assms(2) s1 show ?thesis by (auto simp: read_file_def Let_def)
    next
      case (Inr i)
      with False g assms(2) obtain t s2 where win: "read_window env waited t fh offset sz (s\<lparr>rs_cache := c\<rparr>) w = Some (out, s2, w')"
        and s': "s' = s2\<lparr>rs_cache := cache_release (re_db_ok env) (nat (re_now env w')) i (rs_cache s2)\<rparr>"
        by (auto simp: read_file_def release_item_def Let_def)
      from release [OF window_keeps [OF s1 win]] s' show ?thesis by simp
    qed
  qed
qed

lemma pass_keeps:
  assumes "Q s w" and "read_pass env waited key idx fh offset sz s w = Some (out, s', w')"
  shows "Q s' w'"
proof -
  obtain r fs1 w1 where e: "fs_ensure_torrent_info (re_api env) key (rs_fs s) w = (r, fs1, w1)" by (metis prod.exhaust)
  have s1: "Q (s\<lparr>rs_fs := fs1\<rparr>) w1" using details [OF assms(1) e] .
  show ?thesis
  proof (cases "\<exists>m ti. r = Some m \<and> mt_info m = Some ti")
    case True
    then obtain m ti where m: "r = Some m" "mt_info m = Some ti" by blast
    let ?f = "filter is_selected (ti_files ti) ! idx"
    have "read_pass env waited key idx fh offset sz s w =
        (if length (filter is_selected (ti_files ti)) \<le> idx then Some (Reply (Inl ENOENT), s\<lparr>rs_fs := fs1\<rparr>, w1)
         else if i64_to_u64 (f_bytes ?f) = 0 then Some (Reply (Inr []), s\<lparr>rs_fs := fs1\<rparr>, w1)
         else if marked_broken m (f_path ?f) then broken_read env waited key (f_path ?f) (s\<lparr>rs_fs := fs1\<rparr>) w1
         else read_file env waited key idx ?f (ti_links ti) fh offset sz (s\<lparr>rs_fs := fs1\<rparr>) w1)"
      using e m by (simp add: read_pass_def Let_def)
    with assms(2) s1 broken_keeps [OF s1] file_keeps [OF s1] show ?thesis by (auto split: if_splits)
  next
    case False
    with e assms(2) have "s' = s\<lparr>rs_fs := fs1\<rparr> \<and> w' = w1" by (cases r) (auto simp: read_pass_def split: option.splits)
    with s1 show ?thesis by simp
  qed
qed

lemma retry_keeps:
  assumes "read_retry env waited key idx fh offset sz s w = Some (r, s', w')" and "Q s w"
  shows "Q s' w'"
proof -
  have "e = env \<longrightarrow> Q s w \<longrightarrow> Q (fst (snd out)) (snd (snd out))" if "read_retry e waited key idx fh offset sz s w = Some out" for e waited s w out
    using that
  proof (induction rule: read_retry_induct)
    case (step rec e waited key idx fh offset sz s w out)
    show ?case
    proof (intro impI)
      assume e: "e = env" and q: "Q s w"
      from step.hyps obtain p s1 w1 where p: "read_pass env waited key idx fh offset sz s w = Some (p, s1, w1)"
        by (auto simp: e split: option.splits)
      have q1: "Q s1 w1" using pass_keeps [OF q p] .
      show "Q (fst (snd out)) (snd (snd out))"
      proof (cases p)
        case (Reply x)
        with p step.hyps e q1 show ?thesis by auto
      next
        case Again
        with p step.hyps e have "rec env True key idx fh offset sz s1 w1 = Some out" by simp
        with step.IH q1 show ?thesis by blast
      qed
    qed
  qed
  with assms show ?thesis by fastforce
qed

lemma read_keeps:
  assumes "Q s w" and "fs_read env unique inode fh offset sz s w = Some (r, s', w')"
  shows "Q s' w'"
proof -
  obtain tok fs1 where reg: "read_register unique fh (rs_fs s) = (tok, fs1)" by fastforce
  have "fs_mgr fs1 = fs_mgr (rs_fs s)" using reg by (auto simp: read_register_def new_token_def Let_def split: option.splits)
  from tables [OF assms(1) this] have s1: "Q (s\<lparr>rs_fs := fs1\<rparr>) w" .
  from assms(2) reg obtain s2 where f: "fuse_read env inode fh offset sz (s\<lparr>rs_fs := fs1\<rparr>) w = Some (r, s2, w')"
    and s': "s' = s2\<lparr>rs_fs := read_unregister unique tok (rs_fs s2)\<rparr>"
    by (auto simp: fs_read_def)
  have "Q s2 w'" using f s1 by (auto simp: fuse_read_def Let_def dest: retry_keeps split: if_splits option.splits)
  then show ?thesis unfolding s' by (rule tables) (simp add: read_unregister_def)
qed

lemma request_keeps:
  assumes "Q s w" and "fuse_handle env req s w = Some (rep, s', w')"
  shows "Q s' w'"
proof (cases "is_metadata req")
  case True
  note l = fuse_handle_loads [OF True assms(2)]
  from l [THEN conjunct1] have "Q (s\<lparr>rs_fs := rs_fs s'\<rparr>) w'"
    using tables [OF assms(1), of "rs_fs s'"] details [OF assms(1)] by (auto simp: loads_def same_handles_def)
  with l [THEN conjunct2] show ?thesis by simp
next
  case False
  then show ?thesis
  proof (cases req)
    case (ReqRead u i fh off sz)
    with assms read_keeps show ?thesis by auto
  next
    case (ReqOpen i fl)
    with assms show ?thesis by (auto simp: on_fs_def split: prod.splits dest!: open_frame intro: tables)
  qed (use assms tables [OF assms(1)] in \<open>auto simp: release_frame\<close>)
qed

end

section \<open>The item map of the cache\<close>

definition read_at_keeps_items :: "'w read_env \<Rightarrow> bool" where
  "read_at_keeps_items env \<longleftrightarrow>
     (\<forall>i off len dl c w. cache_inv c \<longrightarrow> cache_inv (fst (snd (re_read_at env i off len dl c w)))) \<and>
     (\<forall>s w. cache_inv (rs_cache s) \<longrightarrow> cache_inv (rs_cache (fst (snd (re_idle env s w)))))"

interpretation items: request_invariant env "\<lambda>s w. read_at_keeps_items env \<longrightarrow> cache_inv (rs_cache s)" for env :: "'w read_env"
proof
  fix s i off len dl res c and w w' :: 'w
  assume "read_at_keeps_items env \<longrightarrow> cache_inv (rs_cache s)" "re_read_at env i off len dl (rs_cache s) w = (res, c, w')"
  then show "read_at_keeps_items env \<longrightarrow> cache_inv (rs_cache (s\<lparr>rs_cache := c\<rparr>))"
    unfolding read_at_keeps_items_def by (auto, metis fst_conv snd_conv)
next
  fix s s' evs and w w' :: 'w
  assume "read_at_keeps_items env \<longrightarrow> cache_inv (rs_cache s)" "re_idle env s w = (evs, s', w')"
  then show "read_at_keeps_items env \<longrightarrow> cache_inv (rs_cache s')"
    unfolding read_at_keeps_items_def by (metis fst_conv snd_conv)
next
  fix s key name x c now sz
  assume "read_at_keeps_items env \<longrightarrow> cache_inv (rs_cache s)" "get_or_create (re_open_ok env) now key name sz (rs_cache s) = (x, c)"
  then show "read_at_keeps_items env \<longrightarrow> cache_inv (rs_cache (s\<lparr>rs_cache := c\<rparr>))"
    using get_or_create_inv [of "rs_cache s" "re_open_ok env" now key name sz] by simp
qed (auto simp: upd_mgr_def cache_release_inv invalidate_inv)

text \<open>A small environment for examples: a file of five bytes, and waits that end at their deadline.\<close>

definition small_env ::
    "'w rd_api \<Rightarrow> (string \<Rightarrow> unrestrict_cache \<Rightarrow> 'w \<Rightarrow> (rd_error + download) \<times> unrestrict_cache \<times> 'w) \<Rightarrow> 'w read_env" where
  "small_env rd unrestrict =
     \<lparr>re_tm = demo_tm_env, re_config = demo_rd_config, re_api = rd, re_now = (\<lambda>_. 5), re_open_ok = (\<lambda>_. True),
      re_rm_ok = True, re_db_ok = True, re_unrestrict = unrestrict,
      re_read_at = (\<lambda>i off len dl c w. (Inr (piece [1, 2, 3, 4, 5] off len), c, w)),
      re_idle = (\<lambda>s w. ([DeadlineHit], s, w))\<rparr>"

end
