(* ===== verification/Repair_Preflight.thy ===== *)
theory Repair_Preflight
  imports Torrent_Types
begin

text \<open>
  What a repair does before its strategies: waiting for a free slot (\<^verbatim>\<open>src/src/repair/capacity.rs\<close>) and the
  preflight (\<^verbatim>\<open>src/src/repair/preflight.rs\<close>), which assigns orphan links to broken or empty slots, probes
  the link of every selected file, and verifies one link.

  The service is the record \<open>rd_api\<close>. The wait for capacity runs over the list of what its polls see.
\<close>

section \<open>Capacity\<close>

definition CAPACITY_MAX_RETRIES :: u32 where "CAPACITY_MAX_RETRIES = 10"

definition BASE_DELAY_SECS :: u64 where "BASE_DELAY_SECS = 60"

definition MAX_DELAY_SECS :: u64 where "MAX_DELAY_SECS = 600"

text \<open>One round of the loop: whether shutdown was requested before it, the answer, and whether shutdown
  came during the sleep.\<close>

record capacity_poll =
  cp_cancelled :: bool
  cp_answer :: "string + active_count"
  cp_cancelled_sleeping :: bool

definition slot_free :: "active_count \<Rightarrow> bool" where
  "slot_free c = (ac_downloading_count c < max (ac_max_number_of_torrents c) 1 - 1)"

definition capacity_delay :: "u32 \<Rightarrow> u64" where
  "capacity_delay retry = min (max (sat_mul64 (2 ^ min retry 31) (BASE_DELAY_SECS div 2)) BASE_DELAY_SECS) MAX_DELAY_SECS"

text \<open>The result and the seconds slept; \<open>None\<close> when the polls run out.\<close>

fun capacity_loop :: "u32 \<Rightarrow> u64 \<Rightarrow> capacity_poll list \<Rightarrow> (bool \<times> u64) option" where
  "capacity_loop retry slept [] = None"
| "capacity_loop retry slept (p # ps) =
     (if cp_cancelled p then Some (False, slept)
      else if (case cp_answer p of Inr c \<Rightarrow> slot_free c | Inl _ \<Rightarrow> False) then Some (True, slept)
      else if retry \<ge> CAPACITY_MAX_RETRIES then Some (False, slept)
      else if cp_cancelled_sleeping p then Some (False, slept)
      else capacity_loop (retry + 1) (slept + capacity_delay retry) ps)"

definition wait_for_repair_capacity :: "capacity_poll list \<Rightarrow> (bool \<times> u64) option" where
  "wait_for_repair_capacity ps = capacity_loop 0 0 ps"

section \<open>Orphan links\<close>

definition filename_lower :: "string \<Rightarrow> string" where
  "filename_lower p = (case path_file_name p of None \<Rightarrow> [] | Some n \<Rightarrow> str_lower n)"

definition download_matches_file :: "rd_file \<Rightarrow> download \<Rightarrow> bool" where
  "download_matches_file f dl =
     (if 0 < f_bytes f \<and> 0 < dl_filesize dl \<and> f_bytes f \<noteq> dl_filesize dl then False
      else
        let fp = filename_lower (f_path f); dn = str_lower (dl_filename dl)
        in fp \<noteq> [] \<and> dn \<noteq> [] \<and> (ends_with fp dn \<or> ends_with dn fp \<or> fp = dn))"

definition selected_of :: "torrent_info \<Rightarrow> rd_file list" where
  "selected_of info = filter is_selected (ti_files info)"

definition orphan_rd_links :: "torrent_info \<Rightarrow> string list" where
  "orphan_rd_links info = drop (length (selected_of info)) (ti_links info)"

definition is_rar :: "string \<Rightarrow> bool" where
  "is_rar p = ends_with (str_lower p) ''.rar''"

definition selected_rar_count :: "torrent_info \<Rightarrow> usize" where
  "selected_rar_count info = length (filter (\<lambda>f. is_rar (f_path f)) (selected_of info))"

definition apply_lone_selected_rar_ok_policy :: "torrent_info \<Rightarrow> string \<Rightarrow> file_states \<Rightarrow> file_states" where
  "apply_lone_selected_rar_ok_policy info assigned st =
     (if selected_rar_count info \<noteq> 1 then st
      else if \<not> is_rar assigned then st
      else fold (\<lambda>f. AList.update (f_path f) ''ok'') (selected_of info) st)"

definition ensure_link_slot :: "nat \<Rightarrow> string list \<Rightarrow> string list" where
  "ensure_link_slot i links = links @ replicate (Suc i - length links) []"

definition slot_open :: "string list \<Rightarrow> file_states \<Rightarrow> nat \<Rightarrow> rd_file \<Rightarrow> bool" where
  "slot_open links st i f =
     (map_of st (f_path f) = Some ''broken'' \<or> link_at links i = None)"

fun find_slot :: "string list \<Rightarrow> file_states \<Rightarrow> download \<Rightarrow> nat \<Rightarrow> rd_file list \<Rightarrow> (nat \<times> rd_file) option" where
  "find_slot links st dl i [] = None"
| "find_slot links st dl i (f # fs) =
     (if slot_open links st i f \<and> download_matches_file f dl then Some (i, f)
      else find_slot links st dl (Suc i) fs)"

definition assign_link :: "string \<Rightarrow> download \<Rightarrow> torrent_info \<times> file_states \<Rightarrow> torrent_info \<times> file_states" where
  "assign_link link dl s =
     (case s of (info, st) \<Rightarrow>
        (case find_slot (ti_links info) st dl 0 (selected_of info) of
           None \<Rightarrow> (info, st)
         | Some (i, f) \<Rightarrow>
             let info' = info\<lparr>ti_links := (ensure_link_slot i (ti_links info))[i := link]\<rparr>
             in (info', apply_lone_selected_rar_ok_policy info' (f_path f) (AList.update (f_path f) ''ok'' st))))"

definition exhausted_by :: "string \<Rightarrow> rd_error" where
  "exhausted_by e = RdApi (ApiTrafficExhausted e)"

fun assign_loop ::
    "'w rd_api \<Rightarrow> string list \<Rightarrow> torrent_info \<times> file_states \<Rightarrow> 'w \<Rightarrow>
     rd_error option \<times> (torrent_info \<times> file_states) \<times> 'w" where
  "assign_loop api [] s w = (None, s, w)"
| "assign_loop api (link # links) s w =
     (case api_unrestrict api link w of
        (Inl e, w1) \<Rightarrow> if is_bandwidth_limited e then (Some e, s, w1) else assign_loop api links s w1
      | (Inr dl, w1) \<Rightarrow>
          (case api_verify api (dl_download dl) w1 of
             (Inl e, w2) \<Rightarrow>
               if verify_failed_like_bandwidth e then (Some (exhausted_by e), s, w2)
               else assign_loop api links s w2
           | (Inr _, w2) \<Rightarrow> assign_loop api links (assign_link link dl s) w2))"

definition assign_orphan_links ::
    "'w rd_api \<Rightarrow> torrent_info \<Rightarrow> file_states \<Rightarrow> 'w \<Rightarrow> rd_error option \<times> (torrent_info \<times> file_states) \<times> 'w" where
  "assign_orphan_links api info st w =
     assign_loop api (filter (\<lambda>l. l \<noteq> []) (orphan_rd_links info)) (info, st) w"

section \<open>Probing and verifying\<close>

fun probe_loop ::
    "'w rd_api \<Rightarrow> string list \<Rightarrow> nat \<Rightarrow> rd_file list \<Rightarrow> file_states \<Rightarrow> 'w \<Rightarrow> rd_error option \<times> file_states \<times> 'w" where
  "probe_loop api links i [] st w = (None, st, w)"
| "probe_loop api links i (f # fs) st w =
     (case link_at links i of
        None \<Rightarrow> probe_loop api links (Suc i) fs st w
      | Some link \<Rightarrow>
          (case api_unrestrict api link w of
             (Inr dl, w1) \<Rightarrow>
               (case api_verify api (dl_download dl) w1 of
                  (Inl e, w2) \<Rightarrow>
                    if verify_failed_like_bandwidth e then (Some (exhausted_by e), st, w2)
                    else probe_loop api links (Suc i) fs (AList.update (f_path f) ''broken'' st) w2
                | (Inr _, w2) \<Rightarrow> probe_loop api links (Suc i) fs (AList.update (f_path f) ''ok'' st) w2)
           | (Inl e, w1) \<Rightarrow>
               if is_bandwidth_limited e then (Some e, st, w1)
               else probe_loop api links (Suc i) fs (AList.update (f_path f) ''broken'' st) w1))"

definition probe_selected_links ::
    "'w rd_api \<Rightarrow> torrent_info \<Rightarrow> file_states \<Rightarrow> 'w \<Rightarrow> rd_error option \<times> file_states \<times> 'w" where
  "probe_selected_links api info st w = probe_loop api (ti_links info) 0 (selected_of info) st w"

definition playable_selected :: "torrent_info \<Rightarrow> rd_file list" where
  "playable_selected info = filter (\<lambda>f. path_looks_playable (f_path f)) (selected_of info)"

definition broken_playable_paths :: "torrent_info \<Rightarrow> file_states \<Rightarrow> string list" where
  "broken_playable_paths info st =
     map f_path (filter (\<lambda>f. map_of st (f_path f) = Some ''broken'') (playable_selected info))"

definition states_of :: "managed_torrent \<Rightarrow> file_states" where
  "states_of m = (case mt_file_states m of None \<Rightarrow> [] | Some st \<Rightarrow> st)"

text \<open>\<open>entry(..).or_insert_with(..)\<close>.\<close>

definition or_insert :: "string \<Rightarrow> string \<Rightarrow> file_states \<Rightarrow> file_states" where
  "or_insert p v st = (if map_of st p = None then AList.update p v st else st)"

definition mark_verified :: "torrent_info \<Rightarrow> rd_file \<Rightarrow> file_states \<Rightarrow> file_states" where
  "mark_verified info f st =
     fold (\<lambda>g. or_insert (f_path g) ''ok'') (playable_selected info) (AList.update (f_path f) ''ok'' st)"

text \<open>The first selected file that has a link decides.\<close>

fun verify_loop ::
    "'w rd_api \<Rightarrow> managed_torrent \<Rightarrow> torrent_info \<Rightarrow> nat \<Rightarrow> rd_file list \<Rightarrow> 'w \<Rightarrow>
     (rd_error + managed_torrent option) \<times> 'w" where
  "verify_loop api m info i [] w = (Inr None, w)"
| "verify_loop api m info i (f # fs) w =
     (case link_at (ti_links info) i of
        None \<Rightarrow> verify_loop api m info (Suc i) fs w
      | Some link \<Rightarrow>
          (case api_unrestrict api link w of
             (Inl e, w1) \<Rightarrow> (Inl e, w1)
           | (Inr dl, w1) \<Rightarrow>
               (case api_verify api (dl_download dl) w1 of
                  (Inl e, w2) \<Rightarrow>
                    if verify_failed_like_bandwidth e then (Inl (exhausted_by e), w2) else (Inr None, w2)
                | (Inr _, w2) \<Rightarrow>
                    (Inr (Some (m\<lparr>mt_file_states := Some (mark_verified info f (states_of m)), mt_info := Some info\<rparr>)), w2))))"

definition verify_one_link_and_clear ::
    "'w rd_api \<Rightarrow> managed_torrent \<Rightarrow> 'w \<Rightarrow> (rd_error + managed_torrent option) \<times> 'w" where
  "verify_one_link_and_clear api m w =
     (case mt_info m of
        None \<Rightarrow> (Inr None, w)
      | Some info \<Rightarrow>
          if playable_selected info = [] then (Inr None, w)
          else if broken_playable_paths info (states_of m) \<noteq> [] then (Inr None, w)
          else verify_loop api m info 0 (selected_of info) w)"

datatype preflight_outcome = Proceed managed_torrent | VerifiedOk managed_torrent | PreDeferBandwidth

definition bandwidth_failure :: "rd_error option \<Rightarrow> bool" where
  "bandwidth_failure r = (case r of None \<Rightarrow> False | Some e \<Rightarrow> is_bandwidth_limited e)"

definition run_preflight :: "'w rd_api \<Rightarrow> managed_torrent \<Rightarrow> 'w \<Rightarrow> preflight_outcome \<times> 'w" where
  "run_preflight api m w =
     (case mt_info m of
        None \<Rightarrow> (Proceed m, w)
      | Some info0 \<Rightarrow>
          (case assign_orphan_links api info0 (states_of m) w of
             (r1, (info, st1), w1) \<Rightarrow>
               if bandwidth_failure r1 then (PreDeferBandwidth, w1)
               else
                 (case probe_selected_links api info st1 w1 of
                    (r2, st2, w2) \<Rightarrow>
                      if bandwidth_failure r2 then (PreDeferBandwidth, w2)
                      else
                        (let m' = m\<lparr>mt_info := Some info, mt_file_states := Some st2\<rparr>
                         in case verify_one_link_and_clear api m' w2 of
                              (Inr (Some fixed), w3) \<Rightarrow> (VerifiedOk fixed, w3)
                            | (Inl e, w3) \<Rightarrow> if is_bandwidth_limited e then (PreDeferBandwidth, w3) else (Proceed m', w3)
                            | (Inr None, w3) \<Rightarrow> (Proceed m', w3)))))"

section \<open>Lemmas\<close>

lemma capacity_loop_ends:
  assumes "retry \<le> CAPACITY_MAX_RETRIES" and "CAPACITY_MAX_RETRIES - retry < length ps"
  shows "\<exists>b t. capacity_loop retry slept ps = Some (b, t) \<and>
    t \<le> slept + (\<Sum>r = retry..<CAPACITY_MAX_RETRIES. capacity_delay r)"
  using assms
proof (induction ps arbitrary: retry slept)
  case (Cons p ps)
  show ?case
  proof (cases "retry < CAPACITY_MAX_RETRIES")
    case True
    let ?d = "capacity_delay retry" and ?S = "\<Sum>r = Suc retry..<CAPACITY_MAX_RETRIES. capacity_delay r"
    have sum: "(\<Sum>r = retry..<CAPACITY_MAX_RETRIES. capacity_delay r) = ?d + ?S"
      by (rule sum.atLeast_Suc_lessThan [OF True])
    have "\<exists>b t. capacity_loop (retry + 1) (slept + ?d) ps = Some (b, t) \<and> t \<le> slept + ?d + ?S"
      using Cons.IH [of "retry + 1" "slept + ?d"] True Cons.prems by simp
    then show ?thesis unfolding sum by (auto split: sum.splits)
  next
    case False
    then show ?thesis by (auto split: sum.splits)
  qed
qed simp

lemma capacity_total: "(\<Sum>r = 0..<CAPACITY_MAX_RETRIES. capacity_delay r) = 3960"
  by code_simp

lemma capacity_loop_needs_slot:
  "capacity_loop retry slept ps = Some (True, t) \<Longrightarrow> \<exists>p \<in> set ps. \<exists>c. cp_answer p = Inr c \<and> slot_free c"
  by (induction ps arbitrary: retry slept) (auto split: if_splits sum.splits)

text \<open>Assignment changes open slots only, and turns states to \<open>ok\<close> only.\<close>

lemma find_slot_Some:
  "find_slot links st dl i fs = Some (j, f) \<Longrightarrow>
     i \<le> j \<and> j - i < length fs \<and> fs ! (j - i) = f \<and> slot_open links st j f \<and> download_matches_file f dl"
proof (induction fs arbitrary: i)
  case (Cons g fs)
  show ?case
  proof (cases "slot_open links st i g \<and> download_matches_file g dl")
    case False
    with Cons.prems have "find_slot links st dl (Suc i) fs = Some (j, f)" by simp
    note ih = Cons.IH [OF this]
    then have "j - i = Suc (j - Suc i)" by auto
    with ih show ?thesis by auto
  qed (use Cons.prems in auto)
qed simp

lemma fold_update_ok: "map_of (fold (\<lambda>f. AList.update (p f) v) fs st) q = (if q \<in> p ` set fs then Some v else map_of st q)"
  by (induction fs arbitrary: st) (auto simp: update_conv')

lemma rar_policy_broken:
  "map_of (apply_lone_selected_rar_ok_policy info a st) q = Some ''broken'' \<Longrightarrow> map_of st q = Some ''broken''"
  by (auto simp: apply_lone_selected_rar_ok_policy_def fold_update_ok split: if_splits)

lemma link_at_assign:
  assumes "link_at links j \<noteq> None" and "j \<noteq> i"
  shows "link_at ((ensure_link_slot i links)[i := link]) j = link_at links j"
  using assms by (auto simp: link_at_def ensure_link_slot_def nth_append split: if_splits)

lemma assign_link_keeps:
  assumes "assign_link link dl (info, st) = (info', st')" and "j < length (selected_of info)"
    and "\<not> slot_open (ti_links info) st j (selected_of info ! j)"
  shows "selected_of info' = selected_of info \<and> link_at (ti_links info') j = link_at (ti_links info) j \<and>
    \<not> slot_open (ti_links info') st' j (selected_of info ! j)"
proof (cases "find_slot (ti_links info) st dl 0 (selected_of info)")
  case None
  with assms show ?thesis by (auto simp: assign_link_def)
next
  case (Some p)
  obtain i f where p: "p = (i, f)" by fastforce
  let ?links = "(ensure_link_slot i (ti_links info))[i := link]"
  from assms(1) Some p have info': "info' = info\<lparr>ti_links := ?links\<rparr>"
    and st': "st' = apply_lone_selected_rar_ok_policy info' (f_path f) (AList.update (f_path f) ''ok'' st)"
    by (auto simp: assign_link_def Let_def)
  have "i \<noteq> j" using find_slot_Some [OF Some [unfolded p]] assms(3) by auto
  then have l: "link_at ?links j = link_at (ti_links info) j"
    using assms(3) by (intro link_at_assign) (auto simp: slot_open_def)
  moreover have "map_of st' q \<noteq> Some ''broken''" if "map_of st q \<noteq> Some ''broken''" for q
    using that rar_policy_broken unfolding st' by (fastforce simp: update_conv' split: if_splits)
  ultimately show ?thesis using assms(3) info' by (auto simp: slot_open_def selected_of_def)
qed

lemma assign_link_selected: "selected_of (fst (assign_link link dl s)) = selected_of (fst s)"
  by (auto simp: assign_link_def selected_of_def Let_def split: option.splits prod.splits)

lemma assign_loop_selected: "selected_of (fst (fst (snd (assign_loop api links s w)))) = selected_of (fst s)"
  by (induction links arbitrary: s w) (auto simp: assign_link_selected split: sum.splits prod.splits)

lemma assign_loop_keeps:
  assumes "assign_loop api links (info, st) w = (r, (info', st'), w')" and "j < length (selected_of info)"
    and "\<not> slot_open (ti_links info) st j (selected_of info ! j)"
  shows "selected_of info' = selected_of info \<and> link_at (ti_links info') j = link_at (ti_links info) j"
  using assms
proof (induction links arbitrary: info st w)
  case (Cons link links)
  obtain ru w1 where u: "api_unrestrict api link w = (ru, w1)" by fastforce
  consider (stop) "r \<noteq> None" "info' = info" | (skip) w2 where "assign_loop api links (info, st) w2 = (r, (info', st'), w')"
    | (take) dl w2 where "assign_loop api links (assign_link link dl (info, st)) w2 = (r, (info', st'), w')"
    using Cons.prems(1) u by (auto split: sum.splits prod.splits if_splits)
  then show ?case
  proof cases
    case take
    obtain info1 st1 where a: "assign_link link dl (info, st) = (info1, st1)" by fastforce
    note k = assign_link_keeps [OF a Cons.prems(2,3)]
    from Cons.IH [of info1 st1 w2] take a k Cons.prems(2) show ?thesis by auto
  qed (use Cons in auto)
qed auto

text \<open>A verified preflight.\<close>

lemma or_insert_ok: "map_of (or_insert p ''ok'' st) q = Some ''broken'' \<longleftrightarrow> map_of st q = Some ''broken''"
  by (auto simp: or_insert_def update_conv')

lemma mark_verified_broken: "map_of (mark_verified info f st) q = Some ''broken'' \<Longrightarrow> map_of st q = Some ''broken''"
proof -
  have "map_of (fold (\<lambda>g. or_insert (f_path g) ''ok'') fs s) q = Some ''broken'' \<longleftrightarrow> map_of s q = Some ''broken''" for fs s
    by (induction fs arbitrary: s) (simp_all add: or_insert_ok)
  note iff = this
  assume "map_of (mark_verified info f st) q = Some ''broken''"
  then have "map_of (AList.update (f_path f) ''ok'' st) q = Some ''broken''" unfolding mark_verified_def iff .
  then show ?thesis by (auto simp: update_conv' split: if_splits)
qed

lemma verify_loop_Some:
  "verify_loop api m info i fs w = (Inr (Some m'), w') \<Longrightarrow>
     \<exists>f. m' = m\<lparr>mt_file_states := Some (mark_verified info f (states_of m)), mt_info := Some info\<rparr>"
  by (induction fs arbitrary: i w) (auto split: option.splits sum.splits prod.splits if_splits)

section \<open>Properties\<close>

text \<open>The wait for a repair slot is bounded: within eleven polls and 3960 seconds of sleep it decides, it
  lets the repair start only when some poll saw a free slot, and an account that is allowed a single
  torrent never has one.\<close>

theorem capacity_wait_bounded:
  assumes "11 \<le> length ps"
  shows "\<exists>b slept. wait_for_repair_capacity ps = Some (b, slept) \<and> slept \<le> 3960 \<and>
    (b \<longrightarrow> (\<exists>p \<in> set ps. \<exists>c. cp_answer p = Inr c \<and> slot_free c \<and> 1 < ac_max_number_of_torrents c))"
proof -
  obtain b t where r: "capacity_loop 0 0 ps = Some (b, t)" "t \<le> 3960"
    using capacity_loop_ends [of 0 ps 0] capacity_total assms by (auto simp: CAPACITY_MAX_RETRIES_def)
  have "1 < ac_max_number_of_torrents c" if "slot_free c" for c using that by (simp add: slot_free_def max_def split: if_splits)
  with r capacity_loop_needs_slot [of 0 0 ps t] show ?thesis by (cases b) (auto simp: wait_for_repair_capacity_def)
qed

theorem capacity_wait_bounded_witness:
  "\<exists>b slept. wait_for_repair_capacity (replicate 11 \<lparr>cp_cancelled = False, cp_answer = Inl ''down'', cp_cancelled_sleeping = False\<rparr>)
     = Some (b, slept) \<and> slept \<le> 3960"
  using capacity_wait_bounded [of "replicate 11 \<lparr>cp_cancelled = False, cp_answer = Inl ''down'', cp_cancelled_sleeping = False\<rparr>"]
  by auto

text \<open>C25: the preflight is conservative: it never moves the link of a selected file that has one and is not
  marked broken, and it declares a torrent repaired only when it has playable files and none of them
  is marked broken after every link was probed.\<close>

theorem preflight_conservative:
  assumes "run_preflight api m w = (out, w')" and "mt_info m = Some info"
  shows "(\<forall>m'. out = Proceed m' \<or> out = VerifiedOk m' \<longrightarrow>
      (\<exists>info'. mt_info m' = Some info' \<and> selected_of info' = selected_of info \<and>
        (\<forall>j < length (selected_of info). \<not> slot_open (ti_links info) (states_of m) j (selected_of info ! j) \<longrightarrow>
           link_at (ti_links info') j = link_at (ti_links info) j))) \<and>
    (\<forall>m'. out = VerifiedOk m' \<longrightarrow>
      (\<exists>info'. mt_info m' = Some info' \<and> playable_selected info' \<noteq> [] \<and> broken_playable_paths info' (states_of m') = []))"
proof -
  obtain r1 info1 st1 w1 where a: "assign_orphan_links api info (states_of m) w = (r1, (info1, st1), w1)" by (metis prod.exhaust)
  obtain r2 st2 w2 where pr: "probe_selected_links api info1 st1 w1 = (r2, st2, w2)" by (metis prod.exhaust)
  let ?m = "m\<lparr>mt_info := Some info1, mt_file_states := Some st2\<rparr>"
  obtain v w3 where v: "verify_one_link_and_clear api ?m w2 = (v, w3)" by fastforce
  have sel: "selected_of info1 = selected_of info"
    using assign_loop_selected [of api _ "(info, states_of m)" w] a by (metis assign_orphan_links_def fst_conv snd_conv)
  have keep: "link_at (ti_links info1) j = link_at (ti_links info) j"
    if "j < length (selected_of info)" "\<not> slot_open (ti_links info) (states_of m) j (selected_of info ! j)" for j
    using assign_loop_keeps [OF a [unfolded assign_orphan_links_def] that] by simp
  have ver: "\<exists>f. m' = ?m\<lparr>mt_file_states := Some (mark_verified info1 f st2), mt_info := Some info1\<rparr>"
    "playable_selected info1 \<noteq> []" "broken_playable_paths info1 st2 = []" if "v = Inr (Some m')" for m'
    using v that verify_loop_Some [of api ?m info1 0 "selected_of info1" w2 m' w3]
    by (auto simp: verify_one_link_and_clear_def states_of_def split: if_splits)
  have out: "out = PreDeferBandwidth \<or> out = Proceed ?m \<or> (\<exists>m'. v = Inr (Some m') \<and> out = VerifiedOk m')"
    using assms a pr v by (auto simp: run_preflight_def Let_def split: if_splits sum.splits option.splits)
  have nb: "broken_playable_paths info1 (mark_verified info1 f st2) = []" if "broken_playable_paths info1 st2 = []" for f
    using that mark_verified_broken [of info1 f st2] by (auto simp: broken_playable_paths_def filter_empty_conv)
  show ?thesis
  proof (intro conjI allI impI)
    fix m'
    assume "out = Proceed m' \<or> out = VerifiedOk m'"
    then have "mt_info m' = Some info1" using out ver(1) by auto
    with sel keep show "\<exists>info'. mt_info m' = Some info' \<and> selected_of info' = selected_of info \<and>
        (\<forall>j < length (selected_of info). \<not> slot_open (ti_links info) (states_of m) j (selected_of info ! j) \<longrightarrow>
           link_at (ti_links info') j = link_at (ti_links info) j)" by blast
  next
    fix m'
    assume "out = VerifiedOk m'"
    then have vm: "v = Inr (Some m')" using out by auto
    from ver(1) [OF vm] obtain f where "m' = ?m\<lparr>mt_file_states := Some (mark_verified info1 f st2), mt_info := Some info1\<rparr>" ..
    then have "mt_info m' = Some info1" "states_of m' = mark_verified info1 f st2" by (simp_all add: states_of_def)
    with ver(2,3) [OF vm] nb show "\<exists>info'. mt_info m' = Some info' \<and> playable_selected info' \<noteq> [] \<and>
        broken_playable_paths info' (states_of m') = []" by auto
  qed
qed

definition preflight_info :: torrent_info where
  "preflight_info = \<lparr>ti_id = ''A'', ti_name = ''n'', ti_hash = ''h'', ti_progress = 100, ti_status = ''downloaded'', ti_added = 0,
     ti_ended = None, ti_bytes = 5, ti_links = [''L1'', [], ''L3''], ti_original_name = [], ti_original_bytes = 0,
     ti_files = [\<lparr>f_id = 1, f_path = ''/a.mkv'', f_bytes = 5, f_selected = 1\<rparr>, \<lparr>f_id = 2, f_path = ''/b.mkv'', f_bytes = 6, f_selected = 1\<rparr>]\<rparr>"

definition preflight_torrent :: managed_torrent where
  "preflight_torrent = \<lparr>mt_access_key = ''h/n'', mt_rd_ids = [''A''],
     mt_torrent = \<lparr>t_id = ''A'', t_name = ''n'', t_hash = ''h'', t_progress = 100, t_status = ''downloaded'', t_links = [], t_added = 0\<rparr>,
     mt_info = Some preflight_info, mt_state = Broken, mt_unrepairable_reason = None, mt_last_repaired_at = None,
     mt_file_states = Some [(''/b.mkv'', ''broken'')], mt_under_repair_started_at = None\<rparr>"

text \<open>A service whose links all work and whose orphan link \<open>L3\<close> is the second file.\<close>

definition preflight_api :: "unit rd_api" where
  "preflight_api = \<lparr>api_unrestrict = (\<lambda>l w. (Inr \<lparr>dl_filename = (if l = ''L3'' then ''b.mkv'' else ''a.mkv''), dl_filesize = 0,
       dl_link = l, dl_download = l, dl_streamable = 1, dl_generated_at = None, dl_token = []\<rparr>, w)),
     api_verify = (\<lambda>_ w. (Inr (), w)), api_delete_torrent = (\<lambda>_ w. (Inr (), w)), api_add_magnet = (\<lambda>_ w. (Inl RdCancelled, w)),
     api_select_files = (\<lambda>_ _ w. (Inr (), w)), api_torrent_info = (\<lambda>_ w. (Inl RdCancelled, w)), api_active_count = (\<lambda>w. (Inl [], w))\<rparr>"

theorem preflight_conservative_witness:
  "\<exists>m' info'. run_preflight preflight_api preflight_torrent () = (VerifiedOk m', ()) \<and> mt_info m' = Some info' \<and>
     link_at (ti_links info') 0 = Some ''L1'' \<and> broken_playable_paths info' (states_of m') = []"
proof -
  have c: "case fst (run_preflight preflight_api preflight_torrent ()) of VerifiedOk _ \<Rightarrow> True | _ \<Rightarrow> False" by code_simp
  then obtain m' where m': "run_preflight preflight_api preflight_torrent () = (VerifiedOk m', ())"
    by (cases "run_preflight preflight_api preflight_torrent ()") (auto split: preflight_outcome.splits)
  have i: "mt_info preflight_torrent = Some preflight_info" by (simp add: preflight_torrent_def)
  have h: "0 < length (selected_of preflight_info)"
    "\<not> slot_open (ti_links preflight_info) (states_of preflight_torrent) 0 (selected_of preflight_info ! 0)"
    "link_at (ti_links preflight_info) 0 = Some ''L1''" by code_simp+
  from preflight_conservative [OF m' i] h obtain info' where "mt_info m' = Some info'" "link_at (ti_links info') 0 = Some ''L1''"
    "broken_playable_paths info' (states_of m') = []" by auto
  with m' show ?thesis by blast
qed

end
