(* ===== verification/Repair_Cascade.thy ===== *)
theory Repair_Cascade
  imports Repair_Preflight Config
begin

text \<open>
  The cascade of repair strategies (\<^verbatim>\<open>src/src/repair/strategies.rs\<close>), the guard of the magnets it adds
  (\<^verbatim>\<open>src/src/repair/ephemeral_torrent.rs\<close>) and its outcomes (\<^verbatim>\<open>src/src/repair/mod.rs\<close>).

  A guard is the id it still owns. Its \<open>Drop\<close> spawns the deletion; the model runs the spawned task where
  the guard is dropped. Sleeps only delay.

  The lemmas follow the magnets a run leaves on the service and the failures it met, through an API that
  records what it is asked (\<open>traced\<close>).
\<close>

section \<open>Outcomes\<close>

datatype strategy = ReinsertTorrent | IndividualFiles | ArchiveAll | BatchDownload

fun strategy_display :: "strategy \<Rightarrow> string" where
  "strategy_display ReinsertTorrent = ''reinsert_torrent''"
| "strategy_display IndividualFiles = ''individual_files''"
| "strategy_display ArchiveAll = ''archive_all''"
| "strategy_display BatchDownload = ''batch_download''"

datatype unrepairable_reason = LoneBroken | NoRepairableFiles | DuplicateFileIDs | InvalidFileIDs | NotCached

fun reason_display :: "unrepairable_reason \<Rightarrow> string" where
  "reason_display LoneBroken = ''lone_broken''"
| "reason_display NoRepairableFiles = ''no_repairable_files''"
| "reason_display DuplicateFileIDs = ''duplicate_file_ids''"
| "reason_display InvalidFileIDs = ''invalid_file_ids''"
| "reason_display NotCached = NOT_CACHED"

datatype cascade_outcome =
    Success "string list option"
  | Unrepairable unrepairable_reason
  | UnrepairableMsg string
  | DeferBandwidth

section \<open>The text of an error\<close>

fun api_error_display :: "api_error \<Rightarrow> string" where
  "api_error_display (ApiRateLimit code msg) = ''RD rate limit (code='' @ show_int code @ ''): '' @ msg"
| "api_error_display (ApiTrafficExhausted msg) = ''RD traffic exhausted: '' @ msg"
| "api_error_display (ApiInternal msg) = ''RD internal error: '' @ msg"
| "api_error_display (ApiFairUsageLimit msg) = ''RD fair usage limit: '' @ msg"
| "api_error_display (ApiOther code msg) = ''RD API error (code='' @ show_int code @ ''): '' @ msg"

fun download_error_display :: "download_error \<Rightarrow> string" where
  "download_error_display InvalidDownloadCode = ''invalid_download_code''"
| "download_error_display FailedGeneration = ''failed_generation''"
| "download_error_display TooManyAttempts = ''too_many_attempts''"
| "download_error_display FileUnavailable = ''file_unavailable''"
| "download_error_display BytesLimitReached = ''bytes_limit_reached''"
| "download_error_display (LinkUnavailable status) = ''cdn link unavailable (HTTP '' @ show_nat status @ '')''"
| "download_error_display (ServerError status) = ''server error (status='' @ show_nat status @ '')''"
| "download_error_display (DlOther msg) = ''download error: '' @ msg"

fun rd_error_display :: "rd_error \<Rightarrow> string" where
  "rd_error_display (RdApi e) = ''api error: '' @ api_error_display e"
| "rd_error_display (RdDownload e) = ''download error: '' @ download_error_display e"
| "rd_error_display (RdNetwork msg) = ''network error: '' @ msg"
| "rd_error_display RdCancelled = ''request cancelled''"
| "rd_error_display RangeNotSupported = ''range requests not supported by CDN (200 OK without Content-Range)''"
| "rd_error_display MaxRetriesExceeded = ''max retries exceeded''"

section \<open>Ephemeral torrents\<close>

datatype info_ready_outcome = IsReady | NotReadyKeep | RestrictCachedExhausted

text \<open>The polls that are left decide; three at the start.\<close>

fun info_ready_polls :: "'w rd_api \<Rightarrow> string \<Rightarrow> bool \<Rightarrow> nat \<Rightarrow> 'w \<Rightarrow> (rd_error + info_ready_outcome) \<times> 'w" where
  "info_ready_polls rd i restrict 0 w = (Inr (if restrict then RestrictCachedExhausted else NotReadyKeep), w)"
| "info_ready_polls rd i restrict (Suc n) w =
     (case api_torrent_info rd i w of
        (Inl e, w1) \<Rightarrow> (Inl e, w1)
      | (Inr info, w1) \<Rightarrow>
          if ti_progress info = 100 \<and> ti_links info \<noteq> [] then (Inr IsReady, w1)
          else info_ready_polls rd i restrict n w1)"

definition info_ready :: "'w rd_api \<Rightarrow> string \<Rightarrow> bool \<Rightarrow> 'w \<Rightarrow> (rd_error + info_ready_outcome) \<times> 'w" where
  "info_ready rd i restrict w = info_ready_polls rd i restrict 3 w"

record ephemeral =
  eph_id :: "string option"

definition ephemeral_new :: "string \<Rightarrow> ephemeral" where
  "ephemeral_new i = \<lparr>eph_id = Some i\<rparr>"

definition dismiss :: "ephemeral \<Rightarrow> string option \<times> ephemeral" where
  "dismiss g = (eph_id g, g\<lparr>eph_id := None\<rparr>)"

definition delete_ephemeral :: "'w rd_api \<Rightarrow> ephemeral \<Rightarrow> 'w \<Rightarrow> (rd_error + unit) \<times> ephemeral \<times> 'w" where
  "delete_ephemeral rd g w =
     (case eph_id g of
        None \<Rightarrow> (Inr (), g, w)
      | Some i \<Rightarrow>
          (case api_delete_torrent rd i w of
             (Inl e, w1) \<Rightarrow> (Inl e, g, w1)
           | (Inr _, w1) \<Rightarrow> (Inr (), g\<lparr>eph_id := None\<rparr>, w1)))"

definition ephemeral_drop :: "'w rd_api \<Rightarrow> ephemeral \<Rightarrow> 'w \<Rightarrow> 'w" where
  "ephemeral_drop rd g w =
     (case eph_id g of
        None \<Rightarrow> w
      | Some i \<Rightarrow>
          (case api_delete_torrent rd i w of
             (Inl _, w1) \<Rightarrow> snd (api_delete_torrent rd i w1)
           | (Inr _, w1) \<Rightarrow> w1))"

section \<open>Strategies\<close>

definition finish_failure :: "managed_torrent \<Rightarrow> cascade_outcome" where
  "finish_failure m = (if length (selected_files m) \<le> 1 then Unrepairable LoneBroken else Unrepairable InvalidFileIDs)"

definition map_rd :: "rd_error \<Rightarrow> cascade_outcome" where
  "map_rd e =
     (if is_bandwidth_limited e then DeferBandwidth
      else case from_rd_error_message (rd_error_display e) of
             Some r \<Rightarrow> UnrepairableMsg r
           | None \<Rightarrow> Unrepairable InvalidFileIDs)"

text \<open>The steps all strategies share: add the magnet, guard it, select files, wait for it. A ready magnet
  is returned with its guard; otherwise the guard has been dropped.\<close>

datatype attempt =
    AttemptReady ephemeral
  | AttemptNotReady
  | AttemptRefused cascade_outcome
  | AttemptFailed rd_error

definition refuse_not_cached :: "'w rd_api \<Rightarrow> ephemeral \<Rightarrow> 'w \<Rightarrow> cascade_outcome \<times> 'w" where
  "refuse_not_cached rd g w =
     (case delete_ephemeral rd g w of
        (Inr _, g1, w1) \<Rightarrow> (Unrepairable NotCached, ephemeral_drop rd g1 w1)
      | (Inl e, g1, w1) \<Rightarrow> (if is_bandwidth_limited e then DeferBandwidth else map_rd e, ephemeral_drop rd g1 w1))"

definition try_magnet :: "'w rd_api \<Rightarrow> string \<Rightarrow> string \<Rightarrow> bool \<Rightarrow> 'w \<Rightarrow> attempt \<times> 'w" where
  "try_magnet rd hash files restrict w =
     (case api_add_magnet rd hash w of
        (Inl e, w1) \<Rightarrow> (AttemptFailed e, w1)
      | (Inr i, w1) \<Rightarrow>
          let g = ephemeral_new i
          in case api_select_files rd i files w1 of
               (Inl e, w2) \<Rightarrow> (AttemptFailed e, ephemeral_drop rd g w2)
             | (Inr _, w2) \<Rightarrow>
                 (case info_ready rd i restrict w2 of
                    (Inl e, w3) \<Rightarrow> (AttemptFailed e, ephemeral_drop rd g w3)
                  | (Inr IsReady, w3) \<Rightarrow> (AttemptReady g, w3)
                  | (Inr RestrictCachedExhausted, w3) \<Rightarrow>
                      (case refuse_not_cached rd g w3 of (out, w4) \<Rightarrow> (AttemptRefused out, w4))
                  | (Inr NotReadyKeep, w3) \<Rightarrow> (AttemptNotReady, ephemeral_drop rd g w3)))"

text \<open>A ready magnet that becomes the torrent's new row: \<open>dismiss\<close>, whose id is present.\<close>

definition keep_magnet :: "'w rd_api \<Rightarrow> ephemeral \<Rightarrow> 'w \<Rightarrow> cascade_outcome \<times> 'w" where
  "keep_magnet rd g w =
     (case dismiss g of (i, g1) \<Rightarrow> (Success (Some (case i of None \<Rightarrow> [] | Some i \<Rightarrow> [i])), ephemeral_drop rd g1 w))"

definition try_strategy_1_reinsert ::
    "'w rd_api \<Rightarrow> managed_torrent \<Rightarrow> string \<Rightarrow> bool \<Rightarrow> 'w \<Rightarrow> cascade_outcome option \<times> 'w" where
  "try_strategy_1_reinsert rd m files restrict w =
     (let w0 = fold (\<lambda>i w. snd (api_delete_torrent rd i w)) (mt_rd_ids m) w
      in case try_magnet rd (t_hash (mt_torrent m)) files restrict w0 of
           (AttemptReady g, w1) \<Rightarrow> (case keep_magnet rd g w1 of (out, w2) \<Rightarrow> (Some out, w2))
         | (AttemptRefused out, w1) \<Rightarrow> (Some out, w1)
         | (AttemptFailed e, w1) \<Rightarrow> (Some (map_rd e), w1)
         | (AttemptNotReady, w1) \<Rightarrow> (None, w1))"

fun individual_files :: "'w rd_api \<Rightarrow> string \<Rightarrow> bool \<Rightarrow> rd_file list \<Rightarrow> bool \<Rightarrow> 'w \<Rightarrow> (cascade_outcome + bool) \<times> 'w" where
  "individual_files rd hash restrict [] all_fixed w = (Inr all_fixed, w)"
| "individual_files rd hash restrict (f # fs) all_fixed w =
     (case try_magnet rd hash (show_int (f_id f)) restrict w of
        (AttemptReady g, w1) \<Rightarrow> individual_files rd hash restrict fs all_fixed (ephemeral_drop rd g w1)
      | (AttemptRefused out, w1) \<Rightarrow> (Inl out, w1)
      | (AttemptFailed e, w1) \<Rightarrow>
          if is_bandwidth_limited e then (Inl DeferBandwidth, w1)
          else individual_files rd hash restrict fs False w1
      | (AttemptNotReady, w1) \<Rightarrow> individual_files rd hash restrict fs False w1)"

definition archive_all :: "'w rd_api \<Rightarrow> string \<Rightarrow> bool \<Rightarrow> 'w \<Rightarrow> cascade_outcome option \<times> 'w" where
  "archive_all rd hash restrict w =
     (case try_magnet rd hash ''all'' restrict w of
        (AttemptReady g, w1) \<Rightarrow> (case keep_magnet rd g w1 of (out, w2) \<Rightarrow> (Some out, w2))
      | (AttemptRefused out, w1) \<Rightarrow> (Some out, w1)
      | (AttemptFailed e, w1) \<Rightarrow> (if is_bandwidth_limited e then Some DeferBandwidth else None, w1)
      | (AttemptNotReady, w1) \<Rightarrow> (None, w1))"

fun chunks :: "nat \<Rightarrow> 'a list \<Rightarrow> 'a list list" where
  "chunks n xs = (if xs = [] \<or> n = 0 then [] else take n xs # chunks n (drop n xs))"

declare chunks.simps [simp del]

definition join_ids :: "int list \<Rightarrow> string" where
  "join_ids ids = str_join (CHR '','') (map show_int ids)"

fun batch_download :: "'w rd_api \<Rightarrow> string \<Rightarrow> bool \<Rightarrow> int list list \<Rightarrow> usize \<Rightarrow> 'w \<Rightarrow> (cascade_outcome + usize) \<times> 'w" where
  "batch_download rd hash restrict [] batches_ok w = (Inr batches_ok, w)"
| "batch_download rd hash restrict (c # cs) batches_ok w =
     (case try_magnet rd hash (join_ids c) restrict w of
        (AttemptReady g, w1) \<Rightarrow> batch_download rd hash restrict cs (batches_ok + 1) (ephemeral_drop rd g w1)
      | (AttemptRefused out, w1) \<Rightarrow> (Inl out, w1)
      | (AttemptFailed e, w1) \<Rightarrow>
          if is_bandwidth_limited e then (Inl DeferBandwidth, w1)
          else batch_download rd hash restrict cs batches_ok w1
      | (AttemptNotReady, w1) \<Rightarrow> batch_download rd hash restrict cs batches_ok w1)"

definition strategy_4 :: "'w rd_api \<Rightarrow> managed_torrent \<Rightarrow> repair_config \<Rightarrow> 'w \<Rightarrow> cascade_outcome \<times> 'w" where
  "strategy_4 rd m cfg w =
     (let ids = map f_id (selected_files m);
          cs = chunks (max 1 (min 32 (batch_file_group_size cfg))) ids
      in if 1 < length ids
         then (case batch_download rd (t_hash (mt_torrent m)) (restrict_to_cached cfg) cs 0 w of
                 (Inl out, w1) \<Rightarrow> (out, w1)
               | (Inr n, w1) \<Rightarrow> (if n = length cs then Success None else finish_failure m, w1))
         else (finish_failure m, w))"

definition strategies_2_to_4 :: "'w rd_api \<Rightarrow> managed_torrent \<Rightarrow> torrent_info \<Rightarrow> repair_config \<Rightarrow> 'w \<Rightarrow> cascade_outcome \<times> 'w" where
  "strategies_2_to_4 rd m info cfg w =
     (let hash = t_hash (mt_torrent m); restrict = restrict_to_cached cfg
      in case individual_files rd hash restrict (selected_files m) True w of
           (Inl out, w1) \<Rightarrow> (out, w1)
         | (Inr True, w1) \<Rightarrow> (Success None, w1)
         | (Inr False, w1) \<Rightarrow>
             (case (if has_non_playable_selected info then archive_all rd hash restrict w1 else (None, w1)) of
                (Some out, w2) \<Rightarrow> (out, w2)
              | (None, w2) \<Rightarrow> strategy_4 rd m cfg w2))"

definition execute_cascade :: "'w rd_api \<Rightarrow> managed_torrent \<Rightarrow> repair_config \<Rightarrow> 'w \<Rightarrow> cascade_outcome \<times> 'w" where
  "execute_cascade rd m cfg w =
     (let restrict = restrict_to_cached cfg; selected = selected_files m
      in case mt_info m of
           None \<Rightarrow>
             if t_hash (mt_torrent m) = [] then (UnrepairableMsg MISSING_TORRENT_DETAIL, w)
             else (case try_strategy_1_reinsert rd m ''all'' restrict w of
                     (Some out, w1) \<Rightarrow> (out, w1)
                   | (None, w1) \<Rightarrow> (finish_failure m, w1))
         | Some info \<Rightarrow>
             if duplicate_selected_file_ids info then (Unrepairable DuplicateFileIDs, w)
             else if selected = [] then (Unrepairable NoRepairableFiles, w)
             else if list_all (\<lambda>f. \<not> path_looks_playable (f_path f)) selected then (Unrepairable NoRepairableFiles, w)
             else
               let ids = join_ids (map f_id selected);
                   files = (if ids = [] then ''all'' else ids)
               in case try_strategy_1_reinsert rd m files restrict w of
                    (Some out, w1) \<Rightarrow> (out, w1)
                  | (None, w1) \<Rightarrow> strategies_2_to_4 rd m info cfg w1)"

section \<open>What a run asked of the service\<close>

datatype rd_event = EvAdd string | EvDel string | EvFail rd_error | EvDelFail rd_error

definition note_fail :: "(rd_error \<Rightarrow> rd_event) \<Rightarrow> rd_error + 'a \<Rightarrow> rd_event list" where
  "note_fail ev r = (case r of Inl e \<Rightarrow> [ev e] | Inr _ \<Rightarrow> [])"

definition traced :: "'w rd_api \<Rightarrow> ('w \<times> rd_event list) rd_api" where
  "traced rd =
     \<lparr>api_unrestrict = (\<lambda>l (w, tr). case api_unrestrict rd l w of (r, w1) \<Rightarrow> (r, w1, tr)),
      api_verify = (\<lambda>u (w, tr). case api_verify rd u w of (r, w1) \<Rightarrow> (r, w1, tr)),
      api_delete_torrent = (\<lambda>i (w, tr). case api_delete_torrent rd i w of (r, w1) \<Rightarrow> (r, w1, tr @ EvDel i # note_fail EvDelFail r)),
      api_add_magnet = (\<lambda>h (w, tr). case api_add_magnet rd h w of
         (Inl e, w1) \<Rightarrow> (Inl e, w1, tr @ [EvFail e]) | (Inr i, w1) \<Rightarrow> (Inr i, w1, tr @ [EvAdd i])),
      api_select_files = (\<lambda>i fs (w, tr). case api_select_files rd i fs w of (r, w1) \<Rightarrow> (r, w1, tr @ note_fail EvFail r)),
      api_torrent_info = (\<lambda>i (w, tr). case api_torrent_info rd i w of (r, w1) \<Rightarrow> (r, w1, tr @ note_fail EvFail r)),
      api_active_count = (\<lambda>(w, tr). case api_active_count rd w of (r, w1) \<Rightarrow> (r, w1, tr))\<rparr>"

text \<open>The magnets that were added and whose deletion was not asked for since.\<close>

fun pend :: "rd_event \<Rightarrow> string set \<Rightarrow> string set" where
  "pend (EvAdd i) S = insert i S"
| "pend (EvDel i) S = S - {i}"
| "pend _ S = S"

definition pending :: "rd_event list \<Rightarrow> string set" where
  "pending tr = fold pend tr {}"

text \<open>Whether a failure of \<open>add\<close>, \<open>select\<close> or \<open>info\<close>, or any failure, was an account limit.\<close>

definition call_limited :: "rd_event list \<Rightarrow> bool" where
  "call_limited tr = list_ex (\<lambda>ev. case ev of EvFail e \<Rightarrow> is_bandwidth_limited e | _ \<Rightarrow> False) tr"

definition any_limited :: "rd_event list \<Rightarrow> bool" where
  "any_limited tr = list_ex (\<lambda>ev. case ev of EvFail e \<Rightarrow> is_bandwidth_limited e | EvDelFail e \<Rightarrow> is_bandwidth_limited e | _ \<Rightarrow> False) tr"

lemma pending_append [simp]: "pending (tr @ evs) = fold pend evs (pending tr)"
  by (simp add: pending_def)

lemma limited_append [simp]:
  "call_limited (xs @ ys) \<longleftrightarrow> call_limited xs \<or> call_limited ys"
  "any_limited (xs @ ys) \<longleftrightarrow> any_limited xs \<or> any_limited ys"
  by (simp_all add: call_limited_def any_limited_def)

lemma limited_simps [simp]:
  "\<not> call_limited []" "\<not> any_limited []" "call_limited (EvDel i # tr) = call_limited tr" "any_limited (EvDel i # tr) = any_limited tr"
  "call_limited (EvAdd i # tr) = call_limited tr" "any_limited (EvAdd i # tr) = any_limited tr"
  "call_limited (EvFail e # tr) \<longleftrightarrow> is_bandwidth_limited e \<or> call_limited tr"
  "any_limited (EvFail e # tr) \<longleftrightarrow> is_bandwidth_limited e \<or> any_limited tr"
  "call_limited (EvDelFail e # tr) = call_limited tr" "any_limited (EvDelFail e # tr) \<longleftrightarrow> is_bandwidth_limited e \<or> any_limited tr"
  by (simp_all add: call_limited_def any_limited_def)

lemma note_fail_simps [simp]: "note_fail ev (Inl e) = [ev e]" "note_fail ev (Inr x) = []"
  by (simp_all add: note_fail_def)

lemma note_del_pend [simp]: "fold pend (note_fail EvDelFail r) S = S" "fold pend (note_fail EvFail r) S = S"
  by (cases r; simp)+

text \<open>A step of the cascade, seen on the trace: what is pending, the limits met, and that the trace grows.\<close>

definition grows :: "rd_event list \<Rightarrow> rd_event list \<Rightarrow> bool" where
  "grows tr tr' \<longleftrightarrow> (\<exists>evs. tr' = tr @ evs)"

lemma grows_refl [simp]: "grows tr tr" and grows_append [simp]: "grows tr (tr @ evs)"
  by (auto simp: grows_def)

lemma grows_trans [trans]: "grows a b \<Longrightarrow> grows b c \<Longrightarrow> grows a c"
  by (auto simp: grows_def)

lemma grows_set: "grows tr tr' \<Longrightarrow> set tr \<subseteq> set tr'"
  by (auto simp: grows_def)

lemma grows_limited: "grows tr tr' \<Longrightarrow> any_limited tr \<Longrightarrow> any_limited tr'"
  by (auto simp: grows_def)

lemma traced_delete:
  assumes "api_delete_torrent (traced rd) i (w, tr) = (r, w', tr')"
  shows "grows tr tr' \<and> pending tr' = pending tr - {i} \<and> EvDel i \<in> set tr' \<and> call_limited tr' = call_limited tr \<and>
    (\<forall>e. r = Inl e \<and> is_bandwidth_limited e \<longrightarrow> any_limited tr')"
  using assms by (auto simp: traced_def note_fail_def split: prod.splits sum.splits)

lemma drop_effect:
  assumes "ephemeral_drop (traced rd) g (w, tr) = (w', tr')"
  shows "grows tr tr' \<and> pending tr' = pending tr - set_option (eph_id g) \<and> call_limited tr' = call_limited tr"
proof (cases "eph_id g")
  case (Some i)
  obtain r w1 tr1 where d: "api_delete_torrent (traced rd) i (w, tr) = (r, w1, tr1)" by (metis prod.exhaust)
  obtain r2 w2 tr2 where d2: "api_delete_torrent (traced rd) i (w1, tr1) = (r2, w2, tr2)" by (metis prod.exhaust)
  have "tr' = tr1 \<or> tr' = tr2" using assms Some d d2 by (cases r) (auto simp: ephemeral_drop_def)
  with traced_delete [OF d] traced_delete [OF d2] Some show ?thesis by (auto intro: grows_trans)
qed (use assms in \<open>auto simp: ephemeral_drop_def\<close>)

lemma info_ready_effect:
  assumes "info_ready_polls (traced rd) i restrict n (w, tr) = (r, w', tr')"
  shows "grows tr tr' \<and> pending tr' = pending tr \<and>
    (call_limited tr' \<longleftrightarrow> call_limited tr \<or> (\<exists>e. r = Inl e \<and> is_bandwidth_limited e)) \<and>
    (\<forall>e. r = Inl e \<and> is_bandwidth_limited e \<longrightarrow> any_limited tr')"
  using assms
proof (induction n arbitrary: w tr)
  case (Suc n)
  obtain a w1 where i: "api_torrent_info rd i w = (a, w1)" by fastforce
  show ?case
  proof (cases a)
    case (Inl e)
    with Suc.prems i show ?thesis by (auto simp: traced_def)
  next
    case (Inr info)
    with Suc.prems i Suc.IH [of w1 tr] show ?thesis by (auto simp: traced_def split: if_splits)
  qed
qed auto

text \<open>An attempt leaves at most the magnet it returns, and reports an account limit as its failure.\<close>

definition attempt_left :: "attempt \<Rightarrow> string set" where
  "attempt_left a = (case a of AttemptReady g \<Rightarrow> set_option (eph_id g) | _ \<Rightarrow> {})"

definition attempt_limited :: "attempt \<Rightarrow> bool" where
  "attempt_limited a = (case a of AttemptFailed e \<Rightarrow> is_bandwidth_limited e | _ \<Rightarrow> False)"

lemma refuse_effect:
  assumes "refuse_not_cached (traced rd) g (w, tr) = (out, w', tr')"
  shows "grows tr tr' \<and> pending tr' = pending tr - set_option (eph_id g) \<and> call_limited tr' = call_limited tr \<and>
    (out = DeferBandwidth \<longrightarrow> any_limited tr') \<and> (\<forall>ids. out \<noteq> Success ids)"
proof (cases "eph_id g")
  case None
  with assms show ?thesis by (auto simp: refuse_not_cached_def delete_ephemeral_def ephemeral_drop_def)
next
  case (Some i)
  obtain r w1 tr1 where d: "api_delete_torrent (traced rd) i (w, tr) = (r, w1, tr1)" by (metis prod.exhaust)
  note t = traced_delete [OF d]
  show ?thesis
  proof (cases r)
    case (Inl e)
    obtain w2 tr2 where dr: "ephemeral_drop (traced rd) g (w1, tr1) = (w2, tr2)" by fastforce
    from assms Some d Inl dr have o: "tr' = tr2" "out = (if is_bandwidth_limited e then DeferBandwidth else map_rd e)"
      by (simp_all add: refuse_not_cached_def delete_ephemeral_def)
    show ?thesis using t drop_effect [OF dr] Some Inl
      unfolding o by (auto simp: map_rd_def intro: grows_trans grows_limited split: option.splits)
  next
    case (Inr u)
    with assms Some d t show ?thesis by (auto simp: refuse_not_cached_def delete_ephemeral_def ephemeral_drop_def)
  qed
qed

lemma try_magnet_effect:
  assumes "try_magnet (traced rd) hash files restrict (w, tr) = (a, w', tr')" and "pending tr = {}"
  shows "grows tr tr' \<and> pending tr' = attempt_left a \<and> (call_limited tr' \<longleftrightarrow> call_limited tr \<or> attempt_limited a) \<and>
    (attempt_limited a \<longrightarrow> any_limited tr') \<and> (\<forall>out. a = AttemptRefused out \<longrightarrow>
       (out = DeferBandwidth \<longrightarrow> any_limited tr') \<and> (\<forall>ids. out \<noteq> Success ids)) \<and>
    (\<forall>g. a = AttemptReady g \<longrightarrow> (\<exists>i. g = ephemeral_new i))"
proof -
  obtain ra w1 where add: "api_add_magnet rd hash w = (ra, w1)" by fastforce
  show ?thesis
  proof (cases ra)
    case (Inl e)
    with assms add show ?thesis by (auto simp: try_magnet_def traced_def attempt_left_def attempt_limited_def)
  next
    case (Inr i)
    let ?g = "ephemeral_new i"
    have add': "api_add_magnet (traced rd) hash (w, tr) = (Inr i, w1, tr @ [EvAdd i])" using add Inr by (simp add: traced_def)
    have p1: "pending (tr @ [EvAdd i]) = {i}" using assms(2) by simp
    obtain rs w2 where sel: "api_select_files rd i files w1 = (rs, w2)" by fastforce
    have sel': "api_select_files (traced rd) i files (w1, tr @ [EvAdd i]) = (rs, w2, (tr @ [EvAdd i]) @ note_fail EvFail rs)"
      using sel by (simp add: traced_def)
    obtain rr w3 tr3 where inf: "info_ready (traced rd) i restrict (w2, tr @ [EvAdd i]) = (rr, w3, tr3)" by (metis prod.exhaust)
    note ie = info_ready_effect [OF inf [unfolded info_ready_def], unfolded p1]
    show ?thesis
    proof (cases rs)
      case (Inl e)
      obtain w4 tr4 where dr: "ephemeral_drop (traced rd) ?g (w2, tr @ [EvAdd i, EvFail e]) = (w4, tr4)" by fastforce
      from assms(1) add' sel' Inl dr have o: "a = AttemptFailed e" "tr' = tr4" by (simp_all add: try_magnet_def)
      from drop_effect [OF dr] assms(2) show ?thesis unfolding o
        by (auto simp: attempt_left_def attempt_limited_def ephemeral_new_def intro: grows_trans [OF grows_append] grows_limited)
    next
      case (Inr u)
      obtain w4 tr4 where dr: "ephemeral_drop (traced rd) ?g (w3, tr3) = (w4, tr4)" by fastforce
      note de = drop_effect [OF dr]
      obtain out w5 tr5 where re: "refuse_not_cached (traced rd) ?g (w3, tr3) = (out, w5, tr5)" by (metis prod.exhaust)
      note ree = refuse_effect [OF re]
      have g3: "grows tr tr3" using ie by (auto intro: grows_trans [OF grows_append])
      from assms(1) add' sel' Inr inf dr re consider
          (fail) e where "rr = Inl e" "a = AttemptFailed e" "tr' = tr4" | (ready) "rr = Inr IsReady" "a = AttemptReady ?g" "tr' = tr3"
        | (refused) "rr = Inr RestrictCachedExhausted" "a = AttemptRefused out" "tr' = tr5"
        | (notready) "rr = Inr NotReadyKeep" "a = AttemptNotReady" "tr' = tr4"
        by (cases rr) (auto simp: try_magnet_def Let_def split: info_ready_outcome.splits)
      then show ?thesis
        by cases (use g3 ie de ree in \<open>auto simp: attempt_left_def attempt_limited_def ephemeral_new_def
          intro: grows_trans grows_limited\<close>)
    qed
  qed
qed

text \<open>The shape every strategy keeps: nothing is pending unless it is returned, a limit met by a call is
  returned as a deferral, and a deferral has such a cause.\<close>

definition outcome_left :: "cascade_outcome \<Rightarrow> string set" where
  "outcome_left out = (case out of Success (Some ids) \<Rightarrow> set ids | _ \<Rightarrow> {})"

definition step_ok :: "rd_event list \<Rightarrow> rd_event list \<Rightarrow> cascade_outcome option \<Rightarrow> bool" where
  "step_ok tr tr' r \<longleftrightarrow> grows tr tr' \<and> pending tr' = (case r of None \<Rightarrow> {} | Some out \<Rightarrow> outcome_left out) \<and>
     (call_limited tr' \<longrightarrow> call_limited tr \<or> r = Some DeferBandwidth) \<and> (r = Some DeferBandwidth \<longrightarrow> any_limited tr')"

lemma step_ok_trans:
  "step_ok tr tr1 None \<Longrightarrow> step_ok tr1 tr2 r \<Longrightarrow> step_ok tr tr2 r"
  by (auto simp: step_ok_def intro: grows_trans)

lemma step_ok_pending: "step_ok tr tr1 None \<Longrightarrow> pending tr1 = {}"
  by (simp add: step_ok_def)

lemma step_ok_refl: "pending tr = {} \<Longrightarrow> r \<noteq> Some DeferBandwidth \<Longrightarrow> (\<forall>ids. r \<noteq> Some (Success (Some ids))) \<Longrightarrow> step_ok tr tr r"
  by (auto simp: step_ok_def outcome_left_def split: option.splits cascade_outcome.splits)

lemma keep_magnet_new: "keep_magnet rd (ephemeral_new i) s = (Success (Some [i]), s)"
  by (simp add: keep_magnet_def dismiss_def ephemeral_drop_def ephemeral_new_def)

lemma attempt_step_ok:
  assumes "try_magnet (traced rd) hash files restrict (w, tr) = (a, w', tr')" and "pending tr = {}"
  shows "a = AttemptNotReady \<Longrightarrow> step_ok tr tr' None"
    and "a = AttemptRefused out \<Longrightarrow> step_ok tr tr' (Some out) \<and> (\<forall>ids. out \<noteq> Success ids)"
    and "a = AttemptFailed e \<Longrightarrow> step_ok tr tr' (Some (map_rd e))"
    and "a = AttemptFailed e \<Longrightarrow> step_ok tr tr' (if is_bandwidth_limited e then Some DeferBandwidth else None)"
    and "a = AttemptReady g \<Longrightarrow> ephemeral_drop (traced rd) g (w', tr') = (w2, tr2) \<Longrightarrow> step_ok tr tr2 None"
    and "a = AttemptReady g \<Longrightarrow> keep_magnet (traced rd) g (w', tr') = (out, w2, tr2) \<Longrightarrow>
      step_ok tr tr2 (Some out) \<and> (\<exists>ids. out = Success (Some ids))"
proof -
  note t = try_magnet_effect [OF assms]
  show "a = AttemptNotReady \<Longrightarrow> step_ok tr tr' None" using t by (auto simp: step_ok_def attempt_left_def attempt_limited_def)
  show "a = AttemptRefused out \<Longrightarrow> step_ok tr tr' (Some out) \<and> (\<forall>ids. out \<noteq> Success ids)"
    using t by (cases out) (auto simp: step_ok_def attempt_left_def attempt_limited_def outcome_left_def)
  show "a = AttemptFailed e \<Longrightarrow> step_ok tr tr' (Some (map_rd e))"
    using t by (auto simp: step_ok_def attempt_left_def attempt_limited_def outcome_left_def map_rd_def split: option.splits)
  show "a = AttemptFailed e \<Longrightarrow> step_ok tr tr' (if is_bandwidth_limited e then Some DeferBandwidth else None)"
    using t by (auto simp: step_ok_def attempt_left_def attempt_limited_def outcome_left_def)
  show "step_ok tr tr2 None" if "a = AttemptReady g" and d: "ephemeral_drop (traced rd) g (w', tr') = (w2, tr2)"
    using t that(1) drop_effect [OF d] grows_trans [of tr tr' tr2] by (auto simp: step_ok_def attempt_left_def attempt_limited_def)
  show "step_ok tr tr2 (Some out) \<and> (\<exists>ids. out = Success (Some ids))"
    if g: "a = AttemptReady g" and k: "keep_magnet (traced rd) g (w', tr') = (out, w2, tr2)"
  proof -
    from t g obtain i where i: "g = ephemeral_new i" by blast
    with k have "out = Success (Some [i])" "tr2 = tr'" by (simp_all add: keep_magnet_new)
    with t g i show ?thesis by (simp add: step_ok_def attempt_left_def attempt_limited_def outcome_left_def ephemeral_new_def)
  qed
qed

lemma individual_files_step:
  "individual_files (traced rd) hash restrict fs ok (w, tr) = (r, w', tr') \<Longrightarrow> pending tr = {} \<Longrightarrow>
     step_ok tr tr' (case r of Inl out \<Rightarrow> Some out | Inr _ \<Rightarrow> None) \<and> (\<forall>ids. r \<noteq> Inl (Success ids))"
proof (induction fs arbitrary: ok w tr)
  case Nil
  then show ?case by (auto simp: step_ok_refl)
next
  case (Cons f fs)
  obtain a w1 tr1 where t: "try_magnet (traced rd) hash (show_int (f_id f)) restrict (w, tr) = (a, w1, tr1)" by (metis prod.exhaust)
  note s = attempt_step_ok [OF t Cons.prems(2)]
  have go: ?case if "step_ok tr tr2 None" "individual_files (traced rd) hash restrict fs ok2 (w2, tr2) = (r, w', tr')" for tr2 w2 ok2
    using Cons.IH [OF that(2) step_ok_pending [OF that(1)]] step_ok_trans [OF that(1)] by simp
  show ?case
  proof (cases a)
    case (AttemptReady g)
    obtain w2 tr2 where d: "ephemeral_drop (traced rd) g (w1, tr1) = (w2, tr2)" by fastforce
    with AttemptReady Cons.prems t show ?thesis by (intro go [OF s(5) [OF AttemptReady d]]) simp
  next
    case AttemptNotReady
    with Cons.prems t show ?thesis by (intro go [OF s(1)]) simp_all
  next
    case (AttemptRefused out)
    with Cons.prems t s(2) [OF AttemptRefused] show ?thesis by auto
  next
    case (AttemptFailed e)
    with Cons.prems t s(4) [OF AttemptFailed] show ?thesis by (cases "is_bandwidth_limited e") (auto dest: go)
  qed
qed

lemma batch_download_step:
  "batch_download (traced rd) hash restrict cs n (w, tr) = (r, w', tr') \<Longrightarrow> pending tr = {} \<Longrightarrow>
     step_ok tr tr' (case r of Inl out \<Rightarrow> Some out | Inr _ \<Rightarrow> None) \<and> (\<forall>ids. r \<noteq> Inl (Success ids))"
proof (induction cs arbitrary: n w tr)
  case Nil
  then show ?case by (auto simp: step_ok_refl)
next
  case (Cons c cs)
  obtain a w1 tr1 where t: "try_magnet (traced rd) hash (join_ids c) restrict (w, tr) = (a, w1, tr1)" by (metis prod.exhaust)
  note s = attempt_step_ok [OF t Cons.prems(2)]
  have go: ?case if "step_ok tr tr2 None" "batch_download (traced rd) hash restrict cs n2 (w2, tr2) = (r, w', tr')" for tr2 w2 n2
    using Cons.IH [OF that(2) step_ok_pending [OF that(1)]] step_ok_trans [OF that(1)] by simp
  show ?case
  proof (cases a)
    case (AttemptReady g)
    obtain w2 tr2 where d: "ephemeral_drop (traced rd) g (w1, tr1) = (w2, tr2)" by fastforce
    with AttemptReady Cons.prems t show ?thesis by (intro go [OF s(5) [OF AttemptReady d]]) simp
  next
    case AttemptNotReady
    with Cons.prems t show ?thesis by (intro go [OF s(1)]) simp_all
  next
    case (AttemptRefused out)
    with Cons.prems t s(2) [OF AttemptRefused] show ?thesis by auto
  next
    case (AttemptFailed e)
    with Cons.prems t s(4) [OF AttemptFailed] show ?thesis by (cases "is_bandwidth_limited e") (auto dest: go)
  qed
qed

lemma archive_all_step:
  assumes "archive_all (traced rd) hash restrict (w, tr) = (r, w', tr')" and "pending tr = {}"
  shows "step_ok tr tr' r \<and> r \<noteq> Some (Success None)"
proof -
  obtain a w1 tr1 where t: "try_magnet (traced rd) hash ''all'' restrict (w, tr) = (a, w1, tr1)" by (metis prod.exhaust)
  note s = attempt_step_ok [OF t assms(2)]
  show ?thesis
  proof (cases a)
    case (AttemptReady g)
    obtain out w2 tr2 where "keep_magnet (traced rd) g (w1, tr1) = (out, w2, tr2)" by (metis prod.exhaust)
    with assms t AttemptReady s(6) [OF AttemptReady this] show ?thesis by (auto simp: archive_all_def)
  qed (use assms t s in \<open>auto simp: archive_all_def split: if_splits\<close>)
qed

lemma fold_delete_effect:
  assumes "fold (\<lambda>i w. snd (api_delete_torrent (traced rd) i w)) ids (w, tr) = (w', tr')"
  shows "grows tr tr' \<and> pending tr' \<subseteq> pending tr \<and> call_limited tr' = call_limited tr \<and> (\<forall>i \<in> set ids. EvDel i \<in> set tr')"
  using assms
proof (induction ids arbitrary: w tr)
  case (Cons i ids)
  obtain r w1 tr1 where d: "api_delete_torrent (traced rd) i (w, tr) = (r, w1, tr1)" by (metis prod.exhaust)
  with Cons.prems have "fold (\<lambda>i w. snd (api_delete_torrent (traced rd) i w)) ids (w1, tr1) = (w', tr')" by simp
  note ih = Cons.IH [OF this]
  with traced_delete [OF d] have "EvDel i \<in> set tr'" using grows_set by blast
  with ih traced_delete [OF d] show ?case by (auto intro: grows_trans)
qed simp

lemma strategy_1_step:
  assumes "try_strategy_1_reinsert (traced rd) m files restrict (w, tr) = (r, w', tr')" and "pending tr = {}"
  shows "step_ok tr tr' r \<and> r \<noteq> Some (Success None) \<and> (\<forall>i \<in> set (mt_rd_ids m). EvDel i \<in> set tr')"
proof -
  obtain w0 tr0 where d: "fold (\<lambda>i w. snd (api_delete_torrent (traced rd) i w)) (mt_rd_ids m) (w, tr) = (w0, tr0)" by fastforce
  note de = fold_delete_effect [OF d]
  then have p: "pending tr0 = {}" using assms(2) by auto
  obtain a w1 tr1 where t: "try_magnet (traced rd) (t_hash (mt_torrent m)) files restrict (w0, tr0) = (a, w1, tr1)" by (metis prod.exhaust)
  note s = attempt_step_ok [OF t p]
  have r: "step_ok tr0 tr' r \<and> r \<noteq> Some (Success None)"
  proof (cases a)
    case (AttemptReady g)
    obtain out w2 tr2 where "keep_magnet (traced rd) g (w1, tr1) = (out, w2, tr2)" by (metis prod.exhaust)
    with assms d t AttemptReady s(6) [OF AttemptReady this] show ?thesis by (auto simp: try_strategy_1_reinsert_def)
  next
    case (AttemptFailed e)
    with assms d t s(3) [OF AttemptFailed] show ?thesis
      by (auto simp: try_strategy_1_reinsert_def map_rd_def split: if_splits option.splits)
  qed (use assms d t s in \<open>auto simp: try_strategy_1_reinsert_def\<close>)
  have z: "step_ok tr tr0 None" using de p by (simp add: step_ok_def)
  have "set tr0 \<subseteq> set tr'" using r grows_set by (auto simp: step_ok_def)
  with r de step_ok_trans [OF z] show ?thesis by blast
qed

lemma finish_failure_shape: "finish_failure m \<noteq> DeferBandwidth \<and> finish_failure m \<noteq> Success ids"
  by (simp add: finish_failure_def)

lemma strategy_4_step:
  assumes "strategy_4 (traced rd) m cfg (w, tr) = (out, w', tr')" and "pending tr = {}"
  shows "step_ok tr tr' (Some out)"
proof -
  let ?cs = "chunks (max 1 (min 32 (batch_file_group_size cfg))) (map f_id (selected_files m))"
  obtain r w1 tr1 where b: "batch_download (traced rd) (t_hash (mt_torrent m)) (restrict_to_cached cfg) ?cs 0 (w, tr) = (r, w1, tr1)"
    by (metis prod.exhaust)
  note bs = batch_download_step [OF b assms(2)]
  have quiet: "step_ok tr t (Some o')" if "step_ok tr t None" "o' = Success None \<or> o' = finish_failure m" for t o'
    using that finish_failure_shape [of m] step_ok_trans [OF that(1) step_ok_refl [OF step_ok_pending [OF that(1)], of "Some o'"]] by auto
  show ?thesis
  proof (cases "1 < length (map f_id (selected_files m))")
    case True
    with assms b bs show ?thesis by (cases r) (auto simp: strategy_4_def Let_def intro: quiet)
  next
    case False
    with assms show ?thesis by (auto simp: strategy_4_def Let_def finish_failure_def intro!: step_ok_refl)
  qed
qed

lemma strategies_2_to_4_step:
  assumes "strategies_2_to_4 (traced rd) m info cfg (w, tr) = (out, w', tr')" and "pending tr = {}"
  shows "step_ok tr tr' (Some out)"
proof -
  let ?h = "t_hash (mt_torrent m)" and ?c = "restrict_to_cached cfg"
  obtain r w1 tr1 where i: "individual_files (traced rd) ?h ?c (selected_files m) True (w, tr) = (r, w1, tr1)" by (metis prod.exhaust)
  note ind = individual_files_step [OF i assms(2)]
  show ?thesis
  proof (cases r)
    case (Inl o')
    with assms i ind show ?thesis by (simp add: strategies_2_to_4_def)
  next
    case (Inr fixed)
    then have n: "step_ok tr tr1 None" using ind by simp
    note p = step_ok_pending [OF n]
    obtain r2 w2 tr2 where a: "(if has_non_playable_selected info then archive_all (traced rd) ?h ?c (w1, tr1) else (None, w1, tr1)) = (r2, w2, tr2)"
      by (metis prod.exhaust)
    have arch: "step_ok tr1 tr2 r2" using a archive_all_step [of rd ?h ?c w1 tr1 r2 w2 tr2] p by (auto intro: step_ok_refl split: if_splits)
    show ?thesis
    proof (cases fixed)
      case True
      with assms i Inr have "out = Success None" "tr' = tr1" by (simp_all add: strategies_2_to_4_def)
      with step_ok_trans [OF n step_ok_refl [OF p, of "Some out"]] show ?thesis by simp
    next
      case False
      show ?thesis
      proof (cases r2)
        case None
        with assms i Inr False a have "strategy_4 (traced rd) m cfg (w2, tr2) = (out, w', tr')" by (simp add: strategies_2_to_4_def Let_def)
        with strategy_4_step [OF this] arch None show ?thesis using step_ok_trans [OF step_ok_trans [OF n]] step_ok_pending by blast
      next
        case (Some o')
        with assms i Inr False a have "out = o'" "tr' = tr2" by (simp_all add: strategies_2_to_4_def Let_def)
        with step_ok_trans [OF n arch] Some show ?thesis by simp
      qed
    qed
  qed
qed

lemma execute_cascade_step:
  assumes "execute_cascade (traced rd) m cfg (w, []) = (out, w', tr)"
  shows "step_ok [] tr (Some out) \<and> (out = Success None \<longrightarrow> (\<forall>i \<in> set (mt_rd_ids m). EvDel i \<in> set tr))"
proof -
  have p: "pending [] = {}" by (simp add: pending_def)
  have early: "step_ok [] [] (Some (Unrepairable x))" "step_ok [] [] (Some (UnrepairableMsg y))" for x y
    using step_ok_refl [OF p] by simp_all
  let ?ids = "join_ids (map f_id (selected_files m))"
  let ?files = "case mt_info m of None \<Rightarrow> ''all'' | Some _ \<Rightarrow> if ?ids = [] then ''all'' else ?ids"
  obtain r w1 tr1 where s: "try_strategy_1_reinsert (traced rd) m ?files (restrict_to_cached cfg) (w, []) = (r, w1, tr1)"
    by (metis prod.exhaust)
  note ss = strategy_1_step [OF s p]
  consider (quiet) x y where "tr = []" "out = Unrepairable x \<or> out = UnrepairableMsg y"
    | (first) "r = Some out" "tr = tr1" | (noinfo) "r = None" "out = finish_failure m" "tr = tr1"
    | (rest) info where "r = None" "strategies_2_to_4 (traced rd) m info cfg (w1, tr1) = (out, w', tr)"
    using assms s by (cases "mt_info m") (auto simp: execute_cascade_def Let_def split: if_splits option.splits)
  then show ?thesis
  proof cases
    case quiet
    with early show ?thesis by auto
  next
    case first
    with ss show ?thesis by auto
  next
    case noinfo
    with ss have "step_ok [] tr None" by simp
    from step_ok_trans [OF this step_ok_refl [OF step_ok_pending [OF this], of "Some out"]] noinfo show ?thesis
      using finish_failure_shape [of m] by auto
  next
    case rest
    with ss have n: "step_ok [] tr1 None" by simp
    note r = strategies_2_to_4_step [OF rest(2) step_ok_pending [OF n]]
    then have "set tr1 \<subseteq> set tr" using grows_set by (auto simp: step_ok_def)
    with ss step_ok_trans [OF n r] show ?thesis by blast
  qed
qed

text \<open>The batches of the last strategy.\<close>

lemma chunks_cover: "0 < n \<Longrightarrow> concat (chunks n xs) = xs \<and> (\<forall>c \<in> set (chunks n xs). 0 < length c \<and> length c \<le> n)"
proof (induction n xs rule: chunks.induct)
  case (1 n xs)
  then show ?case
  proof (cases "xs = []")
    case False
    with 1 have "concat (chunks n (drop n xs)) = drop n xs \<and> (\<forall>c \<in> set (chunks n (drop n xs)). 0 < length c \<and> length c \<le> n)" by simp
    with False 1(2) show ?thesis by (subst (1 2) chunks.simps) auto
  qed (simp add: chunks.simps)
qed

section \<open>Properties\<close>

text \<open>C7: the cascade leaves no magnet of its own behind. Of all the magnets it adds, the only one whose
  deletion is not asked for afterwards is the one it returns as the torrent's new id; on every other
  outcome, errors included, there is none.\<close>

theorem cascade_leaves_no_magnet:
  "case execute_cascade (traced rd) m cfg (w, []) of
     (out, _, tr) \<Rightarrow> pending tr = (case out of Success (Some ids) \<Rightarrow> set ids | _ \<Rightarrow> {})"
  using execute_cascade_step [of rd m cfg w]
  by (auto simp: step_ok_def outcome_left_def split: prod.splits cascade_outcome.splits option.splits)

text \<open>C23: an account limit never makes a torrent unrepairable. When adding the magnet, selecting files or
  asking for its state fails with a bandwidth limit, the cascade defers; and it defers only when some
  call failed that way.\<close>

theorem cascade_defers_on_limit:
  assumes "execute_cascade (traced rd) m cfg (w, []) = (out, w', tr)"
  shows "(call_limited tr \<longrightarrow> out = DeferBandwidth) \<and> (out = DeferBandwidth \<longrightarrow> any_limited tr)"
  using execute_cascade_step [OF assms] by (auto simp: step_ok_def)

text \<open>A service that answers from its number of requests: a magnet is ready from the fourth question on.\<close>

definition cascade_api :: "(nat \<Rightarrow> rd_error + string) \<Rightarrow> nat rd_api" where
  "cascade_api add = 
     \<lparr>api_unrestrict = (\<lambda>_ w. (Inl RdCancelled, w)), api_verify = (\<lambda>_ w. (Inr (), w)), api_delete_torrent = (\<lambda>_ w. (Inr (), w)),
      api_add_magnet = (\<lambda>_ w. (add w, w)), api_select_files = (\<lambda>_ _ w. (Inr (), w)),
      api_torrent_info = (\<lambda>_ w. (Inr (preflight_info\<lparr>ti_progress := if w < 3 then 50 else 100\<rparr>), Suc w)),
      api_active_count = (\<lambda>w. (Inl [], w))\<rparr>"

theorem cascade_defers_on_limit_witness:
  "fst (execute_cascade (traced (cascade_api (\<lambda>n. if n = 3 then Inl (RdApi (ApiTrafficExhausted [])) else Inr ''N'')))
     preflight_torrent repair_config_default (0, [])) = DeferBandwidth"
proof -
  let ?run = "execute_cascade (traced (cascade_api (\<lambda>n. if n = 3 then Inl (RdApi (ApiTrafficExhausted [])) else Inr ''N'')))
     preflight_torrent repair_config_default (0, [])"
  have l: "call_limited (snd (snd ?run))" by code_simp
  have "?run = (fst ?run, fst (snd ?run), snd (snd ?run))" by simp
  from cascade_defers_on_limit [OF this] l show ?thesis by blast
qed

text \<open>C39: when the cascade succeeds without new ids (the files or batches were ready one by one), it has
  asked for the deletion of every id the torrent had and of every magnet it added: nothing of the
  torrent is kept on the service, although the outcome is a success.\<close>

theorem success_without_ids_keeps_nothing:
  assumes "execute_cascade (traced rd) m cfg (w, []) = (Success None, w', tr)"
  shows "(\<forall>i \<in> set (mt_rd_ids m). EvDel i \<in> set tr) \<and> pending tr = {}"
  using execute_cascade_step [OF assms] by (auto simp: step_ok_def outcome_left_def)

theorem success_without_ids_keeps_nothing_witness:
  "\<exists>w' tr. execute_cascade (traced (cascade_api (\<lambda>_. Inr ''N''))) preflight_torrent repair_config_default (0, []) =
     (Success None, w', tr) \<and> EvDel ''A'' \<in> set tr \<and> pending tr = {}"
proof -
  let ?run = "execute_cascade (traced (cascade_api (\<lambda>_. Inr ''N''))) preflight_torrent repair_config_default (0, [])"
  have "fst ?run = Success None" by code_simp
  then have r: "?run = (Success None, fst (snd ?run), snd (snd ?run))" by (cases ?run) simp
  have "''A'' \<in> set (mt_rd_ids preflight_torrent)" by (simp add: preflight_torrent_def)
  with success_without_ids_keeps_nothing [OF r] r show ?thesis by blast
qed

end
