(* ===== verification/Repair_Engine.thy ===== *)
theory Repair_Engine
  imports Repair_Cascade Refresh
begin

text \<open>
  The repair engine (\<^verbatim>\<open>src/src/repair/engine\<close>): one repair (\<^verbatim>\<open>repair_one.rs\<close>), the passive probe of links
  (\<^verbatim>\<open>passive_head.rs\<close>), and the session, throttle and loop (\<^verbatim>\<open>mod.rs\<close>).

  The engine's state is the torrent manager, the times of the passive probes and the world of the
  service. One repair runs without other tasks between its steps. What the environment decides is a
  record per repair: the manager's environment (clock, database) at each of its steps, the polls of the
  capacity wait, the id of the job row, whether its statements work, and, when the timeout cuts the
  cascade, the world it leaves.
\<close>

section \<open>One repair\<close>

record 'w repair_env =
  re_tm :: "nat \<Rightarrow> tm_env"
  re_polls :: "capacity_poll list"
  re_job_id :: string
  re_insert_ok :: bool
  re_update_ok :: bool
  re_cut :: "managed_torrent \<Rightarrow> 'w \<Rightarrow> 'w option"

definition new_job :: "'w repair_env \<Rightarrow> string \<Rightarrow> repair_job_row" where
  "new_job env key =
     \<lparr>rj_id = re_job_id env, rj_torrent_key = key, rj_strategy = ''cascade'', rj_status = JobRunning,
      rj_started_at = Some (te_now (re_tm env 1)), rj_completed_at = None\<rparr>"

definition begin_job :: "'w repair_env \<Rightarrow> string \<Rightarrow> manager \<Rightarrow> manager" where
  "begin_job env key mgr = mgr\<lparr>tm_db := snd (insert_repair_job (re_insert_ok env) (new_job env key) (tm_db mgr))\<rparr>"

definition end_job :: "'w repair_env \<Rightarrow> string \<Rightarrow> repair_job_status \<Rightarrow> manager \<Rightarrow> manager" where
  "end_job env key status mgr =
     mgr\<lparr>tm_db := snd (update_repair_job (re_update_ok env)
        ((new_job env key)\<lparr>rj_status := status, rj_completed_at := Some (te_now (re_tm env 3))\<rparr>) (tm_db mgr))\<rparr>"

text \<open>The end of a repair: the job row, then the state of the torrent.\<close>

definition conclude ::
    "'w repair_env \<Rightarrow> string \<Rightarrow> repair_job_status \<Rightarrow> torrent_state \<Rightarrow> string option \<Rightarrow> manager \<Rightarrow> manager" where
  "conclude env key status st reason mgr = snd (update_torrent_state (re_tm env 3) key st reason (end_job env key status mgr))"

definition apply_outcome :: "'w repair_env \<Rightarrow> string \<Rightarrow> cascade_outcome \<Rightarrow> manager \<Rightarrow> manager" where
  "apply_outcome env key out mgr =
     (case out of
        Success new_rd_ids \<Rightarrow>
          (let mgr1 = end_job env key JobDone mgr;
               mgr2 = (case new_rd_ids of None \<Rightarrow> mgr1
                       | Some ids \<Rightarrow> snd (replace_rd_ids_after_repair (re_tm env 3) key ids mgr1))
           in snd (update_torrent_state (re_tm env 3) key Ok None mgr2))
      | Unrepairable reason \<Rightarrow> conclude env key JobFailed Broken (Some (reason_display reason)) mgr
      | UnrepairableMsg msg \<Rightarrow> conclude env key JobFailed Broken (Some msg) mgr
      | DeferBandwidth \<Rightarrow> conclude env key JobFailed Broken None mgr)"

text \<open>From the torrent's details on.\<close>

definition repair_body ::
    "'w rd_api \<Rightarrow> 'w repair_env \<Rightarrow> repair_config \<Rightarrow> string \<Rightarrow> managed_torrent \<Rightarrow> manager \<times> 'w \<Rightarrow> manager \<times> 'w" where
  "repair_body rd env cfg key mt s =
     (case s of (mgr, w) \<Rightarrow>
        (case run_preflight rd mt w of
           (PreDeferBandwidth, w1) \<Rightarrow> (conclude env key JobFailed Broken None mgr, w1)
         | (VerifiedOk m, w1) \<Rightarrow>
             (conclude env key JobDone Ok None (snd (persist_torrent_snapshot (re_tm env 2) m mgr)), w1)
         | (Proceed m, w1) \<Rightarrow>
             (let mgr1 = snd (persist_torrent_snapshot (re_tm env 2) m mgr)
              in case re_cut env m w1 of
                   Some w2 \<Rightarrow> (conclude env key JobFailed Broken None mgr1, w2)
                 | None \<Rightarrow>
                     (case execute_cascade rd m cfg w1 of (out, w2) \<Rightarrow> (apply_outcome env key out mgr1, w2)))))"

definition stuck_under_repair :: "'w repair_env \<Rightarrow> repair_config \<Rightarrow> managed_torrent \<Rightarrow> bool" where
  "stuck_under_repair env cfg mt =
     (mt_state mt = UnderRepair \<and>
      (case mt_under_repair_started_at mt of
         None \<Rightarrow> False
       | Some ts \<Rightarrow> te_now (re_tm env 0) - ts > wrap_i64 (u64_to_i64 (max (timeout_mins cfg) 1) * 60)))"

definition capacity_granted :: "'w repair_env \<Rightarrow> bool" where
  "capacity_granted env = (case wait_for_repair_capacity (re_polls env) of Some (b, _) \<Rightarrow> b | None \<Rightarrow> False)"

definition repair_one_torrent ::
    "'w rd_api \<Rightarrow> 'w repair_env \<Rightarrow> repair_config \<Rightarrow> string \<Rightarrow> manager \<times> 'w \<Rightarrow> manager \<times> 'w" where
  "repair_one_torrent rd env cfg key s =
     (case s of (mgr, w) \<Rightarrow>
        (case ensure_torrent_info rd key mgr w of
           (None, mgr1, w1) \<Rightarrow> (mgr1, w1)
         | (Some mt, mgr1, w1) \<Rightarrow>
             if mt_unrepairable_reason mt \<noteq> None then (mgr1, w1)
             else if stuck_under_repair env cfg mt
                  then (snd (update_torrent_state (re_tm env 0) key Broken None mgr1), w1)
             else if \<not> capacity_granted env then (mgr1, w1)
             else
               (case update_torrent_state (re_tm env 1) key UnderRepair None (begin_job env key mgr1) of
                  (Inl _, mgr2) \<Rightarrow> (mgr2, w1)
                | (Inr _, mgr2) \<Rightarrow>
                    (case ensure_torrent_info rd key mgr2 w1 of
                       (None, mgr3, w2) \<Rightarrow> (mgr3, w2)
                     | (Some mt', mgr3, w2) \<Rightarrow> repair_body rd env cfg key mt' (mgr3, w2)))))"

section \<open>The passive probe\<close>

text \<open>The times are seconds of a monotonic clock.\<close>

definition head_candidate :: "u64 \<Rightarrow> (string \<times> nat) list \<Rightarrow> repair_config \<Rightarrow> managed_torrent \<Rightarrow> bool" where
  "head_candidate now seen cfg mt =
     (mt_unrepairable_reason mt = None \<and> \<not> periodic_repair_eligible mt \<and> mt_state mt = Ok \<and>
      (case mt_info mt of None \<Rightarrow> False | Some info \<Rightarrow> passive_head_probe_slot_count info \<noteq> 0) \<and>
      (case map_of seen (mt_access_key mt) of
         None \<Rightarrow> True
       | Some t \<Rightarrow> \<not> now - t < wmul64 (max (head_check_min_interval_mins cfg) 1) 60))"

fun probe_candidates ::
    "'w rd_api \<Rightarrow> (string \<Rightarrow> u64) \<Rightarrow> usize \<Rightarrow> manager \<Rightarrow> string list \<Rightarrow> (string \<times> nat) list \<times> string list \<Rightarrow> 'w \<Rightarrow>
     ((string \<times> nat) list \<times> string list) \<times> 'w" where
  "probe_candidates rd clock threshold mgr [] acc w = (acc, w)"
| "probe_candidates rd clock threshold mgr (k # ks) acc w =
     (case get_mt mgr k of
        None \<Rightarrow> probe_candidates rd clock threshold mgr ks acc w
      | Some mt \<Rightarrow>
          (case mt_info mt of
             None \<Rightarrow> probe_candidates rd clock threshold mgr ks acc w
           | Some info \<Rightarrow>
               (case check_head_unreachable rd info w of
                  (r, w1) \<Rightarrow>
                    probe_candidates rd clock threshold mgr ks
                      (AList.update k (clock k) (fst acc),
                       snd acc @ (case r of Inr n \<Rightarrow> if n \<ge> threshold then [k] else [] | Inl _ \<Rightarrow> [])) w1)))"

text \<open>The keys that are appended, with the new times.\<close>

definition append_passive_head_candidates ::
    "'w rd_api \<Rightarrow> u64 \<Rightarrow> (string \<Rightarrow> u64) \<Rightarrow> repair_config \<Rightarrow> manager \<Rightarrow> (string \<times> nat) list \<Rightarrow> 'w \<Rightarrow>
     ((string \<times> nat) list \<times> string list) \<times> 'w" where
  "append_passive_head_candidates rd now clock cfg mgr seen w =
     (if \<not> head_check_enabled cfg then ((seen, []), w)
      else probe_candidates rd clock (max (head_unreachable_threshold cfg) 1) mgr
             (map mt_access_key (filter (head_candidate now seen cfg) (map snd (tm_torrents mgr)))) (seen, []) w)"

section \<open>Sessions\<close>

record 'w engine =
  en_mgr :: manager
  en_passive_head_last :: "(string \<times> nat) list"
  en_world :: 'w

text \<open>What a session meets: the clock of its probes, whether shutdown is requested before each repair, and
  the environment of each repair.\<close>

record 'w session_env =
  se_now :: u64
  se_clock :: "string \<Rightarrow> u64"
  se_cancelled :: "string \<Rightarrow> bool"
  se_repair :: "string \<Rightarrow> 'w repair_env"

definition session_keys ::
    "'w rd_api \<Rightarrow> 'w session_env \<Rightarrow> repair_config \<Rightarrow> bool \<Rightarrow> 'w engine \<Rightarrow> string list \<times> 'w engine" where
  "session_keys rd env cfg periodic e =
     (let queued = tm_repair_queue (en_mgr e);
          mgr = (en_mgr e)\<lparr>tm_repair_queue := []\<rparr>;
          eligible = map mt_access_key (filter (\<lambda>m. mt_unrepairable_reason m = None \<and> periodic_repair_eligible m)
                       (map snd (tm_torrents mgr)))
      in if periodic
         then (case append_passive_head_candidates rd (se_now env) (se_clock env) cfg mgr (en_passive_head_last e) (en_world e) of
                 ((seen, heads), w) \<Rightarrow>
                   (remdups_adj (sort (queued @ eligible @ heads)),
                    e\<lparr>en_mgr := mgr, en_passive_head_last := seen, en_world := w\<rparr>))
         else (remdups_adj (sort queued), e\<lparr>en_mgr := mgr\<rparr>))"

fun repair_keys :: "'w rd_api \<Rightarrow> 'w session_env \<Rightarrow> repair_config \<Rightarrow> string list \<Rightarrow> manager \<times> 'w \<Rightarrow> manager \<times> 'w" where
  "repair_keys rd env cfg [] s = s"
| "repair_keys rd env cfg (k # ks) s =
     (if se_cancelled env k then s
      else repair_keys rd env cfg ks (repair_one_torrent rd (se_repair env k) cfg k s))"

definition run_session_impl ::
    "'w rd_api \<Rightarrow> 'w session_env \<Rightarrow> repair_config \<Rightarrow> bool \<Rightarrow> bool \<Rightarrow> 'w engine \<Rightarrow> 'w engine" where
  "run_session_impl rd env cfg periodic ignore_repair_disabled e =
     (if \<not> ignore_repair_disabled \<and> \<not> enable cfg then e
      else
        (case session_keys rd env cfg periodic e of
           (keys, e1) \<Rightarrow>
             (case repair_keys rd env cfg keys (en_mgr e1, en_world e1) of
                (mgr, w) \<Rightarrow> e1\<lparr>en_mgr := mgr, en_world := w\<rparr>)))"

definition run_one_pass_for_cli :: "'w rd_api \<Rightarrow> 'w session_env \<Rightarrow> repair_config \<Rightarrow> bool \<Rightarrow> 'w engine \<Rightarrow> 'w engine" where
  "run_one_pass_for_cli rd env cfg periodic e = run_session_impl rd env cfg periodic True e"

section \<open>The loop\<close>

text \<open>In whole seconds. The read of the meta row may fail.\<close>

definition throttle_wait_duration :: "bool \<Rightarrow> i64 \<Rightarrow> repair_config \<Rightarrow> db \<Rightarrow> u64" where
  "throttle_wait_duration ok now cfg d =
     (let interval = wmul64 (max (every_mins cfg) 1) 60;
          seen = (case get_meta_i64 ok META_LAST_REPAIR_CYCLE_UNIX d of Inr v \<Rightarrow> v | Inl _ \<Rightarrow> None)
      in case seen of
           None \<Rightarrow> 0
         | Some ts \<Rightarrow> let age = nat (max (now - ts) 0) in if age < interval then interval - age else 0)"

definition persist_cycle_ts :: "bool \<Rightarrow> i64 \<Rightarrow> manager \<Rightarrow> manager" where
  "persist_cycle_ts ok now mgr = mgr\<lparr>tm_db := snd (set_meta_i64 ok META_LAST_REPAIR_CYCLE_UNIX now (tm_db mgr))\<rparr>"

definition resume_queue :: "manager \<Rightarrow> manager" where
  "resume_queue mgr =
     (let resume = map fst (filter (\<lambda>(_, m). mt_state m = UnderRepair) (tm_torrents mgr))
      in if resume = [] then mgr
         else mgr\<lparr>tm_repair_queue := fold push_back resume (tm_repair_queue mgr), tm_notified := True\<rparr>)"

text \<open>What wakes the loop, with what the step meets. A tick whose scan is throttled waits for the time
  that is left, a notification or shutdown.\<close>

datatype wait_end = WaitShutdown | WaitNotified | WaitElapsed

record tick_env =
  tk_read_ok :: bool
  tk_now :: i64
  tk_wait_end :: wait_end
  tk_write_ok :: bool
  tk_done :: i64

datatype 'w wake =
    WakeShutdown
  | WakeNotified repair_config "'w session_env"
  | WakeTick repair_config "'w session_env" tick_env

definition take_notify :: "'w engine \<Rightarrow> 'w engine" where
  "take_notify e = e\<lparr>en_mgr := (en_mgr e)\<lparr>tm_notified := False\<rparr>\<rparr>"

text \<open>The engine after the step and whether the loop goes on.\<close>

fun loop_step :: "'w rd_api \<Rightarrow> 'w wake \<Rightarrow> 'w engine \<Rightarrow> 'w engine \<times> bool" where
  "loop_step rd WakeShutdown e = (e, False)"
| "loop_step rd (WakeNotified cfg env) e = (run_session_impl rd env cfg False False (take_notify e), True)"
| "loop_step rd (WakeTick cfg env tk) e =
     (if \<not> enable cfg then (e, True)
      else
        let wait = throttle_wait_duration (tk_read_ok tk) (tk_now tk) cfg (tm_db (en_mgr e))
        in if 0 < wait \<and> tk_wait_end tk = WaitShutdown then (e, False)
           else if 0 < wait \<and> tk_wait_end tk = WaitNotified
                then (run_session_impl rd env cfg False False (take_notify e), True)
           else
             let e1 = run_session_impl rd env cfg True False e
             in (e1\<lparr>en_mgr := persist_cycle_ts (tk_write_ok tk) (tk_done tk) (en_mgr e1)\<rparr>, True))"

fun run_loop_from :: "'w rd_api \<Rightarrow> 'w wake list \<Rightarrow> 'w engine \<Rightarrow> 'w engine" where
  "run_loop_from rd [] e = e"
| "run_loop_from rd (v # vs) e =
     (case loop_step rd v e of (e1, go) \<Rightarrow> if go then run_loop_from rd vs e1 else e1)"

definition run_loop :: "'w rd_api \<Rightarrow> 'w wake list \<Rightarrow> 'w engine \<Rightarrow> 'w engine" where
  "run_loop rd vs e = run_loop_from rd vs (e\<lparr>en_mgr := resume_queue (en_mgr e)\<rparr>)"

section \<open>Effects of one repair\<close>

text \<open>What the steps of a repair keep: every other torrent, and that the torrent is there under its key.\<close>

definition same_but :: "string \<Rightarrow> manager \<Rightarrow> manager \<Rightarrow> bool" where
  "same_but key mgr mgr' \<longleftrightarrow> (\<forall>k. k \<noteq> key \<longrightarrow> get_mt mgr' k = get_mt mgr k)"

definition held :: "string \<Rightarrow> manager \<Rightarrow> bool" where
  "held key mgr \<longleftrightarrow> (\<exists>m. get_mt mgr key = Some m \<and> mt_access_key m = key)"

definition job_open :: "string \<Rightarrow> manager \<Rightarrow> bool" where
  "job_open i mgr \<longleftrightarrow> (\<exists>r. map_of (db_repair_jobs (tm_db mgr)) i = Some r \<and> sj_status r = ''running'')"

lemma same_but_trans [trans]: "same_but key a b \<Longrightarrow> same_but key b c \<Longrightarrow> same_but key a c"
  by (simp add: same_but_def)

lemma map_of_map_keyed: "map_of (map (\<lambda>(i, r). (i, f i r)) xs) k = map_option (f k) (map_of xs k)"
  by (induction xs) auto

lemma end_job_frame [simp]:
  "get_mt (end_job env key st mgr) = get_mt mgr" "db_app_meta (tm_db (end_job env key st mgr)) = db_app_meta (tm_db mgr)"
  by (simp_all add: end_job_def update_repair_job_def)

lemma begin_job_frame [simp]:
  "get_mt (begin_job env key mgr) = get_mt mgr" "db_app_meta (tm_db (begin_job env key mgr)) = db_app_meta (tm_db mgr)"
  by (simp_all add: begin_job_def insert_repair_job_def)

lemma end_job_closes: "re_update_ok env \<Longrightarrow> st \<noteq> JobRunning \<Longrightarrow> \<not> job_open (re_job_id env) (end_job env key st mgr)"
  by (cases st) (auto simp: job_open_def end_job_def update_repair_job_def new_job_def map_of_map_keyed split: if_splits)

lemma restated_fields [simp]:
  "mt_state (restated env st reason m) = st" "mt_unrepairable_reason (restated env st reason m) = reason"
  "mt_access_key (restated env st reason m) = mt_access_key m" "mt_info (restated env st reason m) = mt_info m"
  "mt_rd_ids (restated env st reason m) = mt_rd_ids m"
  by (simp_all add: restated_def)

text \<open>A repair is settled when the torrent has left \<open>under_repair\<close> with the given verdict.\<close>

definition settled :: "'w repair_env \<Rightarrow> string \<Rightarrow> torrent_state \<Rightarrow> string option \<Rightarrow> manager \<Rightarrow> manager \<Rightarrow> bool" where
  "settled env key st reason mgr mgr' \<longleftrightarrow> same_but key mgr mgr' \<and>
     (\<exists>m. get_mt mgr' key = Some m \<and> mt_access_key m = key \<and> mt_state m = st \<and> mt_unrepairable_reason m = reason) \<and>
     (re_update_ok env \<longrightarrow> \<not> job_open (re_job_id env) mgr')"

lemma settled_after: "same_but key a b \<Longrightarrow> settled env key st reason b c \<Longrightarrow> settled env key st reason a c"
  by (simp add: settled_def same_but_def)

lemma update_settles:
  assumes "held key mgr" and "re_update_ok env \<Longrightarrow> \<not> job_open (re_job_id env) mgr"
  shows "settled env key st reason mgr (snd (update_torrent_state tenv key st reason mgr))"
proof -
  from assms(1) obtain m where m: "get_mt mgr key = Some m" "mt_access_key m = key" by (auto simp: held_def)
  with update_state_get [OF m(1)] assms(2) show ?thesis by (auto simp: settled_def same_but_def job_open_def)
qed

lemma conclude_settles:
  assumes "held key mgr" and "status \<noteq> JobRunning"
  shows "settled env key st reason mgr (conclude env key status st reason mgr)"
  using update_settles [of key "end_job env key status mgr" env st reason "re_tm env 3"] assms end_job_closes [of env status key mgr]
  by (auto simp: conclude_def settled_def same_but_def held_def)

definition verdict :: "cascade_outcome \<Rightarrow> torrent_state \<times> string option" where
  "verdict out = (case out of Success _ \<Rightarrow> (Ok, None) | Unrepairable r \<Rightarrow> (Broken, Some (reason_display r))
     | UnrepairableMsg msg \<Rightarrow> (Broken, Some msg) | DeferBandwidth \<Rightarrow> (Broken, None))"

lemma replace_ids_frame:
  assumes "held key mgr"
  shows "held key (snd (replace_rd_ids_after_repair env key ids mgr))" and "same_but key mgr (snd (replace_rd_ids_after_repair env key ids mgr))"
    and "job_open i (snd (replace_rd_ids_after_repair env key ids mgr)) = job_open i mgr"
proof -
  from assms obtain m where m: "get_mt mgr key = Some m" "mt_access_key m = key" by (auto simp: held_def)
  obtain m' where "replace_rd_ids_after_repair env key ids mgr = persist_torrent_snapshot env m' mgr" "mt_access_key m' = key"
    using m by (cases ids) (auto simp: replace_rd_ids_after_repair_def Let_def)
  then show "held key (snd (replace_rd_ids_after_repair env key ids mgr))"
    "same_but key mgr (snd (replace_rd_ids_after_repair env key ids mgr))"
    "job_open i (snd (replace_rd_ids_after_repair env key ids mgr)) = job_open i mgr"
    by (auto simp: held_def same_but_def job_open_def persist_snapshot_get)
qed

lemma outcome_settles:
  assumes "held key mgr"
  shows "settled env key (fst (verdict out)) (snd (verdict out)) mgr (apply_outcome env key out mgr)"
proof (cases out)
  case (Success ids)
  let ?e = "end_job env key JobDone mgr"
  define mgr2 where "mgr2 = (case ids of None \<Rightarrow> ?e | Some ids \<Rightarrow> snd (replace_rd_ids_after_repair (re_tm env 3) key ids ?e))"
  have h: "held key ?e" using assms by (simp add: held_def)
  have "held key mgr2" "same_but key ?e mgr2" "re_update_ok env \<Longrightarrow> \<not> job_open (re_job_id env) mgr2"
    using h replace_ids_frame [OF h] end_job_closes [of env JobDone key mgr]
    by (auto simp: mgr2_def same_but_def split: option.split)
  from this(2) update_settles [OF this(1,3), of Ok None "re_tm env 3"] show ?thesis
    by (auto simp: Success verdict_def apply_outcome_def settled_def same_but_def Let_def simp flip: mgr2_def)
qed (use assms in \<open>simp_all add: apply_outcome_def verdict_def conclude_settles\<close>)

lemma preflight_key:
  assumes "run_preflight rd mt w = (out, w')" and "out = Proceed m \<or> out = VerifiedOk m"
  shows "mt_access_key m = mt_access_key mt"
  using assms
  by (auto simp: run_preflight_def Let_def verify_one_link_and_clear_def dest!: verify_loop_Some
      split: option.splits prod.splits if_splits sum.splits)

lemma repair_body_settles:
  assumes "held key mgr" and "mt_access_key mt = key" and "repair_body rd env cfg key mt (mgr, w) = (mgr', w')"
  shows "\<exists>st reason. settled env key st reason mgr mgr' \<and> st \<noteq> UnderRepair \<and>
    (reason \<noteq> None \<longrightarrow> (\<exists>m w1. (st, reason) = verdict (fst (execute_cascade rd m cfg w1))))"
proof -
  obtain p w1 where p: "run_preflight rd mt w = (p, w1)" by fastforce
  have snap: "held key (snd (persist_torrent_snapshot te m mgr))" "same_but key mgr (snd (persist_torrent_snapshot te m mgr))"
    if "p = Proceed m \<or> p = VerifiedOk m" for m te
    using preflight_key [OF p that] assms(2) by (auto simp: held_def same_but_def persist_snapshot_get)
  have from_snap: "settled env key st reason mgr mgr'"
    if "p = Proceed m \<or> p = VerifiedOk m" "settled env key st reason (snd (persist_torrent_snapshot te m mgr)) mgr'" for m te st reason
    by (rule settled_after [OF snap(2) [OF that(1)] that(2)])
  show ?thesis
  proof (cases p)
    case PreDeferBandwidth
    with assms(3) p have "mgr' = conclude env key JobFailed Broken None mgr" by (simp add: repair_body_def)
    with conclude_settles [OF assms(1), of JobFailed env Broken None] show ?thesis by blast
  next
    case (VerifiedOk m)
    with assms(3) p have "mgr' = conclude env key JobDone Ok None (snd (persist_torrent_snapshot (re_tm env 2) m mgr))"
      by (simp add: repair_body_def)
    with conclude_settles [OF snap(1), of m JobDone env Ok None "re_tm env 2"] from_snap VerifiedOk show ?thesis by blast
  next
    case (Proceed m)
    let ?s = "snd (persist_torrent_snapshot (re_tm env 2) m mgr)"
    show ?thesis
    proof (cases "re_cut env m w1")
      case None
      obtain out w2 where c: "execute_cascade rd m cfg w1 = (out, w2)" by fastforce
      with assms(3) p Proceed None have "mgr' = apply_outcome env key out ?s" by (simp add: repair_body_def Let_def)
      with outcome_settles [OF snap(1), of m env out "re_tm env 2"] from_snap [of m] Proceed
      have "settled env key (fst (verdict out)) (snd (verdict out)) mgr mgr'" by blast
      moreover have "fst (verdict out) \<noteq> UnderRepair" by (simp add: verdict_def split: cascade_outcome.split)
      moreover have "(fst (verdict out), snd (verdict out)) = verdict (fst (execute_cascade rd m cfg w1))" using c by simp
      ultimately show ?thesis by blast
    next
      case (Some w2)
      with assms(3) p Proceed have "mgr' = conclude env key JobFailed Broken None ?s" by (simp add: repair_body_def Let_def)
      with conclude_settles [OF snap(1), of m JobFailed env Broken None "re_tm env 2"] from_snap Proceed show ?thesis by blast
    qed
  qed
qed

lemma ensure_info_effect:
  assumes "get_mt mgr key = Some m" and "ensure_torrent_info rd key mgr w = (r, mgr1, w1)"
  shows "same_but key mgr mgr1 \<and> tm_db mgr1 = tm_db mgr \<and>
    (\<exists>info. get_mt mgr1 key = Some (m\<lparr>mt_info := info\<rparr>) \<and> (info = None \<longrightarrow> mt_info m = None) \<and>
       (if mt_info m = None \<and> mt_rd_ids m = [] then r = None else r = Some (m\<lparr>mt_info := info\<rparr>)))"
proof -
  have idem: "m\<lparr>mt_info := mt_info m\<rparr> = m" by simp
  have nop: ?thesis if "mgr1 = mgr" "r = (if mt_info m = None \<and> mt_rd_ids m = [] then None else Some m)"
    using that assms(1) by (auto simp: same_but_def intro!: exI [of _ "mt_info m"])
  show ?thesis
  proof (cases "ensure_begin key mgr")
    case EnsureNone
    with assms show ?thesis by (intro nop) (auto simp: ensure_torrent_info_def ensure_begin_def split: if_splits list.splits)
  next
    case (EnsureHave m')
    with assms show ?thesis by (intro nop) (auto simp: ensure_torrent_info_def ensure_begin_def split: if_splits list.splits)
  next
    case (EnsureFetch m' i)
    with assms(1) have m': "m' = m" "\<not> (mt_info m = None \<and> mt_rd_ids m = [])" by (auto simp: ensure_begin_def split: if_splits list.splits)
    obtain a w2 where a: "api_torrent_info rd i w = (a, w2)" by fastforce
    show ?thesis
    proof (cases a)
      case (Inl e)
      with assms EnsureFetch a m' show ?thesis by (intro nop) (auto simp: ensure_torrent_info_def)
    next
      case (Inr info)
      with assms EnsureFetch a m' have "mgr1 = insert_mt key (m\<lparr>mt_info := Some info\<rparr>) mgr" "r = Some (m\<lparr>mt_info := Some info\<rparr>)"
        by (auto simp: ensure_torrent_info_def ensure_finish_def)
      with m'(2) show ?thesis by (auto simp: same_but_def mts.get_put)
    qed
  qed
qed

lemma begin_job_other: "i \<noteq> re_job_id env \<Longrightarrow> job_open i (begin_job env key mgr) = job_open i mgr"
  by (simp add: job_open_def begin_job_def insert_repair_job_def new_job_def update_conv')

lemma update_state_ok:
  assumes "env_ok tenv"
  shows "fst (update_torrent_state tenv key st reason mgr) = Inr ()"
proof (cases "get_mt mgr key")
  case (Some m)
  let ?m = "restated tenv st reason m"
  obtain d where "save_rows tenv [torrent_to_row tenv ?m] (insert_mt key ?m mgr) = (Inr (), (insert_mt key ?m mgr)\<lparr>tm_db := d\<rparr>)"
    by (rule save_rows_ok [OF assms])
  with Some show ?thesis by (simp add: update_torrent_state_def Let_def)
qed (simp add: update_torrent_state_def)

lemma repair_started:
  assumes "env_ok (re_tm env 1)" and m: "get_mt mgr key = Some m" "mt_access_key m = key" "\<not> (mt_info m = None \<and> mt_rd_ids m = [])"
    and "update_torrent_state (re_tm env 1) key UnderRepair None (begin_job env key mgr) = (r, mgr2)"
  shows "r = Inr () \<and> same_but key mgr mgr2 \<and> (\<forall>mt mgr3 w w2. ensure_torrent_info rd key mgr2 w = (mt, mgr3, w2) \<longrightarrow>
     same_but key mgr2 mgr3 \<and> held key mgr3 \<and> (\<exists>x. mt = Some x \<and> mt_access_key x = key))"
proof -
  let ?m = "restated (re_tm env 1) UnderRepair None m"
  have b: "get_mt (begin_job env key mgr) key = Some m" using m by simp
  have r: "r = Inr ()" using update_state_ok [OF assms(1), of key UnderRepair None "begin_job env key mgr"] assms(5) by simp
  have g: "get_mt mgr2 = (get_mt mgr)(key \<mapsto> ?m)" using update_state_get(1) [OF b, of "re_tm env 1" UnderRepair None] assms(5) by simp
  then have gk: "get_mt mgr2 key = Some ?m" and sb: "same_but key mgr mgr2" by (simp_all add: same_but_def)
  moreover have "same_but key mgr2 mgr3 \<and> held key mgr3 \<and> (\<exists>x. mt = Some x \<and> mt_access_key x = key)"
    if "ensure_torrent_info rd key mgr2 w = (mt, mgr3, w2)" for mt mgr3 w w2
    using ensure_info_effect [OF gk that] m by (auto simp: held_def)
  ultimately show ?thesis using r by blast
qed

lemma stuck_info [simp]: "stuck_under_repair env cfg (m\<lparr>mt_info := i\<rparr>) = stuck_under_repair env cfg m"
  by (simp add: stuck_under_repair_def)

text \<open>The two ways a repair ends: it did not start, or it settled the torrent.\<close>

definition not_started :: "'w repair_env \<Rightarrow> repair_config \<Rightarrow> managed_torrent \<Rightarrow> bool" where
  "not_started env cfg m \<longleftrightarrow> mt_unrepairable_reason m \<noteq> None \<or> (mt_info m = None \<and> mt_rd_ids m = []) \<or>
     \<not> stuck_under_repair env cfg m \<and> \<not> capacity_granted env"

lemma repair_run_settles:
  assumes ok: "env_ok (re_tm env 1)"
    and m: "get_mt mgr key = Some m" "mt_access_key m = key" "\<not> (mt_info m = None \<and> mt_rd_ids m = [])"
    and run: "(case update_torrent_state (re_tm env 1) key UnderRepair None (begin_job env key mgr) of
           (Inl _, mgr2) \<Rightarrow> (mgr2, w)
         | (Inr _, mgr2) \<Rightarrow> (case ensure_torrent_info rd key mgr2 w of
              (None, mgr3, w2) \<Rightarrow> (mgr3, w2)
            | (Some mt', mgr3, w2) \<Rightarrow> repair_body rd env cfg key mt' (mgr3, w2))) = (mgr', w')"
  shows "\<exists>st reason. settled env key st reason mgr mgr' \<and> st \<noteq> UnderRepair \<and>
    (reason \<noteq> None \<longrightarrow> (\<exists>mp w1. (st, reason) = verdict (fst (execute_cascade rd mp cfg w1))))"
proof -
  obtain u mgr2 where u: "update_torrent_state (re_tm env 1) key UnderRepair None (begin_job env key mgr) = (u, mgr2)" by fastforce
  obtain mt mgr3 w2 where e: "ensure_torrent_info rd key mgr2 w = (mt, mgr3, w2)" by (metis prod.exhaust)
  from repair_started [OF ok m u, of rd] e obtain x where x: "u = Inr ()" "same_but key mgr mgr2" "same_but key mgr2 mgr3"
    "held key mgr3" "mt = Some x" "mt_access_key x = key" by blast
  with run u e have "repair_body rd env cfg key x (mgr3, w2) = (mgr', w')" by simp
  from repair_body_settles [OF x(4,6) this] settled_after [OF same_but_trans [OF x(2,3)]] show ?thesis by blast
qed

lemma repair_one_cases:
  assumes run: "repair_one_torrent rd env cfg key (mgr, w) = (mgr', w')"
    and m: "get_mt mgr key = Some m" "mt_access_key m = key" and ok: "env_ok (re_tm env 1)" and j: "\<not> job_open (re_job_id env) mgr"
  shows "(\<exists>info. same_but key mgr mgr' \<and> tm_db mgr' = tm_db mgr \<and> get_mt mgr' key = Some (m\<lparr>mt_info := info\<rparr>) \<and> not_started env cfg m) \<or>
    (\<exists>st reason. settled env key st reason mgr mgr' \<and> st \<noteq> UnderRepair \<and>
      (reason \<noteq> None \<longrightarrow> (\<exists>mp w1. (st, reason) = verdict (fst (execute_cascade rd mp cfg w1)))))"
proof -
  obtain r mgr1 w1 where e: "ensure_torrent_info rd key mgr w = (r, mgr1, w1)" by (metis prod.exhaust)
  from ensure_info_effect [OF m(1) e] obtain info where e': "same_but key mgr mgr1" "tm_db mgr1 = tm_db mgr"
    "get_mt mgr1 key = Some (m\<lparr>mt_info := info\<rparr>)" "info = None \<longrightarrow> mt_info m = None"
    "if mt_info m = None \<and> mt_rd_ids m = [] then r = None else r = Some (m\<lparr>mt_info := info\<rparr>)" by blast
  have j1: "\<not> job_open (re_job_id env) mgr1" using j e'(2) by (simp add: job_open_def)
  have h1: "held key mgr1" using e'(3) m(2) by (simp add: held_def)
  show ?thesis
  proof (cases "not_started env cfg m")
    case True
    with run e e' have "mgr' = mgr1" by (auto simp: repair_one_torrent_def not_started_def split: if_splits)
    with True e' show ?thesis by blast
  next
    case False
    then have r: "r = Some (m\<lparr>mt_info := info\<rparr>)" using e'(5) by (auto simp: not_started_def)
    show ?thesis
    proof (cases "stuck_under_repair env cfg m")
      case True
      with run e r False have "mgr' = snd (update_torrent_state (re_tm env 0) key Broken None mgr1)"
        by (auto simp: repair_one_torrent_def not_started_def)
      with settled_after [OF e'(1) update_settles [OF h1, of env Broken None "re_tm env 0"]] j1 show ?thesis by blast
    next
      case no: False
      have "\<exists>st reason. settled env key st reason mgr1 mgr' \<and> st \<noteq> UnderRepair \<and>
        (reason \<noteq> None \<longrightarrow> (\<exists>mp w1. (st, reason) = verdict (fst (execute_cascade rd mp cfg w1))))"
        by (rule repair_run_settles [OF ok e'(3)]) (use run e r False no m(2) e'(4) in \<open>auto simp: repair_one_torrent_def not_started_def\<close>)
      with settled_after [OF e'(1)] show ?thesis by blast
    qed
  qed
qed

section \<open>Properties\<close>

text \<open>C6: a repair settles its torrent and nothing else. When the row of the start can be saved and the job
  row updated, no other torrent changes and no job row is left running; the torrent is under repair
  afterwards only if it was before and the repair was not allowed to start (marked unrepairable, no
  id, or no capacity and not timed out); and it gets an unrepairable reason only from the verdict of
  a cascade.\<close>

theorem repair_settles:
  assumes "repair_one_torrent rd env cfg key (mgr, w) = (mgr', w')"
    and "get_mt mgr key = Some m" and "mt_access_key m = key"
    and "env_ok (re_tm env 1)" and "re_update_ok env" and "\<not> job_open (re_job_id env) mgr"
  shows "(\<forall>k. k \<noteq> key \<longrightarrow> get_mt mgr' k = get_mt mgr k) \<and> \<not> job_open (re_job_id env) mgr' \<and>
    (\<exists>m'. get_mt mgr' key = Some m' \<and>
      (mt_state m' = UnderRepair \<longrightarrow> mt_state m = UnderRepair \<and>
         (mt_unrepairable_reason m \<noteq> None \<or> (mt_info m = None \<and> mt_rd_ids m = []) \<or>
          \<not> stuck_under_repair env cfg m \<and> \<not> capacity_granted env)) \<and>
      (mt_unrepairable_reason m' \<noteq> None \<longrightarrow> mt_unrepairable_reason m' = mt_unrepairable_reason m \<or>
         (\<exists>mp w1. verdict (fst (execute_cascade rd mp cfg w1)) = (mt_state m', mt_unrepairable_reason m'))))"
  using repair_one_cases [OF assms(1-4,6)]
proof (elim disjE exE conjE)
  fix info
  assume "same_but key mgr mgr'" "tm_db mgr' = tm_db mgr" "get_mt mgr' key = Some (m\<lparr>mt_info := info\<rparr>)" "not_started env cfg m"
  with assms(6) show ?thesis by (auto simp: same_but_def job_open_def not_started_def)
next
  fix st reason
  assume s: "settled env key st reason mgr mgr'" "st \<noteq> UnderRepair"
    "reason \<noteq> None \<longrightarrow> (\<exists>mp w1. (st, reason) = verdict (fst (execute_cascade rd mp cfg w1)))"
  then obtain m' where "get_mt mgr' key = Some m'" "mt_state m' = st" "mt_unrepairable_reason m' = reason" by (auto simp: settled_def)
  with s assms(5) show ?thesis by (auto simp: settled_def same_but_def) metis
qed

text \<open>A worked repair: the orphan link fits the broken file, and the preflight settles the torrent.\<close>

definition repair_mgr :: manager where
  "repair_mgr = insert_mt ''h/n'' preflight_torrent demo_mgr"

definition free_poll :: capacity_poll where
  "free_poll = \<lparr>cp_cancelled = False, cp_answer = Inr \<lparr>ac_downloading_count = 0, ac_max_number_of_torrents = 100\<rparr>, cp_cancelled_sleeping = False\<rparr>"

definition demo_repair_env :: "'w repair_env" where
  "demo_repair_env = \<lparr>re_tm = (\<lambda>_. demo_tm_env), re_polls = [free_poll], re_job_id = ''J1'', re_insert_ok = True, re_update_ok = True,
     re_cut = (\<lambda>_ _. None)\<rparr>"

theorem repair_settles_witness:
  "\<exists>m'. get_mt (fst (repair_one_torrent preflight_api demo_repair_env repair_config_default ''h/n'' (repair_mgr, ()))) ''h/n'' = Some m' \<and>
     mt_state m' \<noteq> UnderRepair"
proof -
  let ?run = "repair_one_torrent preflight_api demo_repair_env repair_config_default ''h/n'' (repair_mgr, ())"
  have r: "?run = (fst ?run, snd ?run)" by (rule prod.collapse [symmetric])
  have g: "get_mt repair_mgr ''h/n'' = Some preflight_torrent" by (simp add: repair_mgr_def mts.get_put_same)
  have k: "mt_access_key preflight_torrent = ''h/n''" "mt_state preflight_torrent \<noteq> UnderRepair" by (simp_all add: preflight_torrent_def)
  have o: "env_ok (re_tm demo_repair_env 1)" "re_update_ok demo_repair_env" by (simp_all add: demo_repair_env_def demo_tm_env_ok)
  have j: "\<not> job_open (re_job_id demo_repair_env) repair_mgr"
  proof -
    have "map_of (db_repair_jobs (tm_db repair_mgr)) ''J1'' = None" by code_simp
    then show ?thesis by (simp add: job_open_def demo_repair_env_def)
  qed
  from repair_settles [OF r g k(1) o j] k(2) show ?thesis by blast
qed

text \<open>The keys of a session.\<close>

lemma sorted_remdups_adj_distinct: "sorted (xs :: 'a :: linorder list) \<Longrightarrow> distinct (remdups_adj xs) \<and> sorted (remdups_adj xs)"
proof (induction xs rule: remdups_adj.induct)
  case (3 x y xs)
  then show ?case by (cases "x = y") auto
qed auto

lemma probe_candidates_keys:
  "probe_candidates rd clock n mgr ks acc w = ((seen, heads), w') \<Longrightarrow> set heads \<subseteq> set (snd acc) \<union> set ks"
proof (induction ks arbitrary: acc w)
  case (Cons k ks)
  show ?case
  proof (cases "\<exists>mt info. get_mt mgr k = Some mt \<and> mt_info mt = Some info")
    case False
    with Cons.prems have "probe_candidates rd clock n mgr ks acc w = ((seen, heads), w')" by (auto split: option.splits)
    from Cons.IH [OF this] show ?thesis by auto
  next
    case True
    then obtain mt info where i: "get_mt mgr k = Some mt" "mt_info mt = Some info" by blast
    obtain r w1 where c: "check_head_unreachable rd info w = (r, w1)" by fastforce
    let ?new = "case r of Inr u \<Rightarrow> if u \<ge> n then [k] else [] | Inl _ \<Rightarrow> []"
    have "set ?new \<subseteq> {k}" by (auto split: sum.split)
    moreover have "probe_candidates rd clock n mgr ks (AList.update k (clock k) (fst acc), snd acc @ ?new) w1 = ((seen, heads), w')"
      using Cons.prems by (simp add: i c)
    note Cons.IH [OF this]
    ultimately show ?thesis by auto
  qed
qed auto

text \<open>A session takes every queued key and, when it is a periodic scan, every torrent that is eligible,
  each exactly once and in order; it leaves the queue empty, and beyond those it takes only healthy
  torrents whose last probe is old enough.\<close>

theorem session_picks_each_once:
  assumes "session_keys rd env cfg periodic e = (keys, e')"
  shows "sorted keys \<and> distinct keys \<and> tm_repair_queue (en_mgr e') = [] \<and> set (tm_repair_queue (en_mgr e)) \<subseteq> set keys \<and>
    (\<forall>(j, m) \<in> set (tm_torrents (en_mgr e)). periodic \<and> periodic_repair_eligible m \<longrightarrow> mt_access_key m \<in> set keys) \<and>
    (\<forall>k \<in> set keys. k \<in> set (tm_repair_queue (en_mgr e)) \<or>
       periodic \<and> (\<exists>(j, m) \<in> set (tm_torrents (en_mgr e)). mt_access_key m = k \<and>
          (periodic_repair_eligible m \<or> head_candidate (se_now env) (en_passive_head_last e) cfg m)))"
proof -
  let ?mgr = "(en_mgr e)\<lparr>tm_repair_queue := []\<rparr>"
  let ?elig = "map mt_access_key (filter (\<lambda>m. mt_unrepairable_reason m = None \<and> periodic_repair_eligible m) (map snd (tm_torrents (en_mgr e))))"
  have re: "periodic_repair_eligible m \<Longrightarrow> mt_unrepairable_reason m = None" for m by (simp add: periodic_repair_eligible_def split: if_splits)
  obtain seen heads w where a: "append_passive_head_candidates rd (se_now env) (se_clock env) cfg ?mgr (en_passive_head_last e) (en_world e) =
      ((seen, heads), w)" by (metis prod.exhaust)
  have heads: "\<exists>(j, m) \<in> set (tm_torrents (en_mgr e)). mt_access_key m = k \<and> head_candidate (se_now env) (en_passive_head_last e) cfg m"
    if "k \<in> set heads" for k
    using a that by (auto simp: append_passive_head_candidates_def split: if_splits dest!: probe_candidates_keys) fastforce
  let ?all = "tm_repair_queue (en_mgr e) @ (if periodic then ?elig @ heads else [])"
  have keys: "keys = remdups_adj (sort ?all)" "tm_repair_queue (en_mgr e') = []"
    using assms a by (cases periodic; auto simp: session_keys_def Let_def)+
  then have k: "sorted keys" "distinct keys" "set keys = set ?all" using sorted_remdups_adj_distinct [of "sort ?all"] by simp_all
  have "mt_access_key m \<in> set keys" if "(j, m) \<in> set (tm_torrents (en_mgr e))" "periodic" "periodic_repair_eligible m" for j m
    using that k(3) re [OF that(3)] by force
  moreover have "k \<in> set (tm_repair_queue (en_mgr e)) \<or> periodic \<and> (\<exists>(j, m) \<in> set (tm_torrents (en_mgr e)). mt_access_key m = k \<and>
          (periodic_repair_eligible m \<or> head_candidate (se_now env) (en_passive_head_last e) cfg m))" if k': "k \<in> set keys" for k
  proof -
    consider "k \<in> set (tm_repair_queue (en_mgr e))" | "periodic" "k \<in> set ?elig" | "periodic" "k \<in> set heads"
      using k' k(3) by (auto split: if_splits)
    then show ?thesis
    proof cases
      case 2
      then show ?thesis by fastforce
    next
      case 3
      from heads [OF 3(2)] 3(1) show ?thesis by blast
    qed simp
  qed
  ultimately show ?thesis using k keys(2) by auto
qed

theorem session_picks_each_once_witness:
  "set (fst (session_keys preflight_api \<lparr>se_now = 0, se_clock = (\<lambda>_. 0), se_cancelled = (\<lambda>_. False), se_repair = (\<lambda>_. demo_repair_env)\<rparr>
      repair_config_default True \<lparr>en_mgr = repair_mgr\<lparr>tm_repair_queue := [''z'']\<rparr>, en_passive_head_last = [], en_world = ()\<rparr>))
    \<supseteq> {''h/n'', ''z''}"
proof -
  let ?e = "\<lparr>en_mgr = repair_mgr\<lparr>tm_repair_queue := [''z'']\<rparr>, en_passive_head_last = [], en_world = ()\<rparr>"
  let ?env = "\<lparr>se_now = 0, se_clock = (\<lambda>_. 0), se_cancelled = (\<lambda>_. False), se_repair = (\<lambda>_. demo_repair_env)\<rparr>"
  let ?r = "session_keys preflight_api ?env repair_config_default True ?e"
  have r: "?r = (fst ?r, snd ?r)" by simp
  have "get_mt repair_mgr ''h/n'' = Some preflight_torrent" by (simp add: repair_mgr_def mts.get_put_same)
  then have "(''h/n'', preflight_torrent) \<in> set (tm_torrents repair_mgr)" by (auto simp: get_mt_def dest: map_of_SomeD)
  moreover have "periodic_repair_eligible preflight_torrent" "mt_access_key preflight_torrent = ''h/n''"
    by (simp_all add: periodic_repair_eligible_def preflight_torrent_def)
  ultimately show ?thesis using session_picks_each_once [OF r] by fastforce
qed

text \<open>Periodic scans are spaced. After a scan has stored its time, the wait computed at any later time
  ends no earlier than the configured interval after the stored time; it is at most one interval and
  zero once the interval has passed.\<close>

theorem periodic_scans_spaced:
  assumes "str_lower (mt_value_type (db_app_meta (tm_db mgr))) \<noteq> ''integer''"
    and "- (2 ^ 63) \<le> t" and "t < 2 ^ 63" and "t \<le> now" and "max (every_mins cfg) 1 * 60 < u64_bound"
  shows "let wait = throttle_wait_duration True now cfg (tm_db (persist_cycle_ts True t mgr)); interval = 60 * int (max (every_mins cfg) 1)
    in t + interval \<le> now + int wait \<and> int wait \<le> interval \<and> (t + interval \<le> now \<longrightarrow> wait = 0)"
proof -
  have g: "get_meta_i64 True META_LAST_REPAIR_CYCLE_UNIX (tm_db (persist_cycle_ts True t mgr)) = Inr (Some t)"
    using parse_i64_show [OF assms(2,3)] assms(1)
    by (simp add: get_meta_i64_def persist_cycle_ts_def set_meta_i64_def Let_def store_text_def update_conv')
  have w: "wmul64 (max (every_mins cfg) 1) 60 = max (every_mins cfg) 1 * 60" by (rule wmul64_exact [OF assms(5)])
  show ?thesis using assms(4) unfolding throttle_wait_duration_def Let_def g w by (simp add: nat_less_iff)
qed

theorem periodic_scans_spaced_witness:
  "let wait = throttle_wait_duration True 1500 repair_config_default (tm_db (persist_cycle_ts True 1000 repair_mgr))
   in 1000 + 60 * int (max (every_mins repair_config_default) 1) \<le> 1500 + int wait"
proof -
  have "str_lower (mt_value_type (db_app_meta (tm_db repair_mgr))) \<noteq> ''integer''" by code_simp
  moreover have "max (every_mins repair_config_default) 1 * 60 < u64_bound" by code_simp
  ultimately show ?thesis using periodic_scans_spaced [of repair_mgr 1000 1500 repair_config_default] by (simp add: Let_def)
qed

section \<open>The loop keeps the mirror\<close>

definition repair_env_ok :: "json_lib \<Rightarrow> 'w repair_env \<Rightarrow> bool" where
  "repair_env_ok J env \<longleftrightarrow> (\<forall>i. env_ok (re_tm env i) \<and> te_json (re_tm env i) = J)"

lemma mirrors_torrents:
  "get_mt mgr' = get_mt mgr \<Longrightarrow> db_torrents (tm_db mgr') = db_torrents (tm_db mgr) \<Longrightarrow> mirrors J mgr' = mirrors J mgr"
  by (simp add: mirrors_def db_wf_def read_row_def)

lemma mirrors_jobs [simp]:
  "mirrors J (begin_job env key mgr) = mirrors J mgr" "mirrors J (end_job env key st mgr) = mirrors J mgr"
  "mirrors J (persist_cycle_ts ok t mgr) = mirrors J mgr"
  by (rule mirrors_torrents; simp add: begin_job_def end_job_def persist_cycle_ts_def insert_repair_job_def update_repair_job_def
      set_meta_i64_def Let_def)+

lemma mirrors_notified [simp]: "mirrors J (mgr\<lparr>tm_notified := b\<rparr>) = mirrors J mgr" "mirrors J (mgr\<lparr>tm_repair_queue := q\<rparr>) = mirrors J mgr"
  by (rule mirrors_torrents; simp add: get_mt_def fun_eq_iff)+

text \<open>What a repair keeps: any property of the manager that each of its steps keeps.\<close>

locale repair_invariant =
  fixes env :: "'w repair_env" and P :: "manager \<Rightarrow> bool"
  assumes update: "P mgr \<Longrightarrow> P (snd (update_torrent_state (re_tm env i) key st reason mgr))"
    and snapshot: "P mgr \<Longrightarrow> P (snd (persist_torrent_snapshot (re_tm env i) m mgr))"
    and replace: "P mgr \<Longrightarrow> P (snd (replace_rd_ids_after_repair (re_tm env i) key ids mgr))"
    and details: "P mgr \<Longrightarrow> P (fst (snd (ensure_torrent_info (rd :: 'w rd_api) key mgr w)))"
    and start: "P mgr \<Longrightarrow> P (begin_job env key mgr)"
    and finish: "P mgr \<Longrightarrow> P (end_job env key status mgr)"
begin

lemma conclude_keeps: "P mgr \<Longrightarrow> P (conclude env key status st reason mgr)"
  by (simp add: conclude_def update finish)

lemma apply_outcome_keeps: "P mgr \<Longrightarrow> P (apply_outcome env key out mgr)"
  by (cases out) (auto simp: apply_outcome_def Let_def conclude_keeps finish intro!: update replace split: option.split)

lemma repair_body_keeps: "P mgr \<Longrightarrow> P (fst (repair_body rd env cfg key mt (mgr, w)))"
  by (auto simp: repair_body_def Let_def conclude_keeps apply_outcome_keeps snapshot
      split: prod.split preflight_outcome.split option.split)

lemma repair_one_keeps:
  assumes "P mgr"
  shows "P (fst (repair_one_torrent rd env cfg key (mgr, w)))"
proof -
  obtain r mgr1 w1 where e: "ensure_torrent_info rd key mgr w = (r, mgr1, w1)" by (metis prod.exhaust)
  have m1: "P mgr1" using details [OF assms, of rd key w] e by simp
  obtain u mgr2 where u: "update_torrent_state (re_tm env 1) key UnderRepair None (begin_job env key mgr1) = (u, mgr2)" by fastforce
  have m2: "P mgr2" using update [OF start [OF m1], of 1 key UnderRepair None key] u by simp
  obtain r2 mgr3 w2 where e2: "ensure_torrent_info rd key mgr2 w1 = (r2, mgr3, w2)" by (metis prod.exhaust)
  have m3: "P mgr3" using details [OF m2, of rd key w1] e2 by simp
  show ?thesis
    using e u e2 m1 m2 m3 update [OF m1, of 0 key Broken None] repair_body_keeps [OF m3]
    by (cases r; cases r2; cases u) (auto simp: repair_one_torrent_def)
qed

end

text \<open>No step of a repair takes a torrent out of the registry.\<close>

interpretation registered: repair_invariant env "\<lambda>mgr. get_mt mgr k \<noteq> None" for env :: "'w repair_env" and k
proof
  fix mgr i key st reason m ids rd and w :: 'w
  assume P: "get_mt mgr k \<noteq> None"
  show "get_mt (snd (update_torrent_state (re_tm env i) key st reason mgr)) k \<noteq> None"
    using P update_state_get(1) [of mgr key] by (cases "get_mt mgr key") (auto simp: update_torrent_state_def)
  show s: "get_mt (snd (persist_torrent_snapshot (re_tm env i) m mgr)) k \<noteq> None" for m
    using P by (simp add: persist_snapshot_get)
  show "get_mt (snd (replace_rd_ids_after_repair (re_tm env i) key ids mgr)) k \<noteq> None"
    using P s by (simp add: replace_rd_ids_after_repair_def Let_def split: option.split)
  show "get_mt (fst (snd (ensure_torrent_info rd key mgr w))) k \<noteq> None"
    using P by (auto simp: ensure_torrent_info_def ensure_finish_def mts.get_put split: ensure_start.split prod.split sum.split option.split)
qed simp_all

lemma repair_never_drops: "get_mt mgr k \<noteq> None \<Longrightarrow> get_mt (fst (repair_one_torrent rd env cfg key (mgr, w))) k \<noteq> None"
  by (rule registered.repair_one_keeps)

text \<open>The same for the whole engine: what every repair keeps, and emptying the queue, taking the
  notification and storing the time of a scan keep as well, is kept by sessions and by the loop.\<close>

fun wake_with :: "('w repair_env \<Rightarrow> bool) \<Rightarrow> 'w wake \<Rightarrow> bool" where
  "wake_with ok WakeShutdown = True"
| "wake_with ok (WakeNotified cfg env) = (\<forall>k. ok (se_repair env k))"
| "wake_with ok (WakeTick cfg env tk) = (\<forall>k. ok (se_repair env k))"

locale engine_invariant =
  fixes ok :: "'w repair_env \<Rightarrow> bool" and P :: "manager \<Rightarrow> bool"
  assumes repairs: "ok env \<Longrightarrow> repair_invariant env P"
    and drained: "P mgr \<Longrightarrow> P (mgr\<lparr>tm_repair_queue := []\<rparr>)"
    and woken: "P mgr \<Longrightarrow> P (mgr\<lparr>tm_notified := False\<rparr>)"
    and stamped: "P mgr \<Longrightarrow> P (persist_cycle_ts b t mgr)"
begin

lemma repair_keys_keep:
  "\<forall>k. ok (se_repair env k) \<Longrightarrow> P mgr \<Longrightarrow> P (fst (repair_keys rd env cfg ks (mgr, w)))"
proof (induction ks arbitrary: mgr w)
  case (Cons k ks)
  obtain mgr1 w1 where r: "repair_one_torrent rd (se_repair env k) cfg k (mgr, w) = (mgr1, w1)" by fastforce
  have "P mgr1" using repair_invariant.repair_one_keeps [OF repairs, of "se_repair env k" mgr rd cfg k w] Cons.prems r by simp
  from Cons.IH [OF Cons.prems(1) this] Cons.prems(2) r show ?case by simp
qed simp

lemma session_keeps:
  assumes "\<forall>k. ok (se_repair env k)" and "P (en_mgr e)"
  shows "P (en_mgr (run_session_impl rd env cfg periodic ign e))"
proof -
  obtain keys e1 where s: "session_keys rd env cfg periodic e = (keys, e1)" by fastforce
  then have "en_mgr e1 = (en_mgr e)\<lparr>tm_repair_queue := []\<rparr>"
    by (cases periodic) (auto simp: session_keys_def Let_def split: prod.splits)
  then have "P (en_mgr e1)" using drained [OF assms(2)] by simp
  with s assms(2) repair_keys_keep [OF assms(1) this, of rd cfg keys "en_world e1"] show ?thesis
    by (auto simp: run_session_impl_def split: prod.split)
qed

lemma loop_step_keeps: "wake_with ok v \<Longrightarrow> P (en_mgr e) \<Longrightarrow> P (en_mgr (fst (loop_step rd v e)))"
  by (cases v) (auto simp: Let_def take_notify_def intro!: session_keeps woken stamped)

lemma run_loop_from_keeps:
  "list_all (wake_with ok) vs \<Longrightarrow> P (en_mgr e) \<Longrightarrow> P (en_mgr (run_loop_from rd vs e))"
proof (induction vs arbitrary: e)
  case (Cons v vs)
  with loop_step_keeps [of v e rd] show ?case by (auto split: prod.split)
qed simp

end

lemma mirrored_repair:
  assumes "repair_env_ok J (env :: 'w repair_env)"
  shows "repair_invariant env (mirrors J)"
proof
  fix mgr i key st reason m ids status and rd :: "'w rd_api" and w :: 'w
  assume P: "mirrors J mgr"
  have e: "env_ok (re_tm env i)" "te_json (re_tm env i) = J" using assms by (simp_all add: repair_env_ok_def)
  show "mirrors J (snd (update_torrent_state (re_tm env i) key st reason mgr))"
    "mirrors J (snd (persist_torrent_snapshot (re_tm env i) m mgr))"
    "mirrors J (snd (replace_rd_ids_after_repair (re_tm env i) key ids mgr))"
    using P e mirror_ops(1-3) [of "re_tm env i" mgr] by simp_all
  show "mirrors J (fst (snd (ensure_torrent_info rd key mgr w)))"
    using P by (rule mirrors_ensure_torrent_info)
qed simp_all

interpretation mirrored: engine_invariant "repair_env_ok J" "mirrors J" for J
  by (rule engine_invariant.intro) (simp_all add: mirrored_repair)

text \<open>The repair engine keeps the database in step with the registry. However the loop is woken, whatever
  the service answers and wherever timeouts cut it, after every run each torrent in memory has a row
  that a restart reads back as the same torrent, as long as the statements work.\<close>

theorem engine_keeps_mirror:
  assumes "list_all (wake_with (repair_env_ok J)) vs" and "mirrors J (en_mgr e)"
  shows "mirrors J (en_mgr (run_loop rd vs e))"
proof -
  have "mirrors J (resume_queue (en_mgr e))" using assms(2) by (simp add: resume_queue_def Let_def)
  with mirrored.run_loop_from_keeps [OF assms(1)] show ?thesis by (simp add: run_loop_def)
qed

theorem engine_keeps_mirror_witness:
  "mirrors demo_json (en_mgr (run_loop preflight_api
     [WakeNotified repair_config_default \<lparr>se_now = 0, se_clock = (\<lambda>_. 0), se_cancelled = (\<lambda>_. False), se_repair = (\<lambda>_. demo_repair_env)\<rparr>, WakeShutdown]
     \<lparr>en_mgr = demo_mgr\<lparr>tm_repair_queue := [''h/n'']\<rparr>, en_passive_head_last = [], en_world = ()\<rparr>))"
proof (rule engine_keeps_mirror)
  have "mirrors demo_json demo_mgr" using mirrors_manager_new [OF demo_db_wf demo_mgr_new] by (simp add: demo_tm_env_def)
  then show "mirrors demo_json (en_mgr \<lparr>en_mgr = demo_mgr\<lparr>tm_repair_queue := [''h/n'']\<rparr>, en_passive_head_last = [], en_world = ()\<rparr>)" by simp
qed (simp add: repair_env_ok_def demo_repair_env_def demo_tm_env_ok, simp add: demo_tm_env_def)

end
