(* ===== verification/Library_Path.thy ===== *)
theory Library_Path
  imports Request_Frame Repair_Engine "HOL-Library.Sublist"
begin

text \<open>
  What the tasks of the mount process do to the library, described once as paths of manager operations:
  requests, repairs and refreshes are shown to make such paths through the interfaces \<open>request_invariant\<close>
  and \<open>engine_invariant\<close>, and what every operation keeps is kept along a path: the database mirrors the
  library, the repair queue holds no key twice, no torrent leaves without a refresh, and what was
  announced to the library hook stays announced.
\<close>

section \<open>Paths of the library\<close>

text \<open>
  Every way in which the program changes its library, as steps: an operation of the manager with a
  working database, rows of other tables, the queue and its notification. The flag says whether a
  refresh may be among them.
\<close>

definition db_works :: "json_lib \<Rightarrow> tm_env \<Rightarrow> bool" where
  "db_works J tm \<longleftrightarrow> env_ok tm \<and> te_json tm = J"

inductive lib_path :: "json_lib \<Rightarrow> bool \<Rightarrow> manager \<Rightarrow> manager \<Rightarrow> bool" for J sync mgr where
  path_refl: "lib_path J sync mgr mgr"
| path_op: "lib_path J sync mgr mgr1 \<Longrightarrow> db_works J tm \<Longrightarrow> sync \<or> \<not> is_sync e \<Longrightarrow> lib_path J sync mgr (mgr_op tm e mgr1)"
| path_rows: "lib_path J sync mgr mgr1 \<Longrightarrow> db_torrents d = db_torrents (tm_db mgr1) \<Longrightarrow>
    lib_path J sync mgr (mgr1\<lparr>tm_db := d\<rparr>)"
| path_queue: "lib_path J sync mgr mgr1 \<Longrightarrow> distinct q \<Longrightarrow> lib_path J sync mgr (mgr1\<lparr>tm_repair_queue := q\<rparr>)"
| path_notify: "lib_path J sync mgr mgr1 \<Longrightarrow> lib_path J sync mgr (mgr1\<lparr>tm_notified := b\<rparr>)"

lemma lib_path_trans: "lib_path J sync mgr1 mgr2 \<Longrightarrow> lib_path J sync mgr mgr1 \<Longrightarrow> lib_path J sync mgr mgr2"
  by (induction rule: lib_path.induct) (auto intro: lib_path.intros)

lemma lib_path_sync: "lib_path J False mgr mgr' \<Longrightarrow> lib_path J True mgr mgr'"
  by (induction rule: lib_path.induct) (auto intro: lib_path.intros)

text \<open>What each step keeps, a path keeps.\<close>

locale library_invariant =
  fixes J :: json_lib and sync :: bool and P :: "manager \<Rightarrow> bool"
  assumes operation: "P mgr \<Longrightarrow> db_works J tm \<Longrightarrow> sync \<or> \<not> is_sync e \<Longrightarrow> P (mgr_op tm e mgr)"
    and rows: "P mgr \<Longrightarrow> db_torrents d = db_torrents (tm_db mgr) \<Longrightarrow> P (mgr\<lparr>tm_db := d\<rparr>)"
    and queued: "P mgr \<Longrightarrow> distinct q \<Longrightarrow> P (mgr\<lparr>tm_repair_queue := q\<rparr>)"
    and notified: "P mgr \<Longrightarrow> P (mgr\<lparr>tm_notified := b\<rparr>)"
begin

lemma path_keeps: "lib_path J sync mgr mgr' \<Longrightarrow> P mgr \<Longrightarrow> P mgr'"
  by (induction rule: lib_path.induct) (auto intro: operation rows queued notified)

end

interpretation mirror: library_invariant J sync "mirrors J" for J sync
proof
  fix mgr and d :: db
  assume "mirrors J mgr" "db_torrents d = db_torrents (tm_db mgr)"
  then show "mirrors J (mgr\<lparr>tm_db := d\<rparr>)" using mirrors_torrents [of "mgr\<lparr>tm_db := d\<rparr>" mgr J] by simp
qed (auto simp: db_works_def intro: mirrors_step)

interpretation queue: library_invariant J sync "\<lambda>mgr. distinct (tm_repair_queue mgr)" for J sync
  by unfold_locales (auto intro: queue_step)

text \<open>Without a refresh no torrent leaves.\<close>

lemma update_member: "get_mt mgr k \<noteq> None \<Longrightarrow> get_mt (snd (update_torrent_state tm key st r mgr)) k \<noteq> None"
  using update_state_get(1) [of mgr key] by (cases "get_mt mgr key") (auto simp: update_torrent_state_def)

lemma clear_member: "get_mt mgr k \<noteq> None \<Longrightarrow> get_mt (fold (clear_unrepairable tm) ks mgr) k \<noteq> None"
proof (induction ks arbitrary: mgr)
  case (Cons x ks)
  have "get_mt (clear_unrepairable tm x mgr) k \<noteq> None" using Cons.prems update_member by (simp add: clear_unrepairable_def)
  from Cons.IH [OF this] show ?case by simp
qed simp

lemma get_mt_fields [simp]:
  "get_mt (mgr\<lparr>tm_channels := cs\<rparr>) = get_mt mgr" "get_mt (mgr\<lparr>tm_fatal_locks := ls\<rparr>) = get_mt mgr"
  "get_mt (mgr\<lparr>tm_repair_queue := q\<rparr>) = get_mt mgr" "get_mt (mgr\<lparr>tm_notified := b\<rparr>) = get_mt mgr"
  "get_mt (mgr\<lparr>tm_repair_state_tx := tx\<rparr>) = get_mt mgr" "get_mt (mgr\<lparr>tm_hook := hs\<rparr>) = get_mt mgr"
  by (simp_all add: get_mt_def fun_eq_iff)

lemma operation_member:
  assumes P: "get_mt mgr k \<noteq> None" and e: "\<not> is_sync e"
  shows "get_mt (mgr_op tm e mgr) k \<noteq> None"
proof (cases e)
  case (MarkBroken key p)
  have "get_mt (snd (save_rows tm rows mgr')) = get_mt mgr'" for rows mgr'
    using get_mt_save_rows [of tm rows mgr'] by (metis prod.collapse)
  with P MarkBroken show ?thesis by (auto simp: mark_file_broken_def mts.get_put Let_def split: option.splits)
next
  case (EnqueueAll opts)
  with P clear_member show ?thesis by (auto simp: enqueue_repair_all_def Let_def)
next
  case (Subscribe key)
  with P show ?thesis by (auto simp: subscribe_repair_state_def channel_of_def Let_def split: option.splits)
qed (use P e update_member in \<open>auto simp: persist_snapshot_get replace_rd_ids_after_repair_def ensure_finish_def mts.get_put
    enqueue_repair_def enqueue_repair_front_def receiver_drop_def fuse_begin_fatal_read_repair_def
    fuse_end_fatal_read_repair_def Let_def split: option.splits\<close>)

interpretation member: library_invariant J False "\<lambda>mgr. get_mt mgr k \<noteq> None" for J k
  by unfold_locales (simp_all only: operation_member get_mt_fields get_mt_tm_db simp_thms)

section \<open>Components make paths\<close>

text \<open>A request, where what happens during its waits is a path as well.\<close>

definition request_env_ok :: "json_lib \<Rightarrow> bool \<Rightarrow> 'w read_env \<Rightarrow> bool" where
  "request_env_ok J sync env \<longleftrightarrow> db_works J (read_env.re_tm env) \<and>
     (\<forall>s w. lib_path J sync (rs_mgr s) (rs_mgr (fst (snd (re_idle env s w)))))"

interpretation request: request_invariant env "\<lambda>s w. request_env_ok J sync env \<longrightarrow> lib_path J sync mgr (rs_mgr s)"
  for env :: "'w read_env" and J sync mgr
proof
  fix s s' evs and w w' :: 'w
  assume P: "request_env_ok J sync env \<longrightarrow> lib_path J sync mgr (rs_mgr s)" and i: "re_idle env s w = (evs, s', w')"
  have "lib_path J sync (rs_mgr s) (rs_mgr s')" if "request_env_ok J sync env"
    using that i unfolding request_env_ok_def by (metis fst_conv snd_conv)
  with P show "request_env_ok J sync env \<longrightarrow> lib_path J sync mgr (rs_mgr s')" by (blast intro: lib_path_trans)
next
  fix s e
  assume "request_env_ok J sync env \<longrightarrow> lib_path J sync mgr (rs_mgr s)" "\<not> is_sync e"
  then show "request_env_ok J sync env \<longrightarrow> lib_path J sync mgr (rs_mgr (upd_mgr (mgr_op (read_env.re_tm env) e) s))"
    by (simp add: upd_mgr_def request_env_ok_def path_op)
qed (simp_all add: upd_mgr_def)

text \<open>The repair loop.\<close>

lemma repair_path:
  assumes "repair_env_ok J (env :: 'w repair_env)"
  shows "repair_invariant env (lib_path J sync mgr)"
proof
  fix mgr1 i key st reason m ids status and rd :: "'w rd_api" and w :: 'w
  assume P: "lib_path J sync mgr mgr1"
  have e: "db_works J (repair_env.re_tm env i)" for i using assms by (simp add: repair_env_ok_def db_works_def)
  note op = path_op [OF P e [of i]]
  show "lib_path J sync mgr (snd (update_torrent_state (repair_env.re_tm env i) key st reason mgr1))"
    using op [of "UpdateState key st reason"] by simp
  show "lib_path J sync mgr (snd (persist_torrent_snapshot (repair_env.re_tm env i) m mgr1))"
    using op [of "Snapshot m"] by simp
  show "lib_path J sync mgr (snd (replace_rd_ids_after_repair (repair_env.re_tm env i) key ids mgr1))"
    using op [of "ReplaceIds key ids"] by simp
  have "fst (snd (ensure_torrent_info rd key mgr1 w)) = mgr1 \<or>
      (\<exists>m info. fst (snd (ensure_torrent_info rd key mgr1 w)) = mgr_op (repair_env.re_tm env i) (InfoLoaded key m info) mgr1)"
    by (auto simp: ensure_torrent_info_def split: ensure_start.split prod.split sum.split) (metis snd_conv)
  then show "lib_path J sync mgr (fst (snd (ensure_torrent_info rd key mgr1 w)))" using P op [of "InfoLoaded key _ _"] by auto
  show "lib_path J sync mgr (begin_job env key mgr1)"
    unfolding begin_job_def using P by (rule path_rows) (simp add: insert_repair_job_def)
  show "lib_path J sync mgr (end_job env key status mgr1)"
    unfolding end_job_def using P by (rule path_rows) (simp add: update_repair_job_def)
qed

interpretation engine: engine_invariant "repair_env_ok J" "lib_path J sync mgr" for J sync mgr
proof (rule engine_invariant.intro)
  fix mgr1 b t
  assume P: "lib_path J sync mgr mgr1"
  show "lib_path J sync mgr (mgr1\<lparr>tm_repair_queue := []\<rparr>)" "lib_path J sync mgr (mgr1\<lparr>tm_notified := False\<rparr>)"
    using P by (auto intro: path_queue path_notify)
  show "lib_path J sync mgr (persist_cycle_ts b t mgr1)"
    unfolding persist_cycle_ts_def using P by (rule path_rows) (simp add: set_meta_i64_def Let_def)
qed (rule repair_path)

text \<open>A turn of the refresh loop is a path with a refresh.\<close>

lemma refresh_path:
  assumes "db_works J tm" and "refresh_turn tm rd cfg probe listing (l, mgr, w) = (l', mgr', w')"
  shows "lib_path J True mgr mgr'"
proof -
  have "lib_path J True mgr (snd (sync_library tm fresh mgr))" for fresh
    using path_op [OF path_refl assms(1), of True "Sync fresh" mgr] by simp
  then have "lib_path J True mgr m" if "run_once tm rd cfg listing mgr w = (b, m, w1)" for b m w1
    using that by (auto simp: run_once_def Let_def path_refl split: sum.splits prod.splits) (metis snd_conv)+
  with assms(2) show ?thesis
    by (auto simp: refresh_turn_def path_refl split: sum.splits if_splits prod.splits bool.splits)
qed

section \<open>Announcements\<close>

text \<open>What was sent to the hook worker stays in its channel.\<close>

lemma hook_fields [simp]:
  "tm_hook (insert_mt k m mgr) = tm_hook mgr" "tm_hook (remove_mt k mgr) = tm_hook mgr"
  "tm_hook (notify_torrent_removed k mgr) = tm_hook mgr" "tm_hook (channel_send env ch v mgr) = tm_hook mgr"
  "tm_hook (snd (save_rows env rows mgr)) = tm_hook mgr" "tm_hook (receiver_drop ch mgr) = tm_hook mgr"
  by (simp_all add: insert_mt_def remove_mt_def notify_torrent_removed_def channel_send_def save_rows_def receiver_drop_def Let_def
      split: prod.split)

lemma trigger_grows [simp]: "prefix (tm_hook mgr) (tm_hook (trigger_library_update paths mgr))"
  by (simp add: trigger_library_update_def)

lemma update_grows [simp]: "prefix (tm_hook mgr) (tm_hook (snd (update_torrent_state env key st r mgr)))"
proof (cases "get_mt mgr key")
  case (Some m)
  let ?m = "restated env st r m"
  obtain x mgr1 where s: "save_rows env [torrent_to_row env ?m] (insert_mt key ?m mgr) = (x, mgr1)" by fastforce
  then have "tm_hook mgr1 = tm_hook mgr" using hook_fields(5) [of env "[torrent_to_row env ?m]" "insert_mt key ?m mgr"] by simp
  with Some s trigger_grows [of mgr1 "library_paths_for ?m"] show ?thesis
    by (cases x) (auto simp: update_torrent_state_def Let_def split: option.split)
qed (simp add: update_torrent_state_def)

lemma clear_grows: "prefix (tm_hook mgr) (tm_hook (fold (clear_unrepairable env) ks mgr))"
proof (induction ks arbitrary: mgr)
  case (Cons k ks)
  have "prefix (tm_hook mgr) (tm_hook (clear_unrepairable env k mgr))" by (simp add: clear_unrepairable_def)
  from prefix_order.trans [OF this Cons] show ?case by simp
qed simp

text \<open>A refresh announces every torrent that it adds, changes or removes.\<close>

definition accounted :: "manager \<Rightarrow> refresh_acc \<Rightarrow> bool" where
  "accounted mgr0 acc \<longleftrightarrow>
     (case acc of (mgr, rows, paths) \<Rightarrow>
        tm_hook mgr = tm_hook mgr0 \<and> (\<forall>k. get_mt mgr k \<noteq> get_mt mgr0 k \<longrightarrow> ''__all__/'' @ k \<in> set paths))"

lemma get_mt_notify_removed [simp]: "get_mt (notify_torrent_removed key mgr) = get_mt mgr"
  by (simp add: notify_torrent_removed_def get_mt_def fun_eq_iff)

lemma accounted_steps:
  assumes "accounted mgr0 acc"
  shows "accounted mgr0 (apply_added env e acc)" "accounted mgr0 (apply_changed env e acc)" "accounted mgr0 (apply_removed key acc)"
  using assms
  by (auto simp: accounted_def apply_added_def apply_changed_def apply_removed_def mts.get_put mts.get_del Let_def
      split: prod.splits option.splits if_splits)

lemma accounted_diff: "accounted mgr (apply_diff env df mgr)"
proof -
  have "accounted mgr (mgr, [], [])" by (simp add: accounted_def)
  then show ?thesis unfolding apply_diff_def
    by (intro fold_invariant [where P = "accounted mgr" and Q = "\<lambda>_. True"] accounted_steps) simp_all
qed

lemma sync_announces:
  assumes "env_ok env"
  shows "prefix (tm_hook mgr) (tm_hook (snd (sync_library env fresh mgr))) \<and>
    (get_mt (snd (sync_library env fresh mgr)) k \<noteq> get_mt mgr k \<longrightarrow>
       ''__all__/'' @ k \<in> set (concat (drop (length (tm_hook mgr)) (tm_hook (snd (sync_library env fresh mgr))))))"
proof -
  let ?df = "diff (tm_torrents mgr) fresh"
  obtain mgr1 rows paths where ad: "apply_diff env ?df mgr = (mgr1, rows, paths)" by (metis prod_cases3)
  with accounted_diff [of mgr env ?df] have a: "tm_hook mgr1 = tm_hook mgr" "get_mt mgr1 k \<noteq> get_mt mgr k \<longrightarrow> ''__all__/'' @ k \<in> set paths"
    by (simp_all add: accounted_def)
  obtain d where "save_rows env rows mgr1 = (Inr (), mgr1\<lparr>tm_db := d\<rparr>)" by (rule save_rows_ok [OF assms])
  then have "(if rows = [] then (Inr (), mgr1) else save_rows env rows mgr1) = (Inr (), mgr1\<lparr>tm_db := if rows = [] then tm_db mgr1 else d\<rparr>)" by simp
  with ad a show ?thesis by (auto simp: sync_library_def trigger_library_update_def get_mt_tm_db Let_def simp del: append.simps)
qed

lemma operation_grows:
  assumes "env_ok tm"
  shows "prefix (tm_hook mgr) (tm_hook (mgr_op tm e mgr))"
proof (cases e)
  case (EnqueueAll opts)
  with clear_grows show ?thesis by (simp add: enqueue_repair_all_def Let_def)
next
  case (Sync fresh)
  with sync_announces [OF assms, of mgr fresh] show ?thesis by simp
next
  case (Subscribe key)
  then show ?thesis by (auto simp: subscribe_repair_state_def channel_of_def Let_def split: option.splits)
qed (auto simp: mark_file_broken_def persist_torrent_snapshot_def replace_rd_ids_after_repair_def ensure_finish_def enqueue_repair_def
    enqueue_repair_front_def fuse_begin_fatal_read_repair_def fuse_end_fatal_read_repair_def Let_def split: option.splits)

interpretation hook: library_invariant J sync "\<lambda>mgr. prefix sent (tm_hook mgr)" for J sync sent
proof
  fix mgr :: manager and tm e
  assume "prefix sent (tm_hook mgr)" "db_works J tm"
  then show "prefix sent (tm_hook (mgr_op tm e mgr))"
    using operation_grows [of tm mgr e] by (auto simp: db_works_def intro: prefix_order.trans)
qed simp_all

lemma refresh_announces:
  assumes "db_works J tm" and "refresh_turn tm rd cfg probe listing (l, mgr, w) = (l', mgr', w')" and "get_mt mgr' k \<noteq> get_mt mgr k"
  shows "''__all__/'' @ k \<in> set (concat (drop (length (tm_hook mgr)) (tm_hook mgr')))"
proof -
  have ok: "env_ok tm" using assms(1) by (simp add: db_works_def)
  have "mgr' = mgr \<or> (\<exists>fresh. mgr' = snd (sync_library tm fresh mgr))"
    using assms(2) by (auto simp: refresh_turn_def run_once_def Let_def split: sum.splits if_splits prod.splits bool.splits) (metis snd_conv)+
  with assms(3) sync_announces [OF ok, of mgr] show ?thesis by auto
qed

end
