(* ===== verification/Service_Frame.thy ===== *)
theory Service_Frame
  imports Repair_Engine
begin

text \<open>
  What calls of the service keep: the repair cascade, its preflight, the passive probe, the repair loop
  and the refresh reach the world behind the service only through the seven calls of \<open>rd_api\<close>. A
  property of that world that each call keeps is therefore kept by all of them. Theory \<open>Rd_Client\<close> uses
  it for the client that makes the calls.
\<close>

section \<open>The interface\<close>

locale service_invariant =
  fixes rd :: "'w rd_api" and W :: "'w \<Rightarrow> bool"
  assumes unrestrict: "api_unrestrict rd link w = (r1, w') \<Longrightarrow> W w \<Longrightarrow> W w'"
    and verify: "api_verify rd url w = (r2, w') \<Longrightarrow> W w \<Longrightarrow> W w'"
    and delete: "api_delete_torrent rd i w = (r3, w') \<Longrightarrow> W w \<Longrightarrow> W w'"
    and magnet: "api_add_magnet rd hash w = (r4, w') \<Longrightarrow> W w \<Longrightarrow> W w'"
    and select: "api_select_files rd i files w = (r5, w') \<Longrightarrow> W w \<Longrightarrow> W w'"
    and info: "api_torrent_info rd i w = (r6, w') \<Longrightarrow> W w \<Longrightarrow> W w'"
    and count: "api_active_count rd w = (r7, w') \<Longrightarrow> W w \<Longrightarrow> W w'"
begin

lemma deleted: "W w \<Longrightarrow> W (snd (api_delete_torrent rd i w))"
  by (rule delete [of i w "fst (api_delete_torrent rd i w)"]) simp_all

lemma deleted_all: "W w \<Longrightarrow> W (fold (\<lambda>i w. snd (api_delete_torrent rd i w)) ids w)"
  by (induction ids arbitrary: w) (simp_all add: deleted)

subsection \<open>The cascade\<close>

lemma polls_keep: "info_ready_polls rd i restrict n w = (r, w') \<Longrightarrow> W w \<Longrightarrow> W w'"
  by (induction n arbitrary: w) (auto split: prod.splits sum.splits if_splits dest: info)

lemma drop_keeps: "W w \<Longrightarrow> W (ephemeral_drop rd g w)"
  by (auto simp: ephemeral_drop_def deleted split: option.split prod.split sum.split dest: delete)

lemma refuse_keeps:
  assumes "refuse_not_cached rd g w = (out, w')" and "W w"
  shows "W w'"
proof -
  obtain r g1 w1 where d: "delete_ephemeral rd g w = (r, g1, w1)" by (metis prod.exhaust)
  then have "W w1" using assms(2) by (auto simp: delete_ephemeral_def split: option.splits prod.splits sum.splits dest: delete)
  from drop_keeps [OF this, of g1] assms(1) d show ?thesis by (auto simp: refuse_not_cached_def split: sum.splits)
qed

lemma magnet_keeps:
  assumes "try_magnet rd hash files restrict w = (a, w')" and "W w"
  shows "W w'"
proof -
  obtain r1 w1 where m: "api_add_magnet rd hash w = (r1, w1)" by fastforce
  have w1: "W w1" using magnet [OF m assms(2)] .
  show ?thesis
  proof (cases r1)
    case (Inl e)
    with assms(1) m w1 show ?thesis by (simp add: try_magnet_def)
  next
    case (Inr i)
    obtain r2 w2 where s: "api_select_files rd i files w1 = (r2, w2)" by fastforce
    have w2: "W w2" using select [OF s w1] .
    obtain r3 w3 where p: "info_ready rd i restrict w2 = (r3, w3)" by fastforce
    have w3: "W w3" using polls_keep p w2 by (simp add: info_ready_def)
    from assms(1) m s p Inr w2 w3 show ?thesis
      by (auto simp: try_magnet_def Let_def split: sum.splits info_ready_outcome.splits prod.splits intro: drop_keeps dest: refuse_keeps)
  qed
qed

lemma keep_keeps: "keep_magnet rd g w = (out, w') \<Longrightarrow> W w \<Longrightarrow> W w'"
  by (auto simp: keep_magnet_def split: prod.splits intro: drop_keeps)

lemma reinsert_keeps: "try_strategy_1_reinsert rd m files restrict w = (out, w') \<Longrightarrow> W w \<Longrightarrow> W w'"
  by (auto simp: try_strategy_1_reinsert_def Let_def split: prod.splits attempt.splits
      dest: magnet_keeps [OF _ deleted_all] keep_keeps)

lemma individual_keeps: "individual_files rd hash restrict fs ok w = (out, w') \<Longrightarrow> W w \<Longrightarrow> W w'"
proof (induction fs arbitrary: ok w)
  case (Cons f fs)
  obtain a w1 where m: "try_magnet rd hash (show_int (f_id f)) restrict w = (a, w1)" by fastforce
  have w1: "W w1" using magnet_keeps [OF m Cons.prems(2)] .
  with Cons.IH Cons.prems(1) m drop_keeps show ?case by (cases a) (auto split: if_splits)
qed simp

lemma archive_keeps: "archive_all rd hash restrict w = (out, w') \<Longrightarrow> W w \<Longrightarrow> W w'"
  by (auto simp: archive_all_def split: prod.splits attempt.splits dest: magnet_keeps keep_keeps)

lemma batch_keeps: "batch_download rd hash restrict cs n w = (out, w') \<Longrightarrow> W w \<Longrightarrow> W w'"
proof (induction cs arbitrary: n w)
  case (Cons c cs)
  obtain a w1 where m: "try_magnet rd hash (join_ids c) restrict w = (a, w1)" by fastforce
  have w1: "W w1" using magnet_keeps [OF m Cons.prems(2)] .
  with Cons.IH Cons.prems(1) m drop_keeps show ?case by (cases a) (auto split: if_splits)
qed simp

lemma strategy_4_keeps: "strategy_4 rd m cfg w = (out, w') \<Longrightarrow> W w \<Longrightarrow> W w'"
  by (auto simp: strategy_4_def Let_def split: prod.splits sum.splits if_splits dest: batch_keeps)

lemma strategies_keep: "strategies_2_to_4 rd m ti cfg w = (out, w') \<Longrightarrow> W w \<Longrightarrow> W w'"
  by (auto simp: strategies_2_to_4_def Let_def split: prod.splits sum.splits if_splits bool.splits option.splits
      dest: individual_keeps archive_keeps strategy_4_keeps)

lemma cascade_keeps: "execute_cascade rd m cfg w = (out, w') \<Longrightarrow> W w \<Longrightarrow> W w'"
  by (auto simp: execute_cascade_def Let_def split: prod.splits option.splits if_splits dest: reinsert_keeps strategies_keep)

subsection \<open>Preflight and the passive probe\<close>

lemma assign_keeps: "assign_loop rd links s w = (r, s', w') \<Longrightarrow> W w \<Longrightarrow> W w'"
proof (induction links arbitrary: s w)
  case (Cons link links)
  from Cons.prems show ?case by (auto split: prod.splits sum.splits if_splits dest: unrestrict verify Cons.IH)
qed simp

lemma probe_keeps: "probe_loop rd links i fs st w = (r, st', w') \<Longrightarrow> W w \<Longrightarrow> W w'"
  by (induction fs arbitrary: i st w) (auto split: prod.splits sum.splits if_splits option.splits dest: unrestrict verify)

lemma verify_keeps: "verify_loop rd m ti i fs w = (r, w') \<Longrightarrow> W w \<Longrightarrow> W w'"
  by (induction fs arbitrary: i w) (auto split: prod.splits sum.splits if_splits option.splits dest: unrestrict verify)

lemma preflight_keeps: "run_preflight rd m w = (out, w') \<Longrightarrow> W w \<Longrightarrow> W w'"
  by (auto simp: run_preflight_def assign_orphan_links_def probe_selected_links_def verify_one_link_and_clear_def Let_def
      split: prod.splits sum.splits if_splits option.splits dest: assign_keeps probe_keeps verify_keeps)

lemma heads_keep: "head_slots rd links i fs n w = (r, w') \<Longrightarrow> W w \<Longrightarrow> W w'"
  by (induction fs arbitrary: i n w) (auto split: prod.splits sum.splits if_splits option.splits dest: unrestrict verify)

lemma candidates_keep: "probe_candidates rd clock threshold mgr ks acc w = (acc', w') \<Longrightarrow> W w \<Longrightarrow> W w'"
  by (induction ks arbitrary: acc w) (auto simp: check_head_unreachable_def split: prod.splits option.splits dest: heads_keep)

subsection \<open>The engine and the refresh\<close>

lemma details_keep: "ensure_torrent_info rd key mgr w = (r, mgr', w') \<Longrightarrow> W w \<Longrightarrow> W w'"
  by (auto simp: ensure_torrent_info_def Let_def split: ensure_start.splits prod.splits sum.splits dest: info)

text \<open>A repair that its timeout cuts leaves a world of its own.\<close>

lemma repair_body_keeps:
  assumes "\<And>m w w'. re_cut env m w = Some w' \<Longrightarrow> W w \<Longrightarrow> W w'" and "W w"
  shows "W (snd (repair_body rd env cfg key mt (mgr, w)))"
  using assms(2)
  by (auto simp: repair_body_def Let_def split: prod.split preflight_outcome.split option.split
      dest: preflight_keeps cascade_keeps assms(1))

lemma repair_one_keeps:
  assumes "\<And>m w w'. re_cut env m w = Some w' \<Longrightarrow> W w \<Longrightarrow> W w'" and "W w"
  shows "W (snd (repair_one_torrent rd env cfg key (mgr, w)))"
proof -
  obtain r mgr1 w1 where e: "ensure_torrent_info rd key mgr w = (r, mgr1, w1)" by (metis prod.exhaust)
  have w1: "W w1" using details_keep [OF e assms(2)] .
  obtain u mgr2 where u: "update_torrent_state (re_tm env 1) key UnderRepair None (begin_job env key mgr1) = (u, mgr2)" by fastforce
  obtain r2 mgr3 w2 where e2: "ensure_torrent_info rd key mgr2 w1 = (r2, mgr3, w2)" by (metis prod.exhaust)
  have w2: "W w2" using details_keep [OF e2 w1] .
  show ?thesis
    using e u e2 w1 w2 repair_body_keeps [OF assms(1) w2]
    by (cases r; cases r2; cases u) (auto simp: repair_one_torrent_def)
qed

lemma repair_keys_keep:
  assumes "\<And>k m w w'. re_cut (se_repair env k) m w = Some w' \<Longrightarrow> W w \<Longrightarrow> W w'"
  shows "W w \<Longrightarrow> W (snd (repair_keys rd env cfg ks (mgr, w)))"
proof (induction ks arbitrary: mgr w)
  case (Cons k ks)
  obtain mgr1 w1 where r: "repair_one_torrent rd (se_repair env k) cfg k (mgr, w) = (mgr1, w1)" by fastforce
  have "W w1" using repair_one_keeps [of "se_repair env k" w cfg k mgr] assms Cons.prems r by simp
  with Cons r show ?case by simp
qed simp

lemma session_keeps:
  assumes "\<And>k m w w'. re_cut (se_repair env k) m w = Some w' \<Longrightarrow> W w \<Longrightarrow> W w'" and "W (en_world e)"
  shows "W (en_world (run_session_impl rd env cfg periodic ign e))"
proof -
  obtain keys e1 where s: "session_keys rd env cfg periodic e = (keys, e1)" by fastforce
  then have "W (en_world e1)" using assms(2)
    by (auto simp: session_keys_def append_passive_head_candidates_def Let_def split: if_splits prod.splits dest: candidates_keep)
  then have "W (snd (repair_keys rd env cfg keys (en_mgr e1, en_world e1)))" using assms(1) by (intro repair_keys_keep)
  with s assms(2) show ?thesis by (auto simp: run_session_impl_def split: prod.split)
qed

lemma loop_step_keeps:
  "wake_with (\<lambda>env. \<forall>m w w'. re_cut env m w = Some w' \<longrightarrow> W w \<longrightarrow> W w') v \<Longrightarrow> W (en_world e) \<Longrightarrow>
     W (en_world (fst (loop_step rd v e)))"
  by (cases v) (auto simp: Let_def take_notify_def intro!: session_keeps)

lemma refresh_turn_keeps:
  assumes "refresh_turn tm rd cfg probe listing (l, mgr, w) = (l', mgr', w')" and "W w"
  shows "W w'"
proof -
  have d: "W v \<Longrightarrow> W (fold (\<lambda>t. delete_unless_repairing rd mgr (t_id t)) ts v)" for ts v
    by (induction ts arbitrary: v) (simp_all add: delete_unless_repairing_def deleted)
  have "W w1" if "run_once tm rd cfg listing mgr w = (b, m, w1)" for b m w1
    using that assms(2) d by (auto simp: run_once_def delete_errored_def delete_stalled_def Let_def split: sum.splits prod.splits if_splits)
  with assms show ?thesis by (auto simp: refresh_turn_def split: sum.splits if_splits prod.splits bool.splits)
qed

end

end
