(* ===== verification/Link_Heal.thy ===== *)
theory Link_Heal
  imports Rd_Api Worker
begin

text \<open>
  \<^verbatim>\<open>src/src/cache/link_heal.rs\<close> with the call it makes: a chunk worker whose CDN link has expired clears the
  unrestrict cache for the source link, unrestricts it again and replaces the live URL of its session.
\<close>

section \<open>Refreshing a link\<close>

text \<open>\<open>refresh_cdn_url\<close>: the URL that replaces the live one of the session, from a fresh unrestrict.\<close>

definition refresh_cdn_url ::
    "(string \<Rightarrow> u64) \<Rightarrow> 'w network_env \<Rightarrow> string \<Rightarrow> unrestrict_cache \<Rightarrow> real_debrid \<Rightarrow> 'w \<Rightarrow>
     ((rd_error + string) \<times> unrestrict_cache \<times> real_debrid \<times> 'w) option" where
  "refresh_cdn_url hasher env source_link cache rd w =
     (case unrestrict_link hasher env source_link (clear_unrestrict_cache_for_source_link source_link cache) rd w of
        None \<Rightarrow> None
      | Some (Inl e, cache', rd', w') \<Rightarrow> Some (Inl e, cache', rd', w')
      | Some (Inr download, cache', rd', w') \<Rightarrow> Some (Inr (dl_download download), cache', rd', w'))"

text \<open>\<open>attempt_cdn_link_refresh\<close> with the call it makes: theory \<open>Worker\<close> has it over the answer of the call.\<close>

definition heal_link ::
    "(string \<Rightarrow> u64) \<Rightarrow> 'w network_env \<Rightarrow> rd_error \<Rightarrow> string \<Rightarrow> dl_shared \<Rightarrow> unrestrict_cache \<Rightarrow> real_debrid \<Rightarrow> 'w \<Rightarrow>
     (bool \<times> dl_shared \<times> unrestrict_cache \<times> real_debrid \<times> 'w) option" where
  "heal_link hasher env err source_link sh cache rd w =
     (if \<not> should_refresh_via_unrestrict err \<or> dl_heal sh = 0 then Some (False, sh, cache, rd, w)
      else
        (case refresh_cdn_url hasher env source_link cache rd w of
           None \<Rightarrow> None
         | Some (refresh, cache', rd', w') \<Rightarrow>
             (case attempt_cdn_link_refresh err refresh sh of (b, sh') \<Rightarrow> Some (b, sh', cache', rd', w'))))"

section \<open>The cache after a refresh\<close>

definition only_link :: "string \<Rightarrow> (rd_error + download) \<Rightarrow> unrestrict_cache \<Rightarrow> unrestrict_cache \<Rightarrow> bool" where
  "only_link link res cache cache' \<longleftrightarrow>
     (\<forall>tok l. l \<noteq> link \<longrightarrow> map_of cache' (tok, l) = map_of cache (tok, l)) \<and>
     (case res of
        Inl _ \<Rightarrow> \<forall>tok. map_of cache' (tok, link) = None
      | Inr d \<Rightarrow> \<exists>tok at'. \<forall>tok'. map_of cache' (tok', link) = (if tok' = tok then Some (d, at') else None))"

lemmas unrestrict_loop_induct = unrestrict_loop.raw_induct [rotated, consumes 1, case_names step]

lemma unrestrict_loop_only_link:
  assumes "unrestrict_loop env rq link lb cache rd w = Some (res, cache', rd', w')"
    and "\<And>tok. map_of cache (tok, link) = None"
  shows "only_link link res cache cache'"
  using assms
proof (induction env rq link lb cache rd w "(res, cache', rd', w')" rule: unrestrict_loop_induct)
  case (step loop env rq link lb cache rd w)
  have nf: "cached_fresh now (tok, link) cache = None" for now tok
    using step.prems by (simp add: cached_fresh_def)
  show ?case
  proof (cases "eligible_tokens_in_order (rd_token_pool rd)")
    case Nil
    with step show ?thesis by (auto simp: only_link_def)
  next
    case (Cons tok toks)
    have run: "(case call env UnrestrictClient (Some tok) (\<lambda>_. rq) rd w of
        None \<Rightarrow> None
      | Some (Inl e, rd1, w1) \<Rightarrow>
          if is_bandwidth_limited e then loop env rq link (Some e) cache (rd1\<lparr>rd_token_pool := mark_exhausted tok (rd_token_pool rd1)\<rparr>) w1
          else Some (Inl e, cache, rd1, w1)
      | Some (Inr (rsp, body), rd1, w1) \<Rightarrow>
          (case ne_download env body of
             None \<Rightarrow> Some (Inl (RdNetwork ''decode''), cache, rd1, w1)
           | Some d \<Rightarrow>
               let download = fetched_download (ne_now env w1) tok d
               in Some (Inr download, AList.update (tok, link) (download, ne_now env w1) cache, rd1, w1))) =
        Some (res, cache', rd', w')"
      using step.hyps(2) Cons nf by simp
    then obtain r rd1 w1 where c: "call env UnrestrictClient (Some tok) (\<lambda>_. rq) rd w = Some (r, rd1, w1)"
      by (auto split: option.splits)
    show ?thesis
    proof (cases r)
      case (Inl e)
      with run c step.hyps(1) [of env rq link "Some e" cache] step.prems show ?thesis
        by (cases "is_bandwidth_limited e") (auto simp: only_link_def)
    next
      case (Inr rb)
      obtain rsp body where rb: "rb = (rsp, body)" by (cases rb)
      show ?thesis
      proof (cases "ne_download env body")
        case None
        with run c Inr rb step.prems show ?thesis by (auto simp: only_link_def)
      next
        case (Some d)
        let ?d = "fetched_download (ne_now env w1) tok d"
        from run c Inr rb Some have "res = Inr ?d" "cache' = AList.update (tok, link) (?d, ne_now env w1) cache"
          by (auto simp: Let_def)
        with step.prems show ?thesis
          by (auto simp: only_link_def update_conv' intro!: exI [of _ tok] exI [of _ "ne_now env w1"])
      qed
    qed
  qed
qed

lemma refresh_only_link:
  assumes "refresh_cdn_url hs env link cache rd w = Some (res, cache', rd', w')"
  obtains res' where "only_link link res' (clear_unrestrict_cache_for_source_link link cache) cache'"
    and "res = map_sum id dl_download res'"
proof -
  let ?c = "clear_unrestrict_cache_for_source_link link cache"
  from assms obtain res' where u: "unrestrict_link hs env link ?c rd w = Some (res', cache', rd', w')"
    and r: "res = map_sum id dl_download res'"
    by (auto simp: refresh_cdn_url_def split: option.splits sum.splits)
  have "map_of ?c (tok, link) = None" for tok by (simp add: clear_for_source_link_lookup)
  with u have "only_link link res' ?c cache'"
    unfolding unrestrict_link_def by (intro unrestrict_loop_only_link) auto
  with r that show thesis by blast
qed

section \<open>Properties\<close>

text \<open>C22: healing an expired link never reuses a stale one: after a refresh the cache holds, for the source link,
  the new URL under one token and nothing under any other, or nothing at all when the refresh failed;
  other links keep their entries, the budget of the session falls by one exactly when the live URL is
  replaced, and an error that a new link cannot cure asks for nothing.\<close>

theorem heal_replaces_stale_links:
  assumes "heal_link hs env err link sh cache rd w = Some (healed, sh', cache', rd', w')"
  shows "(\<forall>tok l. l \<noteq> link \<longrightarrow> map_of cache' (tok, l) = map_of cache (tok, l)) \<and>
    (if healed then dl_heal sh' + 1 = dl_heal sh \<and>
       (\<exists>tok at' d. dl_download d = dl_url sh' \<and>
          (\<forall>tok'. map_of cache' (tok', link) = (if tok' = tok then Some (d, at') else None)))
     else sh' = sh \<and> ((\<forall>tok. map_of cache' (tok, link) = None) \<or>
       cache' = cache \<and> w' = w \<and> (\<not> should_refresh_via_unrestrict err \<or> dl_heal sh = 0)))"
proof (cases "\<not> should_refresh_via_unrestrict err \<or> dl_heal sh = 0")
  case True
  with assms show ?thesis by (auto simp: heal_link_def)
next
  case False
  with assms obtain res where r: "refresh_cdn_url hs env link cache rd w = Some (res, cache', rd', w')"
    and a: "attempt_cdn_link_refresh err res sh = (healed, sh')"
    by (auto simp: heal_link_def split: option.splits prod.splits)
  obtain res' where o: "only_link link res' (clear_unrestrict_cache_for_source_link link cache) cache'"
    and res: "res = map_sum id dl_download res'"
    by (rule refresh_only_link [OF r])
  from o have other: "\<forall>tok l. l \<noteq> link \<longrightarrow> map_of cache' (tok, l) = map_of cache (tok, l)"
    by (simp add: only_link_def clear_for_source_link_lookup)
  show ?thesis
  proof (cases res')
    case (Inl e)
    with o have "\<forall>tok. map_of cache' (tok, link) = None" by (simp add: only_link_def)
    moreover have "\<not> healed" "sh' = sh" using a False Inl by (auto simp: attempt_cdn_link_refresh_def res)
    ultimately show ?thesis using other by simp
  next
    case (Inr d)
    with o obtain tok at' where c: "\<forall>tok'. map_of cache' (tok', link) = (if tok' = tok then Some (d, at') else None)"
      by (auto simp: only_link_def)
    have s: "healed" "sh' = sh\<lparr>dl_heal := dl_heal sh - 1, dl_url := dl_download d\<rparr>"
      using a False Inr by (auto simp: attempt_cdn_link_refresh_def res)
    then have "dl_heal sh' + 1 = dl_heal sh" "dl_download d = dl_url sh'" using False by auto
    with c other s(1) show ?thesis by auto
  qed
qed

definition demo_shared :: dl_shared where
  "demo_shared = \<lparr>dl_queue = [], dl_mult = 1, dl_heal = 3, dl_url = ''old'', dl_item = demo_item, dl_disk = [],
     dl_table = [], dl_cancelled = False, dl_paused = False\<rparr>"

theorem heal_replaces_stale_links_witness:
  "\<exists>sh' cache' rd' w' tok at' d.
     heal_link (\<lambda>_. 0) demo_net (RdDownload InvalidDownloadCode) ''l'' demo_shared [((''a'', ''l''), (demo_download, 0))] demo_client 0 =
       Some (True, sh', cache', rd', w') \<and> dl_heal sh' = 2 \<and>
     (\<forall>tok'. map_of cache' (tok', ''l'') = (if tok' = tok then Some (d, at') else None))"
proof -
  let ?run = "heal_link (\<lambda>_. 0) demo_net (RdDownload InvalidDownloadCode) ''l'' demo_shared [((''a'', ''l''), (demo_download, 0))] demo_client 0"
  have "map_option fst ?run = Some True" by code_simp
  then obtain sh' cache' rd' w' where r: "?run = Some (True, sh', cache', rd', w')"
    by (cases ?run) auto
  have "dl_heal demo_shared = 3" by (simp add: demo_shared_def)
  with heal_replaces_stale_links [OF r] r show ?thesis by auto
qed

end
