(* ===== verification/Account_Watch.thy ===== *)
theory Account_Watch
  imports Rd_Api
begin

text \<open>
  What the program reads about the account besides the library: the answers of \<^verbatim>\<open>src/src/rd/types.rs\<close> with
  their time stamps in Paris time, the calls \<open>get_traffic_details\<close> and \<open>get_downloads\<close> of
  \<^verbatim>\<open>src/src/rd/api/methods2.rs\<close>, and the check loops of \<^verbatim>\<open>src/src/torrent/refresh/loops.rs\<close>, which only log.
  Decoding of JSON, \<open>chrono\<close> and the time zone database are parameters.
\<close>

section \<open>Answers of the service\<close>

record magnet_response =
  mr_id :: string

record traffic_detail_day =
  tdd_host :: "(string \<times> i64) list"
  tdd_bytes :: i64

record download_item =
  di_id :: string
  di_filename :: string
  di_mime_type :: string
  di_filesize :: i64
  di_link :: string
  di_host :: string
  di_host_icon :: string
  di_chunks :: i64
  di_download :: string
  di_streamable :: int
  di_generated :: int

text \<open>What a page of \<open>GET /downloads\<close> and the answer of \<open>GET /traffic/details\<close> decode to.\<close>

record decoders =
  dec_downloads :: "string \<Rightarrow> download_item list option"
  dec_traffic :: "string \<Rightarrow> (string \<times> traffic_detail_day) list option"

definition get_traffic_details ::
    "decoders \<Rightarrow> 'w network_env \<Rightarrow> real_debrid \<Rightarrow> 'w \<Rightarrow>
     ((rd_error + (string \<times> traffic_detail_day) list) \<times> real_debrid \<times> 'w) option" where
  "get_traffic_details dec env rd w = api_call env (api_get rd ''traffic/details'') (dec_traffic dec) rd w"

definition get_downloads ::
    "decoders \<Rightarrow> 'w network_env \<Rightarrow> u32 \<Rightarrow> u32 \<Rightarrow> real_debrid \<Rightarrow> 'w \<Rightarrow>
     ((rd_error + download_item list) \<times> real_debrid \<times> 'w) option" where
  "get_downloads dec env page limit rd w =
     api_call env (api_get rd (''downloads?page='' @ show_nat page @ ''&limit='' @ show_nat limit)) (dec_downloads dec) rd w"

section \<open>Time stamps\<close>

text \<open>\<open>chrono\<close> and its time zone database: reading a local time in a format, and the instants that show a
  local time in Paris. Times are milliseconds.\<close>

datatype local_result = NoLocal | SingleLocal int | AmbiguousLocal int int

record time_lib =
  tz_parse :: "string \<Rightarrow> string \<Rightarrow> int option"
  tz_paris :: "int \<Rightarrow> local_result"

definition FMT_MILLIS :: string where
  "FMT_MILLIS = ''%Y-%m-%dT%H:%M:%S%.3f''"

definition FMT_SECONDS :: string where
  "FMT_SECONDS = ''%Y-%m-%dT%H:%M:%S''"

fun earliest :: "local_result \<Rightarrow> int option" where
  "earliest NoLocal = None"
| "earliest (SingleLocal t) = Some t"
| "earliest (AmbiguousLocal a b) = Some a"

fun single :: "local_result \<Rightarrow> int option" where
  "single (SingleLocal t) = Some t"
| "single _ = None"

definition parse_paris_time :: "time_lib \<Rightarrow> string \<Rightarrow> int option" where
  "parse_paris_time lib input =
     (let s = trim_end_char (CHR ''Z'') input;
          naive = (case tz_parse lib FMT_MILLIS s of Some n \<Rightarrow> Some n | None \<Rightarrow> tz_parse lib FMT_SECONDS s)
      in case naive of
           None \<Rightarrow> None
         | Some n \<Rightarrow> (case single (tz_paris lib n) of Some t \<Rightarrow> Some t | None \<Rightarrow> earliest (tz_paris lib n)))"

text \<open>A value that is not a string, as \<open>null\<close>, is an error; for the optional field the outer option is the
  error of the deserialiser.\<close>

definition deserialize_paris_time :: "time_lib \<Rightarrow> string option \<Rightarrow> int option" where
  "deserialize_paris_time lib v = Option.bind v (parse_paris_time lib)"

definition deserialize_opt_paris_time :: "time_lib \<Rightarrow> string option \<Rightarrow> int option option" where
  "deserialize_opt_paris_time lib v =
     (case v of
        None \<Rightarrow> Some None
      | Some s \<Rightarrow> if s = [] then Some None else map_option Some (parse_paris_time lib s))"

text \<open>A number of a JSON document is finite; \<open>as u8\<close> saturates.\<close>

definition deserialize_progress :: "rat \<Rightarrow> nat" where
  "deserialize_progress f = nat (max 0 (min 255 \<lfloor>f\<rfloor>))"

section \<open>Check loops\<close>

datatype premium_note = NotPremium i64 | ExpiresSoon i64 | PremiumDays i64 | UserFailed rd_error

definition premium_note_of :: "rd_error + user \<Rightarrow> premium_note" where
  "premium_note_of res =
     (case res of
        Inl e \<Rightarrow> UserFailed e
      | Inr u \<Rightarrow>
          if \<not> is_premium u then NotPremium (u_premium u)
          else if u_premium u < 86400 * 3 then ExpiresSoon (u_premium u)
          else PremiumDays (u_premium u div 86400))"

text \<open>The loops over what ends each of their sleeps: the interval (\<open>False\<close>) or the shutdown (\<open>True\<close>); \<open>None\<close>
  when neither has happened yet or a request has not returned.\<close>

fun run_premium_check_loop ::
    "'w network_env \<Rightarrow> bool list \<Rightarrow> real_debrid \<Rightarrow> 'w \<Rightarrow> (premium_note list \<times> real_debrid \<times> 'w) option" where
  "run_premium_check_loop env [] rd w = None"
| "run_premium_check_loop env (stop # evs) rd w =
     (case get_user env rd w of
        None \<Rightarrow> None
      | Some (res, rd1, w1) \<Rightarrow>
          if stop then Some ([premium_note_of res], rd1, w1)
          else map_option (\<lambda>(notes, r). (premium_note_of res # notes, r)) (run_premium_check_loop env evs rd1 w1))"

text \<open>What the downloads check logs: the name and size of the latest download, or the error.\<close>

definition downloads_note_of :: "rd_error + download_item list \<Rightarrow> (rd_error + string \<times> i64) option" where
  "downloads_note_of res =
     (case res of
        Inl e \<Rightarrow> Some (Inl e)
      | Inr [] \<Rightarrow> None
      | Inr (item # _) \<Rightarrow> Some (Inr (di_filename item, di_filesize item)))"

fun run_downloads_check_loop ::
    "decoders \<Rightarrow> 'w network_env \<Rightarrow> bool list \<Rightarrow> real_debrid \<Rightarrow> 'w \<Rightarrow>
     ((rd_error + string \<times> i64) option list \<times> real_debrid \<times> 'w) option" where
  "run_downloads_check_loop dec env [] rd w = None"
| "run_downloads_check_loop dec env (stop # evs) rd w =
     (case (if retain_non_rd_downloads (api (rd_config rd))
            then map_option (\<lambda>(res, r). (downloads_note_of res, r)) (get_downloads dec env 1 1 rd w)
            else Some (None, rd, w)) of
        None \<Rightarrow> None
      | Some (note, rd1, w1) \<Rightarrow>
          if stop then Some ([note], rd1, w1)
          else map_option (\<lambda>(notes, r). (note # notes, r)) (run_downloads_check_loop dec env evs rd1 w1))"

section \<open>Lemmas\<close>

text \<open>The time zone as an offset of every instant, and the law of \<open>from_local_datetime\<close> over it.\<close>

definition local_law :: "(int \<Rightarrow> int) \<Rightarrow> (int \<Rightarrow> local_result) \<Rightarrow> bool" where
  "local_law off f \<longleftrightarrow>
     (\<forall>n. case f n of
            NoLocal \<Rightarrow> \<forall>u. u + off u \<noteq> n
          | SingleLocal t \<Rightarrow> \<forall>u. u + off u = n \<longleftrightarrow> u = t
          | AmbiguousLocal a b \<Rightarrow> a < b \<and> (\<forall>u. u + off u = n \<longleftrightarrow> u = a \<or> u = b))"

lemma earliest_first:
  assumes "local_law off f"
  shows "(\<exists>u. earliest (f (t + off t)) = Some u \<and> u + off u = t + off t \<and> u \<le> t)"
proof -
  have law: "case f (t + off t) of
      NoLocal \<Rightarrow> \<forall>u. u + off u \<noteq> t + off t
    | SingleLocal x \<Rightarrow> \<forall>u. u + off u = t + off t \<longleftrightarrow> u = x
    | AmbiguousLocal a b \<Rightarrow> a < b \<and> (\<forall>u. u + off u = t + off t \<longleftrightarrow> u = a \<or> u = b)"
    using assms unfolding local_law_def by blast
  then show ?thesis
  proof (cases "f (t + off t)")
    case (AmbiguousLocal a b)
    with law have "a < b" "\<And>u. u + off u = t + off t \<longleftrightarrow> u = a \<or> u = b" by simp_all
    then have "t = a \<or> t = b" "a + off a = t + off t" by blast+
    with \<open>a < b\<close> AmbiguousLocal show ?thesis by auto
  qed (auto dest: spec [of _ t])
qed

lemma single_earliest: "(case single r of Some t \<Rightarrow> Some t | None \<Rightarrow> earliest r) = earliest r"
  by (cases r) auto

lemma trim_end_char_snoc: "trim_end_char c (s @ [c]) = trim_end_char c s"
  by (simp add: trim_end_char_def)

section \<open>Properties\<close>

text \<open>A time stamp of the service that shows an instant in Paris time, with the \<open>Z\<close> it does not mean, is read as
  an instant that shows the same Paris time: the instant itself, or in the hour that the clocks repeat
  the earlier of the two.\<close>

theorem paris_time_reads_back:
  assumes "local_law off (tz_paris lib)" and "trim_end_char (CHR ''Z'') s = s"
    and "tz_parse lib FMT_MILLIS s = Some (t + off t) \<or>
      tz_parse lib FMT_MILLIS s = None \<and> tz_parse lib FMT_SECONDS s = Some (t + off t)"
  shows "\<exists>u. parse_paris_time lib (s @ ''Z'') = Some u \<and> u + off u = t + off t \<and> u \<le> t"
proof -
  have "parse_paris_time lib (s @ ''Z'') = earliest (tz_paris lib (t + off t))"
    using assms(2,3) by (auto simp: parse_paris_time_def trim_end_char_snoc single_earliest)
  with earliest_first [OF assms(1)] show ?thesis by simp
qed

definition demo_time :: time_lib where
  "demo_time = \<lparr>tz_parse = (\<lambda>f s. if f = FMT_SECONDS \<and> s = ''x'' then Some 105 else None),
     tz_paris = (\<lambda>n. if n < 101 then SingleLocal (n - 2) else if n < 102 then AmbiguousLocal (n - 2) (n - 1)
                     else SingleLocal (n - 1))\<rparr>"

theorem paris_time_reads_back_witness: "parse_paris_time demo_time ''xZ'' = Some 104"
proof -
  have "local_law (\<lambda>t. if t < 100 then 2 else 1) (tz_paris demo_time)"
    by (auto simp: local_law_def demo_time_def)
  moreover have "trim_end_char (CHR ''Z'') ''x'' = ''x''" by code_simp
  moreover have "tz_parse demo_time FMT_MILLIS ''x'' = None" "tz_parse demo_time FMT_SECONDS ''x'' = Some 105"
    by code_simp+
  ultimately obtain u where "parse_paris_time demo_time ''xZ'' = Some u" "u + (if u < 100 then 2 else 1) = 105"
    using paris_time_reads_back [of "\<lambda>t. if t < 100 then 2 else 1" demo_time "''x''" 104] by auto
  then show ?thesis by (auto split: if_splits)
qed

text \<open>The downloads check asks nothing of the service unless the account is configured for it, and both
  loops return at the first shutdown when their requests do, with one note per round.\<close>

theorem check_loops_stop:
  assumes "\<And>rq dec rd w. api_call env rq (dec :: string \<Rightarrow> user option) rd w \<noteq> None"
  shows "(\<exists>notes rd' w'. run_premium_check_loop env (replicate n False @ [True]) rd w = Some (notes, rd', w') \<and>
      length notes = n + 1) \<and>
    (\<not> retain_non_rd_downloads (api (rd_config rd)) \<longrightarrow>
       run_downloads_check_loop dec env (replicate n False @ [True]) rd w = Some (replicate (n + 1) None, rd, w))"
proof -
  have "\<exists>notes rd' w'. run_premium_check_loop env (replicate n False @ [True]) rd w = Some (notes, rd', w') \<and>
      length notes = n + 1" for rd w
  proof (induction n arbitrary: rd w)
    case 0
    obtain res rd1 w1 where "get_user env rd w = Some (res, rd1, w1)"
      using assms [of "api_get rd ''user''" "ne_user env" rd w] by (auto simp: get_user_def)
    then show ?case by simp
  next
    case (Suc n)
    obtain res rd1 w1 where "get_user env rd w = Some (res, rd1, w1)"
      using assms [of "api_get rd ''user''" "ne_user env" rd w] by (auto simp: get_user_def)
    with Suc [of rd1 w1] show ?case by auto
  qed
  moreover have "run_downloads_check_loop dec env (replicate n False @ [True]) rd w = Some (replicate (n + 1) None, rd, w)"
    if "\<not> retain_non_rd_downloads (api (rd_config rd))"
    by (induction n) (use that in simp_all)
  ultimately show ?thesis by blast
qed

theorem deserialize_progress_range: "0 \<le> f \<Longrightarrow> f \<le> 100 \<Longrightarrow> deserialize_progress f \<le> 100 \<and>
    (deserialize_progress f = 100 \<longleftrightarrow> f = 100)"
proof -
  assume f: "0 \<le> f" "f \<le> 100"
  then have b: "0 \<le> \<lfloor>f\<rfloor>" "\<lfloor>f\<rfloor> \<le> 100" by (simp_all add: floor_le_iff)
  then have "deserialize_progress f = nat \<lfloor>f\<rfloor>" by (simp add: deserialize_progress_def)
  moreover have "\<lfloor>f\<rfloor> = 100 \<longleftrightarrow> f = 100" using f by (auto simp: floor_eq_iff)
  moreover have "nat \<lfloor>f\<rfloor> \<le> 100" using b(2) by linarith
  ultimately show ?thesis using b(1) by (auto simp: nat_eq_iff)
qed

end
