(* ===== verification/Rd_Client.thy ===== *)
theory Rd_Client
  imports Service_Frame Request_Frame Link_Heal Account_Watch
begin

text \<open>
  The Real-Debrid client behind the two interfaces that the rest of the program calls: the repair engine,
  the refresh and the filesystem call the service through \<open>rd_api\<close> and \<open>re_unrestrict\<close>; here these are
  the calls of \<^verbatim>\<open>src/src/rd/api\<close> on one client and one unrestrict cache, so that the token pool that one task
  marks is the one that the next task uses. What is kept of them: the client has the tokens of the
  configuration, and a cached link belongs to one of them.
\<close>

section \<open>The client as a service\<close>

text \<open>The libraries and the network the client works with: \<open>ce_status\<close> prints a status (\<^verbatim>\<open>http\<close>), \<open>ce_total\<close> is the header
  \<open>x-total-count\<close> of a reply, of which the network gives the text.\<close>

record ('u, 'w) client_env =
  ce_urls :: "'u url_lib"
  ce_hash :: "string \<Rightarrow> u64"
  ce_net :: "'w network_env"
  ce_status :: "nat \<Rightarrow> string"
  ce_total :: "string \<Rightarrow> string option"

text \<open>What the calls of a task change. A call that never returns sets \<open>cw_stuck\<close>: what the task computes
  from then on does not happen, and whoever runs it discards it.\<close>

record 'w client_world =
  cw_rd :: real_debrid
  cw_uc :: unrestrict_cache
  cw_net :: 'w
  cw_stuck :: bool

definition client_call :: "(real_debrid \<Rightarrow> 'w \<Rightarrow> ((rd_error + 'a) \<times> real_debrid \<times> 'w) option) \<Rightarrow> 'w client_world \<Rightarrow> (rd_error + 'a) \<times> 'w client_world" where
  "client_call f w =
     (case f (cw_rd w) (cw_net w) of
        None \<Rightarrow> (Inl RdCancelled, w\<lparr>cw_stuck := True\<rparr>)
      | Some (r, rd, a) \<Rightarrow> (r, w\<lparr>cw_rd := rd, cw_net := a\<rparr>))"

text \<open>\<open>unrestrict_link\<close> with the cache it is given.\<close>

definition client_unrestrict ::
    "('u, 'w) client_env \<Rightarrow> string \<Rightarrow> unrestrict_cache \<Rightarrow> 'w client_world \<Rightarrow> (rd_error + download) \<times> unrestrict_cache \<times> 'w client_world" where
  "client_unrestrict ce link uc w =
     (case unrestrict_link (ce_hash ce) (ce_net ce) link uc (cw_rd w) (cw_net w) of
        None \<Rightarrow> (Inl RdCancelled, uc, w\<lparr>cw_stuck := True\<rparr>)
      | Some (r, uc', rd, a) \<Rightarrow> (r, uc', w\<lparr>cw_rd := rd, cw_net := a\<rparr>))"

text \<open>The text of a failed verification. \<^verbatim>\<open>anyhow\<close> prints the outermost message of an error: of a failed call
  the context that \<open>verify_head\<close> and \<open>verify_range\<close> add, and not the error below it.\<close>

definition verify_text :: "(nat \<Rightarrow> string) \<Rightarrow> bool \<Rightarrow> verify_error \<Rightarrow> string" where
  "verify_text status ranged e =
     (let name = (if ranged then ''verify_range'' else ''verify_head'')
      in case e of
           VerifyCall _ \<Rightarrow> name
         | VerifyStatus n \<Rightarrow> name @ '': unexpected status '' @ status n)"

definition client_verify :: "('u, 'w) client_env \<Rightarrow> string \<Rightarrow> 'w client_world \<Rightarrow> (string + unit) \<times> 'w client_world" where
  "client_verify ce url w =
     (case verify_link (ce_urls ce) (ce_hash ce) (ce_net ce) url (cw_rd w) (cw_net w) of
        None \<Rightarrow> (Inl [], w\<lparr>cw_stuck := True\<rparr>)
      | Some (r, rd, a) \<Rightarrow>
          (map_sum (verify_text (ce_status ce) (use_range_verification (api (rd_config (cw_rd w))))) id r,
           w\<lparr>cw_rd := rd, cw_net := a\<rparr>))"

text \<open>The text of a failed \<open>get_active_count\<close> is only logged.\<close>

definition client_api :: "('u, 'w) client_env \<Rightarrow> 'w client_world rd_api" where
  "client_api ce =
     \<lparr>api_unrestrict = (\<lambda>link w. case client_unrestrict ce link (cw_uc w) w of (r, uc, w') \<Rightarrow> (r, w'\<lparr>cw_uc := uc\<rparr>)),
      api_verify = client_verify ce,
      api_delete_torrent = (\<lambda>i. client_call (delete_torrent (ce_net ce) i)),
      api_add_magnet = (\<lambda>h. client_call (add_magnet (ce_net ce) h)),
      api_select_files = (\<lambda>i f. client_call (select_torrent_files (ce_net ce) i f)),
      api_torrent_info = (\<lambda>i. client_call (get_torrent_info (ce_net ce) i)),
      api_active_count = (\<lambda>w. case client_call (get_active_count (ce_net ce)) w of
        (r, w') \<Rightarrow> (map_sum (\<lambda>_. ''get_active_count'') id r, w'))\<rparr>"

text \<open>A FUSE request with this client; the world of its other calls is the same.\<close>

definition client_read_env :: "('u, 'w) client_env \<Rightarrow> config \<Rightarrow> 'w client_world read_env \<Rightarrow> 'w client_world read_env" where
  "client_read_env ce cfg env = env\<lparr>re_config := cfg, re_api := client_api ce, re_unrestrict := client_unrestrict ce\<rparr>"

section \<open>Accounts\<close>

text \<open>The client of a configuration: its settings, its credentials and its tokens, each with a mark.\<close>

definition client_ok :: "config \<Rightarrow> real_debrid \<Rightarrow> bool" where
  "client_ok cfg rd \<longleftrightarrow> rd_config rd = cfg \<and> rd_credentials rd = credentials_of cfg \<and>
     tokens_in_order (rd_token_pool rd) = all_download_tokens cfg \<and> pool_inv (rd_token_pool rd)"

text \<open>A link is cached under the token that unrestricted it, one of the configuration.\<close>

definition links_owned :: "config \<Rightarrow> unrestrict_cache \<Rightarrow> bool" where
  "links_owned cfg uc = list_all (\<lambda>((tok, _), (d, _)). tok \<in> set (all_download_tokens cfg) \<and> dl_token d = tok) uc"

lemma client_okD:
  assumes "client_ok cfg rd"
  shows "tp_tokens (rd_token_pool rd) = all_download_tokens cfg" "pool_good (rd_token_pool rd)"
  using assms all_download_tokens_distinct by (simp_all add: client_ok_def tokens_in_order_def pool_good_def)

lemma client_ok_pool:
  assumes "client_ok cfg rd" and "tp_tokens p = tp_tokens (rd_token_pool rd)" and "pool_inv p"
  shows "client_ok cfg (rd\<lparr>rd_token_pool := p\<rparr>)"
  using assms by (simp add: client_ok_def tokens_in_order_def)

lemma rd_new_ok: "rd_new cfg = Some rd \<Longrightarrow> client_ok cfg rd"
  by (auto simp: rd_new_def build_def client_ok_def tokens_in_order_def pool_new_def pool_inv_def split: Option.bind_splits if_splits)

lemma mark_tokens [simp]: "tp_tokens (mark_exhausted t p) = tp_tokens p"
  by (simp add: mark_exhausted_def split: option.split)

text \<open>An exchange moves the rotation and marks tokens, and keeps them.\<close>

definition pool_of :: "string list \<Rightarrow> exec_state \<Rightarrow> bool" where
  "pool_of ts st = (case ex_pool st of None \<Rightarrow> True | Some p \<Rightarrow> tp_tokens p = ts \<and> pool_inv p)"

lemma pool_of_fields [simp]:
  "pool_of ts (st\<lparr>ex_attempt := a\<rparr>) = pool_of ts st" "pool_of ts (st\<lparr>ex_use_fallback := b\<rparr>) = pool_of ts st"
  "pool_of ts (st\<lparr>ex_token_attempts := n\<rparr>) = pool_of ts st"
  by (simp_all add: pool_of_def)

lemma bearer_tokens [simp]: "tp_tokens (snd (download_bearer p)) = tp_tokens p"
  by (simp add: download_bearer_def Let_def split: option.split)

lemma eligible_tokens: "set (eligible_tokens_in_order p) \<subseteq> set (tp_tokens p)"
  by (auto simp: eligible_tokens_in_order_def dest: set_zip_leftD)

lemma active_token_pool:
  assumes "active_token fixed creds st = (tok, st')" and "pool_of ts st"
  shows "pool_of ts st'"
proof (cases fixed)
  case None
  show ?thesis
  proof (cases "ex_pool st")
    case (Some p)
    with None assms(1) have "st' = st\<lparr>ex_pool := Some (snd (download_bearer p))\<rparr>" by (auto simp: active_token_def split: prod.splits)
    with assms(2) Some download_bearer_inv [of p] show ?thesis by (simp add: pool_of_def)
  qed (use assms None in \<open>auto simp: active_token_def\<close>)
qed (use assms in \<open>auto simp: active_token_def\<close>)

lemma cdn_error_pool:
  "pool_of ts st \<Longrightarrow> case exec_cdn_error n tok rsp st of Continue st' \<Rightarrow> pool_of ts st' | Return _ st' \<Rightarrow> pool_of ts st'"
  by (auto simp: exec_cdn_error_def pool_of_def mark_exhausted_inv Let_def split: option.splits)

lemma exec_step_pool:
  assumes "pool_of ts st"
  shows "case exec_step cfg n fixed creds r st of Continue st' \<Rightarrow> pool_of ts st' | Return _ st' \<Rightarrow> pool_of ts st'"
proof -
  obtain tok s1 where a: "active_token fixed creds st = (tok, s1)" by fastforce
  have p: "pool_of ts s1" using active_token_pool [OF a assms] .
  show ?thesis
  proof (cases r)
    case (SendErr e)
    with a p show ?thesis by (simp add: exec_step_def exec_send_error_def)
  next
    case (SendOk rsp)
    have "case exec_api_error cfg rsp s1 of Continue st' \<Rightarrow> pool_of ts st' | Return _ st' \<Rightarrow> pool_of ts st'"
      using p by (auto simp: exec_api_error_def exec_status_error_def Let_def split: option.splits)
    with SendOk a p cdn_error_pool [OF p, of n tok rsp] show ?thesis by (simp add: exec_step_def)
  qed
qed

lemma exec_loop_pool: "pool_of ts st \<Longrightarrow> exec_loop cfg n fixed creds rs st = Some (res, st') \<Longrightarrow> pool_of ts st'"
proof (induction rs arbitrary: st)
  case (Cons r rs)
  from exec_step_pool [OF Cons.prems(1), of cfg n fixed creds r] Cons show ?case
    by (cases "exec_step cfg n fixed creds r st") auto
qed simp

lemma call_client:
  assumes "call env cl bearer mk rd w = Some (res, rd', w')" and "client_ok cfg rd"
  shows "client_ok cfg rd'"
proof -
  let ?ts = "tp_tokens (rd_token_pool rd)"
  obtain rs body v where s: "ne_send env cl bearer mk w = (rs, body, v)" by (metis prod.exhaust)
  from assms(1) s obtain res' st
    where x: "execute_impl (client_config cl rd) (if cl = DownloadClient then Some (rd_token_pool rd) else None) bearer (rd_credentials rd) rs = Some (res', st)"
      and rd': "rd' = (case ex_pool st of None \<Rightarrow> rd | Some p \<Rightarrow> rd\<lparr>rd_token_pool := p\<rparr>)"
    by (auto simp: call_def split: option.splits)
  have i: "pool_of ?ts (exec_init (if cl = DownloadClient then Some (rd_token_pool rd) else None))"
    using assms(2) by (simp add: pool_of_def exec_init_def client_ok_def)
  from x have "pool_of ?ts st" unfolding execute_impl_def by (rule exec_loop_pool [OF i])
  then show ?thesis
    using assms(2) client_ok_pool [OF assms(2)] by (auto simp: rd' pool_of_def split: option.splits)
qed

lemma unrestrict_loop_owned:
  assumes "unrestrict_loop env rq link lb uc rd w = Some (res, uc', rd', w')"
    and "client_ok cfg rd" and "links_owned cfg uc"
  shows "client_ok cfg rd' \<and> links_owned cfg uc'"
  using assms
proof (induction env rq link lb uc rd w "(res, uc', rd', w')" rule: unrestrict_loop_induct)
  case (step loop env rq link lb uc rd w)
  show ?case
  proof (cases "eligible_tokens_in_order (rd_token_pool rd)")
    case Nil
    with step show ?thesis by auto
  next
    case (Cons tok toks)
    then have tok: "tok \<in> set (all_download_tokens cfg)"
      using client_okD(1) [OF step.prems(1)] eligible_tokens [of "rd_token_pool rd"] by auto
    show ?thesis
    proof (cases "cached_fresh (ne_now env w) (tok, link) uc")
      case (Some d)
      with step Cons show ?thesis by auto
    next
      case None
      with step.hyps(2) Cons obtain r rd1 w1 where c: "call env UnrestrictClient (Some tok) (\<lambda>_. rq) rd w = Some (r, rd1, w1)"
        by (auto split: option.splits)
      have ok1: "client_ok cfg rd1" using call_client [OF c step.prems(1)] .
      have mark: "client_ok cfg (rd1\<lparr>rd_token_pool := mark_exhausted tok (rd_token_pool rd1)\<rparr>)"
        using ok1 by (intro client_ok_pool) (auto simp: client_ok_def mark_exhausted_inv)
      have put: "links_owned cfg (AList.update (tok, link) (fetched_download t tok d, t') uc)" for t d t'
        using step.prems(2) tok unfolding links_owned_def by (induction uc) auto
      show ?thesis
      proof (cases r)
        case (Inl e)
        with step c Cons None ok1 mark show ?thesis by (auto split: if_splits)
      next
        case (Inr rb)
        with step c Cons None ok1 put show ?thesis by (auto simp: Let_def split: option.splits prod.splits)
      qed
    qed
  qed
qed

lemma client_unrestrict_owned:
  assumes "client_unrestrict ce link uc w = (r, uc', w')" and "client_ok cfg (cw_rd w)" and "links_owned cfg uc"
  shows "client_ok cfg (cw_rd w') \<and> links_owned cfg uc' \<and> cw_uc w' = cw_uc w"
  using assms unrestrict_loop_owned [of "ce_net ce" _ link None uc "cw_rd w" "cw_net w"]
  by (auto simp: client_unrestrict_def unrestrict_link_def split: option.splits prod.splits)

lemma api_call_client: "api_call env rq dec rd w = Some (res, rd', w') \<Longrightarrow> client_ok cfg rd \<Longrightarrow> client_ok cfg rd'"
  by (auto simp: api_call_def dest: call_client)

lemma verify_link_client: "verify_link ul hs env url rd w = Some (res, rd', w') \<Longrightarrow> client_ok cfg rd \<Longrightarrow> client_ok cfg rd'"
  by (auto simp: verify_link_def verify_head_def verify_range_def split: if_splits dest: call_client)

lemmas api_requests = delete_torrent_def add_magnet_def select_torrent_files_def get_torrent_info_def get_active_count_def

text \<open>When every exchange with the service ends, so does every call.\<close>

definition net_answers :: "'w network_env \<Rightarrow> bool" where
  "net_answers env \<longleftrightarrow> (\<forall>cl bearer mk rd w. call env cl bearer mk rd w \<noteq> None)"

lemma api_call_answers: "net_answers env \<Longrightarrow> \<exists>res rd' w'. api_call env rq dec rd w = Some (res, rd', w')"
  by (simp add: net_answers_def api_call_def) (metis option.exhaust prod_cases3)

lemma unrestrict_answers:
  assumes "net_answers env" and "client_ok cfg rd" and "links_owned cfg uc"
  shows "unrestrict_link hs env link uc rd w \<noteq> None"
proof -
  have "uc_ok uc" using assms(3) by (auto simp: uc_ok_def links_owned_def list_all_iff)
  note post = unrestrict_loop_post [OF client_okD(2) [OF assms(2)] this, of None env _ link w]
  have "\<forall>tok rd w. call env UnrestrictClient (Some tok) (\<lambda>_. rq) rd w \<noteq> None" for rq using assms(1) by (simp add: net_answers_def)
  with post show ?thesis by (simp add: unrestrict_link_def)
qed

text \<open>The world of a task whose client is in order and whose calls have all returned, unless the service
  does not answer.\<close>

definition client_live :: "('u, 'w) client_env \<Rightarrow> config \<Rightarrow> 'w client_world \<Rightarrow> bool" where
  "client_live ce cfg w \<longleftrightarrow> client_ok cfg (cw_rd w) \<and> (net_answers (ce_net ce) \<longrightarrow> \<not> cw_stuck w)"

definition accounts_ok :: "('u, 'w) client_env \<Rightarrow> config \<Rightarrow> 'w client_world \<Rightarrow> bool" where
  "accounts_ok ce cfg w \<longleftrightarrow> client_live ce cfg w \<and> links_owned cfg (cw_uc w)"

lemma client_live_uc [simp]: "client_live ce cfg (w\<lparr>cw_uc := uc\<rparr>) = client_live ce cfg w"
  by (simp add: client_live_def)

lemma client_call_live:
  assumes "client_call f w = (r, w')" and "client_live ce cfg w"
    and "\<And>res rd' a. f (cw_rd w) (cw_net w) = Some (res, rd', a) \<Longrightarrow> client_ok cfg rd' \<or> \<not> client_ok cfg (cw_rd w)"
    and "net_answers (ce_net ce) \<Longrightarrow> \<exists>res rd' a. f (cw_rd w) (cw_net w) = Some (res, rd', a)"
  shows "client_live ce cfg w' \<and> cw_uc w' = cw_uc w"
  using assms by (auto simp: client_live_def client_call_def split: option.splits)

lemma requests_live:
  assumes "client_live ce cfg w"
  shows "client_call (delete_torrent (ce_net ce) i) w = (r, w') \<Longrightarrow> client_live ce cfg w' \<and> cw_uc w' = cw_uc w"
    "client_call (add_magnet (ce_net ce) h) w = (r2, w') \<Longrightarrow> client_live ce cfg w' \<and> cw_uc w' = cw_uc w"
    "client_call (select_torrent_files (ce_net ce) i files) w = (r, w') \<Longrightarrow> client_live ce cfg w' \<and> cw_uc w' = cw_uc w"
    "client_call (get_torrent_info (ce_net ce) i) w = (r3, w') \<Longrightarrow> client_live ce cfg w' \<and> cw_uc w' = cw_uc w"
    "client_call (get_active_count (ce_net ce)) w = (r4, w') \<Longrightarrow> client_live ce cfg w' \<and> cw_uc w' = cw_uc w"
  by (erule client_call_live [OF _ assms]; simp add: api_requests; blast dest: api_call_client api_call_answers)+

lemma client_unrestrict_live:
  assumes "client_unrestrict ce link uc w = (r, uc', w')" and "client_live ce cfg w" and "links_owned cfg uc"
  shows "client_live ce cfg w' \<and> links_owned cfg uc' \<and> cw_uc w' = cw_uc w"
  using assms client_unrestrict_owned [OF assms(1)] unrestrict_answers [of "ce_net ce" cfg "cw_rd w" uc "ce_hash ce" link "cw_net w"]
  by (auto simp: client_live_def client_unrestrict_def split: option.splits)

lemma client_verify_live:
  assumes "client_verify ce url w = (r, w')" and "client_live ce cfg w"
  shows "client_live ce cfg w' \<and> cw_uc w' = cw_uc w"
proof -
  have "net_answers (ce_net ce) \<Longrightarrow> verify_link (ce_urls ce) (ce_hash ce) (ce_net ce) url (cw_rd w) (cw_net w) \<noteq> None"
    by (simp add: verify_link_def verify_head_def verify_range_def net_answers_def del: not_None_eq)
  with assms show ?thesis by (auto simp: client_verify_def client_live_def split: option.splits dest: verify_link_client)
qed

interpretation accounts: service_invariant "client_api ce" "accounts_ok ce cfg" for ce :: "('u, 'w) client_env" and cfg
  by unfold_locales
    (auto simp: client_api_def api_requests accounts_ok_def split: prod.splits
      dest: client_unrestrict_live client_verify_live requests_live)

section \<open>Requests\<close>

text \<open>What a request's \<open>read_at\<close> and the tasks that run during its waits owe to the accounts.\<close>

definition env_keeps_client :: "('u, 'w) client_env \<Rightarrow> config \<Rightarrow> 'w client_world read_env \<Rightarrow> bool" where
  "env_keeps_client ce cfg env \<longleftrightarrow>
     (\<forall>i off len dl c w. client_live ce cfg w \<longrightarrow> client_live ce cfg (snd (snd (re_read_at env i off len dl c w)))) \<and>
     (\<forall>s w. client_live ce cfg w \<and> links_owned cfg (rs_uc s) \<longrightarrow>
        (case re_idle env s w of (_, s', w') \<Rightarrow> client_live ce cfg w' \<and> links_owned cfg (rs_uc s')))"

lemma links_owned_clear:
  "links_owned cfg uc \<Longrightarrow> links_owned cfg (clear_unrestrict_cache tok link uc)"
  "links_owned cfg uc \<Longrightarrow> links_owned cfg (clear_unrestrict_cache_for_source_link link uc)"
  by (auto simp: links_owned_def list_all_iff clear_unrestrict_cache_def clear_unrestrict_cache_for_source_link_def AList.delete_eq)

interpretation clients: request_invariant "client_read_env ce cfg env"
    "\<lambda>s w. env_keeps_client ce cfg env \<longrightarrow> client_live ce cfg w \<and> links_owned cfg (rs_uc s)"
  for ce :: "('u, 'w) client_env" and cfg env
proof (unfold_locales, goal_cases)
  case (3 s w i r w')
  then show ?case by (auto simp: client_read_env_def client_api_def dest: requests_live)
next
  case (4 s w link r uc w')
  then show ?case by (auto simp: client_read_env_def dest: client_unrestrict_live)
next
  case (10 s w i off len dl res c w')
  then show ?case unfolding env_keeps_client_def client_read_env_def by (auto, metis snd_conv)
next
  case (11 s w evs s' w')
  then show ?case unfolding env_keeps_client_def client_read_env_def by (auto split: prod.splits)
qed (auto simp: upd_mgr_def links_owned_clear)

section \<open>Properties\<close>

lemma verify_call_text: "\<not> verify_failed_like_bandwidth (verify_text status ranged (VerifyCall e))"
proof -
  have "\<not> verify_failed_like_bandwidth ''verify_range''" "\<not> verify_failed_like_bandwidth ''verify_head''" by code_simp+
  then show ?thesis by (simp add: verify_text_def)
qed

text \<open>C28: a bandwidth limit met while a link is verified counts as a dead link: whatever error the verifying
  request fails with, the preflight of a repair marks the file broken and goes on, and the passive probe
  counts its slot as unreachable. The text by which both recognise a bandwidth limit is the one of the
  error's context, which never names it, so that neither defers the torrent.\<close>

theorem bandwidth_limit_marks_broken:
  assumes "link_at links i = Some link" and "api_unrestrict (client_api ce) link w = (Inr dl, w1)"
    and "verify_link (ce_urls ce) (ce_hash ce) (ce_net ce) (dl_download dl) (cw_rd w1) (cw_net w1) = Some (Inl (VerifyCall e), rd, a)"
    and "path_looks_playable (f_path f)"
  shows "probe_loop (client_api ce) links i (f # fs) st w =
      probe_loop (client_api ce) links (Suc i) fs (AList.update (f_path f) ''broken'' st) (w1\<lparr>cw_rd := rd, cw_net := a\<rparr>) \<and>
    head_slots (client_api ce) links i (f # fs) n w = head_slots (client_api ce) links (Suc i) fs (n + 1) (w1\<lparr>cw_rd := rd, cw_net := a\<rparr>)"
proof -
  have "api_verify (client_api ce) (dl_download dl) w1 =
      (Inl (verify_text (ce_status ce) (use_range_verification (api (rd_config (cw_rd w1)))) (VerifyCall e)), w1\<lparr>cw_rd := rd, cw_net := a\<rparr>)"
    using assms(3) by (simp add: client_api_def client_verify_def)
  with assms(1,2,4) verify_call_text show ?thesis by simp
qed

text \<open>Both accounts unrestrict the link, and the CDN refuses both for their bandwidth.\<close>

definition limited_net :: "nat network_env" where
  "limited_net = demo_net\<lparr>ne_send := (\<lambda>cl _ _ w.
     (map (\<lambda>_. SendOk \<lparr>rsp_status = (if cl = DownloadClient then 503 else 200), rsp_x_error = Some ''bytes_limit_reached'',
        rsp_content_type = None, rsp_content_range = None, rsp_err_body = None\<rparr>) [0..<2], ''x'', Suc w))\<rparr>"

definition limited_env :: "(string, nat) client_env" where
  "limited_env = \<lparr>ce_urls = demo_ul, ce_hash = (\<lambda>_. 0), ce_net = limited_net, ce_status = show_nat, ce_total = (\<lambda>_. None)\<rparr>"

definition limited_world :: "nat client_world" where
  "limited_world = \<lparr>cw_rd = demo_client, cw_uc = [], cw_net = 0, cw_stuck = False\<rparr>"

theorem bandwidth_limit_marks_broken_witness:
  "\<exists>w'. is_bandwidth_limited (RdDownload BytesLimitReached) \<and>
     probe_loop (client_api limited_env) [''L''] 0 [\<lparr>f_id = 1, f_path = ''/a.mkv'', f_bytes = 5, f_selected = 1\<rparr>] [] limited_world =
       (None, [(''/a.mkv'', ''broken'')], w')"
proof -
  let ?vl = "\<lambda>dl w. verify_link (ce_urls limited_env) (ce_hash limited_env) (ce_net limited_env) (dl_download dl) (cw_rd w) (cw_net w)"
  have "case api_unrestrict (client_api limited_env) ''L'' limited_world of
      (Inr dl, w1) \<Rightarrow> map_option fst (?vl dl w1) = Some (Inl (VerifyCall (RdDownload BytesLimitReached))) | _ \<Rightarrow> False"
    by code_simp
  then obtain dl w1 rd a where u: "api_unrestrict (client_api limited_env) ''L'' limited_world = (Inr dl, w1)"
    and v: "?vl dl w1 = Some (Inl (VerifyCall (RdDownload BytesLimitReached)), rd, a)"
    by (auto split: prod.splits sum.splits)
  have "link_at [''L''] 0 = Some ''L''" "path_looks_playable (f_path \<lparr>f_id = 1, f_path = ''/a.mkv'', f_bytes = 5, f_selected = 1\<rparr>)"
    "is_bandwidth_limited (RdDownload BytesLimitReached)"
    by code_simp+
  with bandwidth_limit_marks_broken [OF this(1) u v this(2), of "[]" "[]" 0] show ?thesis
    unfolding probe_loop.simps(1) by auto
qed

end
