(* ===== verification/Library_Fetch.thy ===== *)
theory Library_Fetch
  imports Rd_Client
begin

text \<open>
  A turn of the refresh loop with the requests it makes (\<^verbatim>\<open>src/src/torrent/refresh/mod.rs\<close>: \<open>get_current_state\<close>,
  \<open>run_refresh_loop\<close>; \<^verbatim>\<open>src/src/rd/api/methods.rs\<close>: \<open>list_torrents\<close>, \<open>list_all_torrents\<close>): the probe, the pages of the
  list through the client, and then the refresh of theory \<open>Refresh\<close>. The tasks that fetch the pages
  after the first run at the same time; \<open>arrive\<close> is the order in which they end.
\<close>

section \<open>Requests\<close>

definition list_page ::
    "('u, 'w) client_env \<Rightarrow> u64 \<Rightarrow> u32 \<Rightarrow> u32 \<Rightarrow> real_debrid \<Rightarrow> 'w \<Rightarrow> ((rd_error + torrent list \<times> u32) \<times> real_debrid \<times> 'w) option" where
  "list_page ce ts page limit rd w =
     map_option (\<lambda>(res, rest).
        (list_torrents (map_sum id (\<lambda>(rsp, body).
           \<lparr>pg_status = rsp_status rsp, pg_total = ce_total ce body, pg_torrents = ne_torrents (ce_net ce) body\<rparr>) res), rest))
       (call (ce_net ce) ApiClient None
          (\<lambda>_. api_get rd (''torrents?_t='' @ show_nat ts @ ''&page='' @ show_nat page @ ''&limit='' @ show_nat limit)) rd w)"

definition client_page :: "('u, 'w) client_env \<Rightarrow> u64 \<Rightarrow> u32 \<Rightarrow> u32 \<Rightarrow> 'w client_world \<Rightarrow> (rd_error + torrent list \<times> u32) \<times> 'w client_world" where
  "client_page ce ts limit page w = client_call (list_page ce ts page limit) w"

text \<open>An error of a page ends the listing; the tasks that still run are aborted.\<close>

fun client_pages ::
    "('u, 'w) client_env \<Rightarrow> u64 \<Rightarrow> u32 \<Rightarrow> nat list \<Rightarrow> 'w client_world \<Rightarrow> (rd_error + (nat \<times> torrent list) list) \<times> 'w client_world" where
  "client_pages ce ts limit [] w = (Inr [], w)"
| "client_pages ce ts limit (p # ps) w =
     (case client_page ce ts limit p w of
        (Inl e, w1) \<Rightarrow> (Inl e, w1)
      | (Inr (page, _), w1) \<Rightarrow>
          (case client_pages ce ts limit ps w1 of (r, w2) \<Rightarrow> (map_sum id ((#) (p, page)) r, w2)))"

definition client_list_all ::
    "('u, 'w) client_env \<Rightarrow> u64 \<Rightarrow> (nat list \<Rightarrow> nat list) \<Rightarrow> 'w client_world \<Rightarrow> (rd_error + torrent list) \<times> 'w client_world" where
  "client_list_all ce ts arrive w =
     (let page_size = fetch_torrents_page_size (api (rd_config (cw_rd w)))
      in case client_page ce ts page_size 1 w of
           (Inl e, w1) \<Rightarrow> (Inl e, w1)
         | (Inr (first_page, tot), w1) \<Rightarrow>
             let total_pages = div_ceil tot (max page_size 1)
             in if tot = 0 \<or> total_pages \<le> 1 then (Inr first_page, w1)
                else
                  (case client_pages ce ts page_size (arrive [2..<total_pages + 1]) w1 of
                     (Inl e, w2) \<Rightarrow> (Inl e, w2)
                   | (Inr results, w2) \<Rightarrow> (Inr (first_page @ concat (map snd (sort_key fst results))), w2)))"

text \<open>An error is a text here, as the loop logs it.\<close>

definition get_current_state :: "('u, 'w) client_env \<Rightarrow> u64 \<Rightarrow> 'w client_world \<Rightarrow> (string + library_state) \<times> 'w client_world" where
  "get_current_state ce ts w =
     (case client_page ce ts 1 1 w of
        (Inl _, w1) \<Rightarrow> (Inl ''list_torrents'', w1)
      | (Inr (first_page, tot), w1) \<Rightarrow>
          (case client_call (get_active_count (ce_net ce)) w1 of
             (Inl _, w2) \<Rightarrow> (Inl ''get_active_count'', w2)
           | (Inr c, w2) \<Rightarrow>
               (Inr \<lparr>ls_total_count = tot, ls_active_count = ac_downloading_count c,
                     ls_first_torrent_id = (case first_page of [] \<Rightarrow> None | t # _ \<Rightarrow> Some (t_id t))\<rparr>, w2)))"

definition refresh_needed :: "library_state option \<Rightarrow> string + library_state \<Rightarrow> bool" where
  "refresh_needed last_state probe =
     (case probe of Inl _ \<Rightarrow> False | Inr cur \<Rightarrow> 0 < ls_active_count cur \<or> last_state \<noteq> Some cur)"

text \<open>The turn: the list is fetched when the probe asks for it. The seconds since 1970 are those of the clock.\<close>

definition refresh_fetched ::
    "tm_env \<Rightarrow> ('u, 'w) client_env \<Rightarrow> repair_config \<Rightarrow> (nat list \<Rightarrow> nat list) \<Rightarrow>
     library_state option \<times> manager \<times> 'w client_world \<Rightarrow> library_state option \<times> manager \<times> 'w client_world" where
  "refresh_fetched tm ce cfg arrive s =
     (let (last_state, mgr, w) = s; ts = nat (te_now tm);
          (probe, w1) = get_current_state ce ts w;
          (listing, w2) = (if refresh_needed last_state probe then client_list_all ce ts arrive w1 else (Inl RdCancelled, w1))
      in refresh_turn tm (client_api ce) cfg probe (map_sum (\<lambda>_. ''list_torrents'') id listing) (last_state, mgr, w2))"

section \<open>Accounts\<close>

lemma client_page_live:
  assumes "client_page ce ts limit page w = (r, w')" and "client_live ce cfg w"
  shows "client_live ce cfg w' \<and> cw_uc w' = cw_uc w"
proof (rule client_call_live [OF assms(1) [unfolded client_page_def] assms(2)])
  fix res rd' a
  assume "list_page ce ts page limit (cw_rd w) (cw_net w) = Some (res, rd', a)"
  then show "client_ok cfg rd' \<or> \<not> client_ok cfg (cw_rd w)" by (auto simp: list_page_def dest: call_client)
next
  assume "net_answers (ce_net ce)"
  then have "list_page ce ts page limit (cw_rd w) (cw_net w) \<noteq> None" by (simp add: list_page_def net_answers_def)
  then show "\<exists>res rd' a. list_page ce ts page limit (cw_rd w) (cw_net w) = Some (res, rd', a)" by (metis option.exhaust prod_cases3)
qed

lemma client_page_accounts:
  "client_page ce ts limit page w = (r, w') \<Longrightarrow> accounts_ok ce cfg w \<Longrightarrow> accounts_ok ce cfg w'"
  by (auto simp: accounts_ok_def dest: client_page_live)

lemma client_pages_accounts:
  "client_pages ce ts limit ps w = (r, w') \<Longrightarrow> accounts_ok ce cfg w \<Longrightarrow> accounts_ok ce cfg w'"
  by (induction ps arbitrary: r w) (auto split: prod.splits sum.splits dest: client_page_accounts)

lemma client_list_accounts:
  "client_list_all ce ts arrive w = (r, w') \<Longrightarrow> accounts_ok ce cfg w \<Longrightarrow> accounts_ok ce cfg w'"
  by (auto simp: client_list_all_def Let_def split: prod.splits sum.splits if_splits dest!: client_page_accounts client_pages_accounts)

lemma current_state_accounts:
  assumes "get_current_state ce ts w = (r, w')" and "accounts_ok ce cfg w"
  shows "accounts_ok ce cfg w'"
proof -
  obtain r1 w1 where p: "client_page ce ts 1 1 w = (r1, w1)" by fastforce
  from client_page_accounts [OF this assms(2)] have 1: "accounts_ok ce cfg w1" .
  obtain r2 w2 where c: "client_call (get_active_count (ce_net ce)) w1 = (r2, w2)" by fastforce
  from requests_live(5) [OF _ this] 1 have "accounts_ok ce cfg w2" by (auto simp: accounts_ok_def)
  with 1 assms(1) p c show ?thesis by (auto simp: get_current_state_def split: sum.splits)
qed

lemma refresh_fetchedE:
  assumes "refresh_fetched tm ce cfg arrive (l, mgr, w) = (l', mgr', w')"
  obtains probe listing w2 where "refresh_turn tm (client_api ce) cfg probe listing (l, mgr, w2) = (l', mgr', w')"
    and "\<And>c. accounts_ok ce c w \<Longrightarrow> accounts_ok ce c w2"
proof -
  obtain probe w1 where p: "get_current_state ce (nat (te_now tm)) w = (probe, w1)" by fastforce
  obtain listing w2 where q: "(if refresh_needed l probe then client_list_all ce (nat (te_now tm)) arrive w1 else (Inl RdCancelled, w1)) = (listing, w2)"
    by fastforce
  have "accounts_ok ce c w2" if "accounts_ok ce c w" for c
    using q current_state_accounts [OF p that] by (auto split: if_splits dest: client_list_accounts)
  with assms p q show thesis
    by (intro that [of probe "map_sum (\<lambda>_. ''list_torrents'') id listing" w2]) (auto simp: refresh_fetched_def)
qed

section \<open>A service that answers\<close>

text \<open>A service that holds the list \<open>xs\<close> while the turn asks for it: it gives its pages and its length, and the
  count of downloads.\<close>

definition serves :: "('u, 'w) client_env \<Rightarrow> u64 \<Rightarrow> u32 \<Rightarrow> torrent list \<Rightarrow> active_count \<Rightarrow> bool" where
  "serves ce ts limit xs c \<longleftrightarrow>
     (\<forall>w. fst (client_page ce ts 1 1 w) = Inr (take 1 xs, length xs)) \<and>
     (\<forall>w page. 1 \<le> page \<and> page \<le> max 1 (div_ceil (length xs) limit) \<longrightarrow>
        fst (client_page ce ts limit page w) = Inr (take limit (drop ((page - 1) * limit) xs), length xs)) \<and>
     (\<forall>w. fst (client_call (get_active_count (ce_net ce)) w) = Inr c)"

definition state_of :: "torrent list \<Rightarrow> active_count \<Rightarrow> library_state" where
  "state_of xs c = \<lparr>ls_total_count = length xs, ls_active_count = ac_downloading_count c,
     ls_first_torrent_id = (case xs of [] \<Rightarrow> None | t # _ \<Rightarrow> Some (t_id t))\<rparr>"

lemma current_state_served:
  assumes "serves ce ts limit xs c"
  shows "fst (get_current_state ce ts w) = Inr (state_of xs c)"
proof -
  obtain r1 w1 where p: "client_page ce ts 1 1 w = (r1, w1)" by fastforce
  obtain r2 w2 where q: "client_call (get_active_count (ce_net ce)) w1 = (r2, w2)" by fastforce
  have "fst (client_page ce ts 1 1 w) = Inr (take 1 xs, length xs)" "fst (client_call (get_active_count (ce_net ce)) w1) = Inr c"
    using assms by (simp_all add: serves_def)
  with p q show ?thesis by (cases xs) (simp_all add: get_current_state_def state_of_def)
qed

lemma client_pages_served:
  "(\<And>p w. p \<in> set ps \<Longrightarrow> fst (client_page ce ts limit p w) = Inr (sl p, n)) \<Longrightarrow>
     fst (client_pages ce ts limit ps w) = Inr (map (\<lambda>p. (p, sl p)) ps)"
proof (induction ps arbitrary: w)
  case (Cons p ps)
  obtain r1 w1 where p: "client_page ce ts limit p w = (r1, w1)" by fastforce
  with Cons.prems [of p w] have "r1 = Inr (sl p, n)" by simp
  moreover have "fst (client_pages ce ts limit ps w1) = Inr (map (\<lambda>p. (p, sl p)) ps)" by (rule Cons.IH) (simp add: Cons.prems)
  ultimately show ?case using p by (auto split: prod.splits)
qed simp

lemma client_list_served:
  assumes "serves ce ts limit xs c" and "limit = fetch_torrents_page_size (api (rd_config (cw_rd w)))" and "0 < limit"
    and "\<And>ps. mset (arrive ps) = mset ps"
  shows "fst (client_list_all ce ts arrive w) = Inr xs"
proof -
  let ?n = "div_ceil (length xs) limit" and ?sl = "\<lambda>p. take limit (drop ((p - 1) * limit) xs)"
  have page: "fst (client_page ce ts limit p w') = Inr (?sl p, length xs)" if "1 \<le> p" "p \<le> max 1 ?n" for p w'
    using assms(1) that by (simp add: serves_def)
  obtain r1 w1 where p: "client_page ce ts limit 1 w = (r1, w1)" by fastforce
  with page [of 1 w] have r1: "r1 = Inr (take limit xs, length xs)" by simp
  have m: "max limit 1 = limit" using assms(3) by simp
  show ?thesis
  proof (cases "length xs = 0 \<or> ?n \<le> 1")
    case True
    with div_ceil_covers [OF assms(3), of "length xs"] have "length xs \<le> limit" by (cases ?n) auto
    with True p r1 m show ?thesis by (simp add: client_list_all_def assms(2) [symmetric] Let_def)
  next
    case False
    have "set (arrive [2..<?n + 1]) = set [2..<?n + 1]" using assms(4) by (metis set_mset_mset)
    then have "fst (client_pages ce ts limit (arrive [2..<?n + 1]) w1) = Inr (map (\<lambda>p. (p, ?sl p)) (arrive [2..<?n + 1]))"
      by (intro client_pages_served [where n = "length xs"] page) auto
    then obtain w2 where "client_pages ce ts limit (arrive [2..<?n + 1]) w1 = (Inr (map (\<lambda>p. (p, ?sl p)) (arrive [2..<?n + 1])), w2)"
      by (metis prod.collapse)
    with False p r1 m pages_join [OF assms(3) refl _ assms(4), of xs] show ?thesis
      by (simp add: client_list_all_def assms(2) [symmetric] Let_def del: upt_Suc)
  qed
qed

section \<open>Property\<close>

text \<open>C19: a turn of the refresh loop makes the library that of the service. While the service holds the list
  \<open>xs\<close> and answers, in whatever order the pages arrive: when nothing downloads and the probe shows what it showed at
  the last refresh, the turn leaves the library as it is; otherwise the library has afterwards, under
  the keys of the listed torrents that are not in error, exactly their ids with the status and progress of the one
  furthest on, and under other keys only what is under repair; and the probe is remembered unless the
  database failed.\<close>

theorem refresh_follows_service:
  assumes "accounts_ok ce cfg w" and "serves ce (nat (te_now tm)) (fetch_torrents_page_size (api cfg)) xs c"
    and "0 < fetch_torrents_page_size (api cfg)" and "\<And>ps. mset (arrive ps) = mset ps"
    and "\<forall>k m. get_mt mgr k = Some m \<longrightarrow> distinct (mt_rd_ids m)"
    and "refresh_fetched tm ce rc arrive (l, mgr, w) = (l', mgr', w')"
    and "fresh = filter (\<lambda>t. \<not> errored_status (t_status t)) xs"
  shows "if ac_downloading_count c = 0 \<and> l = Some (state_of xs c) then l' = l \<and> mgr' = mgr
    else
      (\<forall>k \<in> torrent_key ` set fresh. \<exists>m t. get_mt mgr' k = Some m \<and> set (mt_rd_ids m) = ids_for k fresh \<and>
         t \<in> set fresh \<and> torrent_key t = k \<and> (\<forall>x \<in> set fresh. torrent_key x = k \<longrightarrow> t_progress x \<le> t_progress t) \<and>
         t_status (mt_torrent m) = t_status t \<and> t_progress (mt_torrent m) = t_progress t) \<and>
      (\<forall>k. k \<notin> torrent_key ` set fresh \<longrightarrow> get_mt mgr' k =
         (case get_mt mgr k of Some m \<Rightarrow> if mt_state m = UnderRepair then Some m else None | None \<Rightarrow> None)) \<and>
      l' = (case fst (sync_library tm fresh mgr) of Inl _ \<Rightarrow> l | Inr _ \<Rightarrow> Some (state_of xs c))"
proof -
  let ?ts = "nat (te_now tm)" and ?st = "state_of xs c"
  obtain w1 where p: "get_current_state ce ?ts w = (Inr ?st, w1)"
    using current_state_served [OF assms(2), of w] by (metis prod.collapse)
  have "client_ok cfg (cw_rd w1)" using current_state_accounts [OF p assms(1)] by (simp add: accounts_ok_def client_live_def)
  then have "fst (client_list_all ce ?ts arrive w1) = Inr xs"
    using client_list_served [OF assms(2) _ assms(3,4), of w1] by (simp add: client_ok_def)
  then obtain w2 where q: "client_list_all ce ?ts arrive w1 = (Inr xs, w2)" by (metis prod.collapse)
  have active: "ls_active_count ?st = ac_downloading_count c" by (simp add: state_of_def)
  show ?thesis
  proof (cases "ac_downloading_count c = 0 \<and> l = Some ?st")
    case True
    with assms(6) p active show ?thesis by (simp add: refresh_fetched_def refresh_needed_def refresh_turn_def)
  next
    case False
    obtain r mgr1 where sync: "sync_library tm fresh mgr = (r, mgr1)" by fastforce
    from False p q active have "refresh_fetched tm ce rc arrive (l, mgr, w) =
        refresh_turn tm (client_api ce) rc (Inr ?st) (Inr xs) (l, mgr, w2)"
      by (auto simp: refresh_fetched_def refresh_needed_def)
    with assms(6,7) False active sync have t: "mgr' = mgr1 \<and> l' = (case r of Inl _ \<Rightarrow> l | Inr _ \<Rightarrow> Some ?st)"
      by (auto simp: refresh_turn_def run_once_def Let_def split: sum.splits)
    then have m: "mgr' = mgr1" by simp
    from t sync have l: "l' = (case fst (sync_library tm fresh mgr) of Inl _ \<Rightarrow> l | Inr _ \<Rightarrow> Some ?st)" by simp
    show ?thesis unfolding if_not_P [OF False] m
      by (intro conjI ballI allI impI) (erule sync_listed [OF assms(5) sync], erule sync_unlisted [OF sync], rule l)
  qed
qed

text \<open>A service with one torrent, which downloads.\<close>

definition demo_count :: active_count where
  "demo_count = \<lparr>ac_downloading_count = 1, ac_max_number_of_torrents = 10\<rparr>"

definition demo_ce :: "(string, nat) client_env" where
  "demo_ce = \<lparr>ce_urls = demo_ul, ce_hash = (\<lambda>_. 0),
     ce_net = demo_net\<lparr>ne_torrents := (\<lambda>_. Some [demo_torrent\<lparr>t_hash := ''g''\<rparr>]), ne_active_count := (\<lambda>_. Some demo_count)\<rparr>,
     ce_status = show_nat, ce_total = (\<lambda>_. Some ''1'')\<rparr>"

lemma demo_call:
  "call (ce_net demo_ce) ApiClient None mk rd a =
     Some (Inr (\<lparr>rsp_status = 200, rsp_x_error = None, rsp_content_type = Some ''application/json'', rsp_content_range = None,
       rsp_err_body = Some (Some (''traffic_exhausted'', 23))\<rparr>, ''x''), rd, Suc a)"
  by (simp add: demo_ce_def call_def demo_net_def execute_impl_def exec_step_def active_token_def exec_init_def is_success_def Let_def)

lemma demo_page: "fst (client_page demo_ce ts limit page w) = Inr ([demo_torrent\<lparr>t_hash := ''g''\<rparr>], 1)"
proof -
  have "parse_u32 ''1'' = Some 1" by code_simp
  then show ?thesis
    by (simp add: client_page_def client_call_def list_page_def demo_call list_torrents_def) (simp add: demo_ce_def)
qed

lemma demo_serves:
  assumes "0 < limit"
  shows "serves demo_ce ts limit [demo_torrent\<lparr>t_hash := ''g''\<rparr>] demo_count"
proof -
  have "div_ceil 1 limit \<le> 1" using assms by (simp add: div_ceil_def)
  moreover have "fst (client_call (get_active_count (ce_net demo_ce)) w) = Inr demo_count" for w
    by (simp add: client_call_def get_active_count_def api_call_def demo_call decoded_def) (simp add: demo_ce_def)
  ultimately show ?thesis using assms by (auto simp: serves_def demo_page le_Suc_eq)
qed

theorem refresh_follows_service_witness:
  "\<exists>l' mgr' w'. refresh_fetched demo_tm_env demo_ce repair_config_default rev
      (None, demo_mgr, \<lparr>cw_rd = demo_client, cw_uc = [], cw_net = 0, cw_stuck = False\<rparr>) = (l', mgr', w') \<and>
     get_mt demo_mgr ''h/n'' \<noteq> None \<and> get_mt mgr' ''h/n'' = None \<and> get_mt mgr' ''g/n'' \<noteq> None"
proof -
  let ?xs = "[demo_torrent\<lparr>t_hash := ''g''\<rparr>]" and ?w = "\<lparr>cw_rd = demo_client, cw_uc = [], cw_net = 0, cw_stuck = False\<rparr>"
  obtain l' mgr' w' where run: "refresh_fetched demo_tm_env demo_ce repair_config_default rev (None, demo_mgr, ?w) = (l', mgr', w')"
    by (metis prod_cases3)
  have "rd_new demo_rd_config \<noteq> None" by code_simp
  then have "client_ok demo_rd_config demo_client" by (auto simp: demo_client_def intro: rd_new_ok)
  then have acc: "accounts_ok demo_ce demo_rd_config ?w" by (simp add: accounts_ok_def client_live_def links_owned_def)
  have ps: "0 < fetch_torrents_page_size (api demo_rd_config)" by code_simp
  have keys: "torrent_key ` set ?xs = {''g/n''}" "filter (\<lambda>t. \<not> errored_status (t_status t)) ?xs = ?xs" by code_simp+
  from refresh_follows_service [OF acc demo_serves [OF ps] ps _ demo_mgr_ids run refl] keys
  have "(\<exists>m. get_mt mgr' ''g/n'' = Some m) \<and> get_mt mgr' ''h/n'' =
      (case get_mt demo_mgr ''h/n'' of Some m \<Rightarrow> if mt_state m = UnderRepair then Some m else None | None \<Rightarrow> None)"
    by auto
  moreover have "\<exists>m. get_mt demo_mgr ''h/n'' = Some m \<and> mt_state m = Broken" by (simp add: demo_mgr_get loaded_torrent_def demo_row_def)
  ultimately show ?thesis using run by auto
qed

end
