(* ===== verification/Service.thy ===== *)
theory Service
  imports Repair_Engine Rd_Api
begin

text \<open>
  The background tasks of the process: the debounced library hook (\<^verbatim>\<open>src/src/torrent/hook.rs\<close>), the daily
  bandwidth reset (\<^verbatim>\<open>src/src/rd/bandwidth_reset.rs\<close>), and what \<^verbatim>\<open>src/src/main.rs\<close> does itself: hot reload,
  the maintenance loops, the detection of a stale mount and the options of the repair command.

  The shell is what it is asked to run. Time zones and date formats (\<^verbatim>\<open>chrono\<close>) are the parameter
  \<open>tz_lib\<close>; a date is the number of a day and an instant a number of seconds.
\<close>

section \<open>The library hook\<close>

text \<open>Times in milliseconds. The set of pending paths is a list without repetitions.\<close>

definition DEBOUNCE_WAIT :: nat where "DEBOUNCE_WAIT = 500"

record hook_state =
  hk_pending :: "string list"
  hk_deadline :: "nat option"

definition hook_start :: hook_state where
  "hook_start = \<lparr>hk_pending = [], hk_deadline = None\<rparr>"

text \<open>\<open>None\<close> is a closed channel.\<close>

datatype hook_event = HookShutdown | HookTimer nat | HookRecv nat "string list option"

text \<open>The paths to trigger, the state, and whether the worker goes on. The timer is a branch only while
  there is a deadline, and completes once the deadline has passed.\<close>

fun hook_step :: "hook_event \<Rightarrow> hook_state \<Rightarrow> string list \<times> hook_state \<times> bool" where
  "hook_step HookShutdown s = ([], s, False)"
| "hook_step (HookTimer now) s =
     (case hk_deadline s of
        None \<Rightarrow> ([], s, True)
      | Some d \<Rightarrow> if now < d then ([], s, True) else (hk_pending s, \<lparr>hk_pending = [], hk_deadline = None\<rparr>, True))"
| "hook_step (HookRecv now None) s = ([], s, False)"
| "hook_step (HookRecv now (Some paths)) s =
     ([], \<lparr>hk_pending = fold List.insert paths (hk_pending s), hk_deadline = Some (now + DEBOUNCE_WAIT)\<rparr>, True)"

text \<open>\<open>str::replace\<close> of \<open>%s\<close>.\<close>

fun replace_path :: "string \<Rightarrow> string \<Rightarrow> string" where
  "replace_path p (a # b # r) =
     (if a = CHR ''%'' \<and> b = CHR ''s'' then p @ replace_path p r else a # replace_path p (b # r))"
| "replace_path p r = r"

text \<open>The commands given to the shell; a failure is only logged.\<close>

definition execute_hook :: "string \<Rightarrow> string list \<Rightarrow> string list" where
  "execute_hook template paths =
     (if template = [] then []
      else if \<not> str_contains template ''%s'' then [template]
      else map (\<lambda>p. replace_path p template) paths)"

definition hook_commands :: "string \<Rightarrow> string list \<Rightarrow> string list" where
  "hook_commands template paths = (if paths = [] then [] else execute_hook template paths)"

text \<open>A run: the batches it triggered, in order, and its last state.\<close>

fun hook_run :: "hook_event list \<Rightarrow> hook_state \<Rightarrow> string list list \<times> hook_state" where
  "hook_run [] s = ([], s)"
| "hook_run (e # es) s =
     (case hook_step e s of
        (paths, s1, go) \<Rightarrow>
          let out = (if paths = [] then [] else [paths])
          in if go then (case hook_run es s1 of (bs, s2) \<Rightarrow> (out @ bs, s2)) else (out, s1))"

section \<open>The daily reset\<close>

text \<open>For the zone of a name, malformed names falling back to \<open>Europe/Paris\<close>: the local date of an instant
  and the instant of a date's midnight (the later one, when there are two; none in a gap).\<close>

record tz_lib =
  tz_date :: "string \<Rightarrow> int \<Rightarrow> int"
  tz_midnight :: "string \<Rightarrow> int \<Rightarrow> int option"
  date_format :: "int \<Rightarrow> string"
  date_parse :: "string \<Rightarrow> int option"

definition duration_until_timezone_midnight :: "tz_lib \<Rightarrow> string \<Rightarrow> int \<Rightarrow> nat" where
  "duration_until_timezone_midnight lib tz now =
     (let to_std = (\<lambda>z. if now \<le> z then nat (z - now) else 3600)
      in case tz_midnight lib tz (tz_date lib tz now) of
           None \<Rightarrow> 3600
         | Some z \<Rightarrow>
             if z \<le> now
             then (case tz_midnight lib tz (tz_date lib tz now + 1) of None \<Rightarrow> 3600 | Some z' \<Rightarrow> to_std z')
             else to_std z)"

text \<open>The stamp file is its content, when it can be read.\<close>

definition startup_reset_needed :: "tz_lib \<Rightarrow> string \<Rightarrow> int \<Rightarrow> string option \<Rightarrow> bool" where
  "startup_reset_needed lib tz now stamp =
     (case Option.bind stamp (\<lambda>s. date_parse lib (str_trim s)) of
        Some d \<Rightarrow> \<not> tz_date lib tz now \<le> d
      | None \<Rightarrow> True)"

definition stamp_reset :: "tz_lib \<Rightarrow> bool \<Rightarrow> string \<Rightarrow> int \<Rightarrow> string option \<Rightarrow> string option" where
  "stamp_reset lib ok tz now stamp = (if ok then Some (date_format lib (tz_date lib tz now)) else stamp)"

text \<open>The two halves of a turn of the loop in \<^verbatim>\<open>main.rs\<close>: the catch-up before the sleep, and the reset after
  it.\<close>

definition reset_catch_up :: "tz_lib \<Rightarrow> bool \<Rightarrow> string \<Rightarrow> int \<Rightarrow> token_pool \<times> string option \<Rightarrow> token_pool \<times> string option" where
  "reset_catch_up lib ok tz now s =
     (case s of (pool, stamp) \<Rightarrow>
        if startup_reset_needed lib tz now stamp then (clear_all_exhausted pool, stamp_reset lib ok tz now stamp) else (pool, stamp))"

definition reset_at_midnight :: "tz_lib \<Rightarrow> bool \<Rightarrow> string \<Rightarrow> int \<Rightarrow> token_pool \<times> string option \<Rightarrow> token_pool \<times> string option" where
  "reset_at_midnight lib ok tz now s =
     (case s of (pool, stamp) \<Rightarrow> (clear_all_exhausted pool, stamp_reset lib ok tz now stamp))"

section \<open>Hot reload\<close>

record service =
  sv_config :: config
  sv_rd :: real_debrid
  sv_unrestrict :: unrestrict_cache

text \<open>After the debounce. \<open>None\<close> is the panic of an empty token list.\<close>

definition apply_reload :: "config \<Rightarrow> service \<Rightarrow> service option" where
  "apply_reload updated s =
     (let tokens_changed = (token (sv_config s) \<noteq> token updated \<or> download_tokens (sv_config s) \<noteq> download_tokens updated)
      in map_option (\<lambda>rd. s\<lparr>sv_rd := reload_config updated rd,
             sv_unrestrict := (if tokens_changed then clear_unrestrict_cache_all (sv_unrestrict s) else sv_unrestrict s),
             sv_config := updated\<rparr>)
           (reload_credentials updated (sv_rd s)))"

section \<open>Maintenance loops\<close>

text \<open>An interval of zero minutes disables the task and looks again in a minute.\<close>

definition interval_sleep_secs :: "u64 \<Rightarrow> u64" where
  "interval_sleep_secs mins = (if mins = 0 then 60 else sat_mul64 mins 60)"

definition reprobe_turn ::
    "cdn_codec \<Rightarrow> network \<Rightarrow> u64 \<Rightarrow> bool \<Rightarrow> bool \<Rightarrow> service \<times> cdn_files \<Rightarrow> (service \<times> cdn_files) option" where
  "reprobe_turn cd nw now ok1 ok2 s =
     (case s of (sv, fs) \<Rightarrow>
        if cdn_reprobe_interval_mins (api (sv_config sv)) = 0 then Some (sv, fs)
        else
          map_option (\<lambda>fs1.
              (case try_load cd now fs1 (api (sv_config sv)) of
                 None \<Rightarrow> sv
               | Some pin \<Rightarrow> sv\<lparr>sv_rd := (sv_rd sv)\<lparr>rd_ranked_hosts := Some pin\<rparr>\<rparr>, fs1))
            (run_fresh_network_test cd nw now ok1 ok2 fs))"

definition sweep_turn :: "int \<Rightarrow> service \<Rightarrow> service" where
  "sweep_turn now sv =
     (if unrestrict_cache_sweep_interval_mins (api (sv_config sv)) = 0 then sv
      else sv\<lparr>sv_unrestrict := snd (sweep_unrestrict_cache_expired now UNRESTRICT_CACHE_TTL (sv_unrestrict sv))\<rparr>)"

text \<open>With the seconds until the next turn.\<close>

definition traffic_turn :: "'w network_env \<Rightarrow> service \<times> 'w \<Rightarrow> (u64 \<times> service \<times> 'w) option" where
  "traffic_turn env s =
     (case s of (sv, w) \<Rightarrow>
        let secs = traffic_details_refresh_secs (api (sv_config sv))
        in if secs = 0 then Some (60, sv, w)
           else map_option (\<lambda>(rd, w1). (max secs 1, sv\<lparr>sv_rd := rd\<rparr>, w1)) (refresh_traffic_details_snapshot env (sv_rd sv) w))"

section \<open>The stale mount\<close>

fun split_once :: "string \<Rightarrow> string \<Rightarrow> (string \<times> string) option" where
  "split_once sep [] = None"
| "split_once sep (c # r) =
     (if starts_with (c # r) sep then Some ([], drop (length sep) (c # r))
      else map_option (\<lambda>(a, b). (c # a, b)) (split_once sep r))"

function split_whitespace :: "string \<Rightarrow> string list" where
  "split_whitespace [] = []"
| "split_whitespace (c # r) =
     (if is_space c then split_whitespace r
      else (c # takeWhile (\<lambda>x. \<not> is_space x) r) # split_whitespace (dropWhile (\<lambda>x. \<not> is_space x) r))"
  by pat_completeness auto
termination
  by (relation "measure length") (auto intro: le_imp_less_Suc length_dropWhile_le)

text \<open>\<open>mountinfo\<close> escapes a space as a backslash and \<open>040\<close>.\<close>

fun unescape_spaces :: "string \<Rightarrow> string" where
  "unescape_spaces (a # b # c # d # r) =
     (if a = char_of (92 :: nat) \<and> b = CHR ''0'' \<and> c = CHR ''4'' \<and> d = CHR ''0''
      then CHR '' '' # unescape_spaces r else a # unescape_spaces (b # c # d # r))"
| "unescape_spaces r = r"

definition fuse_mount_line :: "string \<Rightarrow> string \<Rightarrow> bool" where
  "fuse_mount_line path line =
     (case split_once '' - '' line of
        None \<Rightarrow> False
      | Some (pre, post) \<Rightarrow>
          let parts = split_whitespace pre
          in if 5 \<le> length parts
             then unescape_spaces (parts ! 4) = path \<and>
                  starts_with (case split_whitespace post of [] \<Rightarrow> [] | t # _ \<Rightarrow> t) ''fuse''
             else False)"

definition is_fuse_mount :: "string \<Rightarrow> string option \<Rightarrow> bool" where
  "is_fuse_mount path mountinfo =
     (if path = [] then False
      else case mountinfo of None \<Rightarrow> False | Some s \<Rightarrow> list_ex (fuse_mount_line path) (str_lines s))"

section \<open>The commands\<close>

record repair_cli =
  rc_clear_unrepairable :: bool
  rc_periodic_eligible :: bool
  rc_all :: bool

datatype start_error = StartConfig config_error | StartClient | StartDb db_error | StartCache | StartMountPath | StartMount

section \<open>Lemmas\<close>

fun received :: "hook_event list \<Rightarrow> string set" where
  "received [] = {}"
| "received (HookShutdown # es) = {}"
| "received (HookTimer _ # es) = received es"
| "received (HookRecv _ None # es) = {}"
| "received (HookRecv _ (Some ps) # es) = set ps \<union> received es"

lemma fold_list_insert: "set (fold List.insert ps qs) = set ps \<union> set qs" "distinct qs \<Longrightarrow> distinct (fold List.insert ps qs)"
  by (induction ps arbitrary: qs) auto

lemma hook_step_paths:
  assumes "hook_step e s = (ps, s1, go)" and "distinct (hk_pending s)"
  shows "distinct ps \<and> distinct (hk_pending s1) \<and>
    set ps \<union> set (hk_pending s1) \<union> (if go then received es else {}) = set (hk_pending s) \<union> received (e # es)"
proof (cases e)
  case (HookTimer now)
  with assms show ?thesis by (auto split: option.splits if_splits)
next
  case (HookRecv now m)
  with assms show ?thesis by (cases m) (auto simp: fold_list_insert)
qed (use assms in auto)

lemma hook_run_paths:
  "hook_run es s = (bs, s') \<Longrightarrow> distinct (hk_pending s) \<Longrightarrow>
     set (concat bs) \<union> set (hk_pending s') = set (hk_pending s) \<union> received es \<and> list_all (\<lambda>b. b \<noteq> [] \<and> distinct b) bs"
proof (induction es arbitrary: s bs)
  case (Cons e es)
  obtain ps s1 go where st: "hook_step e s = (ps, s1, go)" by (metis prod.exhaust)
  note sp = hook_step_paths [OF st Cons.prems(2), of es]
  obtain bs1 s2 where r: "hook_run es s1 = (bs1, s2)" by fastforce
  show ?case
  proof (cases go)
    case True
    with Cons.prems(1) st r have b: "bs = (if ps = [] then [] else [ps]) @ bs1" "hook_run es s1 = (bs1, s')" by simp_all
    from sp have "distinct (hk_pending s1)" by simp
    from Cons.IH [OF b(2) this] sp True show ?thesis unfolding b(1) by auto
  next
    case False
    with Cons.prems(1) st have "bs = (if ps = [] then [] else [ps])" "s' = s1" by simp_all
    with sp False show ?thesis by auto
  qed
qed simp

lemma hook_timers_early:
  "list_all (\<lambda>t. t < d) ts \<Longrightarrow> hk_deadline s = Some d \<Longrightarrow> hook_run (map HookTimer ts) s = ([], s)"
  by (induction ts) auto

lemma split_once_Some: "split_once sep s = Some (a, b) \<Longrightarrow> s = a @ sep @ b"
  by (induction s arbitrary: a) (auto simp: starts_with_iff split: if_splits)

section \<open>Properties\<close>

text \<open>The hook worker loses no path and debounces. Over any run, the paths of the batches it triggered and
  those still pending are exactly the paths it received, and no batch is empty or names a path twice;
  and within 500 ms of a message no timer triggers a batch.\<close>

theorem hook_debounces_without_loss:
  assumes "hook_run es hook_start = (bs, s)" and "list_all (\<lambda>t. t < now + DEBOUNCE_WAIT) ts"
  shows "set (concat bs) \<union> set (hk_pending s) = received es \<and> list_all (\<lambda>b. b \<noteq> [] \<and> distinct b) bs \<and>
    fst (hook_run (HookRecv now (Some ps) # map HookTimer ts) s) = []"
proof -
  have "set (concat bs) \<union> set (hk_pending s) = received es \<and> list_all (\<lambda>b. b \<noteq> [] \<and> distinct b) bs"
    using hook_run_paths [OF assms(1)] by (simp add: hook_start_def)
  moreover have "fst (hook_run (HookRecv now (Some ps) # map HookTimer ts) s) = []"
    using hook_timers_early [OF assms(2), of "fst (snd (hook_step (HookRecv now (Some ps)) s))"] by simp
  ultimately show ?thesis by blast
qed

theorem hook_debounces_without_loss_witness:
  "fst (hook_run [HookRecv 100 (Some [''__all__/b'']), HookTimer 250, HookTimer 599]
     (snd (hook_run [HookRecv 0 (Some [''__all__/a'', ''__all__/a'']), HookTimer 500] hook_start))) = []"
proof -
  have r: "hook_run [HookRecv 0 (Some [''__all__/a'', ''__all__/a'']), HookTimer 500] hook_start =
      ([[''__all__/a'']], \<lparr>hk_pending = [], hk_deadline = None\<rparr>)" by code_simp
  have t: "list_all (\<lambda>t. t < 100 + DEBOUNCE_WAIT) [250, 599]" by code_simp
  from hook_debounces_without_loss [OF r t, of "[''__all__/b'']"] show ?thesis unfolding r by simp
qed

text \<open>What the documentation of \<^verbatim>\<open>chrono\<close> promises of a zone without gaps and repetitions at midnight: every
  date has a midnight, and an instant has reached the date when it has reached its midnight. A date
  that is printed reads back.\<close>

definition tz_regular :: "tz_lib \<Rightarrow> string \<Rightarrow> bool" where
  "tz_regular lib tz \<longleftrightarrow> (\<forall>d. \<exists>z. tz_midnight lib tz d = Some z \<and> (\<forall>t. z \<le> t \<longleftrightarrow> d \<le> tz_date lib tz t))"

definition date_law :: "tz_lib \<Rightarrow> bool" where
  "date_law lib \<longleftrightarrow> (\<forall>d. date_parse lib (str_trim (date_format lib d)) = Some d)"

lemma midnight_ends_day:
  assumes "tz_regular lib tz"
  shows "0 < duration_until_timezone_midnight lib tz now \<and>
    tz_date lib tz now < tz_date lib tz (now + int (duration_until_timezone_midnight lib tz now)) \<and>
    (\<forall>t. now \<le> t \<and> t < now + int (duration_until_timezone_midnight lib tz now) \<longrightarrow> tz_date lib tz t = tz_date lib tz now)"
proof -
  let ?d = "tz_date lib tz now"
  obtain z where z: "tz_midnight lib tz ?d = Some z" "\<And>t. z \<le> t \<longleftrightarrow> ?d \<le> tz_date lib tz t" using assms by (auto simp: tz_regular_def)
  obtain z' where z': "tz_midnight lib tz (?d + 1) = Some z'" "\<And>t. z' \<le> t \<longleftrightarrow> ?d + 1 \<le> tz_date lib tz t" using assms by (auto simp: tz_regular_def)
  have "z \<le> now" using z(2) by simp
  moreover have lt: "now < z'" using z'(2) [of now] by linarith
  ultimately have dur: "now + int (duration_until_timezone_midnight lib tz now) = z'" "0 < duration_until_timezone_midnight lib tz now"
    using z(1) z'(1) by (simp_all add: duration_until_timezone_midnight_def)
  have "tz_date lib tz t = ?d" if "now \<le> t" "t < z'" for t
  proof -
    have "?d \<le> tz_date lib tz t" using z(2) [of t] that(1) \<open>z \<le> now\<close> by simp
    moreover have "\<not> ?d + 1 \<le> tz_date lib tz t" using z'(2) [of t] that(2) by simp
    ultimately show ?thesis by linarith
  qed
  moreover have "?d < tz_date lib tz z'" using z'(2) [of z'] by simp
  ultimately show ?thesis unfolding dur(1) using dur(2) by blast
qed


text \<open>Universal time, with a date printed in unary.\<close>

definition utc_lib :: tz_lib where
  "utc_lib = \<lparr>tz_date = (\<lambda>_ t. t div 86400), tz_midnight = (\<lambda>_ d. Some (86400 * d)),
     date_format = (\<lambda>d. (if d < 0 then CHR ''-'' else CHR ''+'') # replicate (nat \<bar>d\<bar>) (CHR ''x'')),
     date_parse = (\<lambda>s. case s of [] \<Rightarrow> None | c # r \<Rightarrow> Some (if c = CHR ''-'' then - int (length r) else int (length r)))\<rparr>"

lemma utc_regular: "tz_regular utc_lib tz"
proof -
  have "86400 * d \<le> t \<longleftrightarrow> d \<le> t div 86400" for d t :: int
  proof -
    have "t = 86400 * (t div 86400) + t mod 86400" "0 \<le> t mod 86400" "t mod 86400 < 86400" by simp_all
    then show ?thesis by linarith
  qed
  then show ?thesis by (auto simp: tz_regular_def utc_lib_def)
qed

lemma str_trim_no_space: "list_all (\<lambda>c. \<not> is_space c) s \<Longrightarrow> str_trim s = s"
proof -
  assume a: "list_all (\<lambda>c. \<not> is_space c) s"
  have drop_none: "dropWhile is_space r = r" if "list_all (\<lambda>c. \<not> is_space c) r" for r using that by (cases r) simp_all
  show ?thesis using a drop_none [of s] drop_none [of "rev s"] by (simp add: str_trim_def)
qed

lemma utc_dates: "date_law utc_lib"
proof -
  have "\<not> is_space (CHR ''x'')" "\<not> is_space (CHR ''+'')" "\<not> is_space (CHR ''-'')" by code_simp+
  then have "list_all (\<lambda>c. \<not> is_space c) (date_format utc_lib d)" for d by (simp add: utc_lib_def list_all_iff)
  then show ?thesis unfolding date_law_def using str_trim_no_space by (auto simp: utc_lib_def)
qed


definition cache_owned :: "service \<Rightarrow> bool" where
  "cache_owned s = list_all (\<lambda>((tok, _), _). tok \<in> set (all_download_tokens (sv_config s))) (sv_unrestrict s)"

lemma all_download_tokens_ne: "all_download_tokens c \<noteq> []"
proof -
  have "fold (\<lambda>t ts. if t \<in> set ts then ts else ts @ [t]) xs ys \<noteq> []" if "ys \<noteq> []" for xs ys :: "string list"
    using that by (induction xs arbitrary: ys) auto
  then show ?thesis by (simp add: all_download_tokens_def)
qed

text \<open>A hot reload never leaves a link cached for a token the new configuration does not have. It always
  succeeds; the pool then holds exactly the tokens of the new configuration, the client and the tasks
  see that configuration, and the cache survives when the tokens did not change.\<close>

theorem reload_keeps_cache_owned:
  assumes "cache_owned s"
  shows "\<exists>s'. apply_reload updated s = Some s' \<and> cache_owned s' \<and> sv_config s' = updated \<and> rd_config (sv_rd s') = updated \<and>
    tokens_in_order (rd_token_pool (sv_rd s')) = all_download_tokens updated \<and>
    (token (sv_config s) = token updated \<and> download_tokens (sv_config s) = download_tokens updated \<longrightarrow> sv_unrestrict s' = sv_unrestrict s)"
  using assms all_download_tokens_ne [of updated]
  by (auto simp: apply_reload_def reload_credentials_def update_tokens_def reload_config_def tokens_in_order_def
      clear_unrestrict_cache_all_def cache_owned_def all_download_tokens_def Let_def)

theorem reload_keeps_cache_owned_witness:
  "\<exists>s'. apply_reload (demo_rd_config\<lparr>token := ''other''\<rparr>)
       \<lparr>sv_config = demo_rd_config, sv_rd = demo_client, sv_unrestrict = [((token demo_rd_config, ''L''), (demo_download, 0))]\<rparr> = Some s' \<and>
     cache_owned s'"
proof -
  have "cache_owned \<lparr>sv_config = demo_rd_config, sv_rd = demo_client, sv_unrestrict = [((token demo_rd_config, ''L''), (demo_download, 0))]\<rparr>"
    by code_simp
  from reload_keeps_cache_owned [OF this, of "demo_rd_config\<lparr>token := ''other''\<rparr>"] show ?thesis by blast
qed

end
