(* ===== verification/Process.thy ===== *)
theory Process
  imports Library_Path Library_Fetch Service
begin

text \<open>
  The mount process (\<^verbatim>\<open>src/src/main.rs\<close>, \<open>run_fuse_mount\<close>) with the tasks it starts: FUSE requests, the refresh
  loop, the repair loop, hot reload, the probe, reset, sweep and traffic loops, the link refresh of chunk
  workers, the cleanup of inodes and the loops of the cache, all over one shared state and one client. A
  step is one request or one turn of a loop, and a process lives through any sequence of them, with
  crashes in between.

  What the steps do to the library are the paths of theory \<open>Library_Path\<close>, what they do to the client is
  kept by theory \<open>Rd_Client\<close>.
\<close>

section \<open>The mount process\<close>

text \<open>What the tasks of a running process share: the filesystem with the manager, both caches, the
  configuration, the client, and what the background loops keep. The repair loop ends at shutdown. The
  hook's channel is the list of messages the manager sent, of which the worker has received the first
  ones; a batch it triggers is run with the command of that time.\<close>

record 'w process =
  pr_sys :: read_sys
  pr_config :: config
  pr_rd :: real_debrid
  pr_last :: "library_state option"
  pr_heads :: "(string \<times> nat) list"
  pr_repairing :: bool
  pr_stamp :: "string option"
  pr_cdn :: cdn_files
  pr_hook :: hook_state
  pr_hook_seen :: nat
  pr_batches :: "(string \<times> string list) list"
  pr_world :: 'w

abbreviation pr_mgr :: "'w process \<Rightarrow> manager" where
  "pr_mgr p \<equiv> rs_mgr (pr_sys p)"

text \<open>What a start meets: the configuration file, the database file, the disk, the network.\<close>

record 'w boot =
  bo_content :: "string option"
  bo_file :: db_file
  bo_tm :: tm_env
  bo_open_ok :: bool
  bo_db_ok :: bool
  bo_network :: network
  bo_now :: u64
  bo_write_ok :: "bool \<times> bool"
  bo_cdn :: cdn_files
  bo_stamp :: "string option"
  bo_cache_ok :: bool
  bo_disk :: disk
  bo_ranges :: "range_table option"
  bo_world :: 'w

record program =
  pg_toml :: "string \<Rightarrow> config_toml option"
  pg_codec :: cdn_codec
  pg_zones :: tz_lib

text \<open>\<open>Db::open\<close> and the statements of \<open>init_schema\<close>, which fail together.\<close>

definition open_db :: "bool \<Rightarrow> db_file \<Rightarrow> db_error + db" where
  "open_db ok file = (if ok then Inr (init_schema file) else Inl DbStatement)"

text \<open>What both commands of the program begin with: configuration, database, client, the probe of the CDN
  hosts and the library. \<open>None\<close> while the probe of the network runs.\<close>

definition start_manager ::
    "program \<Rightarrow> 'w boot \<Rightarrow> (start_error + config \<times> real_debrid \<times> cdn_files \<times> manager) option" where
  "start_manager pg b =
     (case load (pg_toml pg) (bo_content b) of
        Inl e \<Rightarrow> Some (Inl (StartConfig e))
      | Inr cfg \<Rightarrow>
          (case open_db (bo_open_ok b) (bo_file b) of
             Inl e \<Rightarrow> Some (Inl (StartDb e))
           | Inr d \<Rightarrow>
               (case rd_new cfg of
                  None \<Rightarrow> Some (Inl StartClient)
                | Some rd \<Rightarrow>
                    (case run_network_test (pg_codec pg) (bo_network b) (bo_now b) (fst (bo_write_ok b)) (snd (bo_write_ok b)) (bo_cdn b) of
                       None \<Rightarrow> None
                     | Some cdn \<Rightarrow>
                         let rd1 = (case try_load (pg_codec pg) (bo_now b) cdn (api cfg) of
                                      None \<Rightarrow> rd | Some pin \<Rightarrow> rd\<lparr>rd_ranked_hosts := Some pin\<rparr>)
                         in (case manager_new (bo_tm b) (bo_db_ok b) d of
                               Inl e \<Rightarrow> Some (Inl (StartDb e))
                             | Inr mgr \<Rightarrow> Some (Inr (cfg, rd1, cdn, mgr)))))))"

text \<open>\<open>run_fuse_mount\<close> up to its loops: the manager and the repair engine have started, with the torrents that
  were under repair in the queue.\<close>

definition start_library ::
    "program \<Rightarrow> 'w boot \<Rightarrow> (start_error + config \<times> real_debrid \<times> cdn_files \<times> manager) option" where
  "start_library pg b =
     map_option (map_sum id (\<lambda>(cfg, rd, cdn, mgr). (cfg, rd, cdn, resume_queue mgr))) (start_manager pg b)"

text \<open>The cache and the filesystem.\<close>

definition start_fs :: "'w boot \<Rightarrow> config \<times> real_debrid \<times> cdn_files \<times> manager \<Rightarrow> start_error + 'w process" where
  "start_fs b lib =
     (case lib of (cfg, rd, cdn, mgr) \<Rightarrow>
        (case cache_new (bo_cache_ok b) (path_comps (cache_dir cfg)) (vfs cfg) (bo_disk b) (bo_ranges b) of
           None \<Rightarrow> Inl StartCache
         | Some c \<Rightarrow>
             Inr \<lparr>pr_sys = \<lparr>rs_fs = rdfs_new (int (bo_now b)) (vfs cfg) mgr, rs_cache = c, rs_uc = []\<rparr>,
               pr_config = cfg, pr_rd = rd, pr_last = None, pr_heads = [], pr_repairing = True,
               pr_stamp = bo_stamp b, pr_cdn = cdn, pr_hook = hook_start, pr_hook_seen = 0,
               pr_batches = [], pr_world = bo_world b\<rparr>))"

definition start_process :: "program \<Rightarrow> 'w boot \<Rightarrow> (start_error + 'w process) option" where
  "start_process pg b =
     (case start_library pg b of
        None \<Rightarrow> None
      | Some (Inl e) \<Rightarrow> Some (Inl e)
      | Some (Inr lib) \<Rightarrow> Some (start_fs b lib))"

text \<open>The repair command: one session over the torrents it queues, with the client of the process.\<close>

definition run_repair_cli ::
    "program \<Rightarrow> ('u, 'w) client_env \<Rightarrow> 'w client_world session_env \<Rightarrow> repair_cli \<Rightarrow> 'w boot \<Rightarrow>
     (start_error + 'w client_world engine) option" where
  "run_repair_cli pg ce senv args b =
     (case start_manager pg b of
        None \<Rightarrow> None
      | Some (Inl e) \<Rightarrow> Some (Inl e)
      | Some (Inr (cfg, rd, cdn, mgr)) \<Rightarrow>
          let mgr1 = enqueue_repair_all (bo_tm b) \<lparr>eo_clear_unrepairable = rc_clear_unrepairable args, eo_all = rc_all args\<rparr> mgr;
              e = run_one_pass_for_cli (client_api ce) senv (repair cfg) (rc_periodic_eligible args)
                    \<lparr>en_mgr = mgr1, en_passive_head_last = [],
                     en_world = \<lparr>cw_rd = rd, cw_uc = [], cw_net = bo_world b, cw_stuck = False\<rparr>\<rparr>
          in if cw_stuck (en_world e) then None else Some (Inr e))"

section \<open>Steps of the process\<close>

datatype 'w proc_event =
    Request "'w client_world read_env" fuse_request
  | RefreshTurn tm_env "nat list \<Rightarrow> nat list"
  | RepairNotified "'w client_world session_env"
  | RepairTick "'w client_world session_env" tick_env
  | RepairShutdown
  | LinkRefresh string
  | Reload config
  | Reprobe network u64 bool bool
  | ResetCatchUp bool int
  | ResetMidnight bool int
  | LinkSweep int
  | TrafficTurn
  | PremiumCheck
  | DownloadsCheck decoders
  | HookReceive nat
  | HookDue nat
  | InodeRemoved string
  | WarnSweep int
  | Evict evict_env u64
  | SpeedSample i64

text \<open>A task works with the client of the process, and its step is over when its calls have returned.\<close>

definition world_of :: "'w process \<Rightarrow> 'w client_world" where
  "world_of p = \<lparr>cw_rd = pr_rd p, cw_uc = rs_uc (pr_sys p), cw_net = pr_world p, cw_stuck = False\<rparr>"

definition returned :: "'w client_world \<Rightarrow> 'w process \<Rightarrow> 'w process option" where
  "returned w p = (if cw_stuck w then None else Some (p\<lparr>pr_rd := cw_rd w, pr_world := cw_net w\<rparr>))"

definition set_links :: "unrestrict_cache \<Rightarrow> 'w process \<Rightarrow> 'w process" where
  "set_links uc p = p\<lparr>pr_sys := (pr_sys p)\<lparr>rs_uc := uc\<rparr>\<rparr>"

definition set_mgr :: "manager \<Rightarrow> 'w process \<Rightarrow> 'w process" where
  "set_mgr mgr p = p\<lparr>pr_sys := upd_mgr (\<lambda>_. mgr) (pr_sys p)\<rparr>"

definition service_of :: "'w process \<Rightarrow> service" where
  "service_of p = \<lparr>sv_config = pr_config p, sv_rd = pr_rd p, sv_unrestrict = rs_uc (pr_sys p)\<rparr>"

definition set_service :: "service \<Rightarrow> 'w process \<Rightarrow> 'w process" where
  "set_service sv p =
     p\<lparr>pr_config := sv_config sv, pr_rd := sv_rd sv, pr_sys := (pr_sys p)\<lparr>rs_uc := sv_unrestrict sv\<rparr>\<rparr>"

definition repair_wake :: "('u, 'w) client_env \<Rightarrow> 'w client_world wake \<Rightarrow> 'w process \<Rightarrow> 'w process option" where
  "repair_wake ce v p =
     (if \<not> pr_repairing p then None
      else
        (case loop_step (client_api ce) v \<lparr>en_mgr = pr_mgr p, en_passive_head_last = pr_heads p, en_world = world_of p\<rparr> of
           (e, go) \<Rightarrow> returned (en_world e) (set_links (cw_uc (en_world e)) (set_mgr (en_mgr e)
             (p\<lparr>pr_heads := en_passive_head_last e, pr_repairing := go\<rparr>)))))"

definition on_pool :: "(string \<Rightarrow> token_pool \<times> string option \<Rightarrow> token_pool \<times> string option) \<Rightarrow> 'w process \<Rightarrow> 'w process" where
  "on_pool f p =
     (case f (bandwidth_reset_timezone (api (pr_config p))) (rd_token_pool (pr_rd p), pr_stamp p) of
        (pool, stamp) \<Rightarrow> p\<lparr>pr_rd := (pr_rd p)\<lparr>rd_token_pool := pool\<rparr>, pr_stamp := stamp\<rparr>)"

definition on_cache :: "cache_event \<Rightarrow> 'w process \<Rightarrow> 'w process" where
  "on_cache e p = p\<lparr>pr_sys := (pr_sys p)\<lparr>rs_cache := cache_step e (rs_cache (pr_sys p))\<rparr>\<rparr>"

definition on_tables :: "(rdfs \<Rightarrow> rdfs) \<Rightarrow> 'w process \<Rightarrow> 'w process" where
  "on_tables f p = p\<lparr>pr_sys := (pr_sys p)\<lparr>rs_fs := f (rs_fs (pr_sys p))\<rparr>\<rparr>"

text \<open>The hook worker receives the next message, or its timer fires.\<close>

definition on_hook :: "hook_event \<Rightarrow> 'w process \<Rightarrow> 'w process" where
  "on_hook e p =
     (case hook_step e (pr_hook p) of
        (paths, h, go) \<Rightarrow>
          p\<lparr>pr_hook := h,
            pr_batches := pr_batches p @ (if paths = [] then [] else [(command (on_library_update (pr_config p)), paths)])\<rparr>)"

definition commands_run :: "'w process \<Rightarrow> string list" where
  "commands_run p = concat (map (\<lambda>(cmd, paths). hook_commands cmd paths) (pr_batches p))"

definition hook_receive :: "nat \<Rightarrow> 'w process \<Rightarrow> 'w process option" where
  "hook_receive now p =
     (let msgs = drop (pr_hook_seen p) (tm_hook (pr_mgr p))
      in case msgs of
           [] \<Rightarrow> None
         | paths # _ \<Rightarrow> Some (on_hook (HookRecv now (Some paths)) (p\<lparr>pr_hook_seen := Suc (pr_hook_seen p)\<rparr>)))"

text \<open>A round of the check loops of theory \<open>Account_Watch\<close>, which keep nothing of the answer.\<close>

definition asked :: "('a \<times> real_debrid \<times> 'w) option \<Rightarrow> 'w process \<Rightarrow> 'w process option" where
  "asked r p = map_option (\<lambda>(_, rd, w). p\<lparr>pr_rd := rd, pr_world := w\<rparr>) r"

text \<open>\<open>refresh_cdn_url\<close> of a chunk worker; what it does to its download is in theories \<open>Worker\<close> and \<open>Link_Heal\<close>.\<close>

definition link_refresh :: "('u, 'w) client_env \<Rightarrow> string \<Rightarrow> 'w process \<Rightarrow> 'w process option" where
  "link_refresh ce link p =
     map_option (\<lambda>(_, uc, rd, w). set_links uc (p\<lparr>pr_rd := rd, pr_world := w\<rparr>))
       (refresh_cdn_url (ce_hash ce) (ce_net ce) link (rs_uc (pr_sys p)) (pr_rd p) (pr_world p))"

fun proc_step :: "program \<Rightarrow> ('u, 'w) client_env \<Rightarrow> 'w proc_event \<Rightarrow> 'w process \<Rightarrow> 'w process option" where
  "proc_step pg ce (Request env req) p =
     (case fuse_handle (client_read_env ce (pr_config p) env) req (pr_sys p) (world_of p) of
        None \<Rightarrow> None
      | Some (rep, s, w) \<Rightarrow> returned w (p\<lparr>pr_sys := s\<rparr>))"
| "proc_step pg ce (RefreshTurn tm arrive) p =
     (case refresh_fetched tm ce (repair (pr_config p)) arrive (pr_last p, pr_mgr p, world_of p) of
        (l, mgr, w) \<Rightarrow> returned w (set_links (cw_uc w) (set_mgr mgr (p\<lparr>pr_last := l\<rparr>))))"
| "proc_step pg ce (RepairNotified env) p = repair_wake ce (WakeNotified (repair (pr_config p)) env) p"
| "proc_step pg ce (RepairTick env tk) p = repair_wake ce (WakeTick (repair (pr_config p)) env tk) p"
| "proc_step pg ce RepairShutdown p = repair_wake ce WakeShutdown p"
| "proc_step pg ce (LinkRefresh link) p = link_refresh ce link p"
| "proc_step pg ce (Reload cfg) p = map_option (\<lambda>sv. set_service sv p) (apply_reload cfg (service_of p))"
| "proc_step pg ce (Reprobe nw now ok1 ok2) p =
     map_option (\<lambda>(sv, cdn). set_service sv (p\<lparr>pr_cdn := cdn\<rparr>))
       (reprobe_turn (pg_codec pg) nw now ok1 ok2 (service_of p, pr_cdn p))"
| "proc_step pg ce (ResetCatchUp ok now) p = Some (on_pool (\<lambda>tz. reset_catch_up (pg_zones pg) ok tz now) p)"
| "proc_step pg ce (ResetMidnight ok now) p = Some (on_pool (\<lambda>tz. reset_at_midnight (pg_zones pg) ok tz now) p)"
| "proc_step pg ce (LinkSweep now) p = Some (set_service (sweep_turn now (service_of p)) p)"
| "proc_step pg ce TrafficTurn p =
     map_option (\<lambda>(_, sv, w). set_service sv (p\<lparr>pr_world := w\<rparr>)) (traffic_turn (ce_net ce) (service_of p, pr_world p))"
| "proc_step pg ce PremiumCheck p = asked (get_user (ce_net ce) (pr_rd p) (pr_world p)) p"
| "proc_step pg ce (DownloadsCheck dec) p =
     (if retain_non_rd_downloads (api (pr_config p))
      then asked (get_downloads dec (ce_net ce) 1 1 (pr_rd p) (pr_world p)) p else Some p)"
| "proc_step pg ce (HookReceive now) p = hook_receive now p"
| "proc_step pg ce (HookDue now) p = Some (on_hook (HookTimer now) p)"
| "proc_step pg ce (InodeRemoved key) p = Some (on_tables (cleanup_removed key) p)"
| "proc_step pg ce (WarnSweep now) p = Some (on_tables (cleanup_sweep now) p)"
| "proc_step pg ce (Evict env now) p = Some (on_cache (EvictPass env now) p)"
| "proc_step pg ce (SpeedSample ns) p = Some (on_cache (SpeedTick ns) p)"

text \<open>Events in which the database works; the flag as for \<open>lib_path\<close>.\<close>

fun event_ok :: "json_lib \<Rightarrow> bool \<Rightarrow> 'w proc_event \<Rightarrow> bool" where
  "event_ok J sync (Request env req) = (request_env_ok J sync env \<and> read_at_keeps_items env)"
| "event_ok J sync (RefreshTurn tm arrive) = (sync \<and> db_works J tm)"
| "event_ok J sync (RepairNotified env) = (\<forall>k. repair_env_ok J (se_repair env k))"
| "event_ok J sync (RepairTick env tk) = (\<forall>k. repair_env_ok J (se_repair env k))"
| "event_ok J sync _ = True"

text \<open>A crash keeps the database, the disk and the files beside them; a start meets them again.\<close>

definition crash_boot :: "'w process \<Rightarrow> 'w boot \<Rightarrow> 'w boot" where
  "crash_boot p b =
     (let d = tm_db (pr_mgr p)
      in b\<lparr>bo_file := \<lparr>dbf_torrents = Some (db_torrents d), dbf_repair_jobs = Some (db_repair_jobs d), dbf_app_meta = Some (db_app_meta d)\<rparr>,
           bo_disk := ca_disk (rs_cache (pr_sys p)), bo_ranges := Some (ca_range_db (rs_cache (pr_sys p))),
           bo_stamp := pr_stamp p, bo_cdn := pr_cdn p\<rparr>)"

text \<open>What the environment of a step owes to the accounts: \<open>read_at\<close>, the tasks that run during a wait, and
  what a repair leaves that its timeout cuts.\<close>

fun event_fair :: "('u, 'w) client_env \<Rightarrow> config \<Rightarrow> 'w proc_event \<Rightarrow> bool" where
  "event_fair ce cfg (Request env req) = env_keeps_client ce cfg env"
| "event_fair ce cfg (RepairNotified env) =
     (\<forall>k m w w'. re_cut (se_repair env k) m w = Some w' \<longrightarrow> accounts_ok ce cfg w \<longrightarrow> accounts_ok ce cfg w')"
| "event_fair ce cfg (RepairTick env tk) =
     (\<forall>k m w w'. re_cut (se_repair env k) m w = Some w' \<longrightarrow> accounts_ok ce cfg w \<longrightarrow> accounts_ok ce cfg w')"
| "event_fair ce cfg _ = True"

inductive proc_run :: "program \<Rightarrow> ('u, 'w) client_env \<Rightarrow> json_lib \<Rightarrow> 'w process \<Rightarrow> 'w process \<Rightarrow> bool" for pg ce J p where
  run_refl: "proc_run pg ce J p p"
| run_step: "proc_run pg ce J p p1 \<Longrightarrow> event_ok J True e \<Longrightarrow> event_fair ce (pr_config p1) e \<Longrightarrow> proc_step pg ce e p1 = Some p2 \<Longrightarrow>
    proc_run pg ce J p p2"

inductive reachable :: "program \<Rightarrow> ('u, 'w) client_env \<Rightarrow> json_lib \<Rightarrow> 'w process \<Rightarrow> bool" for pg ce J where
  first: "start_process pg b = Some (Inr p) \<Longrightarrow> db_wf (init_schema (bo_file b)) \<Longrightarrow> te_json (bo_tm b) = J \<Longrightarrow> bo_db_ok b \<Longrightarrow>
    reachable pg ce J p"
| step: "reachable pg ce J p \<Longrightarrow> event_ok J True e \<Longrightarrow> event_fair ce (pr_config p) e \<Longrightarrow> proc_step pg ce e p = Some p' \<Longrightarrow>
    reachable pg ce J p'"
| crash: "reachable pg ce J p \<Longrightarrow> te_json (bo_tm b) = J \<Longrightarrow> bo_db_ok b \<Longrightarrow>
    start_process pg (crash_boot p b) = Some (Inr p') \<Longrightarrow> reachable pg ce J p'"

lemma reachable_run: "proc_run pg ce J p p' \<Longrightarrow> reachable pg ce J p \<Longrightarrow> reachable pg ce J p'"
  by (induction rule: proc_run.induct) (auto intro: reachable.step)

section \<open>Invariants of the process\<close>

lemma returnedE:
  assumes "returned w p = Some p'"
  obtains "\<not> cw_stuck w" and "p' = p\<lparr>pr_rd := cw_rd w, pr_world := cw_net w\<rparr>"
  using assms by (auto simp: returned_def split: if_splits)

lemma set_fields [simp]:
  "pr_mgr (set_mgr mgr p) = mgr" "rs_cache (pr_sys (set_mgr mgr p)) = rs_cache (pr_sys p)" "rs_uc (pr_sys (set_mgr mgr p)) = rs_uc (pr_sys p)"
  "pr_mgr (set_links uc p) = pr_mgr p" "rs_cache (pr_sys (set_links uc p)) = rs_cache (pr_sys p)" "rs_uc (pr_sys (set_links uc p)) = uc"
  by (simp_all add: set_mgr_def set_links_def upd_mgr_def)

text \<open>What the steps that a task takes with the client leave of the process.\<close>

lemma request_stepE:
  assumes "proc_step pg ce (Request env req) p = Some p'"
  obtains rep s w where "fuse_handle (client_read_env ce (pr_config p) env) req (pr_sys p) (world_of p) = Some (rep, s, w)"
    and "p' = p\<lparr>pr_sys := s, pr_rd := cw_rd w, pr_world := cw_net w\<rparr>"
  using assms by (auto split: option.splits elim!: returnedE)

lemma refresh_stepE:
  assumes "proc_step pg ce (RefreshTurn tm arrive) p = Some p'"
  obtains probe listing w2 l mgr w where "refresh_turn tm (client_api ce) (repair (pr_config p)) probe listing (pr_last p, pr_mgr p, w2) = (l, mgr, w)"
    and "p' = (set_links (cw_uc w) (set_mgr mgr (p\<lparr>pr_last := l\<rparr>)))\<lparr>pr_rd := cw_rd w, pr_world := cw_net w\<rparr>"
    and "accounts_ok ce (pr_config p) (world_of p) \<Longrightarrow> accounts_ok ce (pr_config p) w"
proof -
  obtain l mgr w where f: "refresh_fetched tm ce (repair (pr_config p)) arrive (pr_last p, pr_mgr p, world_of p) = (l, mgr, w)"
    by (metis prod.exhaust)
  with assms have p': "p' = (set_links (cw_uc w) (set_mgr mgr (p\<lparr>pr_last := l\<rparr>)))\<lparr>pr_rd := cw_rd w, pr_world := cw_net w\<rparr>"
    by (auto elim!: returnedE)
  obtain probe listing w2 where t: "refresh_turn tm (client_api ce) (repair (pr_config p)) probe listing (pr_last p, pr_mgr p, w2) = (l, mgr, w)"
    and "\<And>c. accounts_ok ce c (world_of p) \<Longrightarrow> accounts_ok ce c w2"
    using f by (rule refresh_fetchedE) blast
  with accounts.refresh_turn_keeps [OF t] show thesis by (intro that [OF t p']) blast
qed

lemma repair_wakeE:
  assumes "repair_wake ce v p = Some p'"
  obtains e go where "loop_step (client_api ce) v \<lparr>en_mgr = pr_mgr p, en_passive_head_last = pr_heads p, en_world = world_of p\<rparr> = (e, go)"
    and "p' = (set_links (cw_uc (en_world e)) (set_mgr (en_mgr e) (p\<lparr>pr_heads := en_passive_head_last e, pr_repairing := go\<rparr>)))
        \<lparr>pr_rd := cw_rd (en_world e), pr_world := cw_net (en_world e)\<rparr>"
  using assms by (auto simp: repair_wake_def split: prod.splits if_splits elim!: returnedE)

lemmas quiet_steps = set_service_def on_pool_def on_tables_def on_cache_def on_hook_def hook_receive_def asked_def link_refresh_def
  service_of_def

lemma wake_path:
  assumes "wake_with (repair_env_ok J) v" and "repair_wake ce v p = Some p'"
  shows "lib_path J sync (pr_mgr p) (pr_mgr p')"
proof -
  let ?e = "\<lparr>en_mgr = pr_mgr p, en_passive_head_last = pr_heads p, en_world = world_of p\<rparr>"
  have "lib_path J sync (pr_mgr p) (en_mgr (fst (loop_step (client_api ce) v ?e)))"
    by (rule engine.loop_step_keeps [OF assms(1)]) (simp add: path_refl)
  with assms(2) show ?thesis by (auto elim!: repair_wakeE)
qed

lemma step_path:
  assumes "event_ok J sync e" and "proc_step pg ce e p = Some p'"
  shows "lib_path J sync (pr_mgr p) (pr_mgr p')"
proof (cases e)
  case (Request env req)
  let ?env = "client_read_env ce (pr_config p) env"
  have ok: "request_env_ok J sync ?env" using assms(1) Request by (simp add: request_env_ok_def client_read_env_def)
  from assms(2) Request obtain rep s w where "fuse_handle ?env req (pr_sys p) (world_of p) = Some (rep, s, w)" "pr_sys p' = s"
    by (auto simp del: proc_step.simps elim!: request_stepE)
  with request.request_keeps [where J = J and sync = sync and mgr = "pr_mgr p" and s = "pr_sys p" and env = ?env] ok path_refl
  show ?thesis by auto
next
  case (RefreshTurn tm arrive)
  with assms(2) obtain probe listing w2 l mgr w
    where "refresh_turn tm (client_api ce) (repair (pr_config p)) probe listing (pr_last p, pr_mgr p, w2) = (l, mgr, w)" "pr_mgr p' = mgr"
    by (auto simp del: proc_step.simps elim!: refresh_stepE)
  with assms(1) RefreshTurn refresh_path show ?thesis by (cases sync) auto
next
  case (RepairNotified env)
  with assms show ?thesis by (intro wake_path) auto
next
  case (RepairTick env tk)
  with assms show ?thesis by (intro wake_path) auto
next
  case RepairShutdown
  with assms show ?thesis by (intro wake_path) auto
qed (use assms path_refl in \<open>auto simp: quiet_steps cleanup_removed_def cleanup_sweep_def Let_def
    split: prod.splits option.splits if_splits list.splits\<close>)

lemma step_items:
  assumes "event_ok J sync e" and "proc_step pg ce e p = Some p'" and "cache_inv (rs_cache (pr_sys p))"
  shows "cache_inv (rs_cache (pr_sys p'))"
proof (cases e)
  case (Request env req)
  let ?env = "client_read_env ce (pr_config p) env"
  have ok: "read_at_keeps_items ?env" using assms(1) Request by (simp add: read_at_keeps_items_def client_read_env_def)
  from assms(2) Request obtain rep s w where "fuse_handle ?env req (pr_sys p) (world_of p) = Some (rep, s, w)" "pr_sys p' = s"
    by (auto simp del: proc_step.simps elim!: request_stepE)
  with items.request_keeps [where s = "pr_sys p" and env = ?env] ok assms(3) show ?thesis by auto
next
  case (RefreshTurn tm arrive)
  with assms(2,3) show ?thesis by (auto simp del: proc_step.simps elim!: refresh_stepE)
qed (use assms cst.step_inv in \<open>auto simp: quiet_steps simp del: cache_step.simps
    split: prod.splits if_splits list.splits elim!: repair_wakeE\<close>)

text \<open>The library is mirrored by the database, the repair queue holds no key twice, and the map of the
  cache finds its items.\<close>

definition proc_inv :: "json_lib \<Rightarrow> 'w process \<Rightarrow> bool" where
  "proc_inv J p \<longleftrightarrow> mirrors J (pr_mgr p) \<and> distinct (tm_repair_queue (pr_mgr p)) \<and> cache_inv (rs_cache (pr_sys p))"

lemma step_proc_inv:
  assumes "proc_inv J p" and "event_ok J sync e" and "proc_step pg ce e p = Some p'"
  shows "proc_inv J p'"
  using assms mirror.path_keeps [OF step_path [OF assms(2,3)]] queue.path_keeps [OF step_path [OF assms(2,3)]]
    step_items [OF assms(2,3)]
  by (simp add: proc_inv_def)

lemma start_managerE:
  assumes "start_manager pg b = Some (Inr (cfg, rd1, cdn, mgr))"
  obtains rd where "load (pg_toml pg) (bo_content b) = Inr cfg" and "rd_new cfg = Some rd"
    and "manager_new (bo_tm b) (bo_db_ok b) (init_schema (bo_file b)) = Inr mgr"
    and "rd1 = rd \<or> (\<exists>pin. rd1 = rd\<lparr>rd_ranked_hosts := Some pin\<rparr>)"
  using assms by (auto simp: start_manager_def open_db_def Let_def split: sum.splits option.splits if_splits)

lemma start_libraryE:
  assumes "start_library pg b = Some (Inr (cfg, rd1, cdn, mgr1))"
  obtains rd mgr where "load (pg_toml pg) (bo_content b) = Inr cfg" and "rd_new cfg = Some rd"
    and "manager_new (bo_tm b) (bo_db_ok b) (init_schema (bo_file b)) = Inr mgr" and "mgr1 = resume_queue mgr"
    and "rd1 = rd \<or> (\<exists>pin. rd1 = rd\<lparr>rd_ranked_hosts := Some pin\<rparr>)"
proof -
  from assms obtain x where x: "start_manager pg b = Some x" and y: "map_sum id (\<lambda>(cfg, rd, cdn, mgr). (cfg, rd, cdn, resume_queue mgr)) x = Inr (cfg, rd1, cdn, mgr1)"
    by (auto simp: start_library_def)
  from y obtain mgr where "x = Inr (cfg, rd1, cdn, mgr)" "mgr1 = resume_queue mgr" by (cases x) auto
  with x show thesis by (auto elim!: start_managerE intro: that)
qed

lemma start_processE:
  assumes "start_process pg b = Some (Inr p)"
  obtains cdn where "start_library pg b = Some (Inr (pr_config p, pr_rd p, cdn, pr_mgr p))"
    and "cache_new (bo_cache_ok b) (path_comps (cache_dir (pr_config p))) (vfs (pr_config p)) (bo_disk b) (bo_ranges b) = Some (rs_cache (pr_sys p))"
    and "rs_uc (pr_sys p) = []" and "pr_hook p = hook_start" and "pr_hook_seen p = 0" and "pr_batches p = []"
proof -
  from assms obtain cfg rd cdn mgr where l: "start_library pg b = Some (Inr (cfg, rd, cdn, mgr))" and f: "start_fs b (cfg, rd, cdn, mgr) = Inr p"
    by (auto simp: start_process_def split: option.splits sum.splits)
  from f show thesis by (intro that) (auto simp: l start_fs_def rdfs_new_def split: option.splits)
qed

lemma start_proc_inv:
  assumes "start_process pg b = Some (Inr p)" and "db_wf (init_schema (bo_file b))" and "te_json (bo_tm b) = J" and "bo_db_ok b"
  shows "proc_inv J p"
proof -
  obtain cdn where l: "start_library pg b = Some (Inr (pr_config p, pr_rd p, cdn, pr_mgr p))"
    and c: "cache_new (bo_cache_ok b) (path_comps (cache_dir (pr_config p))) (vfs (pr_config p)) (bo_disk b) (bo_ranges b) = Some (rs_cache (pr_sys p))"
    by (rule start_processE [OF assms(1)])
  obtain mgr where m: "manager_new (bo_tm b) (bo_db_ok b) (init_schema (bo_file b)) = Inr mgr" "pr_mgr p = resume_queue mgr"
    by (rule start_libraryE [OF l])
  have mir: "mirrors J mgr" using mirrors_manager_new [OF assms(2)] m(1) assms(3,4) by auto
  have "tm_repair_queue mgr = []" by (rule manager_new_queue [OF m(1)])
  then have q: "distinct (fold push_back ks (tm_repair_queue mgr))" for ks by (simp add: distinct_fold_push_back)
  have "mirrors J (resume_queue mgr)" "distinct (tm_repair_queue (resume_queue mgr))"
    using mir q by (simp_all add: resume_queue_def Let_def \<open>tm_repair_queue mgr = []\<close>)
  with m(2) cache_new_inv [OF c] show ?thesis by (simp add: proc_inv_def)
qed

lemma crash_boot_wf:
  assumes "proc_inv J p"
  shows "db_wf (init_schema (bo_file (crash_boot p b)))"
    "db_torrents (init_schema (bo_file (crash_boot p b))) = db_torrents (tm_db (pr_mgr p))"
  using assms by (simp_all add: proc_inv_def crash_boot_def mirrors_def db_wf_def init_schema_def Let_def)

lemma crash_boot_fields [simp]:
  "bo_tm (crash_boot p b) = bo_tm b" "bo_db_ok (crash_boot p b) = bo_db_ok b" "bo_open_ok (crash_boot p b) = bo_open_ok b"
  by (simp_all add: crash_boot_def Let_def)

lemma reachable_inv: "reachable pg ce J p \<Longrightarrow> proc_inv J p"
proof (induction rule: reachable.induct)
  case (first b p)
  then show ?case by (rule start_proc_inv)
next
  case (step p e p')
  then show ?case by (blast intro: step_proc_inv)
next
  case (crash p b p')
  with start_proc_inv [of pg "crash_boot p b" p' J] crash_boot_wf(1) show ?case by auto
qed

lemma set_fold_push_back: "set (fold push_back ks q) = set q \<union> set ks"
  by (induction ks arbitrary: q) (auto simp: push_back_def)

lemma restart_process_get:
  assumes "proc_inv J p" and "te_json (bo_tm b) = J" and "bo_db_ok b"
    and "start_process pg (crash_boot p b) = Some (Inr p')" and "get_mt (pr_mgr p) k = Some m"
  shows "\<exists>m'. get_mt (pr_mgr p') k = Some m' \<and> same_after_restart m m' \<and>
    (mt_state m = UnderRepair \<longrightarrow> k \<in> set (tm_repair_queue (pr_mgr p')))"
proof -
  let ?d = "init_schema (bo_file (crash_boot p b))"
  obtain cdn where "start_library pg (crash_boot p b) = Some (Inr (pr_config p', pr_rd p', cdn, pr_mgr p'))"
    by (rule start_processE [OF assms(4)])
  then obtain mgr where mgr: "manager_new (bo_tm b) True ?d = Inr mgr" "pr_mgr p' = resume_queue mgr"
    by (rule start_libraryE) (use assms(3) in simp)
  have "mirrors J ((pr_mgr p)\<lparr>tm_db := ?d\<rparr>)"
    using assms(1) crash_boot_wf(2) [OF assms(1)] mirrors_torrents [of "(pr_mgr p)\<lparr>tm_db := ?d\<rparr>" "pr_mgr p" J]
    by (simp add: proc_inv_def)
  from mirrors_restart [of "bo_tm b" "(pr_mgr p)\<lparr>tm_db := ?d\<rparr>" k m] this assms(2,5) mgr(1)
  obtain m' where m': "get_mt mgr k = Some m'" "same_after_restart m m'" by auto
  have "get_mt (resume_queue mgr) = get_mt mgr" by (simp add: resume_queue_def Let_def get_mt_def fun_eq_iff)
  moreover have "k \<in> set (tm_repair_queue (resume_queue mgr))" if "mt_state m = UnderRepair"
  proof -
    have "(k, m') \<in> set (tm_torrents mgr)" using m'(1) by (simp add: get_mt_def map_of_SomeD)
    moreover have "mt_state m' = UnderRepair" using m'(2) that by (simp add: same_after_restart_def)
    ultimately have "k \<in> set (map fst (filter (\<lambda>(_, m). mt_state m = UnderRepair) (tm_torrents mgr)))" (is "k \<in> set ?ks") by force
    moreover from this have "?ks \<noteq> []" by (cases ?ks) simp_all
    ultimately show ?thesis unfolding resume_queue_def Let_def by (simp only: if_False) (simp add: set_fold_push_back)
  qed
  ultimately show ?thesis using m' mgr(2) by simp
qed

section \<open>Accounts\<close>

definition proc_accounts :: "'w process \<Rightarrow> bool" where
  "proc_accounts p \<longleftrightarrow> client_ok (pr_config p) (pr_rd p) \<and> links_owned (pr_config p) (rs_uc (pr_sys p))"

lemma world_accounts [simp]: "accounts_ok ce (pr_config p) (world_of p) = proc_accounts p"
  by (simp add: accounts_ok_def client_live_def proc_accounts_def world_of_def)

lemma client_ok_fields [simp]:
  "client_ok cfg (rd\<lparr>rd_ranked_hosts := h\<rparr>) = client_ok cfg rd" "client_ok cfg (rd\<lparr>rd_traffic_details := t\<rparr>) = client_ok cfg rd"
  by (simp_all add: client_ok_def)

lemma reload_accounts:
  assumes "apply_reload cfg sv = Some sv'" and "links_owned (sv_config sv) (sv_unrestrict sv)"
  shows "client_ok cfg (sv_rd sv') \<and> links_owned cfg (sv_unrestrict sv') \<and> sv_config sv' = cfg"
proof -
  have same: "links_owned cfg (sv_unrestrict sv)" if "token (sv_config sv) = token cfg" "download_tokens (sv_config sv) = download_tokens cfg"
    using assms(2) that by (simp add: links_owned_def all_download_tokens_def)
  from assms(1) obtain rd where rc: "reload_credentials cfg (sv_rd sv) = Some rd" and sv': "sv' = sv\<lparr>sv_rd := reload_config cfg rd,
      sv_unrestrict := (if token (sv_config sv) \<noteq> token cfg \<or> download_tokens (sv_config sv) \<noteq> download_tokens cfg
        then clear_unrestrict_cache_all (sv_unrestrict sv) else sv_unrestrict sv), sv_config := cfg\<rparr>"
    by (auto simp: apply_reload_def Let_def)
  from rc obtain pool where u: "update_tokens (all_download_tokens cfg) (rd_token_pool (sv_rd sv)) = Some pool"
    and rd: "rd = (sv_rd sv)\<lparr>rd_credentials := credentials_of cfg, rd_token_pool := pool\<rparr>"
    by (auto simp: reload_credentials_def)
  have "tp_tokens pool = all_download_tokens cfg" using u by (auto simp: update_tokens_def split: if_splits)
  with u update_tokens_inv have "client_ok cfg (reload_config cfg rd)"
    by (auto simp: rd reload_config_def client_ok_def tokens_in_order_def)
  with same show ?thesis by (auto simp: sv' clear_unrestrict_cache_all_def links_owned_def)
qed

lemma traffic_client: "traffic_loop env toks rd w = Some (by, rd', w') \<Longrightarrow> client_ok cfg rd \<Longrightarrow> client_ok cfg rd'"
proof (induction toks arbitrary: rd w "by")
  case (Cons tok toks)
  then obtain res rd1 w1 where f: "fetch_traffic_details_token env tok rd w = Some (res, rd1, w1)" by (auto split: option.splits)
  then have "client_ok cfg rd1" using Cons.prems(2) by (auto simp: fetch_traffic_details_token_def dest: call_client)
  with Cons f show ?case by auto
qed simp

lemma refresh_url_accounts:
  assumes "refresh_cdn_url hs env link uc rd w = Some (r, uc', rd', w')" and "client_ok cfg rd" and "links_owned cfg uc"
  shows "client_ok cfg rd' \<and> links_owned cfg uc'"
  using assms links_owned_clear(2) [OF assms(3), of link]
  by (auto simp: refresh_cdn_url_def unrestrict_link_def split: option.splits sum.splits dest: unrestrict_loop_owned)

lemma links_owned_sweep: "links_owned cfg uc \<Longrightarrow> links_owned cfg (snd (sweep_unrestrict_cache_expired now ttl uc))"
  by (auto simp: links_owned_def sweep_unrestrict_cache_expired_def list_all_iff Let_def)

lemma wake_accounts:
  assumes "wake_with (\<lambda>env. \<forall>m w w'. re_cut env m w = Some w' \<longrightarrow> accounts_ok ce (pr_config p) w \<longrightarrow> accounts_ok ce (pr_config p) w') v"
    and "repair_wake ce v p = Some p'" and "proc_accounts p"
  shows "proc_accounts p'"
proof -
  let ?e = "\<lparr>en_mgr = pr_mgr p, en_passive_head_last = pr_heads p, en_world = world_of p\<rparr>"
  have "accounts_ok ce (pr_config p) (en_world (fst (loop_step (client_api ce) v ?e)))"
    by (rule accounts.loop_step_keeps [OF assms(1)]) (simp add: assms(3))
  with assms(2) show ?thesis by (auto simp: proc_accounts_def accounts_ok_def client_live_def set_links_def set_mgr_def elim!: repair_wakeE)
qed

lemma clear_tokens [simp]: "tp_tokens (clear_all_exhausted pool) = tp_tokens pool"
  by (simp add: clear_all_exhausted_def)

lemma pool_accounts:
  assumes "proc_accounts p" and "\<And>tz s. tp_tokens (fst (f tz s)) = tp_tokens (fst s) \<and> (pool_inv (fst s) \<longrightarrow> pool_inv (fst (f tz s)))"
  shows "proc_accounts (on_pool f p)"
proof -
  obtain pool stamp where f: "f (bandwidth_reset_timezone (api (pr_config p))) (rd_token_pool (pr_rd p), pr_stamp p) = (pool, stamp)" by fastforce
  with assms(2) [of "bandwidth_reset_timezone (api (pr_config p))" "(rd_token_pool (pr_rd p), pr_stamp p)"]
  have "tp_tokens pool = tp_tokens (rd_token_pool (pr_rd p))" "pool_inv (rd_token_pool (pr_rd p)) \<Longrightarrow> pool_inv pool" by simp_all
  with assms(1) f client_ok_pool show ?thesis by (simp add: proc_accounts_def on_pool_def client_ok_def tokens_in_order_def)
qed

lemma step_accounts:
  assumes "event_fair ce (pr_config p) e" and "proc_step pg ce e p = Some p'" and acc: "proc_accounts p"
  shows "proc_accounts p'"
proof (cases e)
  case (Request env req)
  let ?env = "client_read_env ce (pr_config p) env"
  obtain rep s w where h: "fuse_handle ?env req (pr_sys p) (world_of p) = Some (rep, s, w)"
    and p': "p' = p\<lparr>pr_sys := s, pr_rd := cw_rd w, pr_world := cw_net w\<rparr>"
    using assms(2) unfolding Request by (rule request_stepE)
  have "client_live ce (pr_config p) (world_of p) \<and> links_owned (pr_config p) (rs_uc (pr_sys p))"
    using acc by (simp add: proc_accounts_def client_live_def world_of_def)
  with clients.request_keeps [OF _ h] assms(1) Request show ?thesis by (simp add: p' proc_accounts_def client_live_def)
next
  case (RefreshTurn tm arrive)
  obtain l mgr w where p': "p' = (set_links (cw_uc w) (set_mgr mgr (p\<lparr>pr_last := l\<rparr>)))\<lparr>pr_rd := cw_rd w, pr_world := cw_net w\<rparr>"
    and "accounts_ok ce (pr_config p) (world_of p) \<Longrightarrow> accounts_ok ce (pr_config p) w"
    using assms(2) unfolding RefreshTurn by (rule refresh_stepE) blast
  with acc have "accounts_ok ce (pr_config p) w" by simp
  then show ?thesis by (simp add: p' proc_accounts_def accounts_ok_def client_live_def set_links_def set_mgr_def)
next
  case (RepairNotified env)
  have "repair_wake ce (WakeNotified (repair (pr_config p)) env) p = Some p'" using assms(2) unfolding RepairNotified by simp
  from wake_accounts [OF _ this acc] assms(1) show ?thesis unfolding RepairNotified by simp
next
  case (RepairTick env tk)
  have "repair_wake ce (WakeTick (repair (pr_config p)) env tk) p = Some p'" using assms(2) unfolding RepairTick by simp
  from wake_accounts [OF _ this acc] assms(1) show ?thesis unfolding RepairTick by simp
next
  case RepairShutdown
  have "repair_wake ce (WakeShutdown) p = Some p'" using assms(2) unfolding RepairShutdown by simp
  from wake_accounts [OF _ this acc] assms(1) show ?thesis unfolding RepairShutdown by simp
next
  case (LinkRefresh link)
  with assms show ?thesis by (auto simp: link_refresh_def proc_accounts_def set_links_def dest: refresh_url_accounts)
next
  case (Reload cfg)
  with assms obtain sv where "apply_reload cfg (service_of p) = Some sv" "p' = set_service sv p" by auto
  with reload_accounts [of cfg "service_of p" sv] acc show ?thesis by (simp add: service_of_def set_service_def proc_accounts_def)
next
  case (Reprobe nw now ok1 ok2)
  with assms show ?thesis
    by (auto simp: reprobe_turn_def service_of_def set_service_def proc_accounts_def split: if_splits option.splits)
next
  case (ResetCatchUp ok now)
  have "proc_accounts (on_pool (\<lambda>tz. reset_catch_up (pg_zones pg) ok tz now) p)"
    by (rule pool_accounts [OF acc]) (simp add: reset_catch_up_def clear_all_exhausted_inv split: prod.split)
  with ResetCatchUp assms(2) show ?thesis by simp
next
  case (ResetMidnight ok now)
  have "proc_accounts (on_pool (\<lambda>tz. reset_at_midnight (pg_zones pg) ok tz now) p)"
    by (rule pool_accounts [OF acc]) (simp add: reset_at_midnight_def clear_all_exhausted_inv split: prod.split)
  with ResetMidnight assms(2) show ?thesis by simp
next
  case (LinkSweep now)
  with assms show ?thesis by (auto simp: sweep_turn_def service_of_def set_service_def proc_accounts_def links_owned_sweep)
next
  case TrafficTurn
  with assms show ?thesis
    by (auto simp: traffic_turn_def refresh_traffic_details_snapshot_def service_of_def set_service_def proc_accounts_def Let_def
        split: if_splits dest: traffic_client)
qed (use assms in \<open>auto simp: quiet_steps get_user_def get_downloads_def proc_accounts_def Let_def
    split: prod.splits if_splits list.splits dest: api_call_client\<close>)

section \<open>The library hook\<close>

text \<open>The worker has received the first messages of its channel; what they named is in a batch or pending.\<close>

definition hook_inv :: "'w process \<Rightarrow> bool" where
  "hook_inv p \<longleftrightarrow> pr_hook_seen p \<le> length (tm_hook (pr_mgr p)) \<and> distinct (hk_pending (pr_hook p)) \<and>
     set (concat (map snd (pr_batches p))) \<union> set (hk_pending (pr_hook p)) = set (concat (take (pr_hook_seen p) (tm_hook (pr_mgr p))))"

text \<open>The fields of the hook worker change only in its own steps.\<close>

lemma hook_frame:
  assumes "proc_step pg ce e p = Some p'" and "\<forall>now. e \<noteq> HookReceive now \<and> e \<noteq> HookDue now"
  shows "pr_hook p' = pr_hook p \<and> pr_hook_seen p' = pr_hook_seen p \<and> pr_batches p' = pr_batches p"
proof (cases e)
  case (Request env req)
  with assms(1) show ?thesis by (auto simp del: proc_step.simps elim!: request_stepE)
next
  case (RefreshTurn tm arrive)
  with assms(1) show ?thesis by (auto simp: set_links_def set_mgr_def simp del: proc_step.simps elim!: refresh_stepE)
qed (use assms in \<open>auto simp: quiet_steps set_links_def set_mgr_def split: if_splits prod.splits elim!: repair_wakeE\<close>)

lemma step_hook:
  assumes "event_ok J sync e" and "proc_step pg ce e p = Some p'" and inv: "hook_inv p"
  shows "hook_inv p'"
proof -
  have grow: "prefix (tm_hook (pr_mgr p)) (tm_hook (pr_mgr p'))"
    by (rule hook.path_keeps [OF step_path [OF assms(1,2)]]) simp
  show ?thesis
  proof (cases "\<forall>now. e \<noteq> HookReceive now \<and> e \<noteq> HookDue now")
    case True
    from hook_frame [OF assms(2) True] inv grow show ?thesis by (auto simp: hook_inv_def prefix_def)
  next
    case False
    then consider (recv) now where "e = HookReceive now" | (due) now where "e = HookDue now" by blast
    then show ?thesis
    proof cases
      case recv
      with assms(2) obtain paths rest where d: "drop (pr_hook_seen p) (tm_hook (pr_mgr p)) = paths # rest"
        and p': "p' = on_hook (HookRecv now (Some paths)) (p\<lparr>pr_hook_seen := Suc (pr_hook_seen p)\<rparr>)"
        by (auto simp: hook_receive_def Let_def split: list.splits)
      from d have n: "pr_hook_seen p < length (tm_hook (pr_mgr p))" "tm_hook (pr_mgr p) ! pr_hook_seen p = paths"
        by (metis drop_all linorder_not_le list.distinct(1), metis d hd_drop_conv_nth list.sel(1) drop_all linorder_not_le list.distinct(1))
      with inv show ?thesis by (auto simp: p' on_hook_def hook_inv_def take_Suc_conv_app_nth fold_list_insert)
    next
      case due
      with assms(2) have p': "p' = on_hook (HookTimer now) p" by simp
      from inv show ?thesis by (auto simp: p' on_hook_def hook_inv_def split: option.splits)
    qed
  qed
qed

lemma start_hook:
  assumes "start_process pg b = Some (Inr p)"
  shows "hook_inv p"
proof -
  obtain cdn where l: "start_library pg b = Some (Inr (pr_config p, pr_rd p, cdn, pr_mgr p))"
    and h: "pr_hook p = hook_start" "pr_hook_seen p = 0" "pr_batches p = []"
    by (rule start_processE [OF assms])
  show ?thesis using h by (simp add: hook_inv_def hook_start_def)
qed

lemma start_manager_accounts:
  assumes "start_manager pg b = Some (Inr (cfg, rd, cdn, mgr))"
  shows "client_ok cfg rd"
proof -
  obtain rd0 where "rd_new cfg = Some rd0" "rd = rd0 \<or> (\<exists>pin. rd = rd0\<lparr>rd_ranked_hosts := Some pin\<rparr>)"
    by (rule start_managerE [OF assms])
  with rd_new_ok show ?thesis by auto
qed

lemma start_accounts:
  assumes "start_process pg b = Some (Inr p)"
  shows "proc_accounts p"
proof -
  obtain cdn where l: "start_library pg b = Some (Inr (pr_config p, pr_rd p, cdn, pr_mgr p))" and uc: "rs_uc (pr_sys p) = []"
    by (rule start_processE [OF assms])
  obtain rd where "rd_new (pr_config p) = Some rd" "pr_rd p = rd \<or> (\<exists>pin. pr_rd p = rd\<lparr>rd_ranked_hosts := Some pin\<rparr>)"
    by (rule start_libraryE [OF l])
  with uc rd_new_ok show ?thesis by (auto simp: proc_accounts_def links_owned_def)
qed

lemma reachable_keeps: "reachable pg ce J p \<Longrightarrow> proc_accounts p \<and> hook_inv p"
proof (induction rule: reachable.induct)
  case (step p e p')
  then show ?case by (blast intro: step_accounts step_hook)
qed (blast intro: start_accounts start_hook)+

lemma run_hook_grows: "proc_run pg ce J p p' \<Longrightarrow> prefix (tm_hook (pr_mgr p)) (tm_hook (pr_mgr p'))"
proof (induction rule: proc_run.induct)
  case (run_step p1 e p2)
  show ?case by (rule hook.path_keeps [OF step_path [OF run_step.hyps(2,4)] run_step.IH])
qed simp

lemma heard_or_waiting:
  assumes "hook_inv p" and "path \<in> set (concat (tm_hook (pr_mgr p)))"
  shows "path \<in> set (concat (map snd (pr_batches p))) \<union> set (hk_pending (pr_hook p)) \<union>
    set (concat (drop (pr_hook_seen p) (tm_hook (pr_mgr p))))"
proof -
  have "set (concat (tm_hook (pr_mgr p))) =
      set (concat (take (pr_hook_seen p) (tm_hook (pr_mgr p)))) \<union> set (concat (drop (pr_hook_seen p) (tm_hook (pr_mgr p))))"
    by (metis append_take_drop_id concat_append set_append)
  with assms show ?thesis by (auto simp: hook_inv_def)
qed

section \<open>Turns that end\<close>

text \<open>The steps that wait for nothing but the service: metadata requests, the loops and the link refresh. A
  repair turn needs the loop to run.\<close>

fun client_turn :: "'w process \<Rightarrow> 'w proc_event \<Rightarrow> bool" where
  "client_turn p (Request env req) = is_metadata req"
| "client_turn p (RefreshTurn tm arrive) = True"
| "client_turn p (RepairNotified env) = pr_repairing p"
| "client_turn p (RepairTick env tk) = pr_repairing p"
| "client_turn p (LinkRefresh link) = True"
| "client_turn p (Reload cfg) = True"
| "client_turn p TrafficTurn = True"
| "client_turn p PremiumCheck = True"
| "client_turn p (DownloadsCheck dec) = True"
| "client_turn p _ = False"

lemma metadata_returns: "is_metadata req \<Longrightarrow> \<exists>rep s' w'. fuse_handle env req s w = Some (rep, s', w')"
  by (cases req) (auto simp: on_fs_def split: prod.split)

lemma returned_live: "client_live ce cfg w \<Longrightarrow> net_answers (ce_net ce) \<Longrightarrow> returned w p \<noteq> None"
  by (simp add: returned_def client_live_def)

lemma wake_returns:
  assumes "wake_with (\<lambda>env. \<forall>m w w'. re_cut env m w = Some w' \<longrightarrow> accounts_ok ce (pr_config p) w \<longrightarrow> accounts_ok ce (pr_config p) w') v"
    and "pr_repairing p" and "proc_accounts p" and "net_answers (ce_net ce)"
  shows "repair_wake ce v p \<noteq> None"
proof -
  let ?e = "\<lparr>en_mgr = pr_mgr p, en_passive_head_last = pr_heads p, en_world = world_of p\<rparr>"
  have "accounts_ok ce (pr_config p) (en_world (fst (loop_step (client_api ce) v ?e)))"
    by (rule accounts.loop_step_keeps [OF assms(1)]) (simp add: assms(3))
  then have "client_live ce (pr_config p) (en_world (fst (loop_step (client_api ce) v ?e)))" by (simp add: accounts_ok_def)
  from returned_live [OF this assms(4)] assms(2) show ?thesis by (auto simp: repair_wake_def split: prod.split)
qed

lemma traffic_answers: "net_answers env \<Longrightarrow> traffic_loop env toks rd w \<noteq> None"
proof (induction toks arbitrary: rd w)
  case (Cons tok toks)
  then have "fetch_traffic_details_token env tok rd w \<noteq> None" by (simp add: fetch_traffic_details_token_def net_answers_def del: not_None_eq)
  with Cons.IH [OF Cons.prems] show ?case by (simp split: option.split del: not_None_eq)
qed simp

lemma reload_returns: "apply_reload cfg sv \<noteq> None"
  using all_download_tokens_ne [of cfg] by (simp add: apply_reload_def reload_credentials_def update_tokens_def Let_def)

lemma turn_returns:
  assumes acc: "proc_accounts p" and net: "net_answers (ce_net ce)" and "event_fair ce (pr_config p) e" and "client_turn p e"
  shows "proc_step pg ce e p \<noteq> None"
proof (cases e)
  case (Request env req)
  let ?env = "client_read_env ce (pr_config p) env"
  obtain rep s w where h: "fuse_handle ?env req (pr_sys p) (world_of p) = Some (rep, s, w)"
    using metadata_returns assms(4) Request by fastforce
  have "client_live ce (pr_config p) (world_of p) \<and> links_owned (pr_config p) (rs_uc (pr_sys p))"
    using acc by (simp add: proc_accounts_def client_live_def world_of_def)
  with clients.request_keeps [OF _ h] assms(3) Request have "client_live ce (pr_config p) w" by simp
  from returned_live [OF this net] h Request show ?thesis by simp
next
  case (RefreshTurn tm arrive)
  obtain l mgr w where t: "refresh_fetched tm ce (repair (pr_config p)) arrive (pr_last p, pr_mgr p, world_of p) = (l, mgr, w)"
    by (metis prod.exhaust)
  then have "accounts_ok ce (pr_config p) w" using acc by (auto elim!: refresh_fetchedE intro: accounts.refresh_turn_keeps)
  then have "client_live ce (pr_config p) w" by (simp add: accounts_ok_def)
  from returned_live [OF this net] t RefreshTurn show ?thesis by simp
next
  case (RepairNotified env)
  from wake_returns [OF _ _ acc net, of "WakeNotified (repair (pr_config p)) env"] assms(3,4) show ?thesis
    unfolding RepairNotified by (simp del: not_None_eq)
next
  case (RepairTick env tk)
  from wake_returns [OF _ _ acc net, of "WakeTick (repair (pr_config p)) env tk"] assms(3,4) show ?thesis
    unfolding RepairTick by (simp del: not_None_eq)
next
  case (LinkRefresh link)
  have "unrestrict_link (ce_hash ce) (ce_net ce) link (clear_unrestrict_cache_for_source_link link (rs_uc (pr_sys p))) (pr_rd p) (pr_world p) \<noteq> None"
    by (rule unrestrict_answers [OF net, of "pr_config p"]) (use acc links_owned_clear(2) in \<open>auto simp: proc_accounts_def\<close>)
  then show ?thesis unfolding LinkRefresh by (auto simp: link_refresh_def refresh_cdn_url_def split: sum.split)
next
  case TrafficTurn
  with traffic_answers [OF net] show ?thesis
    by (simp add: traffic_turn_def refresh_traffic_details_snapshot_def Let_def service_of_def del: not_None_eq)
next
  case PremiumCheck
  have "get_user (ce_net ce) (pr_rd p) (pr_world p) \<noteq> None"
    using api_call_answers [OF net] unfolding get_user_def by (metis option.distinct(1))
  with PremiumCheck show ?thesis by (simp add: asked_def del: not_None_eq)
next
  case (DownloadsCheck dec)
  have "get_downloads dec (ce_net ce) 1 1 (pr_rd p) (pr_world p) \<noteq> None"
    using api_call_answers [OF net] unfolding get_downloads_def by (metis option.distinct(1))
  with DownloadsCheck show ?thesis by (simp add: asked_def del: not_None_eq)
qed (use assms(4) reload_returns in \<open>auto simp del: not_None_eq\<close>)

section \<open>A small process\<close>

definition demo_program :: program where
  "demo_program = \<lparr>pg_toml = (\<lambda>_. Some \<lparr>t_token = Some ''t'', t_mount_path = None, t_cache_dir = None, t_download_tokens = None,
       t_command = None, t_repair = None, t_api = None, t_vfs = None\<rparr>),
     pg_codec = \<lparr>cd_encode = (\<lambda>_. []), cd_decode = (\<lambda>_. Some \<lparr>ipv4_latency = [(''h'', 1)], ipv6_latency = [],
       ipv4_addresses = [], ipv6_addresses = []\<rparr>)\<rparr>, pg_zones = utc_lib\<rparr>"

definition demo_boot :: "nat boot" where
  "demo_boot = \<lparr>bo_content = Some [], bo_file = \<lparr>dbf_torrents = Some (db_torrents demo_db), dbf_repair_jobs = None, dbf_app_meta = None\<rparr>,
     bo_tm = demo_tm_env, bo_open_ok = True, bo_db_ok = True, bo_network = \<lparr>nw_list = None, nw_head4 = (\<lambda>_. (False, 0)), nw_head6 = (\<lambda>_. (False, 0)), nw_numbered = (\<lambda>_. None)\<rparr>,
     bo_now = 0, bo_write_ok = (True, True), bo_cdn = \<lparr>results_file = Some [], timestamp_file = Some ''0''\<rparr>, bo_stamp = None,
     bo_cache_ok = True, bo_disk = [], bo_ranges = None, bo_world = 0\<rparr>"

definition demo_refresh :: "nat proc_event" where
  "demo_refresh = RefreshTurn demo_tm_env rev"

lemma demo_db_works: "db_works demo_json demo_tm_env"
  by (simp add: db_works_def demo_tm_env_ok) (simp add: demo_tm_env_def)

lemma demo_events:
  "event_ok demo_json sync (LinkRefresh l)" "event_fair ce cfg (LinkRefresh l)"
  "event_ok demo_json True demo_refresh" "event_fair ce cfg demo_refresh"
  by (simp_all add: demo_refresh_def demo_db_works)

lemma demo_refresh_step:
  "proc_step pg ce demo_refresh p =
     (case refresh_fetched demo_tm_env ce (repair (pr_config p)) rev (pr_last p, pr_mgr p, world_of p) of
        (l, mgr, w) \<Rightarrow> returned w (set_links (cw_uc w) (set_mgr mgr (p\<lparr>pr_last := l\<rparr>))))"
  by (simp add: demo_refresh_def)

lemma demo_life:
  obtains p p1 p2 p3 p4 m where "start_process demo_program demo_boot = Some (Inr p)"
    and "proc_step demo_program demo_ce (LinkRefresh ''l'') p = Some p1"
    and "get_mt (pr_mgr p) ''h/n'' \<noteq> None" and "get_mt (pr_mgr p1) ''h/n'' = Some m" and "mt_state m = Broken" and "rs_uc (pr_sys p1) \<noteq> []"
    and "start_process demo_program (crash_boot p1 demo_boot) = Some (Inr p2)"
    and "proc_step demo_program demo_ce demo_refresh p1 = Some p3" and "get_mt (pr_mgr p3) ''h/n'' = None"
    and "proc_step demo_program demo_ce (HookReceive 0) p3 = Some p4"
proof -
  have life: "case start_process demo_program demo_boot of
      Some (Inr p) \<Rightarrow> get_mt (pr_mgr p) ''h/n'' \<noteq> None \<and>
        (case link_refresh demo_ce ''l'' p of
           Some p1 \<Rightarrow> map_option mt_state (get_mt (pr_mgr p1) ''h/n'') = Some Broken \<and> rs_uc (pr_sys p1) \<noteq> [] \<and>
             (case start_process demo_program (crash_boot p1 demo_boot) of Some (Inr p2) \<Rightarrow> True | _ \<Rightarrow> False) \<and>
             (case refresh_fetched demo_tm_env demo_ce (repair (pr_config p1)) rev (pr_last p1, pr_mgr p1, world_of p1) of
                (l, mgr, w) \<Rightarrow>
                  (case returned w (set_links (cw_uc w) (set_mgr mgr (p1\<lparr>pr_last := l\<rparr>))) of
                     Some p3 \<Rightarrow> get_mt (pr_mgr p3) ''h/n'' = None \<and> hook_receive 0 p3 \<noteq> None
                   | None \<Rightarrow> False))
         | None \<Rightarrow> False)
    | _ \<Rightarrow> False" by code_simp
  then obtain p where p: "start_process demo_program demo_boot = Some (Inr p)" by (cases "start_process demo_program demo_boot") (auto split: sum.splits)
  with life obtain p1 where p1: "link_refresh demo_ce ''l'' p = Some p1" by (cases "link_refresh demo_ce ''l'' p") simp_all
  with life p obtain p2 where p2: "start_process demo_program (crash_boot p1 demo_boot) = Some (Inr p2)"
    by (cases "start_process demo_program (crash_boot p1 demo_boot)") (auto split: sum.splits)
  from life p p1 obtain p3 where p3: "proc_step demo_program demo_ce demo_refresh p1 = Some p3" "get_mt (pr_mgr p3) ''h/n'' = None" "hook_receive 0 p3 \<noteq> None"
    unfolding demo_refresh_step by (auto split: prod.splits option.splits)
  with life p p1 p2 that show thesis by auto
qed

lemma demo_net_answers: "net_answers (ce_net demo_ce)"
  by (simp add: net_answers_def demo_ce_def call_def demo_net_def execute_impl_def exec_step_def active_token_def exec_api_error_def exec_cdn_error_def
      from_code_def from_header_def is_success_def starts_with_def exec_init_def Let_def split: prod.split option.split)

lemma demo_boot_wf: "db_wf (init_schema (bo_file demo_boot))"
  using demo_db_wf by (simp add: demo_boot_def db_wf_def init_schema_def Let_def)

lemma demo_boot_ok: "te_json (bo_tm demo_boot) = demo_json" "bo_db_ok demo_boot" "bo_open_ok demo_boot"
  by (simp_all add: demo_boot_def demo_tm_env_def)

lemma demo_reachable:
  assumes "start_process demo_program demo_boot = Some (Inr p)" and "proc_step demo_program demo_ce (LinkRefresh l) p = Some p1"
  shows "reachable demo_program demo_ce demo_json p1"
proof -
  from reachable.first [OF assms(1) demo_boot_wf demo_boot_ok(1,2)] show ?thesis
    by (rule reachable.step [OF _ demo_events(1,2) assms(2)])
qed

section \<open>Properties\<close>











end
