(* ===== verification/Mount_Life.thy ===== *)
theory Mount_Life
  imports Process
begin

text \<open>
  The rest of \<open>run_fuse_mount\<close> in \<^verbatim>\<open>src/src/main.rs\<close>: between the start of the loops and the first request it
  prepares the mount point, detaches a FUSE mount that a dead process left there, builds the cache and
  the filesystem and mounts it; then it waits for the mount to end or for Ctrl-C. What it asks of the
  operating system is the list of its calls, what it is told is the record \<open>host\<close>.
\<close>

section \<open>Calls\<close>

record mount_options =
  mo_allow_other :: bool
  mo_read_only :: bool
  mo_fs_name :: string
  mo_uid :: nat
  mo_gid :: nat
  mo_no_open_dir_support :: bool

datatype os_call =
    CreateDirAll string
  | Fusermount3 "string list"
  | MountFs mount_options string
  | CancelTasks
  | UnmountFs

record host =
  ho_exists :: bool
  ho_mkdir_ok :: bool
  ho_mountinfo :: "string option"
  ho_uid :: nat
  ho_gid :: nat
  ho_mount_ok :: bool

definition fs_mount_options :: "host \<Rightarrow> mount_options" where
  "fs_mount_options h =
     \<lparr>mo_allow_other = True, mo_read_only = True, mo_fs_name = ''rd-rs'', mo_uid = ho_uid h, mo_gid = ho_gid h,
      mo_no_open_dir_support = True\<rparr>"

text \<open>The mount point: its directory, and a stale mount on it. The result of \<open>fusermount3\<close> is only logged.\<close>

definition prepare_mount :: "host \<Rightarrow> string \<Rightarrow> os_call list \<times> bool" where
  "prepare_mount h path =
     (let mk = (if ho_exists h then [] else [CreateDirAll path])
      in if \<not> ho_exists h \<and> \<not> ho_mkdir_ok h then (mk, False)
         else (mk @ (if is_fuse_mount path (ho_mountinfo h) then [Fusermount3 [''-uz'', path]] else []), True))"

text \<open>The calls until requests are served, with the error that ends the process or the process that serves
  them.\<close>

definition run_fuse_mount :: "program \<Rightarrow> host \<Rightarrow> 'w boot \<Rightarrow> (os_call list \<times> (start_error + 'w process)) option" where
  "run_fuse_mount pg h b =
     (case start_library pg b of
        None \<Rightarrow> None
      | Some (Inl e) \<Rightarrow> Some ([], Inl e)
      | Some (Inr lib) \<Rightarrow>
          let path = mount_path (fst lib)
          in (case prepare_mount h path of
                (calls, False) \<Rightarrow> Some (calls, Inl StartMountPath)
              | (calls, True) \<Rightarrow>
                  (case start_fs b lib of
                     Inl e \<Rightarrow> Some (calls, Inl e)
                   | Inr p \<Rightarrow>
                       Some (calls @ [MountFs (fs_mount_options h) path], if ho_mount_ok h then Inr p else Inl StartMount))))"

text \<open>The end of the process: the mount ends by itself, with or without an error, or Ctrl-C ends it.\<close>

datatype mount_end = MountExited bool | CtrlC bool

fun exit_mount :: "mount_end \<Rightarrow> os_call list" where
  "exit_mount (MountExited _) = []"
| "exit_mount (CtrlC _) = [CancelTasks, UnmountFs]"

section \<open>Properties\<close>

lemma fuse_mount_lineD:
  assumes "fuse_mount_line path line"
  shows "\<exists>pre post. line = pre @ '' - '' @ post \<and> 5 \<le> length (split_whitespace pre) \<and>
    unescape_spaces (split_whitespace pre ! 4) = path \<and> split_whitespace post \<noteq> [] \<and> starts_with (hd (split_whitespace post)) ''fuse''"
proof -
  obtain pre post where s: "split_once '' - '' line = Some (pre, post)" using assms by (auto simp: fuse_mount_line_def split: option.splits)
  have "\<not> starts_with [] ''fuse''" by code_simp
  with assms s have "5 \<le> length (split_whitespace pre) \<and> unescape_spaces (split_whitespace pre ! 4) = path \<and>
      split_whitespace post \<noteq> [] \<and> starts_with (hd (split_whitespace post)) ''fuse''"
    by (auto simp: fuse_mount_line_def Let_def split: list.splits if_splits)
  with split_once_Some [OF s] show ?thesis by blast
qed

lemma prepare_calls:
  assumes "c \<in> set (fst (prepare_mount h path))"
  shows "c = CreateDirAll path \<or> c = Fusermount3 [''-uz'', path] \<and> path \<noteq> [] \<and>
    (\<exists>s line. ho_mountinfo h = Some s \<and> line \<in> set (str_lines s) \<and> fuse_mount_line path line)"
  using assms by (auto simp: prepare_mount_def is_fuse_mount_def list_ex_iff Let_def split: if_splits option.splits)

lemma run_fuse_mountE:
  assumes "run_fuse_mount pg h b = Some (calls, r)"
  obtains (early) e where "start_library pg b = Some (Inl e)" and "calls = []" and "r = Inl e"
  | (prepared) lib where "start_library pg b = Some (Inr lib)" and "calls = fst (prepare_mount h (mount_path (fst lib)))"
      and "\<exists>e. r = Inl e \<and> e \<noteq> StartMount"
  | (mounted) lib p where "start_library pg b = Some (Inr lib)" and "start_fs b lib = Inr p"
      and "calls = fst (prepare_mount h (mount_path (fst lib))) @ [MountFs (fs_mount_options h) (mount_path (fst lib))]"
      and "r = (if ho_mount_ok h then Inr p else Inl StartMount)"
proof (cases "start_library pg b")
  case (Some x)
  show thesis
  proof (cases x)
    case (Inr lib)
    obtain cs ok where pm: "prepare_mount h (mount_path (fst lib)) = (cs, ok)" by fastforce
    have err: "start_fs b lib = Inl e \<Longrightarrow> e \<noteq> StartMount" for e by (auto simp: start_fs_def split: prod.splits option.splits)
    show thesis
    proof (cases "ok \<and> (\<exists>p. start_fs b lib = Inr p)")
      case True
      then obtain p where "ok" "start_fs b lib = Inr p" by blast
      with assms Some Inr pm show thesis by (intro mounted [of lib p]) (auto simp: run_fuse_mount_def Let_def)
    next
      case False
      then consider "\<not> ok" | e where "ok" "start_fs b lib = Inl e" by (cases "start_fs b lib") auto
      then have "calls = cs \<and> (\<exists>e. r = Inl e \<and> e \<noteq> StartMount)"
      proof cases
        case 2
        with assms Some Inr pm have "calls = cs \<and> r = Inl e" by (simp add: run_fuse_mount_def Let_def)
        with err [OF 2(2)] show ?thesis by simp
      qed (use assms Some Inr pm in \<open>auto simp: run_fuse_mount_def Let_def\<close>)
      with Some Inr pm show thesis by (intro prepared [of lib]) auto
    qed
  qed (use assms Some early in \<open>auto simp: run_fuse_mount_def\<close>)
qed (use assms in \<open>simp add: run_fuse_mount_def\<close>)

text \<open>C27: the process detaches nothing but a stale FUSE mount of its own path, and mounts read-only. It runs
  \<open>fusermount3 -uz\<close> only on its mount path, and only when a line of \<open>mountinfo\<close> has that path as its mount point and a
  file system type that begins with \<open>fuse\<close>; every mount is read-only, on the configured path, after everything else was
  set up; and a process that serves requests is one that \<open>start_process\<close> describes.\<close>

theorem only_stale_mounts_are_detached:
  assumes "run_fuse_mount pg h b = Some (calls, r)"
  shows "(\<forall>args. Fusermount3 args \<in> set calls \<longrightarrow>
      (\<exists>cfg s pre post. load (pg_toml pg) (bo_content b) = Inr cfg \<and> args = [''-uz'', mount_path cfg] \<and> mount_path cfg \<noteq> [] \<and>
        ho_mountinfo h = Some s \<and> pre @ '' - '' @ post \<in> set (str_lines s) \<and> 5 \<le> length (split_whitespace pre) \<and>
        unescape_spaces (split_whitespace pre ! 4) = mount_path cfg \<and>
        split_whitespace post \<noteq> [] \<and> starts_with (hd (split_whitespace post)) ''fuse'')) \<and>
    (\<forall>opts path. MountFs opts path \<in> set calls \<longrightarrow> mo_read_only opts \<and> last calls = MountFs opts path \<and>
      (\<exists>p. start_process pg b = Some (Inr p) \<and> path = mount_path (pr_config p))) \<and>
    (\<forall>p. r = Inr p \<longrightarrow> start_process pg b = Some (Inr p) \<and> (\<exists>opts. last calls = MountFs opts (mount_path (pr_config p)) \<and> calls \<noteq> []))"
proof -
  have load: "load (pg_toml pg) (bo_content b) = Inr (fst lib)" if "start_library pg b = Some (Inr lib)" for lib
    using that by (cases lib) (auto elim: start_libraryE)
  have stale: "\<exists>cfg s pre post. load (pg_toml pg) (bo_content b) = Inr cfg \<and> args = [''-uz'', mount_path cfg] \<and> mount_path cfg \<noteq> [] \<and>
        ho_mountinfo h = Some s \<and> pre @ '' - '' @ post \<in> set (str_lines s) \<and> 5 \<le> length (split_whitespace pre) \<and>
        unescape_spaces (split_whitespace pre ! 4) = mount_path cfg \<and>
        split_whitespace post \<noteq> [] \<and> starts_with (hd (split_whitespace post)) ''fuse''"
    if "start_library pg b = Some (Inr lib)" "Fusermount3 args \<in> set (fst (prepare_mount h (mount_path (fst lib))))" for lib args
    using prepare_calls [OF that(2)] load [OF that(1)] fuse_mount_lineD by fastforce
  have none: "MountFs opts path \<notin> set (fst (prepare_mount h q))" for opts path q using prepare_calls by fastforce
  from assms show ?thesis
  proof (cases rule: run_fuse_mountE)
    case (prepared lib)
    with stale none show ?thesis by auto
  next
    case (mounted lib p)
    have p: "start_process pg b = Some (Inr p)" "pr_config p = fst lib"
      using mounted(1,2) by (auto simp: start_process_def start_fs_def split: prod.splits option.splits)
    with mounted stale [OF mounted(1)] none show ?thesis by (auto simp: fs_mount_options_def)
  qed simp
qed

definition demo_host :: host where
  "demo_host = \<lparr>ho_exists = True, ho_mkdir_ok = False, ho_mountinfo = Some ''36 35 98:0 / /mnt/zurg rw - fuse.rd-rs rd-rs rw'', ho_uid = 0, ho_gid = 0,
     ho_mount_ok = True\<rparr>"

theorem only_stale_mounts_are_detached_witness:
  "\<exists>calls p. run_fuse_mount demo_program demo_host demo_boot = Some (calls, Inr p) \<and> Fusermount3 [''-uz'', ''/mnt/zurg''] \<in> set calls \<and>
     start_process demo_program demo_boot = Some (Inr p)"
proof -
  have "case run_fuse_mount demo_program demo_host demo_boot of
      Some (calls, Inr p) \<Rightarrow> list_ex (\<lambda>c. c = Fusermount3 [''-uz'', ''/mnt/zurg'']) calls | _ \<Rightarrow> False" by code_simp
  then obtain calls p where "run_fuse_mount demo_program demo_host demo_boot = Some (calls, Inr p)" "Fusermount3 [''-uz'', ''/mnt/zurg''] \<in> set calls"
    by (cases "run_fuse_mount demo_program demo_host demo_boot") (auto simp: list_ex_iff split: sum.splits prod.splits)
  with only_stale_mounts_are_detached [OF this(1)] show ?thesis by blast
qed

end
