(* ===== verification/Spec2Isabelle.thy ===== *)
theory Spec2Isabelle
  imports Read_Path Read_Cancel Mount_Life
begin

text \<open>
  A model of \<^verbatim>\<open>rd-rs\<close>, a filesystem that shows the torrents of a Real-Debrid account as files, and of what
  makes it correct. Paths below are under \<^verbatim>\<open>src/src\<close>.

  \<^bold>\<open>The program.\<close> The torrent manager keeps the library: it reads the state database at start, compares
  the library with the service's list at each refresh, and writes every change back. FUSE requests are
  answered from the manager's registry; a read goes through a read-ahead window per handle, then the
  chunk cache on disk, whose missing windows are downloaded by parallel workers over links that the
  API client unrestricts with a pool of tokens. Links that fail for good mark the torrent broken and
  queue it; the repair engine then verifies it or re-inserts it on the service, and waiting reads are
  told through a state channel.

  \<^bold>\<open>Theories and sources.\<close>
  \<^item> \<open>Rd_Prelude\<close>, \<open>Rd_Strings\<close>, \<open>Disk\<close>: machine integers, the parts of \<^verbatim>\<open>std\<close> in use, and the locales that
    many components interpret: \<open>invariant_machine\<close>, \<open>guarded_machine\<close> and \<open>keyed_store\<close>.
  \<^item> Cache: \<open>Byte_Ranges\<close> (\<^verbatim>\<open>cache/bitmap.rs\<close>), \<open>Range_Db\<close> (\<^verbatim>\<open>cache/range_db.rs\<close>), \<open>Cache_Item\<close> (\<^verbatim>\<open>cache/item.rs\<close>),
    \<open>Cache_Store\<close> (\<^verbatim>\<open>cache/cache.rs\<close>, \<^verbatim>\<open>cache/eviction.rs\<close>), \<open>Download_Session\<close> (\<^verbatim>\<open>cache/download_session.rs\<close>,
    \<^verbatim>\<open>cache/item_read_at.rs\<close>), \<open>Worker\<close> (\<^verbatim>\<open>cache/worker.rs\<close>), \<open>Link_Heal\<close> (\<^verbatim>\<open>cache/link_heal.rs\<close>),
    and \<open>Read_Pipeline\<close>: readers, sessions, spawned tasks and workers of one item put together.
  \<^item> Configuration: \<open>Config\<close> (\<^verbatim>\<open>config\<close>).
  \<^item> Real-Debrid client: \<open>Rd_Errors\<close>, \<open>Rd_Exec\<close> (\<^verbatim>\<open>rd/client\<close>), \<open>Token_Pool\<close> (\<^verbatim>\<open>rd/token_pool.rs\<close>), \<open>Rd_Types\<close>
    (\<^verbatim>\<open>rd/types.rs\<close>), \<open>Rd_Api\<close> (\<^verbatim>\<open>rd/mod.rs\<close>, \<^verbatim>\<open>rd/api\<close>, \<^verbatim>\<open>rd/traffic_snapshot.rs\<close>), \<open>Cdn\<close> (\<^verbatim>\<open>rd/cdn\<close>),
    \<open>Account_Watch\<close> (time stamps of \<^verbatim>\<open>rd/types.rs\<close>, the check loops of \<^verbatim>\<open>torrent/refresh/loops.rs\<close>), and \<open>Rd_Client\<close>:
    these calls on one client, as the service that the library, the filesystem and the repair engine call.
  \<^item> Library: \<open>State_Db\<close> (\<^verbatim>\<open>db\<close>), \<open>Torrent_Types\<close>, \<open>Torrent_Manager\<close> (\<^verbatim>\<open>torrent/mod.rs\<close>, \<^verbatim>\<open>torrent/state_ops.rs\<close>,
    \<^verbatim>\<open>torrent/repair_enqueue.rs\<close>, \<^verbatim>\<open>torrent/fuse_read_coalesce.rs\<close>), \<open>Refresh\<close> (\<^verbatim>\<open>torrent/refresh\<close>),
    \<open>Library_Fetch\<close> (a turn of the refresh loop with its probe and the pages of the list, over the client).
  \<^item> Filesystem: \<open>Vfs_Read_Buffer\<close> (\<^verbatim>\<open>fuse/vfs_read_buffer.rs\<close>), \<open>Fuse_Fs\<close> (directories, inodes, handles),
    \<open>Fuse_Read\<close> (\<^verbatim>\<open>fuse/read.rs\<close>, over any \<open>read_at\<close> that keeps the locale \<open>file_reader\<close>), \<open>Read_Path\<close> (that read
    over the pipeline of the chunk cache), \<open>Fuse_Dispatch\<close> (\<^verbatim>\<open>impl Filesystem\<close> of \<^verbatim>\<open>fuse/fs.rs\<close>), \<open>Read_Cancel\<close>
    (\<^verbatim>\<open>fuse/read_cancel_bridge.rs\<close> over sequences of events), \<open>Request_Frame\<close> (the locale \<open>request_invariant\<close>: what
    every call of a request keeps, the request keeps).
  \<^item> Repair: \<open>Repair_Preflight\<close> (\<^verbatim>\<open>repair/capacity.rs\<close>, \<^verbatim>\<open>repair/preflight.rs\<close>), \<open>Repair_Cascade\<close>
    (\<^verbatim>\<open>repair/strategies.rs\<close>, \<^verbatim>\<open>repair/ephemeral_torrent.rs\<close>), \<open>Repair_Engine\<close> (\<^verbatim>\<open>repair/engine\<close>); the signals of
    \<^verbatim>\<open>repair/detect.rs\<close> and \<^verbatim>\<open>repair/reasons.rs\<close> are in \<open>Torrent_Types\<close>. \<open>Service_Frame\<close> is the locale
    \<open>service_invariant\<close>: what every call of the service keeps, repairs and refreshes keep.
  \<^item> Process: \<open>Service\<close> (\<^verbatim>\<open>torrent/hook.rs\<close>, \<^verbatim>\<open>rd/bandwidth_reset.rs\<close>, the turns of the loops of
    \<^verbatim>\<open>main.rs\<close>), \<open>Library_Path\<close> (what every task does to the library, as a path of manager operations), \<open>Process\<close>
    (\<^verbatim>\<open>run_fuse_mount\<close> and \<^verbatim>\<open>run_repair_cli\<close>: the start, and every task as a step over one state and one client),
    \<open>Mount_Life\<close> (the mount point, the mount and the end of the process).

  \<^bold>\<open>How code becomes definitions.\<close> A struct is a record and an enum a datatype with the source's
  constructors. A method takes the state and returns it; a \<open>Result\<close> is a sum, a panic or a missing
  value \<open>None\<close>. Concurrent parts (workers, readers, sessions, the hook, the repair loop) are step
  functions over events, and a run is a list of events in any order the code allows. Calls that leave
  the program are arguments: the service is a record of functions over a world (\<open>rd_api\<close>) or the list
  of its answers, the disk and the database are values with a flag for what fails, clocks are numbers.
  Libraries that are not under \<^verbatim>\<open>src\<close> (serde, TOML, URL parsing, chrono, tokio's watch channel) are
  parameters with named laws, such as \<open>json_law\<close>, \<open>watch_law\<close> and \<open>tz_regular\<close>; each theorem that uses
  one has a witness with a concrete function.

  \<^bold>\<open>What is shown.\<close>
  \<^item> Cache: the interval list refines a set of bytes; what an item serves from disk is what the server
    has, through restarts, failed writes and any interleaving; the downloader covers its window, never
    claims a byte twice, and makes a bounded number of moves. In the pipeline of an item a read that returns
    bytes returns the remote ones, one that fails has a cause, a session that ended well answers its
    readers, and every value fits its machine type.
  \<^item> Client: retries end under stated answers, an exhausted token is not used while another is not, a
    link is returned only under an eligible token, paging is complete in any order of arrival, and a
    healed link leaves no stale one in the cache. A bandwidth limit that a verification meets is taken for
    a dead link.
  \<^item> Library: rows mirror the registry through every operation, so a restart restores it; a refresh
    converges to the list and deletes only what is dead; a turn of the loop makes the library that of the
    service, whatever the order in which the pages arrive.
  \<^item> Filesystem: a read, down to the workers, returns the remote bytes or an error, within a bounded number
    of requests; no other request changes the caches or the library; a read is cancelled by its own
    interrupt or release only; inode numbers keep their torrent; directory pages join without gaps.
  \<^item> Repair: no added magnet is left behind, account limits defer, a repair settles its torrent and no
    other, scans are spaced, and the mirror is kept by the whole loop.
  \<^item> Process: in every state that requests, refreshes, repairs, reloads, maintenance and crashes lead to, the
    database mirrors the library, so that a restart loses no torrent; only a refresh removes one. The client
    has the tokens of the configuration and caches no link of another token; what a refresh changed is
    announced to the hook command; a turn returns when the service answers. A process detaches only a stale FUSE mount
    of its own path. The repair command returns and keeps the library.

  \<^bold>\<open>Bounds and fuel.\<close> Loops with a structural bound are \<open>fun\<close>: three polls of a magnet, eleven polls for
  capacity (3960 s of sleep), the retries of a chunk, the attempts of a read (eight unrestrict requests
  in all). Loops that the answers may keep running, \<open>execute_impl\<close> and \<open>unrestrict_loop\<close>, read the list
  of answers or are partial functions, and their return is a theorem of its own.

  \<^bold>\<open>Not modelled.\<close> Serialisation, HTTP, TLS, SQLite and the kernel interface, which are libraries; the vendored
  \<^verbatim>\<open>fuse3\<close>; argument parsing and logging; \<^verbatim>\<open>is_stalled_download\<close> of \<^verbatim>\<open>repair/detect.rs\<close>, which nothing calls. What the
  process asks of the operating system is the list of its calls. Floating point latencies are rationals. Strings are bytes, with case and space of the ASCII range. An operation of the manager and a
  database call run without other tasks between their steps; a repair and a refresh are written as one
  sequence of operations, and the invariants of the library hold after any sequence of operations
  (\<open>lib_path\<close>), so also for interleaved ones. Between readers, workers and sessions of an item every
  interleaving is covered; while a read waits, other items stay as they are.
\<close>

section \<open>Properties that span components\<close>



end
